(* ===== verification/Plan_Dag.thy ===== *)
theory Plan_Dag
  imports Prelude
begin

text \<open>
  The plan of a task as a dependency graph (\<^verbatim>\<open>app/graph/nodes.py\<close>, lines 119--227):
  normalising the planner's output into steps, Kahn layering into batches, and the three-level
  fallback that always yields a runnable sequence of batches.

  The source keeps batches as lists of references to the step dictionaries of the plan; the
  model keeps them as lists of positions in the plan, which is what those references identify.
\<close>

section \<open>Plan steps\<close>

datatype step_status = Pending | StepDone | StepFailed | Skipped

text \<open>
  A plan step dictionary. \<open>ps_deps = None\<close> is an absent \<open>deps\<close> key (linear chain),
  \<open>Some v\<close> a present one holding an arbitrary JSON value; \<open>ps_id = None\<close> is an absent
  \<open>id\<close> key, which only old checkpoints have.
\<close>

record plan_step =
  ps_id :: "pystr option"
  ps_description :: pystr
  ps_status :: step_status
  ps_result :: pystr
  ps_deps :: "json option"

datatype plan_error = StepsNotIterable

definition auto_id :: "nat \<Rightarrow> pystr" where
  "auto_id k = ascii ''s'' @ nat_str k"

section \<open>Parsing the planner's output\<close>

text \<open>
  What \<open>for item in raw or []\<close> iterates over: a falsy value gives nothing, a dictionary its
  keys, a string its characters, and a true scalar raises \<open>TypeError\<close>.
\<close>

definition iter_json :: "json option \<Rightarrow> plan_error + json list" where
  "iter_json raw =
     (case raw of
        None \<Rightarrow> Inr []
      | Some v \<Rightarrow>
          (if \<not> truthy v then Inr []
           else case v of
                  JArr xs \<Rightarrow> Inr xs
                | JObj kvs \<Rightarrow> Inr (map (\<lambda>kv. JStr (fst kv)) kvs)
                | JStr s \<Rightarrow> Inr (map (\<lambda>c. JStr [c]) s)
                | _ \<Rightarrow> Inl StepsNotIterable))"

definition step_of_item :: "nat \<Rightarrow> json \<Rightarrow> plan_step option" where
  "step_of_item n item =
     (case item of
        JObj kvs \<Rightarrow>
          (let desc = str_strip (case dict_get kvs (ascii ''description'') of
                                   None \<Rightarrow> [] | Some v \<Rightarrow> py_str v)
           in if desc = [] then None
              else Some \<lparr>
                ps_id = Some (case dict_get kvs (ascii ''id'') of
                                Some v \<Rightarrow> if truthy v then py_str v else auto_id (n + 1)
                              | None \<Rightarrow> auto_id (n + 1)),
                ps_description = desc, ps_status = Pending, ps_result = [],
                ps_deps = (case dict_get kvs (ascii ''deps'') of
                             Some (JArr ds) \<Rightarrow> Some (JArr (map (\<lambda>d. JStr (py_str d)) ds))
                           | _ \<Rightarrow> None)\<rparr>)
      | _ \<Rightarrow>
          (let desc = str_strip (py_str item)
           in if desc = [] then None
              else Some \<lparr>ps_id = Some (auto_id (n + 1)), ps_description = desc,
                         ps_status = Pending, ps_result = [], ps_deps = None\<rparr>))"

fun collect_steps :: "plan_step list \<Rightarrow> json list \<Rightarrow> plan_step list" where
  "collect_steps steps [] = steps"
| "collect_steps steps (item # items) =
     (case step_of_item (length steps) item of
        None \<Rightarrow> collect_steps steps items
      | Some st \<Rightarrow> collect_steps (steps @ [st]) items)"

definition parse_plan_steps :: "json option \<Rightarrow> plan_error + plan_step list" where
  "parse_plan_steps raw =
     (case iter_json raw of Inl e \<Rightarrow> Inl e | Inr items \<Rightarrow> Inr (collect_steps [] items))"

definition status_str :: "step_status \<Rightarrow> pystr" where
  "status_str s = (case s of Pending \<Rightarrow> ascii ''pending'' | StepDone \<Rightarrow> ascii ''done''
                   | StepFailed \<Rightarrow> ascii ''failed'' | Skipped \<Rightarrow> ascii ''skipped'')"

text \<open>\<open>_plan_text\<close>: the numbered rendering of the plan that goes into the prompt.\<close>

definition plan_text :: "plan_step list \<Rightarrow> pystr" where
  "plan_text plan =
     str_join [10] (map (\<lambda>(i, p). nat_str (i + 1) @ ascii ''. ['' @ status_str (ps_status p)
                          @ ascii ''] '' @ ps_description p) (enumerate 0 plan))"

section \<open>Kahn layering\<close>

definition step_key :: "nat \<Rightarrow> plan_step \<Rightarrow> pystr" where
  "step_key i p = (case ps_id p of Some s \<Rightarrow> s | None \<Rightarrow> auto_id (i + 1))"

text \<open>The first loop of \<open>_plan_layers\<close>: the table from ids to positions, or \<open>None\<close> on a duplicate.\<close>

fun build_ids :: "nat \<Rightarrow> nat dict \<Rightarrow> plan_step list \<Rightarrow> nat dict option" where
  "build_ids i ids [] = Some ids"
| "build_ids i ids (p # ps) =
     (if dict_get ids (step_key i p) \<noteq> None then None
      else build_ids (Suc i) (dict_set (step_key i p) i ids) ps)"

text \<open>A \<open>deps\<close> value is usable when it is a list of strings.\<close>

fun str_list :: "json list \<Rightarrow> pystr list option" where
  "str_list [] = Some []"
| "str_list (JStr s # vs) = map_option ((#) s) (str_list vs)"
| "str_list (_ # vs) = None"

definition dep_refs :: "json \<Rightarrow> pystr list option" where
  "dep_refs v = (case v of JArr vs \<Rightarrow> str_list vs | _ \<Rightarrow> None)"

fun resolve_refs :: "nat dict \<Rightarrow> pystr list \<Rightarrow> nat list option" where
  "resolve_refs ids [] = Some []"
| "resolve_refs ids (r # rs) =
     (case dict_get ids r of
        None \<Rightarrow> None
      | Some j \<Rightarrow> map_option ((#) j) (resolve_refs ids rs))"

text \<open>The dependencies of the step at position \<open>i\<close>, as positions.\<close>

definition step_deps :: "nat dict \<Rightarrow> nat \<Rightarrow> plan_step \<Rightarrow> nat list option" where
  "step_deps ids i p =
     (case ps_deps p of
        Some v \<Rightarrow>
          (case dep_refs v of
             None \<Rightarrow> None
           | Some refs \<Rightarrow>
               (case resolve_refs ids refs of
                  None \<Rightarrow> None
                | Some ds \<Rightarrow> if i \<in> set ds then None else Some ds))
      | None \<Rightarrow> Some (if 0 < i then [i - 1] else []))"

fun build_deps :: "nat dict \<Rightarrow> nat \<Rightarrow> plan_step list \<Rightarrow> nat list list option" where
  "build_deps ids i [] = Some []"
| "build_deps ids i (p # ps) =
     (case step_deps ids i p of
        None \<Rightarrow> None
      | Some ds \<Rightarrow> map_option ((#) ds) (build_deps ids (Suc i) ps))"

definition ready_steps :: "nat list list \<Rightarrow> nat list \<Rightarrow> nat list" where
  "ready_steps deps fin =
     filter (\<lambda>i. i \<notin> set fin \<and> set (deps ! i) \<subseteq> set fin) [0..<length deps]"

text \<open>The \<open>while len(done) < n\<close> loop; \<open>fin\<close> is the set \<open>done\<close>.\<close>

function kahn :: "nat list list \<Rightarrow> nat list \<Rightarrow> nat list list option" where
  "kahn deps fin =
     (if length fin < length deps then
        (let r = ready_steps deps fin in
         if r = [] then None else map_option ((#) r) (kahn deps (fin @ r)))
      else Some [])"
  by pat_completeness auto
termination
  by (relation "measure (\<lambda>(deps, fin). length deps - length fin)") (auto intro!: diff_less_mono2)

declare kahn.simps [simp del]

definition plan_layers :: "plan_step list \<Rightarrow> nat list list option" where
  "plan_layers plan =
     (case build_ids 0 [] plan of
        None \<Rightarrow> None
      | Some ids \<Rightarrow>
          (case build_deps ids 0 plan of
             None \<Rightarrow> None
           | Some deps \<Rightarrow> kahn deps []))"

definition linearize_plan :: "plan_step list \<Rightarrow> plan_step list" where
  "linearize_plan plan = map (\<lambda>p. p\<lparr>ps_deps := None\<rparr>) plan"

definition safe_layers :: "plan_step list \<Rightarrow> nat list list" where
  "safe_layers plan =
     (case plan_layers plan of
        Some ls \<Rightarrow> ls
      | None \<Rightarrow>
          (case plan_layers (linearize_plan plan) of
             Some ls \<Rightarrow> ls
           | None \<Rightarrow> map (\<lambda>i. [i]) [0..<length plan]))"

section \<open>The layering loop\<close>

lemma ready_stepsD:
  "i \<in> set (ready_steps deps fin) \<Longrightarrow>
     i < length deps \<and> i \<notin> set fin \<and> set (deps ! i) \<subseteq> set fin"
  by (auto simp: ready_steps_def)

lemma ready_stepsI:
  "\<lbrakk>i < length deps; i \<notin> set fin; set (deps ! i) \<subseteq> set fin\<rbrakk> \<Longrightarrow> i \<in> set (ready_steps deps fin)"
  by (auto simp: ready_steps_def)

lemma distinct_ready_steps [simp]: "distinct (ready_steps deps fin)"
  by (simp add: ready_steps_def)

lemma sorted_ready_steps [simp]: "sorted (ready_steps deps fin)"
  unfolding ready_steps_def by (rule sorted_filter [where f = id, simplified]) simp

text \<open>Unfolding the loop once, when it returns layers.\<close>

lemma kahn_SomeE:
  assumes "kahn deps fin = Some ls"
  obtains (finished) "length deps \<le> length fin" and "ls = []"
  | (layer) ls' where "length fin < length deps" and "ready_steps deps fin \<noteq> []"
      and "kahn deps (fin @ ready_steps deps fin) = Some ls'" and "ls = ready_steps deps fin # ls'"
  using assms by (subst (asm) kahn.simps) (auto simp: Let_def split: if_splits)

lemma kahn_fin_extend:
  "\<lbrakk>distinct fin; set fin \<subseteq> {..<length deps}\<rbrakk> \<Longrightarrow>
     distinct (fin @ ready_steps deps fin) \<and> set (fin @ ready_steps deps fin) \<subseteq> {..<length deps}"
  by (auto dest: ready_stepsD)

lemma kahn_partition:
  "\<lbrakk>kahn deps fin = Some ls; distinct fin; set fin \<subseteq> {..<length deps}\<rbrakk> \<Longrightarrow>
     distinct (fin @ concat ls) \<and> set (fin @ concat ls) = {..<length deps}"
proof (induction deps fin arbitrary: ls rule: kahn.induct)
  case (1 deps fin)
  from "1.prems"(1) show ?case
  proof (cases rule: kahn_SomeE)
    case finished
    have "card (set fin) = length fin"
      using "1.prems"(2) by (rule distinct_card)
    then have "set fin = {..<length deps}"
      using finished(1) "1.prems"(3) by (intro card_seteq) auto
    with finished "1.prems"(2) show ?thesis by simp
  next
    case (layer ls')
    note ext = kahn_fin_extend [OF "1.prems"(2,3)]
    have "distinct ((fin @ ready_steps deps fin) @ concat ls')
        \<and> set ((fin @ ready_steps deps fin) @ concat ls') = {..<length deps}"
      by (rule "1.IH") (use layer ext in simp_all)
    with layer(4) show ?thesis by simp
  qed
qed

text \<open>Every dependency of a step lies in an earlier layer.\<close>

lemma kahn_order:
  "\<lbrakk>kahn deps fin = Some ls; k < length ls; i \<in> set (ls ! k)\<rbrakk> \<Longrightarrow>
     set (deps ! i) \<subseteq> set fin \<union> set (concat (take k ls))"
proof (induction deps fin arbitrary: ls k rule: kahn.induct)
  case (1 deps fin)
  from "1.prems"(1) show ?case
  proof (cases rule: kahn_SomeE)
    case finished
    with "1.prems" show ?thesis by simp
  next
    case (layer ls')
    show ?thesis
    proof (cases k)
      case 0
      with layer "1.prems" show ?thesis by (auto dest: ready_stepsD)
    next
      case (Suc k')
      have "set (deps ! i) \<subseteq> set (fin @ ready_steps deps fin) \<union> set (concat (take k' ls'))"
        by (rule "1.IH") (use layer Suc "1.prems" in simp_all)
      with layer(4) Suc show ?thesis by auto
    qed
  qed
qed

lemma kahn_in_later:
  "\<lbrakk>kahn deps fin = Some ls; k < length ls; i \<in> set (ls ! k)\<rbrakk> \<Longrightarrow> i \<notin> set fin \<and> i < length deps"
proof (induction deps fin arbitrary: ls k rule: kahn.induct)
  case (1 deps fin)
  from "1.prems"(1) show ?case
  proof (cases rule: kahn_SomeE)
    case finished
    with "1.prems" show ?thesis by simp
  next
    case (layer ls')
    show ?thesis
    proof (cases k)
      case 0
      with layer "1.prems" show ?thesis by (auto dest: ready_stepsD)
    next
      case (Suc k')
      have "i \<notin> set (fin @ ready_steps deps fin) \<and> i < length deps"
        by (rule "1.IH") (use layer Suc "1.prems" in simp_all)
      then show ?thesis by simp
    qed
  qed
qed

text \<open>A step whose dependencies are all available is never held back.\<close>

lemma kahn_greedy:
  "\<lbrakk>kahn deps fin = Some ls; k < length ls; i \<in> set (ls ! k); j < k\<rbrakk> \<Longrightarrow>
     \<not> set (deps ! i) \<subseteq> set fin \<union> set (concat (take j ls))"
proof (induction deps fin arbitrary: ls k j rule: kahn.induct)
  case (1 deps fin)
  from "1.prems"(1) show ?case
  proof (cases rule: kahn_SomeE)
    case finished
    with "1.prems" show ?thesis by simp
  next
    case (layer ls')
    obtain k' where k: "k = Suc k'" using "1.prems"(4) by (cases k) auto
    have i: "i \<in> set (ls' ! k')" and k': "k' < length ls'"
      using "1.prems" layer(4) k by auto
    show ?thesis
    proof (cases j)
      case 0
      have "i \<notin> set fin" "i < length deps" "i \<notin> set (ready_steps deps fin)"
        using kahn_in_later [OF layer(3) k' i] by auto
      then show ?thesis using 0 ready_stepsI [of i deps fin] by auto
    next
      case (Suc j')
      have "\<not> set (deps ! i) \<subseteq> set (fin @ ready_steps deps fin) \<union> set (concat (take j' ls'))"
        by (rule "1.IH") (use layer Suc "1.prems" k i k' in simp_all)
      with layer(4) Suc show ?thesis by auto
    qed
  qed
qed

text \<open>The loop stops without a result only when some dependency cycle blocks every remaining step.\<close>

definition ranked :: "nat list list \<Rightarrow> (nat \<Rightarrow> nat) \<Rightarrow> bool" where
  "ranked deps r \<longleftrightarrow> (\<forall>i < length deps. \<forall>d \<in> set (deps ! i). r d < r i)"

definition closed_deps :: "nat list list \<Rightarrow> bool" where
  "closed_deps deps \<longleftrightarrow> (\<forall>i < length deps. set (deps ! i) \<subseteq> {..<length deps})"

lemma ready_exists:
  assumes "ranked deps r" and "closed_deps deps" and "j < length deps" and "j \<notin> set fin"
  shows "ready_steps deps fin \<noteq> []"
proof -
  let ?U = "{i. i < length deps \<and> i \<notin> set fin}"
  have "j \<in> ?U" using assms(3,4) by simp
  then obtain i where i: "i \<in> ?U" and least: "\<And>d. d \<in> ?U \<Longrightarrow> r i \<le> r d"
    using ex_has_least_nat [of "\<lambda>i. i \<in> ?U" j r] by blast
  have "set (deps ! i) \<subseteq> set fin"
  proof
    fix d assume d: "d \<in> set (deps ! i)"
    have "r d < r i" and "d < length deps"
      using assms(1,2) d i by (auto simp: ranked_def closed_deps_def)
    with least [of d] show "d \<in> set fin" by auto
  qed
  with i have "i \<in> set (ready_steps deps fin)" by (auto intro: ready_stepsI)
  then show ?thesis by auto
qed

lemma kahn_complete:
  assumes "ranked deps r" and "closed_deps deps"
  shows "\<lbrakk>distinct fin; set fin \<subseteq> {..<length deps}\<rbrakk> \<Longrightarrow> \<exists>ls. kahn deps fin = Some ls"
  using assms
proof (induction deps fin rule: kahn.induct)
  case (1 deps fin)
  show ?case
  proof (cases "length fin < length deps")
    case False
    then show ?thesis by (subst kahn.simps) simp
  next
    case True
    have "card (set fin) < card {..<length deps}"
      using True "1.prems"(1) by (simp add: distinct_card)
    then obtain j where "j < length deps" "j \<notin> set fin"
      by (metis card_mono finite_lessThan finite_set lessThan_iff linorder_not_less subsetI)
    then have r: "ready_steps deps fin \<noteq> []"
      using ready_exists "1.prems"(3,4) by blast
    have "\<exists>ls. kahn deps (fin @ ready_steps deps fin) = Some ls"
      by (rule "1.IH") (use True r "1.prems" kahn_fin_extend in auto)
    with True r show ?thesis by (subst kahn.simps) auto
  qed
qed

text \<open>The position of a step's layer, and the ranking it gives.\<close>

definition layer_of :: "nat list list \<Rightarrow> nat \<Rightarrow> nat" where
  "layer_of ls i = length (takeWhile (\<lambda>l. i \<notin> set l) ls)"

lemma layer_of_less: "i \<in> set (concat ls) \<Longrightarrow> layer_of ls i < length ls"
  by (induction ls) (auto simp: layer_of_def)

lemma layer_of_in: "i \<in> set (concat ls) \<Longrightarrow> i \<in> set (ls ! layer_of ls i)"
  by (induction ls) (auto simp: layer_of_def)

lemma layer_of_take: "i \<in> set (concat (take k ls)) \<Longrightarrow> layer_of ls i < k"
proof (induction ls arbitrary: k)
  case Nil
  then show ?case by simp
next
  case (Cons l ls)
  then show ?case by (cases k) (auto simp: layer_of_def)
qed

lemma layer_of_eqI: "\<lbrakk>distinct (concat ls); k < length ls; i \<in> set (ls ! k)\<rbrakk> \<Longrightarrow> layer_of ls i = k"
proof (induction ls arbitrary: k)
  case Nil
  then show ?case by simp
next
  case (Cons l ls)
  show ?case
  proof (cases k)
    case 0
    with Cons.prems show ?thesis by (simp add: layer_of_def)
  next
    case (Suc k')
    then have "i \<in> set (ls ! k')" and "ls ! k' \<in> set ls" using Cons.prems by auto
    then have "i \<notin> set l" using Cons.prems(1) by auto
    with Suc Cons show ?thesis by (simp add: layer_of_def)
  qed
qed

lemma kahn_ranked:
  assumes "kahn deps [] = Some ls"
  shows "ranked deps (layer_of ls)"
  unfolding ranked_def
proof (intro allI impI ballI)
  fix i d assume i: "i < length deps" and d: "d \<in> set (deps ! i)"
  have "set (concat ls) = {..<length deps}" using kahn_partition [OF assms] by simp
  with i have "i \<in> set (concat ls)" by simp
  then have "set (deps ! i) \<subseteq> set (concat (take (layer_of ls i) ls))"
    using kahn_order [OF assms layer_of_less layer_of_in] by simp
  with d have "d \<in> set (concat (take (layer_of ls i) ls))" by blast
  then show "layer_of ls d < layer_of ls i" by (rule layer_of_take)
qed

text \<open>Among all admissible rankings the layering is the lowest: no plan can finish in fewer batches.\<close>

lemma kahn_earliest:
  assumes k: "kahn deps [] = Some ls" and r: "ranked deps r"
  shows "i < length deps \<Longrightarrow> layer_of ls i \<le> r i"
proof (induction "r i" arbitrary: i rule: less_induct)
  case less
  have all: "set (concat ls) = {..<length deps}" using kahn_partition [OF k] by simp
  with less.prems have i: "i \<in> set (concat ls)" by simp
  show ?case
  proof (cases "layer_of ls i")
    case 0
    then show ?thesis by simp
  next
    case (Suc m)
    have "\<not> set (deps ! i) \<subseteq> set (concat (take m ls))"
      using kahn_greedy [OF k layer_of_less [OF i] layer_of_in [OF i], of m] Suc by simp
    then obtain d where d: "d \<in> set (deps ! i)" "d \<notin> set (concat (take m ls))" by auto
    have "d \<in> set (concat (take (Suc m) ls))"
      using kahn_order [OF k layer_of_less [OF i] layer_of_in [OF i]] d(1) Suc by auto
    then have dn: "d < length deps" using all by (auto dest: in_set_takeD)
    have "m \<le> layer_of ls d"
    proof (rule ccontr)
      assume "\<not> m \<le> layer_of ls d"
      then have "layer_of ls d < m" by simp
      moreover have "d \<in> set (ls ! layer_of ls d)" and "layer_of ls d < length ls"
        using all dn by (auto intro: layer_of_in layer_of_less)
      ultimately have "d \<in> set (concat (take m ls))"
        by (metis UN_I in_set_conv_nth length_take min_less_iff_conj nth_take set_concat)
      with d(2) show False by simp
    qed
    moreover have "r d < r i" using r d(1) less.prems by (auto simp: ranked_def)
    then have "layer_of ls d \<le> r d" using less.hyps dn by blast
    ultimately show ?thesis using \<open>r d < r i\<close> Suc by simp
  qed
qed

section \<open>The plan as a graph\<close>

text \<open>
  The specification side: the key of each step, the dependency relation the plan declares, and
  when its references are meaningful. Nothing of this mentions the layering algorithm.
\<close>

definition plan_keys :: "plan_step list \<Rightarrow> pystr list" where
  "plan_keys plan = map (\<lambda>i. step_key i (plan ! i)) [0..<length plan]"

definition refs_ok :: "plan_step list \<Rightarrow> bool" where
  "refs_ok plan \<longleftrightarrow>
     (\<forall>i < length plan. \<forall>v. ps_deps (plan ! i) = Some v \<longrightarrow>
        (\<exists>refs. dep_refs v = Some refs \<and> set refs \<subseteq> set (plan_keys plan)))"

definition depends_on :: "plan_step list \<Rightarrow> nat \<Rightarrow> nat \<Rightarrow> bool" where
  "depends_on plan i j \<longleftrightarrow>
     i < length plan \<and> j < length plan \<and>
     (case ps_deps (plan ! i) of
        None \<Rightarrow> i = Suc j
      | Some v \<Rightarrow> (\<exists>refs. dep_refs v = Some refs \<and> plan_keys plan ! j \<in> set refs))"

lemma length_plan_keys [simp]: "length (plan_keys plan) = length plan"
  by (simp add: plan_keys_def)

lemma dict_set_fresh: "k \<notin> fst ` set d \<Longrightarrow> dict_set k v d = d @ [(k, v)]"
  unfolding dict_set_def by (induction d) auto

lemma dict_get_None_iff: "dict_get d k = None \<longleftrightarrow> k \<notin> fst ` set d"
  by (simp add: dict_get_def map_of_eq_None_iff)

text \<open>The id loop succeeds exactly when the keys are distinct, and then tabulates them.\<close>

lemma build_ids_gen:
  "build_ids i ids ps =
     (let ks = map (\<lambda>j. step_key (i + j) (ps ! j)) [0..<length ps]
      in if distinct ks \<and> fst ` set ids \<inter> set ks = {}
         then Some (ids @ zip ks [i..<i + length ps]) else None)"
proof (induction i ids ps rule: build_ids.induct)
  case (1 i ids)
  then show ?case by simp
next
  case (2 i ids p ps)
  let ?k = "step_key i p"
  let ?ks = "map (\<lambda>j. step_key (Suc i + j) (ps ! j)) [0..<length ps]"
  have ks: "map (\<lambda>j. step_key (i + j) ((p # ps) ! j)) [0..<length (p # ps)] = ?k # ?ks"
    by (simp add: upt_conv_Cons map_Suc_upt [symmetric] comp_def del: upt_Suc)
  have up: "[i..<i + length (p # ps)] = i # [Suc i..<Suc i + length ps]"
    by (simp add: upt_conv_Cons del: upt_Suc)
  show ?case
  proof (cases "?k \<in> fst ` set ids")
    case True
    then show ?thesis unfolding ks Let_def by (auto simp: dict_get_None_iff)
  next
    case False
    then have "build_ids i ids (p # ps) = build_ids (Suc i) (ids @ [(?k, i)]) ps"
      by (simp add: dict_get_None_iff dict_set_fresh)
    moreover have "build_ids (Suc i) (ids @ [(?k, i)]) ps =
        (if distinct ?ks \<and> fst ` set (ids @ [(?k, i)]) \<inter> set ?ks = {}
         then Some ((ids @ [(?k, i)]) @ zip ?ks [Suc i..<Suc i + length ps]) else None)"
      using "2.IH" False by (simp add: dict_get_None_iff dict_set_fresh Let_def)
    ultimately show ?thesis using False unfolding ks up Let_def by auto
  qed
qed

lemma build_ids_plan:
  "build_ids 0 [] plan =
     (if distinct (plan_keys plan) then Some (zip (plan_keys plan) [0..<length plan]) else None)"
  by (simp add: build_ids_gen Let_def plan_keys_def)

lemma dict_get_zip_upt:
  "distinct ks \<Longrightarrow> dict_get (zip ks [0..<length ks]) r = Some j \<longleftrightarrow> j < length ks \<and> ks ! j = r"
  unfolding dict_get_def
  by (subst map_of_eq_Some_iff) (auto simp: in_set_zip)

lemma resolve_refs_Some:
  assumes "\<And>r. r \<in> set refs \<Longrightarrow> \<exists>j. dict_get ids r = Some j"
  shows "\<exists>ds. resolve_refs ids refs = Some ds"
  using assms by (induction refs) (force split: option.splits)+

lemma resolve_refs_set:
  "resolve_refs ids refs = Some ds \<Longrightarrow> set ds = {j. \<exists>r \<in> set refs. dict_get ids r = Some j}
     \<and> (\<forall>r \<in> set refs. dict_get ids r \<noteq> None)"
  by (induction refs arbitrary: ds) (auto split: option.splits)

lemma build_deps_nth:
  "build_deps ids i ps = Some deps \<Longrightarrow>
     length deps = length ps \<and> (\<forall>j < length ps. step_deps ids (i + j) (ps ! j) = Some (deps ! j))"
proof (induction ids i ps arbitrary: deps rule: build_deps.induct)
  case (1 ids i)
  then show ?case by simp
next
  case (2 ids i p ps)
  then obtain ds deps' where p: "step_deps ids i p = Some ds"
    and ps: "build_deps ids (Suc i) ps = Some deps'" and deps: "deps = ds # deps'"
    by (auto split: option.splits)
  note IH = "2.IH" [OF p ps]
  show ?case
  proof (intro conjI allI impI)
    show "length deps = length (p # ps)" using IH deps by simp
    fix j assume "j < length (p # ps)"
    then show "step_deps ids (i + j) ((p # ps) ! j) = Some (deps ! j)"
      using IH p deps by (cases j) auto
  qed
qed

lemma build_deps_Some:
  "(\<And>j. j < length ps \<Longrightarrow> step_deps ids (i + j) (ps ! j) \<noteq> None) \<Longrightarrow>
     \<exists>deps. build_deps ids i ps = Some deps"
proof (induction ids i ps rule: build_deps.induct)
  case (1 ids i)
  then show ?case by simp
next
  case (2 ids i p ps)
  from "2.prems" [of 0] obtain ds where ds: "step_deps ids i p = Some ds" by auto
  have "\<exists>deps. build_deps ids (Suc i) ps = Some deps"
    by (rule "2.IH" [OF ds]) (use "2.prems" [of "Suc _"] in simp)
  with ds show ?case by auto
qed

lemma step_deps_set:
  assumes keys: "distinct (plan_keys plan)" and i: "i < length plan"
    and ds: "step_deps (zip (plan_keys plan) [0..<length plan]) i (plan ! i) = Some ds"
  shows "set ds = {j. depends_on plan i j} \<and> i \<notin> set ds"
proof (cases "ps_deps (plan ! i)")
  case None
  with ds i show ?thesis by (auto simp: step_deps_def depends_on_def)
next
  case (Some v)
  with ds obtain refs where refs: "dep_refs v = Some refs"
    and res: "resolve_refs (zip (plan_keys plan) [0..<length plan]) refs = Some ds"
    and self: "i \<notin> set ds"
    by (auto simp: step_deps_def split: option.splits if_splits)
  have "set ds = {j. \<exists>r \<in> set refs. j < length plan \<and> plan_keys plan ! j = r}"
    using resolve_refs_set [OF res] dict_get_zip_upt [OF keys] by simp
  then show ?thesis using Some refs self i by (auto simp: depends_on_def)
qed

lemma step_deps_defined:
  assumes keys: "distinct (plan_keys plan)" and i: "i < length plan"
    and refs: "refs_ok plan" and self: "\<not> depends_on plan i i"
  shows "step_deps (zip (plan_keys plan) [0..<length plan]) i (plan ! i) \<noteq> None"
proof (cases "ps_deps (plan ! i)")
  case None
  then show ?thesis by (simp add: step_deps_def)
next
  case (Some v)
  let ?ids = "zip (plan_keys plan) [0..<length plan]"
  obtain rs where rs: "dep_refs v = Some rs" "set rs \<subseteq> set (plan_keys plan)"
    using refs i Some unfolding refs_ok_def by blast
  have "\<exists>j. dict_get ?ids r = Some j" if "r \<in> set rs" for r
  proof -
    from that rs(2) obtain j where "j < length plan" "plan_keys plan ! j = r"
      by (metis in_set_conv_nth length_plan_keys subsetD)
    then show ?thesis using dict_get_zip_upt [OF keys, of r j] by auto
  qed
  then obtain ds where ds: "resolve_refs ?ids rs = Some ds" using resolve_refs_Some by blast
  have "i \<notin> set ds"
  proof
    assume "i \<in> set ds"
    then have "plan_keys plan ! i \<in> set rs"
      using resolve_refs_set [OF ds] dict_get_zip_upt [OF keys] by auto
    then show False using self Some rs(1) i by (auto simp: depends_on_def)
  qed
  then show ?thesis using Some rs(1) ds by (simp add: step_deps_def)
qed

lemma step_deps_refs:
  assumes keys: "distinct (plan_keys plan)" and i: "i < length plan"
    and ds: "step_deps (zip (plan_keys plan) [0..<length plan]) i (plan ! i) = Some ds"
    and v: "ps_deps (plan ! i) = Some v"
  shows "\<exists>refs. dep_refs v = Some refs \<and> set refs \<subseteq> set (plan_keys plan)"
proof -
  from ds v obtain refs where refs: "dep_refs v = Some refs"
    and res: "resolve_refs (zip (plan_keys plan) [0..<length plan]) refs = Some ds"
    by (auto simp: step_deps_def split: option.splits if_splits)
  have "set refs \<subseteq> set (plan_keys plan)"
  proof
    fix r assume "r \<in> set refs"
    then obtain j where "dict_get (zip (plan_keys plan) [0..<length plan]) r = Some j"
      using resolve_refs_set [OF res] by auto
    then show "r \<in> set (plan_keys plan)" using dict_get_zip_upt [OF keys, of r j] by auto
  qed
  with refs show ?thesis by blast
qed

text \<open>What a successful layering knows: the table of dependencies is the declared relation.\<close>

lemma plan_layersE:
  assumes "plan_layers plan = Some ls"
  obtains deps where "distinct (plan_keys plan)" and "refs_ok plan" and "kahn deps [] = Some ls"
    and "length deps = length plan"
    and "\<forall>i < length plan. set (deps ! i) = {j. depends_on plan i j}"
proof -
  let ?ids = "zip (plan_keys plan) [0..<length plan]"
  from assms obtain deps where keys: "distinct (plan_keys plan)"
    and bd: "build_deps ?ids 0 plan = Some deps" and k: "kahn deps [] = Some ls"
    by (auto simp: plan_layers_def build_ids_plan split: option.splits if_splits)
  note nth = build_deps_nth [OF bd]
  have "refs_ok plan"
    unfolding refs_ok_def using nth step_deps_refs [OF keys] by simp
  moreover have "set (deps ! i) = {j. depends_on plan i j}" if "i < length plan" for i
    using step_deps_set [OF keys that] nth that by simp
  ultimately show ?thesis using that keys k nth by blast
qed

lemma plan_layersI:
  assumes keys: "distinct (plan_keys plan)" and refs: "refs_ok plan"
    and rank: "\<And>i j. depends_on plan i j \<Longrightarrow> r j < (r i :: nat)"
  shows "\<exists>ls. plan_layers plan = Some ls"
proof -
  let ?ids = "zip (plan_keys plan) [0..<length plan]"
  have self: "\<not> depends_on plan i i" for i using rank [of i i] by auto
  have "step_deps ?ids (0 + j) (plan ! j) \<noteq> None" if "j < length plan" for j
    using step_deps_defined [OF keys that refs self] by simp
  then obtain deps where bd: "build_deps ?ids 0 plan = Some deps"
    using build_deps_Some [of plan ?ids 0] by blast
  note nth = build_deps_nth [OF bd]
  have sets: "set (deps ! i) = {j. depends_on plan i j}" if "i < length plan" for i
    using step_deps_set [OF keys that] nth that by simp
  have "ranked deps r" using rank sets nth by (auto simp: ranked_def)
  moreover have "closed_deps deps" using sets nth by (auto simp: closed_deps_def depends_on_def)
  ultimately obtain ls where "kahn deps [] = Some ls"
    using kahn_complete [of deps r "[]"] by auto
  then show ?thesis using keys bd by (simp add: plan_layers_def build_ids_plan)
qed

lemma kahn_layers_shape:
  "kahn deps fin = Some ls \<Longrightarrow> l \<in> set ls \<Longrightarrow> l \<noteq> [] \<and> sorted l"
proof (induction deps fin arbitrary: ls rule: kahn.induct)
  case (1 deps fin)
  from "1.prems"(1) show ?case
  proof (cases rule: kahn_SomeE)
    case finished
    with "1.prems"(2) show ?thesis by simp
  next
    case (layer ls')
    with "1.IH" "1.prems"(2) show ?thesis by auto
  qed
qed

text \<open>A chain of steps is layered one step at a time.\<close>

lemma ready_steps_chain:
  assumes chain: "\<And>i. i < length deps \<Longrightarrow> set (deps ! i) = (if i = 0 then {} else {i - 1})"
    and k: "k < length deps"
  shows "ready_steps deps [0..<k] = [k]"
proof -
  have "[0..<length deps] = [0..<k] @ k # [Suc k..<length deps]"
    using k by (metis le_add_diff_inverse less_imp_le upt_add_eq_append upt_conv_Cons zero_le)
  moreover have "filter (\<lambda>i. i \<notin> set [0..<k] \<and> set (deps ! i) \<subseteq> set [0..<k]) [0..<k] = []"
    by (simp add: filter_empty_conv)
  moreover have "filter (\<lambda>i. i \<notin> set [0..<k] \<and> set (deps ! i) \<subseteq> set [0..<k]) [Suc k..<length deps] = []"
    using chain by (auto simp: filter_empty_conv)
  moreover have "set (deps ! k) \<subseteq> set [0..<k]"
    using chain [OF k] by auto
  ultimately show ?thesis by (simp add: ready_steps_def)
qed

lemma kahn_chain:
  assumes chain: "\<And>i. i < length deps \<Longrightarrow> set (deps ! i) = (if i = 0 then {} else {i - 1})"
  shows "k \<le> length deps \<Longrightarrow> kahn deps [0..<k] = Some (map (\<lambda>i. [i]) [k..<length deps])"
proof (induction "length deps - k" arbitrary: k)
  case 0
  then show ?case by (subst kahn.simps) simp
next
  case (Suc m)
  then have k: "k < length deps" by simp
  have IH: "kahn deps ([0..<k] @ [k]) = Some (map (\<lambda>i. [i]) [Suc k..<length deps])"
    using Suc.hyps(1) [of "Suc k"] Suc.hyps(2) k by simp
  show ?case
    using k by (subst kahn.simps) (simp add: ready_steps_chain [OF chain k] IH upt_conv_Cons)
qed

lemma linear_plan_layers:
  assumes keys: "distinct (plan_keys plan)" and lin: "\<And>p. p \<in> set plan \<Longrightarrow> ps_deps p = None"
  shows "plan_layers plan = Some (map (\<lambda>i. [i]) [0..<length plan])"
proof -
  have dep: "depends_on plan i j \<longleftrightarrow> i < length plan \<and> i = Suc j" for i j
    using lin [of "plan ! i"] by (auto simp: depends_on_def)
  have "refs_ok plan" using lin by (simp add: refs_ok_def)
  then have "\<exists>ls. plan_layers plan = Some ls"
    using keys dep by (intro plan_layersI [where r = "\<lambda>i. i"]) simp_all
  then obtain ls where ls: "plan_layers plan = Some ls" by blast
  from ls obtain deps where "distinct (plan_keys plan)" and "refs_ok plan"
    and k: "kahn deps [] = Some ls" and n: "length deps = length plan"
    and sets: "\<forall>i < length plan. set (deps ! i) = {j. depends_on plan i j}"
    by (rule plan_layersE)
  have "set (deps ! i) = (if i = 0 then {} else {i - 1})" if "i < length deps" for i
    using sets that n by (auto simp: dep)
  from kahn_chain [OF this, of 0] k n ls show ?thesis by simp
qed

lemma linearize_plan_keys: "plan_keys (linearize_plan plan) = plan_keys plan"
  by (auto simp: plan_keys_def linearize_plan_def step_key_def)

lemma plan_layers_partition:
  assumes "plan_layers plan = Some ls"
  shows "distinct (concat ls) \<and> set (concat ls) = {..<length plan}"
proof -
  from assms obtain deps where "distinct (plan_keys plan)" and "refs_ok plan"
    and "kahn deps [] = Some ls" and "length deps = length plan"
    and "\<forall>i < length plan. set (deps ! i) = {j. depends_on plan i j}"
    by (rule plan_layersE)
  with kahn_partition [of deps "[]" ls] show ?thesis by simp
qed

lemma plan_layers_duplicate: "\<not> distinct (plan_keys plan) \<Longrightarrow> plan_layers plan = None"
  by (simp add: plan_layers_def build_ids_plan)

lemma safe_layers_serial:
  assumes "plan_layers plan = None"
  shows "safe_layers plan = map (\<lambda>i. [i]) [0..<length plan]"
proof (cases "distinct (plan_keys plan)")
  case True
  then have "plan_layers (linearize_plan plan) = Some (map (\<lambda>i. [i]) [0..<length (linearize_plan plan)])"
    by (intro linear_plan_layers) (auto simp: linearize_plan_keys, auto simp: linearize_plan_def)
  with assms show ?thesis by (simp add: safe_layers_def linearize_plan_def)
next
  case False
  then have "plan_layers (linearize_plan plan) = None"
    by (intro plan_layers_duplicate) (simp add: linearize_plan_keys)
  with assms show ?thesis by (simp add: safe_layers_def)
qed

lemma concat_singletons: "concat (map (\<lambda>i. [i]) xs) = xs"
  by (induction xs) auto

lemma safe_layers_partition:
  "distinct (concat (safe_layers plan)) \<and> set (concat (safe_layers plan)) = {..<length plan}"
proof (cases "plan_layers plan")
  case None
  then show ?thesis by (auto simp: safe_layers_serial concat_singletons)
next
  case (Some ls)
  with plan_layers_partition [OF Some] show ?thesis by (simp add: safe_layers_def)
qed

text \<open>Layering reads ids and dependencies only, so marking steps leaves the batches alone.\<close>

lemma build_ids_cong:
  "map ps_id ps = map ps_id qs \<Longrightarrow> build_ids i ids ps = build_ids i ids qs"
proof (induction ps arbitrary: i ids qs)
  case Nil
  then show ?case by simp
next
  case (Cons p ps)
  then obtain q qs' where "qs = q # qs'" and "ps_id q = ps_id p" and "map ps_id ps = map ps_id qs'"
    by (cases qs) auto
  with Cons.IH show ?case by (simp add: step_key_def)
qed

lemma build_deps_cong:
  "map ps_deps ps = map ps_deps qs \<Longrightarrow> build_deps ids i ps = build_deps ids i qs"
proof (induction ps arbitrary: i qs)
  case Nil
  then show ?case by simp
next
  case (Cons p ps)
  then obtain q qs' where "qs = q # qs'" and "ps_deps q = ps_deps p" and "map ps_deps ps = map ps_deps qs'"
    by (cases qs) auto
  moreover from this have "step_deps ids i q = step_deps ids i p" by (simp add: step_deps_def)
  ultimately show ?case using Cons.IH [of qs'] by (simp split: option.split)
qed

lemma plan_layers_cong:
  assumes "map ps_id ps = map ps_id qs" and "map ps_deps ps = map ps_deps qs"
  shows "plan_layers ps = plan_layers qs"
  unfolding plan_layers_def build_ids_cong [OF assms(1)] build_deps_cong [OF assms(2)] ..

lemma safe_layers_cong:
  assumes "map ps_id ps = map ps_id qs" and "map ps_deps ps = map ps_deps qs"
  shows "safe_layers ps = safe_layers qs"
proof -
  have len: "length ps = length qs" using assms(1) map_eq_imp_length_eq by blast
  have ids: "map ps_id (linearize_plan ps) = map ps_id (linearize_plan qs)"
    using assms(1) by (simp add: linearize_plan_def comp_def)
  have deps: "map ps_deps (linearize_plan ps) = map ps_deps (linearize_plan qs)"
    by (simp add: linearize_plan_def list_eq_iff_nth_eq len)
  show ?thesis
    unfolding safe_layers_def len plan_layers_cong [OF assms] plan_layers_cong [OF ids deps] ..
qed

section \<open>Properties\<close>

text \<open>A four-step diamond, used to show that the hypotheses below can hold.\<close>

definition mk_step :: "nat \<Rightarrow> nat list option \<Rightarrow> plan_step" where
  "mk_step k ds =
     \<lparr>ps_id = Some (auto_id k), ps_description = ascii ''step'', ps_status = Pending,
      ps_result = [], ps_deps = map_option (\<lambda>xs. JArr (map (\<lambda>d. JStr (auto_id d)) xs)) ds\<rparr>"

definition diamond_plan :: "plan_step list" where
  "diamond_plan = [mk_step 1 (Some []), mk_step 2 (Some [1]), mk_step 3 (Some [1]),
                   mk_step 4 (Some [2, 3])]"

lemma diamond_layers: "plan_layers diamond_plan = Some [[0], [1, 2], [3]]"
  by code_simp

lemma plan_layers_ranked:
  assumes "plan_layers plan = Some ls"
  shows "depends_on plan i j \<Longrightarrow> layer_of ls j < layer_of ls i"
proof -
  from assms obtain deps where "distinct (plan_keys plan)" and "refs_ok plan"
    and k: "kahn deps [] = Some ls" and "length deps = length plan"
    and "\<forall>i < length plan. set (deps ! i) = {j. depends_on plan i j}"
    by (rule plan_layersE)
  moreover assume "depends_on plan i j"
  moreover have "ranked deps (layer_of ls)" using k by (rule kahn_ranked)
  ultimately show ?thesis by (auto simp: ranked_def depends_on_def)
qed

text \<open>
  C10. A plan that is layered is layered correctly: the batches contain every step exactly once,
  no batch is empty, steps keep their declaration order inside a batch, and every dependency
  (declared, or the implicit predecessor of a step without a \<open>deps\<close> key) lies in a strictly
  earlier batch.
\<close>

theorem plan_layers_sound:
  assumes "plan_layers plan = Some ls"
  shows "distinct (concat ls) \<and> set (concat ls) = {..<length plan}
    \<and> (\<forall>l \<in> set ls. l \<noteq> [] \<and> sorted l)
    \<and> (\<forall>i j. depends_on plan i j \<longrightarrow> layer_of ls j < layer_of ls i)"
proof -
  from assms obtain deps where "distinct (plan_keys plan)" and "refs_ok plan"
    and k: "kahn deps [] = Some ls" and "length deps = length plan"
    and "\<forall>i < length plan. set (deps ! i) = {j. depends_on plan i j}"
    by (rule plan_layersE)
  have "\<forall>l \<in> set ls. l \<noteq> [] \<and> sorted l" using kahn_layers_shape [OF k] by blast
  with plan_layers_partition [OF assms] plan_layers_ranked [OF assms] show ?thesis by blast
qed

lemma diamond_depends: "depends_on diamond_plan 3 1"
  by (simp add: depends_on_def diamond_plan_def mk_step_def dep_refs_def plan_keys_def step_key_def)

theorem plan_layers_sound_witness:
  "plan_layers diamond_plan = Some [[0], [1, 2], [3]]
   \<and> set (concat [[0], [1, 2], [3]]) = {..<length diamond_plan}
   \<and> depends_on diamond_plan 3 1 \<and> layer_of [[0], [1, 2], [3]] 1 < layer_of [[0], [1, 2], [3]] 3"
  using plan_layers_sound [OF diamond_layers] diamond_layers diamond_depends by blast

text \<open>
  The layering rejects exactly the plans its documentation calls illegal: it returns a
  result if and only if ids are distinct, every reference names a step, and the declared
  dependencies admit a topological ranking (no self-dependency, no cycle).
\<close>

theorem plan_layers_defined_iff:
  "(\<exists>ls. plan_layers plan = Some ls) \<longleftrightarrow>
     distinct (plan_keys plan) \<and> refs_ok plan
     \<and> (\<exists>rank :: nat \<Rightarrow> nat. \<forall>i j. depends_on plan i j \<longrightarrow> rank j < rank i)"
proof
  assume "\<exists>ls. plan_layers plan = Some ls"
  then obtain ls where ls: "plan_layers plan = Some ls" by blast
  then have "distinct (plan_keys plan) \<and> refs_ok plan" by (rule plan_layersE) simp
  with plan_layers_ranked [OF ls]
  show "distinct (plan_keys plan) \<and> refs_ok plan
     \<and> (\<exists>rank :: nat \<Rightarrow> nat. \<forall>i j. depends_on plan i j \<longrightarrow> rank j < rank i)" by blast
next
  assume "distinct (plan_keys plan) \<and> refs_ok plan
     \<and> (\<exists>rank :: nat \<Rightarrow> nat. \<forall>i j. depends_on plan i j \<longrightarrow> rank j < rank i)"
  then show "\<exists>ls. plan_layers plan = Some ls" using plan_layersI by blast
qed

theorem plan_layers_defined_iff_witness:
  "\<exists>rank :: nat \<Rightarrow> nat. depends_on diamond_plan 3 1 \<and> rank 1 < rank 3"
  using plan_layers_defined_iff [of diamond_plan] diamond_layers diamond_depends by blast

text \<open>
  Batches are as early as possible: whatever order of execution respects the dependencies
  (any ranking of the steps), the layering puts no step later. Independent steps therefore
  always share a batch and the number of batches is minimal.
\<close>

theorem plan_layers_earliest:
  assumes "plan_layers plan = Some ls"
    and "\<forall>i j. depends_on plan i j \<longrightarrow> rank j < (rank i :: nat)" and "i < length plan"
  shows "layer_of ls i \<le> rank i"
proof -
  from assms(1) obtain deps where "distinct (plan_keys plan)" and "refs_ok plan"
    and k: "kahn deps [] = Some ls" and n: "length deps = length plan"
    and sets: "\<forall>i < length plan. set (deps ! i) = {j. depends_on plan i j}"
    by (rule plan_layersE)
  have "ranked deps rank" using sets n assms(2) by (auto simp: ranked_def)
  then show ?thesis using kahn_earliest [OF k] assms(3) n by simp
qed

lemma diamond_ranked:
  "\<forall>i j. depends_on diamond_plan i j \<longrightarrow> layer_of [[0], [1, 2], [3]] j < layer_of [[0], [1, 2], [3]] i"
  using plan_layers_ranked [OF diamond_layers] by blast

theorem plan_layers_earliest_witness:
  "layer_of [[0], [1, 2], [3]] 3 \<le> layer_of [[0], [1, 2], [3]] (3 :: nat) \<and> 3 < length diamond_plan"
  using plan_layers_earliest [OF diamond_layers diamond_ranked, of 3] by (simp add: diamond_plan_def)

text \<open>
  C11. The fallback ladder always yields a runnable sequence of batches: for every plan, legal
  or not, the batches of \<open>safe_layers\<close> contain every step exactly once, and a plan whose
  declared dependencies are unusable runs strictly one step at a time in declaration order.
\<close>

theorem safe_layers_total:
  "distinct (concat (safe_layers plan)) \<and> set (concat (safe_layers plan)) = {..<length plan}
   \<and> (plan_layers plan = None \<longrightarrow> safe_layers plan = map (\<lambda>i. [i]) [0..<length plan])"
  using safe_layers_partition safe_layers_serial by blast

definition cyclic_plan :: "plan_step list" where
  "cyclic_plan = [mk_step 1 (Some [2]), mk_step 2 (Some [1])]"

lemma cyclic_plan_rejected: "plan_layers cyclic_plan = None"
  by code_simp

theorem safe_layers_total_witness: "safe_layers cyclic_plan = [[0], [1]]"
proof -
  have "safe_layers cyclic_plan = map (\<lambda>i. [i]) [0..<length cyclic_plan]"
    using safe_layers_total [of cyclic_plan] cyclic_plan_rejected by blast
  then show ?thesis by (simp add: cyclic_plan_def upt_rec)
qed

text \<open>A plan without \<open>deps\<close> keys runs as the linear chain it used to be.\<close>

lemma safe_layers_linear:
  assumes "\<And>p. p \<in> set plan \<Longrightarrow> ps_deps p = None"
  shows "safe_layers plan = map (\<lambda>i. [i]) [0..<length plan]"
proof (cases "distinct (plan_keys plan)")
  case True
  with linear_plan_layers [OF _ assms] show ?thesis by (simp add: safe_layers_def)
next
  case False
  then show ?thesis using plan_layers_duplicate safe_layers_serial by blast
qed

end
