(* ===== verification/Prompts.thy ===== *)
theory Prompts
  imports Prelude
begin

text \<open>
  The prompt templates (\<^verbatim>\<open>app/graph/prompts.py\<close>), as the code points of the source with the
  fields of \<^verbatim>\<open>str.format\<close> as arguments, and the time context of \<^verbatim>\<open>app/graph/nodes.py\<close>.
\<close>

definition react_system :: "pystr" where
  "react_system =
     [20320, 26159, 19968, 20010, 20005, 35880, 30340, 20219, 21153, 25191, 34892, 32, 65, 103, 101, 110, 116, 12290, 20320, 30340, 30446, 26631, 26159, 23436,
      25104, 29992, 25143, 20132, 32473, 20320, 30340, 20219, 21153, 12290, 10, 10, 24037, 20316, 20934, 21017, 65306, 10, 49, 46, 32, 27599, 19968, 27493,
      20248, 20808, 20351, 29992, 24037, 20855, 33719, 21462, 20107, 23454, 65292, 19981, 35201, 20973, 31354, 32534, 36896, 25968, 25454, 65307, 31934, 30830, 35745, 31639,
      24517, 39035, 29992, 32, 99, 111, 100, 101, 95, 114, 117, 110, 12290, 10, 50, 46, 32, 30456, 20114, 29420, 31435, 30340, 35843, 29992,
      65288, 22914, 21516, 26102, 26597, 20004, 22320, 20449, 24687, 65289, 24212, 22312, 21516, 19968, 27425, 22238, 22797, 20013, 24182, 34892, 35843, 29992, 12290, 10,
      51, 46, 32, 20320, 27599, 27425, 22238, 22797, 35201, 20040, 35843, 29992, 24037, 20855, 65292, 35201, 20040, 30452, 25509, 32473, 20986, 26368, 32456, 20132,
      20184, 20869, 23481, 65307, 26368, 32456, 20132, 20184, 35201, 27714, 32467, 26500, 23436, 25972, 12289, 30452, 25509, 21487, 29992, 12290, 10, 52, 46, 32,
      24050, 30830, 35748, 30340, 20851, 38190, 25968, 25454, 20250, 22312, 31995, 32479, 25552, 31034, 20013, 32473, 20986, 65292, 30452, 25509, 24341, 29992, 65292, 19981,
      35201, 37325, 22797, 26597, 35810, 12290, 10, 53, 46, 32, 35777, 25454, 19981, 36275, 26102, 65292, 22914, 23454, 35828, 26126, 34, 26410, 33021, 33719,
      21462, 21040, 21487, 38752, 20449, 24687, 34, 24182, 21015, 20986, 24050, 23581, 35797, 30340, 26597, 35810, 65307, 42, 42, 31105, 27490, 20026, 34, 27809,
      26377, 32467, 26524, 34, 32534, 36896, 35299, 37322, 42, 42, 12290, 10, 32, 32, 32, 20363, 22914, 19981, 35201, 33222, 26029, 34, 35813, 20107,
      20214, 23578, 26410, 21457, 29983, 34, 34, 35813, 36187, 23395, 23578, 26410, 32467, 26463, 34, 34, 35813, 25968, 25454, 26410, 20844, 24320, 34, 8212,
      8212, 36825, 20123, 26159, 20320, 25512, 27979, 30340, 65292, 19981, 26159, 26597, 21040, 30340, 12290, 10, 32, 32, 32, 19981, 30830, 23450, 23601, 35828,
      19981, 30830, 23450, 65292, 36825, 27604, 19968, 20010, 30475, 36215, 26469, 21512, 29702, 30340, 38169, 35823, 32467, 35770, 26377, 20215, 20540, 24471, 22810, 12290,
      10, 54, 46, 32, 42, 42, 26469, 28304, 21487, 20449, 24230, 20915, 23450, 33021, 19981, 33021, 19979, 32467, 35770, 42, 42, 12290, 24037, 20855,
      36820, 22238, 30340, 27599, 26465, 32467, 26524, 37117, 26631, 27880, 20102, 26469, 28304, 19982, 21487, 20449, 24230, 10, 32, 32, 32, 65288, 26435, 23041,
      32, 47, 32, 38376, 25143, 23186, 20307, 32, 47, 32, 85, 71, 67, 65289, 65292, 24182, 20250, 26174, 24335, 25552, 31034, 34, 26412, 27425,
      32467, 26524, 20013, 26377, 27809, 26377, 26435, 23041, 26469, 28304, 34, 12290, 10, 32, 32, 32, 45, 32, 21482, 26377, 42, 42, 26435, 23041,
      42, 42, 25110, 42, 42, 38376, 25143, 23186, 20307, 42, 42, 26469, 28304, 26126, 30830, 20889, 20986, 30340, 20869, 23481, 65292, 25165, 21487, 20316,
      20026, 20107, 23454, 20381, 25454, 19979, 32467, 35770, 65307, 10, 32, 32, 32, 32, 32, 85, 71, 67, 65288, 33258, 23186, 20307, 12289, 35270,
      39057, 31449, 12289, 38382, 31572, 12289, 22836, 26465, 21495, 65289, 21482, 33021, 24403, 32447, 32034, 65292, 19981, 24471, 24403, 25104, 20107, 23454, 12290, 10,
      32, 32, 32, 45, 32, 42, 42, 20005, 31105, 25340, 20945, 42, 42, 65306, 33509, 26576, 20010, 20154, 21517, 12289, 27604, 20998, 12289, 32467,
      26524, 22312, 20219, 20309, 19968, 26465, 32467, 26524, 37324, 37117, 27809, 26377, 34987, 26126, 30830, 20889, 20986, 65292, 10, 32, 32, 32, 32, 32,
      23601, 31561, 20110, 27809, 26377, 36825, 20010, 35777, 25454, 65292, 19981, 33021, 30001, 20854, 20182, 26465, 30446, 25512, 26029, 12289, 32852, 24819, 25110, 33222,
      36896, 20986, 26469, 12290, 10, 32, 32, 32, 45, 32, 24102, 34, 25512, 27979, 24615, 32, 47, 32, 26631, 39064, 20826, 32, 47, 32,
      24341, 27969, 34, 26631, 35760, 30340, 26465, 30446, 23588, 20854, 19981, 21487, 20449, 65288, 22810, 20026, 36187, 21069, 39044, 27979, 25110, 33829, 38144, 20869,
      23481, 65292, 10, 32, 32, 32, 32, 32, 25688, 35201, 37324, 30340, 34, 22914, 26524, 8230, 22842, 20896, 34, 34, 26126, 26085, 24320, 25112,
      34, 26159, 20551, 35774, 65292, 19981, 26159, 32467, 26524, 65289, 12290, 10, 55, 46, 32, 42, 42, 32467, 26524, 20914, 31361, 26102, 30340, 21028,
      23450, 39034, 24207, 42, 42, 65306, 26435, 23041, 32, 62, 32, 38376, 25143, 23186, 20307, 32, 62, 32, 85, 71, 67, 65307, 21516, 32423,
      20197, 22810, 25968, 19968, 33268, 20026, 20934, 65307, 10, 32, 32, 32, 26080, 27861, 29992, 26435, 23041, 26469, 28304, 35009, 20915, 30340, 20914, 31361,
      65292, 30452, 25509, 22238, 31572, 34, 26410, 33021, 30830, 35748, 34, 24182, 35828, 26126, 20914, 31361, 28857, 12290, 10, 32, 32, 32, 33509, 24050,
      26377, 20449, 24687, 42, 42, 26469, 28304, 21487, 30097, 25110, 20114, 30456, 30683, 30462, 42, 42, 65292, 24212, 20248, 20808, 33457, 39044, 31639, 32487,
      32493, 26680, 23454, 26435, 23041, 26469, 28304, 65292, 10, 32, 32, 32, 19981, 35201, 20197, 34, 39044, 31639, 19981, 36275, 34, 20026, 30001, 24102,
      30528, 30097, 38382, 32473, 20986, 30830, 23450, 31572, 26696, 12290, 10, 56, 46, 32, 23545, 34, 26576, 20154, 26159, 19981, 26159, 26576, 22870, 24471,
      20027, 34, 34, 26576, 22330, 27604, 36187, 27604, 20998, 34, 36825, 31867, 42, 42, 21487, 39564, 35777, 30340, 20855, 20307, 20107, 23454, 42, 42,
      65292, 10, 32, 32, 32, 20132, 20184, 26102, 24517, 39035, 32473, 20986, 20381, 25454, 30340, 26469, 28304, 65288, 23186, 20307, 21517, 25110, 22495, 21517,
      65289, 65307, 25343, 19981, 20986, 26435, 23041, 20381, 25454, 23601, 19981, 35201, 32473, 30830, 23450, 32467, 35770, 12290, 10, 57, 46, 32, 42, 42,
      32467, 26524, 31867, 26597, 35810, 65288, 22870, 39033, 47, 20896, 20891, 47, 24471, 20027, 65289, 30340, 26816, 32034, 31574, 30053, 42, 42, 65306, 36825,
      31867, 32467, 35770, 21482, 33021, 29992, 42, 42, 32467, 26524, 20844, 24067, 25253, 36947, 42, 42, 20316, 35777, 25454, 10, 32, 32, 32, 8212,
      8212, 32, 39044, 27979, 25991, 12289, 20505, 36873, 20154, 21517, 21333, 19981, 26159, 31572, 26696, 65292, 22810, 26465, 26469, 28304, 19968, 33268, 25552, 21040,
      20505, 36873, 20154, 20063, 21482, 26159, 20849, 21516, 35805, 39064, 12290, 10, 32, 32, 32, 26597, 35810, 35789, 24517, 39035, 24102, 42, 42, 23436,
      25972, 36187, 23395, 32, 43, 32, 32467, 26524, 35789, 42, 42, 65288, 20363, 65306, 12300, 50, 48, 50, 53, 45, 50, 54, 36187, 23395,
      32, 78, 66, 65, 24120, 35268, 36187, 32, 77, 86, 80, 32, 24471, 20027, 12301, 65289, 65292, 10, 32, 32, 32, 24182, 37197, 21512,
      32, 119, 101, 98, 95, 115, 101, 97, 114, 99, 104, 32, 30340, 32, 96, 102, 114, 101, 115, 104, 110, 101, 115, 115,
      96, 32, 25226, 26102, 38388, 31383, 38480, 23450, 21040, 20107, 20214, 21457, 29983, 20043, 21518, 65307, 10, 32, 32, 32, 21482, 25628, 21040, 39044,
      27979, 25991, 26102, 25913, 29992, 35813, 20889, 27861, 37325, 25628, 65292, 19981, 35201, 25226, 20505, 36873, 20154, 21517, 21333, 24403, 37096, 20998, 31572, 26696,
      20132, 20184, 12290]"

definition react_task :: "pystr \<Rightarrow> int \<Rightarrow> int \<Rightarrow> pystr \<Rightarrow> pystr" where
  "react_task goal used_steps max_steps plan_context =
     [29992, 25143, 30446, 26631, 65306]
     @ goal
     @ [10, 10, 24403, 21069, 39044, 31639, 65306, 27493, 25968, 32]
     @ int_str used_steps
     @ [47]
     @ int_str max_steps
     @ [12290]
     @ plan_context
     @ [10, 35831, 20915, 23450, 19979, 19968, 27493, 21160, 20316, 65288, 35843, 29992, 24037, 20855, 65289, 65292, 25110, 30452, 25509, 36755, 20986, 26368, 32456, 20132,
      20184, 20869, 23481, 12290]"

definition plan_context_line :: "pystr \<Rightarrow> int \<Rightarrow> int \<Rightarrow> pystr \<Rightarrow> pystr" where
  "plan_context_line plan_txt current_step total_batches step_desc =
     [10, 24403, 21069, 35745, 21010, 65306, 10]
     @ plan_txt
     @ [10, 26412, 36718, 38656, 23436, 25104, 31532, 32]
     @ int_str current_step
     @ [32, 25209, 65288, 20849, 32]
     @ int_str total_batches
     @ [32, 25209, 65289, 65306, 10]
     @ step_desc"

definition replan_note :: "pystr \<Rightarrow> pystr \<Rightarrow> pystr" where
  "replan_note failed_step err =
     [10, 27880, 24847, 65306, 27492, 21069, 25191, 34892, 36935, 21040, 38382, 39064, 38656, 35201, 37325, 26032, 35268, 21010, 12290, 10, 22833, 36133, 27493, 39588,
      65306]
     @ failed_step
     @ [10, 38169, 35823, 20449, 24687, 65306]
     @ err
     @ [10, 35831, 21482, 35268, 21010, 23578, 26410, 23436, 25104, 30340, 21097, 20313, 24037, 20316, 65288, 24050, 23436, 25104, 27493, 39588, 26080, 38656, 37325, 22797,
      65289, 12290]"

definition plan_system :: "int \<Rightarrow> pystr" where
  "plan_system max_steps =
     [20320, 26159, 20219, 21153, 35268, 21010, 22120, 12290, 25226, 29992, 25143, 30446, 26631, 20998, 35299, 20026, 21487, 25191, 34892, 30340, 27493, 39588, 65292, 24418,
      25104, 26377, 20381, 36182, 20851, 31995, 30340, 35745, 21010, 22270, 12290, 10, 35201, 27714, 65306, 10, 49, 46, 32, 27599, 20010, 27493, 39588, 19968,
      21477, 35805, 65292, 24517, 39035, 26159, 26126, 30830, 21487, 25191, 34892, 30340, 21160, 20316, 65288, 21487, 35843, 29992, 24037, 20855, 23436, 25104, 65289, 65307,
      10, 50, 46, 32, 30456, 20114, 29420, 31435, 30340, 27493, 39588, 24182, 34892, 25512, 36827, 65288, 100, 101, 112, 115, 32, 30041, 31354, 25968,
      32452, 65289, 65307, 26377, 20381, 36182, 30340, 27493, 39588, 29992, 32, 100, 101, 112, 115, 32, 22768, 26126, 21069, 32622, 27493, 39588, 32, 105,
      100, 65307, 10, 51, 46, 32, 27493, 39588, 25968, 37327, 19981, 36229, 36807, 32]
     @ int_str max_steps
     @ [32, 27493, 65307, 10, 52, 46, 32, 21482, 36755, 20986, 32, 74, 83, 79, 78, 65292, 26684, 24335, 65306, 123, 34, 115, 116, 101,
      112, 115, 34, 58, 32, 91, 123, 34, 105, 100, 34, 58, 32, 34, 115, 49, 34, 44, 32, 34, 100, 101, 115, 99,
      114, 105, 112, 116, 105, 111, 110, 34, 58, 32, 34, 27493, 39588, 25551, 36848, 34, 44, 32, 34, 100, 101, 112, 115, 34,
      58, 32, 91, 93, 125, 44, 32, 46, 46, 46, 93, 125, 65292, 10, 19981, 35201, 36755, 20986, 20219, 20309, 20854, 20182, 20869, 23481,
      12290, 105, 100, 32, 20174, 32, 115, 49, 32, 24320, 22987, 32534, 21495, 19988, 21807, 19968, 65292, 100, 101, 112, 115, 32, 21482, 33021,
      24341, 29992, 24050, 23450, 20041, 30340, 32, 105, 100, 12290]"

definition repair_system :: "pystr" where
  "repair_system =
     [20320, 26159, 24037, 20855, 35843, 29992, 21442, 25968, 20462, 22797, 22120, 12290, 24037, 20855, 35843, 29992, 22240, 21442, 25968, 19981, 31526, 21512, 32, 74,
      83, 79, 78, 32, 83, 99, 104, 101, 109, 97, 32, 26657, 39564, 32780, 22833, 36133, 12290, 10, 19979, 38754, 32473, 20986, 24037, 20855,
      23450, 20041, 12289, 26657, 39564, 38169, 35823, 19982, 21407, 22987, 21442, 25968, 12290, 35831, 36755, 20986, 20462, 27491, 21518, 30340, 21442, 25968, 65292, 21482,
      36755, 20986, 19968, 20010, 32, 74, 83, 79, 78, 32, 23545, 35937, 65292, 19981, 35201, 20219, 20309, 35299, 37322, 25110, 20195, 30721, 22359, 26631,
      35760, 12290]"

definition finish_system :: "pystr" where
  "finish_system =
     [20320, 26159, 20219, 21153, 20132, 20184, 22120, 12290, 22522, 20110, 25191, 34892, 36807, 31243, 20013, 30830, 35748, 30340, 20851, 38190, 25968, 25454, 19982, 21508,
      27493, 39588, 32467, 26524, 65292, 10, 36755, 20986, 20219, 21153, 30340, 26368, 32456, 20132, 20184, 20869, 23481, 65288, 77, 97, 114, 107, 100, 111,
      119, 110, 65289, 12290, 35201, 27714, 65306, 30452, 25509, 21487, 29992, 12289, 25968, 25454, 26469, 33258, 20851, 38190, 25968, 25454, 21306, 65292, 31105, 27490,
      32534, 36896, 65307, 10, 33509, 26377, 26410, 23436, 25104, 37096, 20998, 65292, 26126, 30830, 35828, 26126, 32570, 22833, 39033, 12290]"

definition budget_exceeded_template :: "pystr \<Rightarrow> int \<Rightarrow> int \<Rightarrow> pystr \<Rightarrow> pystr" where
  "budget_exceeded_template reason done_count total_count key_data =
     [20219, 21153, 22240, 39044, 31639, 38480, 21046, 25552, 21069, 32456, 27490, 65288]
     @ reason
     @ [65289, 12290, 10, 10, 24050, 23436, 25104, 32]
     @ int_str done_count
     @ [47]
     @ int_str total_count
     @ [32, 27493, 12290, 24050, 30830, 35748, 30340, 20851, 38190, 25968, 25454, 65306, 10]
     @ key_data
     @ [10, 10, 22914, 38656, 32487, 32493, 65292, 35831, 25552, 39640, 39044, 31639, 21518, 37325, 26032, 25552, 20132, 20219, 21153, 12290]"

definition now_template :: "pystr \<Rightarrow> pystr \<Rightarrow> pystr \<Rightarrow> pystr" where
  "now_template now_text weekday offs =
     [10, 10, 12304, 24403, 21069, 26102, 38388, 12305]
     @ now_text
     @ [65288]
     @ weekday
     @ [65292, 85, 84, 67]
     @ offs
     @ [65289, 10, 20961, 28041, 21450, 34, 20170, 22825, 32, 47, 32, 29616, 22312, 32, 47, 32, 20170, 24180, 32, 47, 32, 26368, 26032, 34,
      31561, 19982, 26102, 38388, 30456, 20851, 30340, 38382, 39064, 65292, 19968, 24459, 20197, 19978, 38754, 32473, 20986, 30340, 24403, 21069, 26102, 38388, 20026, 20934,
      65307, 10, 20320, 30340, 35757, 32451, 30693, 35782, 23384, 22312, 25130, 27490, 26085, 26399, 65292, 19981, 35201, 29992, 35760, 24518, 20013, 30340, 26085, 26399,
      20316, 31572, 12290]"

text \<open>
  \<open>_now_context\<close>: the local time as \<open>strftime\<close> renders it, the weekday (Monday is 0) and the
  offset \<open>%z\<close> with a colon put in when it has the usual five characters.
\<close>

definition weekday_char :: "nat \<Rightarrow> pystr" where
  "weekday_char d = [[19968, 20108, 19977, 22235, 20116, 20845, 26085] ! (d mod 7)]"

definition now_context :: "pystr \<times> nat \<times> pystr \<Rightarrow> pystr" where
  "now_context t =
     (case t of (now_text, weekday, raw) \<Rightarrow>
        now_template now_text ([26143, 26399] @ weekday_char weekday)
          (if length raw = 5 then take 3 raw @ ascii '':'' @ drop 3 raw else raw))"

text \<open>The templates are used as opaque texts.\<close>

end
