(* ===== verification/Json_Codec.thy ===== *)
theory Json_Codec
  imports Prelude
begin

text \<open>
  The part of Python's \<open>json\<close> module the program uses: \<open>dumps(..., ensure_ascii=False)\<close>,
  \<open>loads\<close> and \<open>JSONDecoder().raw_decode\<close>, and on top of it the tolerant parser
  \<open>parse_json_loose\<close> (\<^verbatim>\<open>app/graph/nodes.py\<close>, lines 98--116). The main result is that
  decoding inverts encoding, which is what lets the tool journal and the event table hold
  values as text.
\<close>

section \<open>Encoding\<close>

definition hex_digit :: "nat \<Rightarrow> nat" where
  "hex_digit d = (if d < 10 then 48 + d else 87 + d)"

definition esc_char :: "nat \<Rightarrow> pystr" where
  "esc_char c =
     (if c = 34 then [92, 34]
      else if c = 92 then [92, 92]
      else if c = 10 then [92, 110]
      else if c = 13 then [92, 114]
      else if c = 9 then [92, 116]
      else if c = 12 then [92, 102]
      else if c = 8 then [92, 98]
      else if c < 32 then [92, 117, 48, 48, hex_digit (c div 16), hex_digit (c mod 16)]
      else [c])"

definition dumps_str :: "pystr \<Rightarrow> pystr" where
  "dumps_str s = 34 # concat (map esc_char s) @ [34]"

fun dumps :: "json \<Rightarrow> pystr" where
  "dumps JNull = ascii ''null''"
| "dumps (JBool b) = (if b then ascii ''true'' else ascii ''false'')"
| "dumps (JInt i) = int_str i"
| "dumps (JFloat f) = f"
| "dumps (JStr s) = dumps_str s"
| "dumps (JArr xs) = [91] @ str_join [44, 32] (map dumps xs) @ [93]"
| "dumps (JObj kvs) =
     [123] @ str_join [44, 32] (map (\<lambda>kv. dumps_str (fst kv) @ [58, 32] @ dumps (snd kv)) kvs) @ [125]"

section \<open>Decoding\<close>

definition json_ws :: "nat \<Rightarrow> bool" where
  "json_ws c = (c = 32 \<or> c = 9 \<or> c = 10 \<or> c = 13)"

definition skip_ws :: "pystr \<Rightarrow> pystr" where
  "skip_ws s = dropWhile json_ws s"

definition is_digit :: "nat \<Rightarrow> bool" where
  "is_digit c = (48 \<le> c \<and> c \<le> 57)"

definition hex_val :: "nat \<Rightarrow> nat option" where
  "hex_val c =
     (if 48 \<le> c \<and> c \<le> 57 then Some (c - 48)
      else if 97 \<le> c \<and> c \<le> 102 then Some (c - 87)
      else if 65 \<le> c \<and> c \<le> 70 then Some (c - 55)
      else None)"

definition hex4 :: "pystr \<Rightarrow> (nat \<times> pystr) option" where
  "hex4 s =
     (case s of
        a # b # c # d # r \<Rightarrow>
          (case (hex_val a, hex_val b, hex_val c, hex_val d) of
             (Some x, Some y, Some z, Some w) \<Rightarrow> Some (((x * 16 + y) * 16 + z) * 16 + w, r)
           | _ \<Rightarrow> None)
      | _ \<Rightarrow> None)"

definition simple_escape :: "nat \<Rightarrow> nat option" where
  "simple_escape c =
     (if c = 34 then Some 34 else if c = 92 then Some 92 else if c = 47 then Some 47
      else if c = 98 then Some 8 else if c = 102 then Some 12 else if c = 110 then Some 10
      else if c = 114 then Some 13 else if c = 116 then Some 9 else None)"

text \<open>
  The text after an escaped \<open>u\<close>: a code unit, combined with a following low surrogate
  where the two form a pair.
\<close>

definition unicode_escape :: "pystr \<Rightarrow> (nat \<times> pystr) option" where
  "unicode_escape s =
     (case hex4 s of
        None \<Rightarrow> None
      | Some (u, r) \<Rightarrow>
          (if 55296 \<le> u \<and> u \<le> 56319 \<and> take 2 r = [92, 117] then
             (case hex4 (drop 2 r) of
                None \<Rightarrow> None
              | Some (v, r') \<Rightarrow>
                  if 56320 \<le> v \<and> v \<le> 57343
                  then Some (65536 + (u - 55296) * 1024 + (v - 56320), r')
                  else Some (u, r))
           else Some (u, r)))"

lemma hex4_shorter: "hex4 s = Some (u, r) \<Longrightarrow> length r < length s"
  by (auto simp: hex4_def split: list.splits option.splits)

lemma unicode_escape_shorter: "unicode_escape s = Some (u, r) \<Longrightarrow> length r < length s"
  by (auto simp: unicode_escape_def split: option.splits if_splits dest!: hex4_shorter)

function string_body :: "pystr \<Rightarrow> (pystr \<times> pystr) option" where
  "string_body s =
     (case s of
        [] \<Rightarrow> None
      | c # r \<Rightarrow>
          (if c = 34 then Some ([], r)
           else if c = 92 then
             (case r of
                [] \<Rightarrow> None
              | e # r' \<Rightarrow>
                  (if e = 117 then
                     (case unicode_escape r' of
                        None \<Rightarrow> None
                      | Some (u, r'') \<Rightarrow> map_option (\<lambda>(t, q). (u # t, q)) (string_body r''))
                   else
                     (case simple_escape e of
                        None \<Rightarrow> None
                      | Some u \<Rightarrow> map_option (\<lambda>(t, q). (u # t, q)) (string_body r'))))
           else if c < 32 then None
           else map_option (\<lambda>(t, q). (c # t, q)) (string_body r)))"
  by pat_completeness auto
termination
  by (relation "measure length") (auto dest!: unicode_escape_shorter)

declare string_body.simps [simp del]

text \<open>
  Numbers, following the scanner's regular expression: an optional sign, an integer part
  without superfluous zeros, an optional fraction and an optional exponent. A fraction or
  exponent makes it a float.
\<close>

definition frac_part :: "pystr \<Rightarrow> pystr \<times> pystr" where
  "frac_part s =
     (case s of
        [] \<Rightarrow> ([], s)
      | c # r \<Rightarrow>
          (if c = 46 then
             (let ds = takeWhile is_digit r
              in if ds = [] then ([], s) else (46 # ds, dropWhile is_digit r))
           else ([], s)))"

definition exp_part :: "pystr \<Rightarrow> pystr \<times> pystr" where
  "exp_part s =
     (case s of
        e # r \<Rightarrow>
          (if e = 101 \<or> e = 69 then
             (let sg = (case r of c # _ \<Rightarrow> if c = 43 \<or> c = 45 then [c] else [] | [] \<Rightarrow> []);
                  r' = drop (length sg) r; ds = takeWhile is_digit r'
              in if ds = [] then ([], s) else (e # sg @ ds, dropWhile is_digit r'))
           else ([], s))
      | [] \<Rightarrow> ([], s))"

definition int_part :: "pystr \<Rightarrow> (pystr \<times> pystr) option" where
  "int_part s =
     (case s of
        [] \<Rightarrow> None
      | c # r \<Rightarrow>
          (if c = 48 then Some ([48], r)
           else if is_digit c then Some (takeWhile is_digit s, dropWhile is_digit s)
           else None))"

definition number_tail :: "bool \<Rightarrow> pystr \<Rightarrow> (json \<times> pystr) option" where
  "number_tail neg s =
     (case int_part s of
        None \<Rightarrow>
          (if str_prefix (ascii ''Infinity'') s then
             Some (JFloat ((if neg then [45] else []) @ ascii ''Infinity''), drop 8 s)
           else if \<not> neg \<and> str_prefix (ascii ''NaN'') s then Some (JFloat (ascii ''NaN''), drop 3 s)
           else None)
      | Some (ip, r) \<Rightarrow>
          (let (fp, r1) = frac_part r; (ep, r2) = exp_part r1
           in if fp = [] \<and> ep = []
              then Some (JInt (if neg then - int (digits_val ip) else int (digits_val ip)), r2)
              else Some (JFloat ((if neg then [45] else []) @ ip @ fp @ ep), r2)))"

definition number :: "pystr \<Rightarrow> (json \<times> pystr) option" where
  "number s =
     (case s of
        [] \<Rightarrow> None
      | c # r \<Rightarrow> if c = 45 then number_tail True r else number_tail False s)"

text \<open>Values, array items and object members; the fuel bounds the nesting and the number of items.\<close>

fun jvalue :: "nat \<Rightarrow> pystr \<Rightarrow> (json \<times> pystr) option"
  and jitems :: "nat \<Rightarrow> json list \<Rightarrow> pystr \<Rightarrow> (json \<times> pystr) option"
  and jmembers :: "nat \<Rightarrow> json dict \<Rightarrow> pystr \<Rightarrow> (json \<times> pystr) option" where
  "jvalue 0 s = None"
| "jvalue (Suc n) s =
     (case s of
        [] \<Rightarrow> None
      | c # r \<Rightarrow>
          (if c = 34 then map_option (\<lambda>(t, q). (JStr t, q)) (string_body r)
           else if c = 123 then
             (case skip_ws r of
                [] \<Rightarrow> None
              | d # r' \<Rightarrow> if d = 125 then Some (JObj [], r') else jmembers n [] (d # r'))
           else if c = 91 then
             (case skip_ws r of
                [] \<Rightarrow> None
              | d # r' \<Rightarrow> if d = 93 then Some (JArr [], r') else jitems n [] (d # r'))
           else if str_prefix (ascii ''null'') s then Some (JNull, drop 4 s)
           else if str_prefix (ascii ''true'') s then Some (JBool True, drop 4 s)
           else if str_prefix (ascii ''false'') s then Some (JBool False, drop 5 s)
           else number s))"
| "jitems 0 acc s = None"
| "jitems (Suc n) acc s =
     (case jvalue n s of
        None \<Rightarrow> None
      | Some (v, r) \<Rightarrow>
          (case skip_ws r of
             [] \<Rightarrow> None
           | d # r' \<Rightarrow>
               if d = 44 then jitems n (acc @ [v]) (skip_ws r')
               else if d = 93 then Some (JArr (acc @ [v]), r')
               else None))"
| "jmembers 0 acc s = None"
| "jmembers (Suc n) acc s =
     (case s of
        [] \<Rightarrow> None
      | q # r \<Rightarrow>
          (if q \<noteq> 34 then None
           else case string_body r of
                  None \<Rightarrow> None
                | Some (k, r1) \<Rightarrow>
                    (case skip_ws r1 of
                       [] \<Rightarrow> None
                     | col # r2 \<Rightarrow>
                         (if col \<noteq> 58 then None
                          else case jvalue n (skip_ws r2) of
                                 None \<Rightarrow> None
                               | Some (v, r3) \<Rightarrow>
                                   (case skip_ws r3 of
                                      [] \<Rightarrow> None
                                    | d # r4 \<Rightarrow>
                                        if d = 44 then jmembers n (dict_set k v acc) (skip_ws r4)
                                        else if d = 125 then Some (JObj (dict_set k v acc), r4)
                                        else None)))))"

definition json_fuel :: "pystr \<Rightarrow> nat" where
  "json_fuel s = 2 * length s + 2"

definition raw_decode :: "pystr \<Rightarrow> (json \<times> pystr) option" where
  "raw_decode s = jvalue (json_fuel s) s"

definition loads :: "pystr \<Rightarrow> json option" where
  "loads s =
     (case raw_decode (skip_ws s) of
        None \<Rightarrow> None
      | Some (v, r) \<Rightarrow> if skip_ws r = [] then Some v else None)"

section \<open>Tolerant parsing of model output\<close>

text \<open>\<open>text.find(c)\<close> as an option.\<close>

fun find_char :: "nat \<Rightarrow> pystr \<Rightarrow> nat option" where
  "find_char c [] = None"
| "find_char c (d # s) = (if c = d then Some 0 else map_option Suc (find_char c s))"

definition strip_char :: "nat \<Rightarrow> pystr \<Rightarrow> pystr" where
  "strip_char c s = rev (dropWhile ((=) c) (rev (dropWhile ((=) c) s)))"

definition strip_fence :: "pystr \<Rightarrow> pystr" where
  "strip_fence s =
     (let t = str_strip s in
      if str_prefix [96, 96, 96] t then
        (let u = strip_char 96 t
         in if str_prefix (ascii ''json'') u then drop 4 u else u)
      else t)"

definition json_starts :: "pystr \<Rightarrow> nat list" where
  "json_starts t =
     sort ((case find_char 123 t of Some i \<Rightarrow> [i] | None \<Rightarrow> [])
           @ (case find_char 91 t of Some i \<Rightarrow> [i] | None \<Rightarrow> []))"

fun try_starts :: "pystr \<Rightarrow> nat list \<Rightarrow> json option" where
  "try_starts t [] = None"
| "try_starts t (i # is) =
     (case raw_decode (drop i t) of
        None \<Rightarrow> try_starts t is
      | Some (v, _) \<Rightarrow> (case v of JObj _ \<Rightarrow> Some v | JArr _ \<Rightarrow> Some v | _ \<Rightarrow> None))"

definition parse_json_loose :: "pystr \<Rightarrow> json option" where
  "parse_json_loose txt = (let t = strip_fence txt in try_starts t (json_starts t))"

section \<open>Decoding inverts encoding\<close>

text \<open>
  Values that \<open>dumps\<close> renders faithfully: keys of an object are distinct and a float carries
  a literal that the number scanner reads as a float.
\<close>

fun wf_json :: "json \<Rightarrow> bool" where
  "wf_json (JFloat f) = (number f = Some (JFloat f, []))"
| "wf_json (JArr xs) = (\<forall>x \<in> set xs. wf_json x)"
| "wf_json (JObj kvs) = (distinct (map fst kvs) \<and> (\<forall>kv \<in> set kvs. wf_json (snd kv)))"
| "wf_json _ = True"

text \<open>Text that cannot continue a number.\<close>

definition num_stop :: "pystr \<Rightarrow> bool" where
  "num_stop s = (case s of [] \<Rightarrow> True | c # _ \<Rightarrow> \<not> is_digit c \<and> c \<notin> {43, 45, 46, 69, 101})"

subsection \<open>Strings\<close>

lemma hex_val_digit: "d < 16 \<Longrightarrow> hex_val (hex_digit d) = Some d"
  by (auto simp: hex_val_def hex_digit_def)

lemma unicode_escape_control:
  "c < 32 \<Longrightarrow> unicode_escape (48 # 48 # hex_digit (c div 16) # hex_digit (c mod 16) # t) = Some (c, t)"
proof -
  assume c: "c < 32"
  then have "c div 16 < 16" and "c mod 16 < 16" by simp_all
  moreover have "hex_val 48 = Some 0" by (simp add: hex_val_def)
  moreover have "c div 16 * 16 + c mod 16 = c" by simp
  ultimately show ?thesis using c
    by (simp add: unicode_escape_def hex4_def hex_val_digit del: div_mult_mod_eq)
qed

lemma string_body_esc:
  "string_body (esc_char c @ t) = map_option (\<lambda>(u, q). (c # u, q)) (string_body t)"
  by (subst string_body.simps)
    (simp add: esc_char_def simple_escape_def unicode_escape_control split: option.split)

lemma string_body_dumps:
  "string_body (concat (map esc_char s) @ 34 # rest) = Some (s, rest)"
proof (induction s)
  case Nil
  show ?case by (subst string_body.simps) simp
next
  case (Cons c s)
  then show ?case by (simp add: string_body_esc)
qed

subsection \<open>Numbers\<close>

lemma takeWhile_stop: "num_stop rest \<Longrightarrow> takeWhile is_digit (s @ rest) = takeWhile is_digit s"
  by (induction s) (auto simp: num_stop_def split: list.splits)

lemma dropWhile_stop: "num_stop rest \<Longrightarrow> dropWhile is_digit (s @ rest) = dropWhile is_digit s @ rest"
  by (induction s) (auto simp: num_stop_def split: list.splits)

lemma frac_part_stop:
  "num_stop rest \<Longrightarrow> frac_part (s @ rest) = (fst (frac_part s), snd (frac_part s) @ rest)"
proof (cases s)
  case Nil
  assume "num_stop rest"
  then show ?thesis using Nil by (auto simp: frac_part_def num_stop_def split: list.splits)
next
  case (Cons c r)
  assume "num_stop rest"
  then show ?thesis using Cons by (simp add: frac_part_def Let_def takeWhile_stop dropWhile_stop)
qed

lemma exp_part_stop:
  assumes "num_stop rest"
  shows "exp_part (s @ rest) = (fst (exp_part s), snd (exp_part s) @ rest)"
proof (cases s)
  case Nil
  then show ?thesis using assms by (auto simp: exp_part_def num_stop_def split: list.splits)
next
  case (Cons e r)
  show ?thesis
  proof (cases r)
    case Nil
    then show ?thesis using Cons assms
      by (auto simp: exp_part_def num_stop_def Let_def split: list.splits)
  next
    case (Cons c r')
    then show ?thesis using \<open>s = e # r\<close> assms
      by (auto simp: exp_part_def Let_def takeWhile_stop dropWhile_stop
          takeWhile_stop [of rest "c # r'", simplified] dropWhile_stop [of rest "c # r'", simplified])
  qed
qed

lemma int_part_stop:
  "num_stop rest \<Longrightarrow> s \<noteq> [] \<Longrightarrow>
     int_part (s @ rest) = map_option (\<lambda>(a, b). (a, b @ rest)) (int_part s)"
  using takeWhile_stop [of rest s] dropWhile_stop [of rest s]
  by (cases s) (auto simp: int_part_def)

lemma str_prefix_drop: "str_prefix p s \<Longrightarrow> n = length p \<Longrightarrow> drop n (s @ t) = drop n s @ t"
  by (auto simp: str_prefix_iff)

lemma number_tail_stop:
  assumes "number_tail neg s = Some (v, [])" and "num_stop rest"
  shows "number_tail neg (s @ rest) = Some (v, rest)"
proof -
  have sne: "s \<noteq> []" using assms(1) by (auto simp: number_tail_def int_part_def ascii_def split: if_splits)
  note ip = int_part_stop [OF assms(2) sne]
  show ?thesis
  proof (cases "int_part s")
    case None
    then show ?thesis using assms(1) ip
      by (auto simp: number_tail_def str_prefix_iff ascii_def split: if_splits)
  next
    case (Some a)
    then show ?thesis using assms ip
      by (auto simp: number_tail_def Let_def frac_part_stop exp_part_stop
          split: prod.splits if_splits)
  qed
qed

lemma number_stop:
  "\<lbrakk>number f = Some (v, []); num_stop rest\<rbrakk> \<Longrightarrow> number (f @ rest) = Some (v, rest)"
  using number_tail_stop [of False f v rest] number_tail_stop [of True "tl f" v rest]
  by (cases f) (auto simp: number_def)

lemma hd_nat_str: "0 < n \<Longrightarrow> hd (nat_str n) \<noteq> 48"
proof (induction n rule: nat_str.induct)
  case (1 n)
  then show ?case by (cases "n < 10") (auto simp: nat_str.simps [of n])
qed

lemma int_part_nat_str: "int_part (nat_str n) = Some (nat_str n, [])"
proof (cases "n = 0")
  case True
  have "nat_str 0 = [48]" by (simp add: nat_str.simps)
  with True show ?thesis by (simp add: int_part_def)
next
  case False
  obtain c r where cr: "nat_str n = c # r" by (metis list.exhaust nat_str_not_Nil)
  have digs: "\<forall>d \<in> set (nat_str n). is_digit d" using nat_str_digits by (auto simp: is_digit_def)
  moreover have "c \<noteq> 48" using hd_nat_str [of n] False cr by simp
  ultimately show ?thesis using cr
    by (simp add: int_part_def takeWhile_eq_all_conv [THEN iffD2] dropWhile_eq_Nil_conv [THEN iffD2])
qed

lemma number_int_str: "number (int_str i) = Some (JInt i, [])"
proof (cases "i < 0")
  case True
  have "number_tail True (nat_str (nat (- i))) = Some (JInt i, [])"
    using True by (simp add: number_tail_def int_part_nat_str frac_part_def exp_part_def)
  with True show ?thesis by (simp add: int_str_def number_def)
next
  case False
  obtain c r where cr: "nat_str (nat i) = c # r" by (metis list.exhaust nat_str_not_Nil)
  have "c \<noteq> 45" using nat_str_digits [of c "nat i"] cr by auto
  moreover have "number_tail False (nat_str (nat i)) = Some (JInt i, [])"
    using False by (simp add: number_tail_def int_part_nat_str frac_part_def exp_part_def)
  ultimately show ?thesis using False cr by (simp add: int_str_def number_def)
qed

text \<open>A number starts with a sign, a digit, \<open>I\<close> or \<open>N\<close>.\<close>

lemma number_head: "number s = Some x \<Longrightarrow> s \<noteq> [] \<and> (hd s = 45 \<or> is_digit (hd s) \<or> hd s = 73 \<or> hd s = 78)"
  by (cases s)
    (auto simp: number_def number_tail_def int_part_def is_digit_def str_prefix_iff ascii_def
      split: if_splits)

lemma jvalue_number:
  assumes "number (s @ rest) = Some (v, rest)" and "s \<noteq> []"
  shows "jvalue (Suc n) (s @ rest) = Some (v, rest)"
proof -
  have "hd (s @ rest) = 45 \<or> is_digit (hd (s @ rest)) \<or> hd (s @ rest) = 73 \<or> hd (s @ rest) = 78"
    using number_head [OF assms(1)] by simp
  with assms show ?thesis
    by (cases s) (auto simp: ascii_def is_digit_def)
qed

subsection \<open>Values\<close>

lemma dumps_head:
  "wf_json v \<Longrightarrow> dumps v \<noteq> [] \<and> \<not> json_ws (hd (dumps v)) \<and> hd (dumps v) \<noteq> 93"
proof (cases v)
  case (JInt i)
  then show ?thesis using number_head [OF number_int_str, of i]
    by (auto simp: json_ws_def is_digit_def)
next
  case (JFloat f)
  assume "wf_json v"
  then show ?thesis using JFloat number_head [of f]
    by (auto simp: json_ws_def is_digit_def)
qed (auto simp: ascii_def json_ws_def dumps_str_def)

lemma skip_ws_dumps: "wf_json v \<Longrightarrow> skip_ws (32 # dumps v @ t) = dumps v @ t"
  using dumps_head [of v] by (cases "dumps v") (auto simp: skip_ws_def json_ws_def)

definition decodes :: "json \<Rightarrow> bool" where
  "decodes v \<longleftrightarrow> (\<forall>n rest. 2 * length (dumps v) \<le> n \<longrightarrow> num_stop rest \<longrightarrow>
      jvalue n (dumps v @ rest) = Some (v, rest))"

lemma num_stop_sep [simp]: "num_stop (44 # t)" "num_stop (93 # t)" "num_stop (125 # t)" "num_stop []"
  by (simp_all add: num_stop_def is_digit_def)

lemma skip_ws_sep [simp]:
  "skip_ws (44 # t) = 44 # t" "skip_ws (93 # t) = 93 # t" "skip_ws (125 # t) = 125 # t"
  "skip_ws (58 # t) = 58 # t" "skip_ws (34 # t) = 34 # t" "skip_ws (32 # 34 # t) = 34 # t"
  "skip_ws [] = []"
  by (simp_all add: skip_ws_def json_ws_def)

lemma jitems_dumps:
  "\<lbrakk>xs \<noteq> []; \<forall>x \<in> set xs. decodes x \<and> wf_json x; 2 * length (str_join [44, 32] (map dumps xs)) + 1 \<le> n\<rbrakk> \<Longrightarrow>
     jitems n acc (str_join [44, 32] (map dumps xs) @ 93 # rest) = Some (JArr (acc @ xs), rest)"
proof (induction xs arbitrary: n acc)
  case Nil
  then show ?case by simp
next
  case (Cons x xs)
  then obtain m where n: "n = Suc m" by (cases n) auto
  show ?case
  proof (cases xs)
    case Nil
    then show ?thesis using Cons.prems n by (simp add: decodes_def)
  next
    case (Cons y ys)
    let ?rest = "str_join [44, 32] (map dumps xs)"
    have join: "str_join [44, 32] (map dumps (x # xs)) = dumps x @ [44, 32] @ ?rest"
      using Cons by simp
    have "jvalue m (dumps x @ 44 # 32 # ?rest @ 93 # rest) = Some (x, 44 # 32 # ?rest @ 93 # rest)"
      using Cons.prems n join by (simp add: decodes_def)
    moreover have "skip_ws (32 # ?rest @ 93 # rest) = ?rest @ 93 # rest"
    proof -
      obtain t where "?rest = dumps y @ t" using Cons by (cases ys) auto
      then show ?thesis using skip_ws_dumps [of y "t @ 93 # rest"] Cons.prems(2) Cons by simp
    qed
    moreover have "jitems m (acc @ [x]) (?rest @ 93 # rest) = Some (JArr ((acc @ [x]) @ xs), rest)"
      by (rule Cons.IH) (use Cons.prems n join Cons in simp_all)
    ultimately show ?thesis using join n by simp
  qed
qed

lemma jmembers_dumps:
  "\<lbrakk>kvs \<noteq> []; \<forall>kv \<in> set kvs. decodes (snd kv) \<and> wf_json (snd kv);
    distinct (map fst kvs); fst ` set acc \<inter> fst ` set kvs = {};
    2 * length (str_join [44, 32] (map (\<lambda>kv. dumps_str (fst kv) @ [58, 32] @ dumps (snd kv)) kvs)) + 1 \<le> n\<rbrakk> \<Longrightarrow>
     jmembers n acc (str_join [44, 32] (map (\<lambda>kv. dumps_str (fst kv) @ [58, 32] @ dumps (snd kv)) kvs) @ 125 # rest)
       = Some (JObj (acc @ kvs), rest)"
proof (induction kvs arbitrary: n acc)
  case Nil
  then show ?case by simp
next
  case (Cons kv kvs)
  let ?mem = "\<lambda>kv. dumps_str (fst kv) @ [58, 32] @ dumps (snd kv)"
  obtain k v where kv: "kv = (k, v)" by (cases kv)
  obtain m where n: "n = Suc m" using Cons.prems(5) by (cases n) auto
  have fresh: "dict_set k v acc = acc @ [(k, v)]"
    using Cons.prems(4) kv unfolding dict_set_def by (induction acc) auto
  have val: "jvalue m (dumps v @ t) = Some (v, t)"
    if "num_stop t" "2 * length (dumps v) \<le> m" for t
    using Cons.prems(2) kv that by (simp add: decodes_def)
  have sws: "skip_ws (32 # dumps v @ t) = dumps v @ t" for t
    using skip_ws_dumps Cons.prems(2) kv by simp
  show ?case
  proof (cases kvs)
    case Nil
    then have "2 * length (dumps v) \<le> m" using Cons.prems(5) kv n by simp
    then show ?thesis using Nil n kv fresh
      by (simp add: dumps_str_def string_body_dumps sws val)
  next
    case (Cons kw kvs')
    let ?rest = "str_join [44, 32] (map ?mem kvs)"
    have join: "str_join [44, 32] (map ?mem (kv # kvs)) = ?mem kv @ [44, 32] @ ?rest"
      using Cons by simp
    have "2 * length (dumps v) \<le> m" using Cons.prems(5) n join kv by simp
    moreover have "skip_ws (32 # ?rest @ 125 # rest) = ?rest @ 125 # rest"
    proof -
      obtain t where "?rest = 34 # t" using Cons by (cases kvs') (auto simp: dumps_str_def)
      then show ?thesis by simp
    qed
    moreover have "jmembers m (acc @ [(k, v)]) (?rest @ 125 # rest) = Some (JObj ((acc @ [(k, v)]) @ kvs), rest)"
      by (rule Cons.IH) (use Cons.prems n join Cons kv in \<open>auto simp: dumps_str_def\<close>)
    ultimately show ?thesis using join n kv fresh
      by (simp add: dumps_str_def string_body_dumps sws val)
  qed
qed

lemma jvalue_array:
  assumes "\<forall>x \<in> set xs. decodes x \<and> wf_json x"
  shows "decodes (JArr xs)"
  unfolding decodes_def
proof (intro allI impI)
  fix n rest assume n: "2 * length (dumps (JArr xs)) \<le> n" and "num_stop rest"
  then obtain m where m: "n = Suc m" by (cases n) auto
  show "jvalue n (dumps (JArr xs) @ rest) = Some (JArr xs, rest)"
  proof (cases xs)
    case Nil
    then show ?thesis using m by simp
  next
    case (Cons x ys)
    let ?j = "str_join [44, 32] (map dumps xs)"
    obtain t where j: "?j = dumps x @ t" using Cons by (cases ys) auto
    obtain d u where d: "dumps x = d # u" and "\<not> json_ws d" and "d \<noteq> 93"
      using dumps_head [of x] assms Cons by (cases "dumps x") auto
    then have "skip_ws (?j @ 93 # rest) = ?j @ 93 # rest"
      using j by (simp add: skip_ws_def)
    moreover have "jitems m [] (?j @ 93 # rest) = Some (JArr ([] @ xs), rest)"
      by (rule jitems_dumps) (use assms Cons n m in simp_all)
    ultimately show ?thesis using m j d \<open>d \<noteq> 93\<close> by simp
  qed
qed

lemma jvalue_object:
  assumes "\<forall>kv \<in> set kvs. decodes (snd kv) \<and> wf_json (snd kv)" and "distinct (map fst kvs)"
  shows "decodes (JObj kvs)"
  unfolding decodes_def
proof (intro allI impI)
  fix n rest assume n: "2 * length (dumps (JObj kvs)) \<le> n" and "num_stop rest"
  then obtain m where m: "n = Suc m" by (cases n) auto
  show "jvalue n (dumps (JObj kvs) @ rest) = Some (JObj kvs, rest)"
  proof (cases kvs)
    case Nil
    then show ?thesis using m by simp
  next
    case (Cons kv kws)
    let ?j = "str_join [44, 32] (map (\<lambda>kv. dumps_str (fst kv) @ [58, 32] @ dumps (snd kv)) kvs)"
    obtain t where j: "?j = 34 # t" using Cons by (cases kws) (auto simp: dumps_str_def)
    have "jmembers m [] (?j @ 125 # rest) = Some (JObj ([] @ kvs), rest)"
      by (rule jmembers_dumps) (use assms Cons n m in simp_all)
    then show ?thesis using m j by simp
  qed
qed

lemma decodesI:
  assumes "dumps v \<noteq> []" and "\<And>m rest. num_stop rest \<Longrightarrow> jvalue (Suc m) (dumps v @ rest) = Some (v, rest)"
  shows "decodes v"
  unfolding decodes_def
proof (intro allI impI)
  fix n rest assume "2 * length (dumps v) \<le> n" and "num_stop rest"
  moreover obtain m where "n = Suc m" using calculation(1) assms(1) by (cases n) auto
  ultimately show "jvalue n (dumps v @ rest) = Some (v, rest)" using assms(2) by simp
qed

lemma decodes_number:
  assumes "number (dumps v) = Some (v, [])"
  shows "decodes v"
proof (rule decodesI)
  show ne: "dumps v \<noteq> []" using number_head [OF assms] by simp
  fix m rest assume "num_stop rest"
  with assms show "jvalue (Suc m) (dumps v @ rest) = Some (v, rest)"
    by (intro jvalue_number number_stop ne)
qed

lemma decodes_all: "wf_json v \<Longrightarrow> decodes v"
proof (induction v)
  case (JInt i)
  show ?case by (rule decodes_number) (simp add: number_int_str)
next
  case (JFloat f)
  then show ?case by (intro decodes_number) simp
next
  case (JStr s)
  show ?case by (rule decodesI) (simp_all add: dumps_str_def string_body_dumps)
next
  case (JArr xs)
  then show ?case by (intro jvalue_array) auto
next
  case (JObj kvs)
  have "decodes (snd kv)" if "kv \<in> set kvs" for kv
    using JObj.IH [of kv "snd kv"] JObj.prems that by (cases kv) auto
  with JObj.prems show ?case by (intro jvalue_object) auto
next
  case JNull
  show ?case by (rule decodesI) (simp_all add: ascii_def)
next
  case (JBool b)
  show ?case by (rule decodesI) (simp_all add: ascii_def)
qed

lemma loads_dumps: "wf_json v \<Longrightarrow> loads (dumps v) = Some v"
proof -
  assume v: "wf_json v"
  obtain c s where c: "dumps v = c # s" "\<not> json_ws c"
    using dumps_head [OF v] by (cases "dumps v") auto
  then have "skip_ws (dumps v) = dumps v" by (simp add: skip_ws_def)
  moreover have "2 * length (dumps v) \<le> json_fuel (dumps v)" by (simp add: json_fuel_def)
  then have "jvalue (json_fuel (dumps v)) (dumps v @ []) = Some (v, [])"
    using decodes_all [OF v, unfolded decodes_def] num_stop_sep(4) by blast
  ultimately show ?thesis by (simp add: loads_def raw_decode_def)
qed

section \<open>Properties\<close>

text \<open>A sample of a tool call's arguments.\<close>

definition sample_args :: json where
  "sample_args = JObj [(ascii ''q'', JArr [JStr [34, 92, 7], JInt (-12), JFloat (ascii ''0.5''), JNull]),
                       (ascii ''k'', JObj [])]"

text \<open>
  Storing a JSON value as text and reading it back gives the same value: \<open>loads\<close> inverts
  \<open>dumps\<close> on every value with distinct object keys and well-formed float literals, whatever
  characters its strings contain.
\<close>

theorem json_roundtrip:
  assumes "wf_json v"
  shows "loads (dumps v) = Some v"
  using assms by (rule loads_dumps)

theorem json_roundtrip_witness:
  "wf_json sample_args \<and> loads (dumps sample_args) = Some sample_args"
proof -
  have "wf_json sample_args" by code_simp
  then show ?thesis using json_roundtrip by blast
qed

end
