(* ===== verification/Errors.thy ===== *)
theory Errors
  imports Prelude
begin

text \<open>
  The error-code contract, transient-error detection, back-off and the token/step budget:
  \<^verbatim>\<open>app/core/errors.py\<close>, \<^verbatim>\<open>app/core/retry.py\<close>, \<^verbatim>\<open>app/core/budget.py\<close> and the failure
  classification of the critic (\<^verbatim>\<open>app/graph/nodes.py\<close>, lines 246--257 and 967--991).
\<close>

section \<open>Error codes\<close>

datatype tool_error_code =
    TIMEOUT | NETWORK | RATE_LIMITED | UPSTREAM_5XX | UPSTREAM_4XX
  | AUTH | PERMISSION | NOT_FOUND | INVALID_ARGS | UNKNOWN

definition retryable_by_code :: "tool_error_code \<Rightarrow> bool" where
  "retryable_by_code c =
     (case c of TIMEOUT \<Rightarrow> True | NETWORK \<Rightarrow> True | RATE_LIMITED \<Rightarrow> True | UPSTREAM_5XX \<Rightarrow> True
      | UPSTREAM_4XX \<Rightarrow> False | AUTH \<Rightarrow> False | PERMISSION \<Rightarrow> False | NOT_FOUND \<Rightarrow> False
      | INVALID_ARGS \<Rightarrow> False | UNKNOWN \<Rightarrow> False)"

definition code_from_http_status :: "int \<Rightarrow> tool_error_code" where
  "code_from_http_status status =
     (if status = 429 then RATE_LIMITED
      else if status = 401 \<or> status = 403 then AUTH
      else if status = 404 then NOT_FOUND
      else if 500 \<le> status \<and> status < 600 then UPSTREAM_5XX
      else if 400 \<le> status \<and> status < 500 then UPSTREAM_4XX
      else UNKNOWN)"

text \<open>
  The header \<open>Retry-After\<close> as seconds; \<open>to_float\<close> is Python's \<open>float\<close> of a text, \<open>None\<close> when it raises or is no number.
\<close>

definition parse_retry_after :: "(pystr \<Rightarrow> seconds option) \<Rightarrow> pystr option \<Rightarrow> seconds option" where
  "parse_retry_after to_float val =
     (case val of
        None \<Rightarrow> None
      | Some v \<Rightarrow>
          if v = [] then None
          else case to_float (str_strip v) of
                 None \<Rightarrow> None
               | Some secs \<Rightarrow> if secs \<ge> 0 then Some secs else None)"

text \<open>
  \<open>ToolExecutionError\<close>: message text, structured code, explicit override of retryability
  and the upstream's \<open>Retry-After\<close>.
\<close>

record exec_error =
  ee_message :: pystr
  ee_code :: "tool_error_code option"
  ee_retryable :: "bool option"
  ee_retry_after :: "seconds option"

definition tool_error :: "pystr \<Rightarrow> tool_error_code option \<Rightarrow> exec_error" where
  "tool_error msg c = \<lparr>ee_message = msg, ee_code = c, ee_retryable = None, ee_retry_after = None\<rparr>"

section \<open>Transient errors and back-off\<close>

definition transient_markers :: "pystr list" where
  "transient_markers = [ascii ''timeout'', [36229, 26102], ascii ''connection'', [32593, 32476],
                        ascii ''temporarily'']"

definition looks_transient :: "pystr \<Rightarrow> bool" where
  "looks_transient txt = (\<exists>m \<in> set transient_markers. str_in m (str_lower txt))"

definition is_transient_error :: "exec_error \<Rightarrow> bool" where
  "is_transient_error e =
     (case ee_retryable e of
        Some b \<Rightarrow> b
      | None \<Rightarrow>
          (case ee_code e of
             Some c \<Rightarrow> if c \<noteq> UNKNOWN then retryable_by_code c else looks_transient (ee_message e)
           | None \<Rightarrow> looks_transient (ee_message e)))"

definition retry_delay_hint :: "exec_error \<Rightarrow> seconds option" where
  "retry_delay_hint e =
     (case ee_retry_after e of
        None \<Rightarrow> None
      | Some s \<Rightarrow> if s \<ge> 0 then Some s else None)"

datatype retry_error = AttemptBelowOne

definition backoff_delay :: "int \<Rightarrow> seconds \<Rightarrow> seconds \<Rightarrow> retry_error + seconds" where
  "backoff_delay attempt base_delay_s max_delay_s =
     (if attempt < 1 then Inl AttemptBelowOne
      else Inr (min (base_delay_s * 2 ^ nat (attempt - 1)) max_delay_s))"

section \<open>Budget\<close>

datatype budget_action = BudgetOk | BudgetDowngrade | BudgetExceededAct

record budget_decision =
  bd_action :: budget_action
  bd_reason :: pystr

definition check_budget :: "int \<Rightarrow> int \<Rightarrow> int \<Rightarrow> int \<Rightarrow> bool \<Rightarrow> bool \<Rightarrow> budget_decision" where
  "check_budget tokens_used steps_used max_tokens max_steps downgraded has_cheap_model =
     (if steps_used \<ge> max_steps then
        \<lparr>bd_action = BudgetExceededAct,
         bd_reason = [27493, 25968, 39044, 31639, 32791, 23613, 65288] @ int_str steps_used @ ascii ''/'' @ int_str max_steps @ [65289]\<rparr>
      else if tokens_used \<ge> max_tokens then
        (if has_cheap_model \<and> \<not> downgraded then
           \<lparr>bd_action = BudgetDowngrade,
            bd_reason = ascii ''token '' @ [39044, 31639, 36229, 38480, 65288] @ int_str tokens_used @ ascii ''/''
              @ int_str max_tokens @ [65289, 65292, 38477, 32423, 20026, 20415, 23452, 27169, 22411, 32493, 36305]\<rparr>
         else
           \<lparr>bd_action = BudgetExceededAct,
            bd_reason = ascii ''token '' @ [39044, 31639, 32791, 23613, 65288] @ int_str tokens_used @ ascii ''/''
              @ int_str max_tokens @ [65289]\<rparr>)
      else \<lparr>bd_action = BudgetOk, bd_reason = []\<rparr>)"

section \<open>Failure classification\<close>

datatype error_kind = ERR_NONE | ERR_RETRYABLE | ERR_PLAN_DEFECT | ERR_FATAL

datatype error_type = EtValidation | EtRuntime

definition plan_defect_codes :: "tool_error_code set" where
  "plan_defect_codes = {INVALID_ARGS, NOT_FOUND}"

definition fatal_codes :: "tool_error_code set" where
  "fatal_codes = {PERMISSION, AUTH}"

definition unknown_tool_marker :: pystr where
  "unknown_tool_marker = [26410, 30693, 24037, 20855]"

definition fatal_markers :: "pystr list" where
  "fatal_markers = [[36234, 30028], ascii ''Permission'', [31105, 27490], [36335, 24452]]"

text \<open>\<open>_classify_failure\<close>: structured codes first, text only when no failure carries a code.\<close>

definition classify_failure :: "tool_error_code set \<Rightarrow> error_type set \<Rightarrow> pystr \<Rightarrow> error_kind" where
  "classify_failure codes error_types errors =
     (if codes \<inter> plan_defect_codes \<noteq> {} then ERR_PLAN_DEFECT
      else if codes \<inter> fatal_codes \<noteq> {} then ERR_FATAL
      else if codes \<noteq> {} then ERR_RETRYABLE
      else if str_in unknown_tool_marker errors then ERR_PLAN_DEFECT
      else if EtValidation \<in> error_types then ERR_PLAN_DEFECT
      else if looks_transient errors then ERR_RETRYABLE
      else if (\<exists>k \<in> set fatal_markers. str_in k errors) then ERR_FATAL
      else ERR_RETRYABLE)"

section \<open>Lemmas\<close>

lemma parse_retry_after_nonneg: "parse_retry_after to_float val = Some secs \<Longrightarrow> 0 \<le> secs"
  by (auto simp: parse_retry_after_def split: option.splits if_splits)

lemma backoff_le_max:
  "backoff_delay a b m = Inr d \<Longrightarrow> d \<le> m"
  by (auto simp: backoff_delay_def split: if_splits)

lemma backoff_nonneg:
  "\<lbrakk>backoff_delay a b m = Inr d; 0 \<le> b; 0 \<le> m\<rbrakk> \<Longrightarrow> 0 \<le> d"
  by (auto simp: backoff_delay_def split: if_splits)

lemma backoff_mono:
  assumes "1 \<le> a" and "a \<le> a'" and "0 \<le> b"
    and "backoff_delay a b m = Inr d" and "backoff_delay a' b m = Inr d'"
  shows "d \<le> d'"
proof -
  have "(2::real) ^ nat (a - 1) \<le> 2 ^ nat (a' - 1)"
    using assms(1,2) by (intro power_increasing) auto
  then have "b * 2 ^ nat (a - 1) \<le> b * 2 ^ nat (a' - 1)"
    using assms(3) by (rule mult_left_mono)
  with assms show ?thesis by (auto simp: backoff_delay_def split: if_splits)
qed

lemma retry_delay_hint_nonneg: "retry_delay_hint e = Some s \<Longrightarrow> 0 \<le> s"
  by (auto simp: retry_delay_hint_def split: option.splits if_splits)

lemma check_budget_ok_iff:
  "bd_action (check_budget t s mt ms dg ch) = BudgetOk \<longleftrightarrow> s < ms \<and> t < mt"
  by (auto simp: check_budget_def)

lemma check_budget_downgrade_iff:
  "bd_action (check_budget t s mt ms dg ch) = BudgetDowngrade \<longleftrightarrow> s < ms \<and> mt \<le> t \<and> ch \<and> \<not> dg"
  by (auto simp: check_budget_def)

lemma check_budget_exceeded_iff:
  "bd_action (check_budget t s mt ms dg ch) = BudgetExceededAct
     \<longleftrightarrow> ms \<le> s \<or> mt \<le> t \<and> (\<not> ch \<or> dg)"
  by (auto simp: check_budget_def)

lemmas check_budget_iffs =
  check_budget_ok_iff check_budget_downgrade_iff check_budget_exceeded_iff

lemma classify_coded:
  "codes \<noteq> {} \<Longrightarrow> classify_failure codes ets errors =
     (if codes \<inter> plan_defect_codes \<noteq> {} then ERR_PLAN_DEFECT
      else if codes \<inter> fatal_codes \<noteq> {} then ERR_FATAL else ERR_RETRYABLE)"
  by (simp add: classify_failure_def)

lemma classify_not_none: "classify_failure codes ets errors \<noteq> ERR_NONE"
  by (simp add: classify_failure_def)

end
