(* ===== verification/Llm.thy ===== *)
theory Llm
  imports Json_Codec Errors
begin

text \<open>
  The model-call layer (\<^verbatim>\<open>app/core/llm.py\<close>): message and response formats, token estimation,
  parsing of tool arguments, and the retry/fall-back loop of \<open>OpenAIChatLLM.chat\<close> around
  the one place where a request leaves the process. The upstream endpoint itself is a parameter.
\<close>

section \<open>Messages and responses\<close>

datatype role = RSystem | RUser | RAssistant | RTool

text \<open>An entry of an assistant message's \<open>tool_calls\<close>; the arguments are JSON text.\<close>

record wire_call =
  wc_id :: pystr
  wc_name :: pystr
  wc_arguments :: pystr

record message =
  m_role :: role
  m_content :: pystr
  m_tool_calls :: "wire_call list"
  m_tool_call_id :: "pystr option"
  m_name :: "pystr option"

definition plain_message :: "role \<Rightarrow> pystr \<Rightarrow> message" where
  "plain_message r c =
     \<lparr>m_role = r, m_content = c, m_tool_calls = [], m_tool_call_id = None, m_name = None\<rparr>"

text \<open>\<open>ToolCallRequest\<close>, which is also the shape of an entry of \<open>pending_tool_calls\<close>.\<close>

record tool_call =
  tc_id :: pystr
  tc_name :: pystr
  tc_arguments :: json
  tc_parse_error :: pystr

record llm_response =
  lr_text :: pystr
  lr_tool_calls :: "tool_call list"
  lr_model :: pystr
  lr_tokens :: int

definition assistant_message :: "llm_response \<Rightarrow> message" where
  "assistant_message r =
     \<lparr>m_role = RAssistant, m_content = lr_text r,
      m_tool_calls = map (\<lambda>c. \<lparr>wc_id = tc_id c, wc_name = tc_name c,
                                wc_arguments = dumps (tc_arguments c)\<rparr>) (lr_tool_calls r),
      m_tool_call_id = None, m_name = None\<rparr>"

section \<open>Token estimation\<close>

definition is_cjk :: "nat \<Rightarrow> bool" where
  "is_cjk c = (19968 \<le> c \<and> c \<le> 40959)"

definition estimate_tokens :: "pystr \<Rightarrow> int" where
  "estimate_tokens t =
     (if t = [] then 0
      else let cjk = int (length (filter is_cjk t)) in cjk + (int (length t) - cjk) div 4 + 1)"

text \<open>
  The dictionary a \<open>tool_calls\<close> entry is on the wire, as \<open>_assistant_message\<close> builds it, and
  the lookup \<open>tc.get("arguments", {})\<close> that the estimate performs on it.
\<close>

definition wire_json :: "wire_call \<Rightarrow> json dict" where
  "wire_json tc =
     [(ascii ''id'', JStr (wc_id tc)), (ascii ''type'', JStr (ascii ''function'')),
      (ascii ''function'', JObj [(ascii ''name'', JStr (wc_name tc)),
                                 (ascii ''arguments'', JStr (wc_arguments tc))])]"

definition wire_call_arguments :: "wire_call \<Rightarrow> json" where
  "wire_call_arguments tc =
     (case dict_get (wire_json tc) (ascii ''arguments'') of None \<Rightarrow> JObj [] | Some v \<Rightarrow> v)"

definition estimate_message :: "message \<Rightarrow> int" where
  "estimate_message m =
     estimate_tokens (m_content m)
     + sum_list (map (\<lambda>tc. estimate_tokens (dumps (wire_call_arguments tc))) (m_tool_calls m))"

definition estimate_messages_tokens :: "message list \<Rightarrow> int" where
  "estimate_messages_tokens ms = sum_list (map estimate_message ms)"

definition estimate_call_tokens :: "message list \<Rightarrow> pystr \<Rightarrow> int" where
  "estimate_call_tokens ms completion = estimate_messages_tokens ms + estimate_tokens completion"

section \<open>Tool arguments\<close>

definition type_name :: "json \<Rightarrow> pystr" where
  "type_name v =
     (case v of JNull \<Rightarrow> ascii ''NoneType'' | JBool _ \<Rightarrow> ascii ''bool'' | JInt _ \<Rightarrow> ascii ''int''
      | JFloat _ \<Rightarrow> ascii ''float'' | JStr _ \<Rightarrow> ascii ''str'' | JArr _ \<Rightarrow> ascii ''list''
      | JObj _ \<Rightarrow> ascii ''dict'')"

text \<open>\<open>err raw\<close> stands for the text of the \<open>JSONDecodeError\<close> that undecodable text raises.\<close>

definition parse_tool_arguments :: "(pystr \<Rightarrow> pystr) \<Rightarrow> pystr \<Rightarrow> json \<times> pystr" where
  "parse_tool_arguments err raw =
     (case loads raw of
        None \<Rightarrow>
          (JObj [], [27169, 22411, 36755, 20986, 30340] @ ascii '' tool arguments '' @ [19981, 26159, 21512, 27861] @ ascii '' JSON''
             @ [65288] @ err raw @ [65289, 65307, 21407, 22987, 25991, 26412] @ ascii '': '' @ take 500 raw)
      | Some v \<Rightarrow>
          (case v of
             JObj kvs \<Rightarrow> (JObj kvs, [])
           | _ \<Rightarrow>
               (JObj [], [27169, 22411, 36755, 20986, 30340] @ ascii '' tool arguments '' @ [19981, 26159] @ ascii '' JSON ''
                  @ [23545, 35937, 65288, 23454, 38469, 26159] @ ascii '' '' @ type_name v @ [65289, 65307, 21407, 22987, 25991, 26412] @ ascii '': ''
                  @ take 500 raw)))"

section \<open>The outgoing call with retries and fall-back\<close>

datatype llm_error =
    ApiConnectionError
  | RateLimitError "seconds option"
  | ApiStatusError int "seconds option"
  | OtherError pystr

text \<open>What the endpoint returns: content, raw tool calls and the optional usage record.\<close>

record completion =
  cm_content :: "pystr option"
  cm_calls :: "(pystr \<times> pystr \<times> pystr option) list"
  cm_usage :: "int option"

type_synonym 'w upstream =
  "pystr \<Rightarrow> message list \<Rightarrow> bool \<Rightarrow> 'w \<Rightarrow> (llm_error + completion) \<times> 'w"

record llm_client =
  default_model :: pystr
  fallback_model :: pystr
  max_retries :: nat
  retry_base_delay_s :: seconds

definition is_retryable_llm_error :: "llm_error \<Rightarrow> bool" where
  "is_retryable_llm_error e =
     (case e of ApiConnectionError \<Rightarrow> True | RateLimitError _ \<Rightarrow> True
      | ApiStatusError code _ \<Rightarrow> code \<ge> 500 | OtherError _ \<Rightarrow> False)"

definition error_retry_after :: "llm_error \<Rightarrow> seconds option" where
  "error_retry_after e =
     (case e of RateLimitError h \<Rightarrow> h | ApiStatusError _ h \<Rightarrow> h | _ \<Rightarrow> None)"

definition llm_retry_delay :: "llm_error \<Rightarrow> nat \<Rightarrow> seconds \<Rightarrow> seconds" where
  "llm_retry_delay e attempt base_s =
     min (case error_retry_after e of Some h \<Rightarrow> h | None \<Rightarrow> base_s * 2 ^ (attempt - 1)) 30"

definition response_of :: "(pystr \<Rightarrow> pystr) \<Rightarrow> pystr \<Rightarrow> message list \<Rightarrow> completion \<Rightarrow> llm_response" where
  "response_of err chosen msgs cm =
     (let calls = map (\<lambda>(i, n, a).
                    let raw = (case a of None \<Rightarrow> ascii ''{}'' | Some t \<Rightarrow> if t = [] then ascii ''{}'' else t);
                        (args, perr) = parse_tool_arguments err raw
                    in \<lparr>tc_id = i, tc_name = n, tc_arguments = args, tc_parse_error = perr\<rparr>) (cm_calls cm);
          content = (case cm_content cm of None \<Rightarrow> [] | Some t \<Rightarrow> t);
          tokens = (case cm_usage cm of
                      Some t \<Rightarrow> t
                    | None \<Rightarrow> estimate_call_tokens msgs
                        (content @ concat (map (\<lambda>c. dumps (tc_arguments c) @ tc_parse_error c) calls)))
      in \<lparr>lr_text = content, lr_tool_calls = calls, lr_model = chosen, lr_tokens = tokens\<rparr>)"

text \<open>
  One model: \<open>_chat_once\<close>. The log lists every upstream request with the pause taken after
  it, so bounds on requests and pauses can be stated.
\<close>

function chat_once ::
  "'w upstream \<Rightarrow> llm_client \<Rightarrow> (pystr \<Rightarrow> pystr) \<Rightarrow> pystr \<Rightarrow> message list \<Rightarrow> bool \<Rightarrow> nat \<Rightarrow> 'w
     \<Rightarrow> (llm_error + llm_response) \<times> (pystr \<times> seconds) list \<times> 'w" where
  "chat_once up cl err chosen msgs tools attempts w =
     (case up chosen msgs tools w of
        (Inr cm, w') \<Rightarrow> (Inr (response_of err chosen msgs cm), [(chosen, 0)], w')
      | (Inl e, w') \<Rightarrow>
          (if \<not> is_retryable_llm_error e \<or> attempts + 1 > max_retries cl
           then (Inl e, [(chosen, 0)], w')
           else (case chat_once up cl err chosen msgs tools (attempts + 1) w' of
                   (r, tr, w'') \<Rightarrow>
                     (r, (chosen, llm_retry_delay e (attempts + 1) (retry_base_delay_s cl)) # tr, w''))))"
  by pat_completeness auto
termination
  by (relation "measure (\<lambda>(up, cl, err, chosen, msgs, tools, attempts, w). Suc (max_retries cl) - attempts)") auto

declare chat_once.simps [simp del]

definition model_chain :: "llm_client \<Rightarrow> pystr option \<Rightarrow> pystr list" where
  "model_chain cl model =
     (let primary = (case model of Some m \<Rightarrow> if m = [] then default_model cl else m
                     | None \<Rightarrow> default_model cl)
      in primary # (if fallback_model cl \<noteq> [] \<and> fallback_model cl \<noteq> primary
                    then [fallback_model cl] else []))"

fun chat_chain ::
  "'w upstream \<Rightarrow> llm_client \<Rightarrow> (pystr \<Rightarrow> pystr) \<Rightarrow> message list \<Rightarrow> bool \<Rightarrow> pystr list \<Rightarrow> 'w
     \<Rightarrow> (llm_error + llm_response) \<times> (pystr \<times> seconds) list \<times> 'w" where
  "chat_chain up cl err msgs tools [] w = (Inl (OtherError (ascii ''unreachable'')), [], w)"
| "chat_chain up cl err msgs tools (m # ms) w =
     (case chat_once up cl err m msgs tools 0 w of
        (Inr r, tr, w') \<Rightarrow> (Inr r, tr, w')
      | (Inl e, tr, w') \<Rightarrow>
          (if ms = [] \<or> \<not> is_retryable_llm_error e then (Inl e, tr, w')
           else (case chat_chain up cl err msgs tools ms w' of
                   (r, tr', w'') \<Rightarrow> (r, tr @ tr', w''))))"

definition chat ::
  "'w upstream \<Rightarrow> llm_client \<Rightarrow> (pystr \<Rightarrow> pystr) \<Rightarrow> message list \<Rightarrow> bool \<Rightarrow> pystr option \<Rightarrow> 'w
     \<Rightarrow> (llm_error + llm_response) \<times> (pystr \<times> seconds) list \<times> 'w" where
  "chat up cl err msgs tools model w = chat_chain up cl err msgs tools (model_chain cl model) w"

section \<open>Lemmas\<close>

lemma estimate_tokens_nonneg [simp]: "0 \<le> estimate_tokens t"
  using length_filter_le [of is_cjk t] by (auto simp: estimate_tokens_def Let_def)

lemma estimate_message_nonneg [simp]: "0 \<le> estimate_message m"
  by (auto simp: estimate_message_def intro!: add_nonneg_nonneg sum_list_nonneg)

lemma estimate_messages_nonneg [simp]: "0 \<le> estimate_messages_tokens ms"
  by (auto simp: estimate_messages_tokens_def intro!: sum_list_nonneg)

lemma estimate_messages_append [simp]:
  "estimate_messages_tokens (xs @ ys) = estimate_messages_tokens xs + estimate_messages_tokens ys"
  by (simp add: estimate_messages_tokens_def)

lemma estimate_tokens_pos: "t \<noteq> [] \<Longrightarrow> 0 < estimate_tokens t"
  using length_filter_le [of is_cjk t] by (auto simp: estimate_tokens_def Let_def)

text \<open>The lookup misses: the arguments sit one level deeper, under \<open>function\<close>.\<close>

lemma wire_call_arguments_default: "wire_call_arguments tc = JObj []"
  by (simp add: wire_call_arguments_def wire_json_def dict_get_def ascii_def)

text \<open>Longer text never has a smaller estimate.\<close>

lemma estimate_tokens_append_le: "estimate_tokens t \<le> estimate_tokens (t @ u)"
proof (cases "t = []")
  case True
  then have "estimate_tokens t = 0" by (simp add: estimate_tokens_def)
  then show ?thesis by simp
next
  case False
  let ?c = "\<lambda>s. int (length (filter is_cjk s))" and ?l = "\<lambda>s. int (length s)"
  have "(?l t - ?c t) div 4 \<le> (?l (t @ u) - ?c (t @ u)) div 4"
    using length_filter_le [of is_cjk u] by (intro zdiv_mono1) auto
  then show ?thesis using False by (auto simp: estimate_tokens_def Let_def)
qed

lemma llm_retry_delay_le: "llm_retry_delay e a b \<le> 30"
  by (simp add: llm_retry_delay_def)

lemma chat_once_log:
  "chat_once up cl err chosen msgs tools attempts w = (r, tr, w') \<Longrightarrow>
     1 \<le> length tr \<and> length tr \<le> Suc (max_retries cl - attempts)
     \<and> (\<forall>(m, d) \<in> set tr. m = chosen \<and> d \<le> 30)"
proof (induction up cl err chosen msgs tools attempts w arbitrary: r tr w' rule: chat_once.induct)
  case (1 up cl err chosen msgs tools attempts w)
  obtain o' v where u: "up chosen msgs tools w = (o', v)" by (cases "up chosen msgs tools w")
  show ?case
  proof (cases o')
    case (Inr cm)
    then show ?thesis using "1.prems" u by (subst (asm) chat_once.simps) auto
  next
    case (Inl e)
    show ?thesis
    proof (cases "\<not> is_retryable_llm_error e \<or> attempts + 1 > max_retries cl")
      case True
      then show ?thesis using "1.prems" u Inl by (subst (asm) chat_once.simps) auto
    next
      case False
      obtain r' tr' w'' where rec: "chat_once up cl err chosen msgs tools (attempts + 1) v = (r', tr', w'')"
        using prod_cases3 by blast
      have "1 \<le> length tr' \<and> length tr' \<le> Suc (max_retries cl - (attempts + 1))
          \<and> (\<forall>(m, d) \<in> set tr'. m = chosen \<and> d \<le> 30)"
        by (rule "1.IH") (use u Inl False rec in auto)
      then show ?thesis using "1.prems" u Inl False rec
        by (subst (asm) chat_once.simps) (auto simp: llm_retry_delay_le)
    qed
  qed
qed

lemma chat_chain_log:
  "chat_chain up cl err msgs tools ms w = (r, tr, w') \<Longrightarrow>
     length tr \<le> length ms * Suc (max_retries cl) \<and> (\<forall>(m, d) \<in> set tr. m \<in> set ms \<and> d \<le> 30)"
proof (induction ms arbitrary: w r tr w')
  case Nil
  then show ?case by simp
next
  case (Cons m ms)
  obtain r1 tr1 w1 where one: "chat_once up cl err m msgs tools 0 w = (r1, tr1, w1)"
    using prod_cases3 by blast
  obtain r2 tr2 w2 where rest: "chat_chain up cl err msgs tools ms w1 = (r2, tr2, w2)"
    using prod_cases3 by blast
  note log1 = chat_once_log [OF one] and log2 = Cons.IH [OF rest]
  from Cons.prems one rest have "tr = tr1 \<or> tr = tr1 @ tr2"
    by (auto split: sum.splits if_splits)
  then show ?case using log1 log2 by auto
qed

section \<open>Properties\<close>

text \<open>
  One model call is bounded: \<open>chat\<close> sends at most \<open>2 * (max_retries + 1)\<close> requests,
  only to the requested model and the configured fall-back, and never pauses longer than 30
  seconds between two of them, whatever the upstream answers or puts into \<open>Retry-After\<close>.
\<close>

theorem chat_bounded:
  assumes "chat up cl err msgs tools model w = (r, tr, w')"
  shows "length tr \<le> 2 * (max_retries cl + 1)
    \<and> (\<forall>(m, d) \<in> set tr. m \<in> set (model_chain cl model) \<and> d \<le> 30)"
proof -
  have "length (model_chain cl model) \<le> 2" by (simp add: model_chain_def Let_def)
  then have "length (model_chain cl model) * Suc (max_retries cl) \<le> 2 * (max_retries cl + 1)"
    using mult_le_mono1 [of "length (model_chain cl model)" 2 "Suc (max_retries cl)"] by simp
  then show ?thesis using chat_chain_log [OF assms [unfolded chat_def]] by auto
qed

definition failing_upstream :: "nat upstream" where
  "failing_upstream = (\<lambda>m ms t n. (Inl (RateLimitError (Some 86400)), n + 1))"

definition sample_client :: llm_client where
  "sample_client = \<lparr>default_model = ascii ''a'', fallback_model = ascii ''b'', max_retries = 1,
                    retry_base_delay_s = 1\<rparr>"

lemma failing_chat:
  "chat failing_upstream sample_client id [] False None 0 =
     (Inl (RateLimitError (Some 86400)),
      [(ascii ''a'', 30), (ascii ''a'', 0), (ascii ''b'', 30), (ascii ''b'', 0)], 4)"
  by (simp add: chat_def model_chain_def sample_client_def failing_upstream_def chat_once.simps
      is_retryable_llm_error_def llm_retry_delay_def error_retry_after_def ascii_def)

theorem chat_bounded_witness:
  "length [(ascii ''a'', 30 :: real), (ascii ''a'', 0), (ascii ''b'', 30), (ascii ''b'', 0)]
     \<le> 2 * (max_retries sample_client + 1)"
  using chat_bounded [OF failing_chat] by blast

text \<open>
  The context estimate does not see tool-call arguments: an assistant message is estimated
  at the tokens of its text plus one per call, whatever the size of the arguments, because the
  estimate looks for \<open>arguments\<close> at the top level of an entry that keeps them under
  \<open>function\<close>.
\<close>

theorem estimate_ignores_arguments:
  "estimate_message (assistant_message r) = estimate_tokens (lr_text r) + int (length (lr_tool_calls r))"
proof -
  have "estimate_tokens (dumps (JObj [])) = 1"
    by (simp add: estimate_tokens_def is_cjk_def)
  then show ?thesis
    by (simp add: estimate_message_def assistant_message_def wire_call_arguments_default
        comp_def sum_list_triv)
qed

end
