(* ===== verification/Compressor.thy ===== *)
theory Compressor
  imports Llm
begin

text \<open>
  Context compression (\<^verbatim>\<open>app/core/compressor.py\<close>). The history of a task is a list of
  messages in which the tool results follow the assistant message that asked for them; the
  endpoint rejects a tool message without its parent, so the point of the window logic is that
  compression keeps that pairing.
\<close>

section \<open>Definitions\<close>

text \<open>The model as the graph nodes use it: messages, whether tools are offered, the model name.\<close>

type_synonym 'w chat_fn =
  "message list \<Rightarrow> bool \<Rightarrow> pystr \<Rightarrow> 'w \<Rightarrow> (llm_error + llm_response) \<times> 'w"

definition keep_recent_window :: nat where
  "keep_recent_window = 6"

definition needs_compression :: "message list \<Rightarrow> int \<Rightarrow> bool" where
  "needs_compression ms threshold = (estimate_messages_tokens ms > threshold)"

definition role_str :: "role \<Rightarrow> pystr" where
  "role_str r = (case r of RSystem \<Rightarrow> ascii ''system'' | RUser \<Rightarrow> ascii ''user''
                 | RAssistant \<Rightarrow> ascii ''assistant'' | RTool \<Rightarrow> ascii ''tool'')"

definition is_tool :: "message \<Rightarrow> bool" where
  "is_tool m = (m_role m = RTool)"

definition summary_prompt :: "pystr \<Rightarrow> pystr" where
  "summary_prompt trajectory =
     [20320, 26159, 32, 65, 103, 101, 110, 116, 32, 25191, 34892, 36712, 36857, 30340, 25688, 35201, 22120, 12290, 20197, 19979, 26159, 19968, 27573, 20808, 21069, 25191, 34892, 35760, 24405, 65292]
     @ [35831, 29992, 19981, 36229, 36807, 32, 50, 48, 48, 32, 23383, 21387, 32553, 65292, 20445, 30041, 65306, 24050, 23436, 25104, 30340, 21160, 20316, 12289, 20351, 29992, 36807, 30340, 24037, 20855, 19982, 21442, 25968, 35201, 28857, 12289]
     @ [24050, 30830, 35748, 30340, 20851, 38190, 20107, 23454, 47, 25968, 25454, 12289, 24453, 21150, 20107, 39033, 12290, 30452, 25509, 36755, 20986, 25688, 35201, 27491, 25991, 12290] @ [10, 10] @ trajectory"

definition trajectory_text :: "message list \<Rightarrow> pystr" where
  "trajectory_text mid =
     str_join [10] (map (\<lambda>m. ascii ''['' @ role_str (m_role m) @ ascii ''] '' @ take 400 (m_content m)) mid)"

definition summary_message :: "pystr \<Rightarrow> message" where
  "summary_message summary =
     plain_message RUser ([60] @ [20808, 21069, 25191, 34892, 25688, 35201, 65292, 30001, 19978, 19979, 25991, 21387, 32553, 33258, 21160, 29983, 25104] @ [62] @ [10] @ summary)"

text \<open>The split of the history into the part to summarise and the window that is kept.\<close>

definition split_history :: "message list \<Rightarrow> message list \<times> message list" where
  "split_history history =
     (let recent = take_last keep_recent_window history;
          mid = take (length history - length recent) history
      in (mid @ takeWhile is_tool recent, dropWhile is_tool recent))"

text \<open>
  \<open>compress_messages\<close>: \<open>None\<close> when the messages come back unchanged (nothing to do), otherwise
  the new list, the summary and the tokens of the summarising call.
\<close>

definition compress_messages ::
  "'w chat_fn \<Rightarrow> message list \<Rightarrow> int \<Rightarrow> pystr \<Rightarrow> 'w
     \<Rightarrow> (llm_error + (message list \<times> pystr \<times> int) option) \<times> 'w" where
  "compress_messages llm ms threshold model w =
     (if \<not> needs_compression ms threshold then (Inr None, w)
      else
        (let pinned = filter (\<lambda>m. m_role m = RSystem) ms;
             history = filter (\<lambda>m. m_role m \<noteq> RSystem) ms;
             (mid, recent) = split_history history
         in if mid = [] then (Inr None, w)
            else case llm [plain_message RUser (summary_prompt (trajectory_text mid))] False model w of
                   (Inl e, w') \<Rightarrow> (Inl e, w')
                 | (Inr resp, w') \<Rightarrow>
                     (let text = str_strip (lr_text resp);
                          summary = (if text = [] then [65288, 25688, 35201, 29983, 25104, 22833, 36133, 65292, 20165, 20445, 30041, 36817, 26399, 28040, 24687, 65289] else text)
                      in (Inr (Some (pinned @ [summary_message summary] @ recent, summary, lr_tokens resp)), w'))))"

definition inject_key_outputs :: "pystr \<Rightarrow> json dict \<Rightarrow> pystr" where
  "inject_key_outputs system_content key_outputs =
     (if key_outputs = [] then system_content
      else system_content @ [10, 10] @ [91, 20851, 38190, 25968, 25454, 65288, 24050, 30830, 35748, 65292, 19981, 21487, 21387, 32553, 65292, 30452, 25509, 24341, 29992, 65289, 93] @ [10]
           @ str_join [10] (map (\<lambda>(k, v). ascii ''- '' @ k @ ascii '': '' @ py_str v) key_outputs))"

section \<open>Paired histories\<close>

text \<open>
  Every assistant message with tool calls is followed by exactly one tool message per call, in
  the order of the calls and with the call's id; no other tool message occurs.
\<close>

definition answers :: "wire_call list \<Rightarrow> message list \<Rightarrow> bool" where
  "answers calls ms \<longleftrightarrow>
     list_all2 (\<lambda>c m. is_tool m \<and> m_tool_call_id m = Some (wc_id c)) calls ms"

function paired :: "message list \<Rightarrow> bool" where
  "paired [] = True"
| "paired (m # ms) =
     (\<not> is_tool m \<and>
      (if m_role m = RAssistant
       then let k = length (m_tool_calls m)
            in answers (m_tool_calls m) (take k ms) \<and> paired (drop k ms)
       else paired ms))"
  by pat_completeness auto
termination by (relation "measure length") auto

declare paired.simps(2) [simp del]

lemma answers_length: "answers cs ms \<Longrightarrow> length ms = length cs"
  by (auto simp: answers_def dest: list_all2_lengthD)

lemma answers_tools: "answers cs ms \<Longrightarrow> m \<in> set ms \<Longrightarrow> is_tool m"
  by (auto simp: answers_def list_all2_conv_all_nth in_set_conv_nth)

text \<open>Appending a complete round keeps the pairing.\<close>

lemma paired_append: "paired xs \<Longrightarrow> paired (xs @ ys) = paired ys"
proof (induction xs rule: paired.induct)
  case 1
  then show ?case by simp
next
  case (2 m ms)
  show ?case
  proof (cases "m_role m = RAssistant")
    case True
    let ?k = "length (m_tool_calls m)"
    have ans: "answers (m_tool_calls m) (take ?k ms)" and p: "paired (drop ?k ms)"
      using "2.prems" True by (simp_all add: paired.simps Let_def)
    have "?k \<le> length ms" using answers_length [OF ans] by simp
    then show ?thesis using True ans "2.IH"(1) [OF True refl p] "2.prems"
      by (simp add: paired.simps Let_def)
  next
    case False
    then show ?thesis using "2.IH"(2) [OF False] "2.prems" by (simp add: paired.simps)
  qed
qed

text \<open>A suffix that does not start inside a round is paired again.\<close>

lemma paired_suffix:
  "\<lbrakk>paired (xs @ ys); ys \<noteq> [] \<longrightarrow> \<not> is_tool (hd ys)\<rbrakk> \<Longrightarrow> paired ys"
proof (induction xs rule: measure_induct_rule [where f = length])
  case (less xs)
  show ?case
  proof (cases xs)
    case Nil
    with less.prems show ?thesis by simp
  next
    case (Cons m ms)
    show ?thesis
    proof (cases "m_role m = RAssistant")
      case False
      then show ?thesis using less.IH [of ms] less.prems Cons by (simp add: paired.simps)
    next
      case True
      let ?k = "length (m_tool_calls m)"
      have ans: "answers (m_tool_calls m) (take ?k (ms @ ys))" and p: "paired (drop ?k (ms @ ys))"
        using less.prems(1) Cons True by (simp_all add: paired.simps Let_def)
      show ?thesis
      proof (cases "?k \<le> length ms")
        case True
        then have "paired (drop ?k ms @ ys)" using p by simp
        then show ?thesis using less.IH [of "drop ?k ms"] less.prems(2) Cons by simp
      next
        case False
        then obtain j where j: "?k - length ms = Suc j" by (metis Suc_diff_Suc not_le)
        show ?thesis
        proof (cases ys)
          case (Cons y ys')
          then have "y \<in> set (take ?k (ms @ ys))" using j by simp
          then have "is_tool y" using answers_tools [OF ans] by blast
          then show ?thesis using less.prems(2) Cons by simp
        qed simp
      qed
    qed
  qed
qed

lemma paired_non_system:
  "paired ms \<Longrightarrow> paired (filter (\<lambda>m. m_role m \<noteq> RSystem) ms)"
proof (induction ms rule: paired.induct)
  case 1
  then show ?case by simp
next
  case (2 m ms)
  let ?ns = "\<lambda>m. m_role m \<noteq> RSystem"
  show ?case
  proof (cases "m_role m = RAssistant")
    case True
    let ?k = "length (m_tool_calls m)"
    have ans: "answers (m_tool_calls m) (take ?k ms)" and p: "paired (drop ?k ms)"
      using "2.prems" True by (simp_all add: paired.simps Let_def)
    have all: "filter ?ns (take ?k ms) = take ?k ms"
      using answers_tools [OF ans] by (auto simp: filter_id_conv is_tool_def)
    have "filter ?ns ms = take ?k ms @ filter ?ns (drop ?k ms)"
      by (metis all append_take_drop_id filter_append)
    moreover have "length (take ?k ms) = ?k" using answers_length [OF ans] .
    ultimately show ?thesis using True ans "2.IH"(1) [OF True refl p]
      by (simp add: paired.simps Let_def is_tool_def)
  next
    case False
    then show ?thesis using "2.IH"(2) [OF False] "2.prems" by (auto simp: paired.simps)
  qed
qed

lemma paired_system_prefix:
  "(\<forall>m \<in> set ps. m_role m = RSystem) \<Longrightarrow> paired (ps @ ys) = paired ys"
  by (induction ps) (auto simp: paired.simps is_tool_def)

lemma split_history_append: "split_history h = (mid, recent) \<Longrightarrow> h = mid @ recent"
  unfolding split_history_def Let_def take_last_def
  using append_take_drop_id [of "length h - keep_recent_window" h] by (auto simp: min_def split: if_splits)

lemma split_history_head: "split_history h = (mid, recent) \<Longrightarrow> recent \<noteq> [] \<longrightarrow> \<not> is_tool (hd recent)"
  unfolding split_history_def Let_def using hd_dropWhile [of is_tool "take_last keep_recent_window h"] by auto

lemma split_history_recent: "split_history h = (mid, recent) \<Longrightarrow> length recent \<le> keep_recent_window"
  unfolding split_history_def Let_def
  by (auto intro: order.trans [OF length_dropWhile_le])

section \<open>Compression keeps the history acceptable\<close>

lemma compress_messages_cases:
  assumes "compress_messages llm ms threshold model w = (Inr (Some (ms', summary, tokens)), w')"
  obtains mid recent resp where
    "split_history (filter (\<lambda>m. m_role m \<noteq> RSystem) ms) = (mid, recent)" and "mid \<noteq> []"
    and "llm [plain_message RUser (summary_prompt (trajectory_text mid))] False model w = (Inr resp, w')"
    and "ms' = filter (\<lambda>m. m_role m = RSystem) ms @ [summary_message summary] @ recent"
    and "tokens = lr_tokens resp" and "summary \<noteq> []"
proof -
  obtain mid recent where sp: "split_history (filter (\<lambda>m. m_role m \<noteq> RSystem) ms) = (mid, recent)" by fastforce
  then show thesis
    using assms that
    by (auto simp: compress_messages_def Let_def split: if_splits sum.splits prod.splits)
qed

lemma compress_messages_keeps_pairing:
  assumes "compress_messages llm ms threshold model w = (Inr (Some (ms', summary, tokens)), w')"
    and "paired ms"
  shows "paired ms'"
  using assms(1)
proof (cases rule: compress_messages_cases)
  case (1 mid recent resp)
  have "paired (mid @ recent)"
    using paired_non_system [OF assms(2)] split_history_append [OF 1(1)] by simp
  then have "paired recent" using paired_suffix split_history_head [OF 1(1)] by blast
  then show ?thesis
    unfolding 1(4) by (simp add: paired_system_prefix paired.simps summary_message_def plain_message_def is_tool_def)
qed

text \<open>
  When compression replaces the history, the new list is the system messages, one summary
  message in the user role and a window that is a suffix of the old history of at most six
  messages; a history in which every tool call is answered stays so, because the window never
  starts at an orphaned tool result; and the tokens of the summarising call are the ones the
  model reported.
\<close>

theorem compress_messages_paired:
  assumes "compress_messages llm ms threshold model w = (Inr (Some (ms', summary, tokens)), w')"
    and "paired ms"
  shows "paired ms' \<and> (\<exists>mid recent resp.
           filter (\<lambda>m. m_role m \<noteq> RSystem) ms = mid @ recent \<and> mid \<noteq> []
           \<and> length recent \<le> 6 \<and> (recent \<noteq> [] \<longrightarrow> \<not> is_tool (hd recent))
           \<and> ms' = filter (\<lambda>m. m_role m = RSystem) ms @ [summary_message summary] @ recent
           \<and> llm [plain_message RUser (summary_prompt (trajectory_text mid))] False model w = (Inr resp, w')
           \<and> tokens = lr_tokens resp \<and> summary \<noteq> [])"
  using assms(1)
proof (cases rule: compress_messages_cases)
  case (1 mid recent resp)
  note sp = split_history_append [OF 1(1)] split_history_head [OF 1(1)]
    split_history_recent [OF 1(1), unfolded keep_recent_window_def]
  show ?thesis
    using compress_messages_keeps_pairing [OF assms] sp 1(2-6) by blast
qed

definition demo_history :: "message list" where
  "demo_history =
     [plain_message RSystem (ascii ''rules''), plain_message RUser (ascii ''goal''),
      \<lparr>m_role = RAssistant, m_content = [],
       m_tool_calls = [\<lparr>wc_id = ascii ''c1'', wc_name = ascii ''t'', wc_arguments = ascii ''{}''\<rparr>],
       m_tool_call_id = None, m_name = None\<rparr>,
      \<lparr>m_role = RTool, m_content = ascii ''r'', m_tool_calls = [], m_tool_call_id = Some (ascii ''c1''),
       m_name = Some (ascii ''t'')\<rparr>]
     @ map (plain_message RUser \<circ> ascii) [''a'', ''b'', ''c'', ''d'', ''e'']"

definition demo_chat :: "unit chat_fn" where
  "demo_chat ms tools model w =
     (Inr \<lparr>lr_text = ascii ''done'', lr_tool_calls = [], lr_model = model, lr_tokens = 7\<rparr>, w)"

theorem compress_messages_paired_witness:
  "paired ([plain_message RSystem (ascii ''rules''), summary_message (ascii ''done'')]
           @ map (plain_message RUser \<circ> ascii) [''a'', ''b'', ''c'', ''d'', ''e''])"
proof -
  have long: "needs_compression demo_history 0"
    by (simp add: needs_compression_def estimate_messages_tokens_def estimate_message_def estimate_call_tokens_def
        wire_call_arguments_def wire_json_def dict_get_def estimate_tokens_def is_cjk_def demo_history_def plain_message_def ascii_def
        Let_def)
  have pinned: "filter (\<lambda>m. m_role m = RSystem) demo_history = [plain_message RSystem (ascii ''rules'')]"
    by code_simp
  have window: "split_history (filter (\<lambda>m. m_role m \<noteq> RSystem) demo_history)
      = (take 3 (drop 1 demo_history), map (plain_message RUser \<circ> ascii) [''a'', ''b'', ''c'', ''d'', ''e''])"
    by code_simp
  have some: "take 3 (drop 1 demo_history) \<noteq> []" by (simp add: demo_history_def)
  have strip: "str_strip (ascii ''done'') = ascii ''done''" "ascii ''done'' \<noteq> []" by (simp_all add: str_strip_def is_space_def ascii_def)
  have run: "compress_messages demo_chat demo_history 0 (ascii ''m'') ()
     = (Inr (Some ([plain_message RSystem (ascii ''rules''), summary_message (ascii ''done'')]
           @ map (plain_message RUser \<circ> ascii) [''a'', ''b'', ''c'', ''d'', ''e''], ascii ''done'', 7)), ())"
    using long pinned window some strip by (simp add: compress_messages_def demo_chat_def Let_def)
  have "paired demo_history" by code_simp
  then show ?thesis using compress_messages_paired [OF run] by blast
qed

end
