(* ===== verification/Registry.thy ===== *)
theory Registry
  imports Errors Llm "HOL-Library.List_Lexorder"
begin

text \<open>
  The tool registry (\<^verbatim>\<open>app/tools/registry.py\<close>): descriptors, schema validation, and the
  uniform execution of a handler in which every exception becomes a coded execution error.
  The JSON-Schema validator is a parameter of a tool (its \<open>iter_errors\<close>), and so is the handler;
  strings compare by code point, which is the lexicographic order on code-point lists.
\<close>

section \<open>Exceptions\<close>

text \<open>The exception classes the registry tells apart.\<close>

datatype exc_class = PermissionError | FileNotFoundError | ConnectionError | TimeoutError | ValueError

text \<open>
  What awaiting a handler under its timeout can raise. \<open>HxOther\<close> carries the class name, the
  text and those of the classes above the exception is an instance of; \<open>HxBase\<close> is an
  exception outside \<open>Exception\<close> (the process dies or the coroutine is cancelled).
\<close>

datatype handler_exc =
    HxTimeout
  | HxTool exec_error
  | HxUpstream int pystr "seconds option"
  | HxOther pystr pystr "exc_class set"
  | HxBase pystr

text \<open>The exceptions that travel through the graph nodes.\<close>

datatype raised =
    RValidation pystr
  | RExec exec_error
  | RLlm llm_error
  | ROther pystr
  | RBase pystr

definition exception_code_map :: "(exc_class \<times> tool_error_code) list" where
  "exception_code_map =
     [(PermissionError, PERMISSION), (FileNotFoundError, NOT_FOUND), (ConnectionError, NETWORK),
      (TimeoutError, TIMEOUT), (ValueError, INVALID_ARGS)]"

definition code_for_exception :: "exc_class set \<Rightarrow> tool_error_code option" where
  "code_for_exception classes =
     map_option snd (find (\<lambda>(exc_type, _). exc_type \<in> classes) exception_code_map)"

section \<open>Tools\<close>

text \<open>An element of a validation error's path: an object key or an array index.\<close>

datatype path_elem = PIndex int | PKey pystr

instantiation path_elem :: linorder
begin

fun less_eq_path_elem :: "path_elem \<Rightarrow> path_elem \<Rightarrow> bool" where
  "less_eq_path_elem (PIndex i) (PIndex j) = (i \<le> j)"
| "less_eq_path_elem (PIndex _) (PKey _) = True"
| "less_eq_path_elem (PKey _) (PIndex _) = False"
| "less_eq_path_elem (PKey a) (PKey b) = (a \<le> b)"

definition less_path_elem :: "path_elem \<Rightarrow> path_elem \<Rightarrow> bool" where
  "less_path_elem x y = (x \<le> y \<and> \<not> y \<le> x)"

instance
proof
  fix x y z :: path_elem
  show "(x < y) = (x \<le> y \<and> \<not> y \<le> x)" by (simp add: less_path_elem_def)
  show "x \<le> x" by (cases x) auto
  show "x \<le> y \<or> y \<le> x" by (cases x; cases y) auto
  show "x \<le> y \<Longrightarrow> y \<le> z \<Longrightarrow> x \<le> z" by (cases x; cases y; cases z) auto
  show "x \<le> y \<Longrightarrow> y \<le> x \<Longrightarrow> x = y" by (cases x; cases y) auto
qed

end

type_synonym validation_error = "path_elem list \<times> pystr"

type_synonym 'w tool_handler = "json \<Rightarrow> 'w \<Rightarrow> (handler_exc + json dict) \<times> 'w"

text \<open>
  \<open>ToolSpec\<close>. The handler is \<open>asyncio.wait_for(handler(arguments), timeout)\<close>; the time-out
  itself is kept as the text that the error message shows.
\<close>

record 'w tool_spec =
  ts_name :: pystr
  ts_description :: pystr
  ts_input_schema :: json
  ts_handler :: "'w tool_handler"
  ts_timeout_s :: pystr
  ts_key_result :: bool
  ts_key_output_limit :: nat
  ts_retry_transient :: bool
  ts_side_effect :: bool
  ts_iter_errors :: "json \<Rightarrow> validation_error list"

definition mcp_descriptor :: "'w tool_spec \<Rightarrow> json" where
  "mcp_descriptor spec =
     JObj [(ascii ''name'', JStr (ts_name spec)), (ascii ''description'', JStr (ts_description spec)),
           (ascii ''inputSchema'', ts_input_schema spec)]"

definition openai_schema :: "'w tool_spec \<Rightarrow> json" where
  "openai_schema spec =
     JObj [(ascii ''type'', JStr (ascii ''function'')),
           (ascii ''function'',
              JObj [(ascii ''name'', JStr (ts_name spec)), (ascii ''description'', JStr (ts_description spec)),
                    (ascii ''parameters'', ts_input_schema spec)])]"

definition path_text :: "path_elem list \<Rightarrow> pystr" where
  "path_text path =
     (let t = str_join (ascii ''.'')
                (map (\<lambda>p. case p of PIndex i \<Rightarrow> int_str i | PKey k \<Rightarrow> k) path)
      in if t = [] then ascii ''(root)'' else t)"

text \<open>\<open>ToolSpec.validate\<close>: \<open>None\<close> when the arguments pass, otherwise the text of the error.\<close>

definition validate :: "'w tool_spec \<Rightarrow> json \<Rightarrow> pystr option" where
  "validate spec arguments =
     (let errors = sort_key fst (ts_iter_errors spec arguments)
      in if errors = [] then None
         else Some ([21442, 25968, 19981, 31526, 21512, 32, 115, 99, 104, 101, 109, 97, 32, 91] @ ts_name spec @ ascii '']: ''
                @ str_join (ascii ''; '') (map (\<lambda>(path, msg). path_text path @ ascii '': '' @ msg) (take 3 errors))))"

section \<open>The registry\<close>

type_synonym 'w tool_registry = "'w tool_spec dict"

definition register :: "'w tool_spec \<Rightarrow> 'w tool_registry \<Rightarrow> pystr + 'w tool_registry" where
  "register spec reg =
     (if dict_get reg (ts_name spec) \<noteq> None then Inl ([24037, 20855, 37325, 21517, 58, 32] @ ts_name spec)
      else Inr (dict_set (ts_name spec) spec reg))"

definition registry_names :: "'w tool_registry \<Rightarrow> pystr list" where
  "registry_names reg = sort (map fst reg)"

definition get_tool :: "'w tool_registry \<Rightarrow> pystr \<Rightarrow> exec_error + 'w tool_spec" where
  "get_tool reg name =
     (case dict_get reg name of
        None \<Rightarrow> Inl (tool_error ([26410, 30693, 24037, 20855, 58, 32] @ name @ [65292, 21487, 29992, 24037, 20855, 58, 32]
                       @ py_repr (JArr (map JStr (registry_names reg)))) (Some NOT_FOUND))
      | Some spec \<Rightarrow> Inr spec)"

definition to_openai_tools :: "'w tool_registry \<Rightarrow> json list" where
  "to_openai_tools reg = map (openai_schema \<circ> snd) reg"

definition to_mcp_manifest :: "'w tool_registry \<Rightarrow> json list" where
  "to_mcp_manifest reg = map (mcp_descriptor \<circ> snd) reg"

text \<open>How \<open>execute\<close> folds what the handler raised.\<close>

definition fold_exception :: "'w tool_spec \<Rightarrow> pystr \<Rightarrow> handler_exc \<Rightarrow> raised" where
  "fold_exception spec name exc =
     (case exc of
        HxTimeout \<Rightarrow>
          RExec (tool_error ([24037, 20855, 32] @ name @ [32, 25191, 34892, 36229, 26102, 65288] @ [62] @ ts_timeout_s spec @ [115, 65289]) (Some TIMEOUT))
      | HxTool e \<Rightarrow> RExec e
      | HxUpstream status msg after \<Rightarrow>
          RExec ((tool_error ([24037, 20855, 32] @ name @ [32, 19978, 28216, 36820, 22238, 32, 72, 84, 84, 80, 32] @ int_str status @ ascii '': '' @ msg)
                    (Some (code_from_http_status status))) \<lparr>ee_retry_after := after\<rparr>)
      | HxOther cls msg classes \<Rightarrow>
          RExec (tool_error ([24037, 20855, 32] @ name @ [32, 36816, 34892, 24322, 24120, 58, 32] @ cls @ ascii '': '' @ msg)
                   (code_for_exception classes))
      | HxBase msg \<Rightarrow> RBase msg)"

definition setdefault :: "pystr \<Rightarrow> 'v \<Rightarrow> 'v dict \<Rightarrow> 'v dict" where
  "setdefault k v d = (if dict_get d k = None then dict_set k v d else d)"

text \<open>\<open>ToolRegistry.execute\<close>; \<open>clock\<close> reads \<open>time.monotonic()\<close>.\<close>

definition execute ::
  "('w \<Rightarrow> seconds) \<Rightarrow> 'w tool_registry \<Rightarrow> pystr \<Rightarrow> json \<Rightarrow> 'w \<Rightarrow> (raised + json dict) \<times> 'w" where
  "execute clock reg name arguments w =
     (case get_tool reg name of
        Inl e \<Rightarrow> (Inl (RExec e), w)
      | Inr spec \<Rightarrow>
          (case validate spec arguments of
             Some msg \<Rightarrow> (Inl (RValidation msg), w)
           | None \<Rightarrow>
               (case ts_handler spec arguments w of
                  (Inl exc, w') \<Rightarrow> (Inl (fold_exception spec name exc), w')
                | (Inr result, w') \<Rightarrow>
                    (Inr (dict_set (ascii ''elapsed_ms'') (JInt \<lfloor>(clock w' - clock w) * 1000\<rfloor>)
                            (setdefault (ascii ''tool'') (JStr name) result)), w'))))"

text \<open>
  \<open>extract_key_output\<close>. A truthy summary that is no text is sliced as Python slices it: a list
  keeps its first elements, anything else raises.
\<close>

definition slice_value :: "nat \<Rightarrow> json \<Rightarrow> raised + json" where
  "slice_value n v =
     (case v of
        JStr s \<Rightarrow> Inr (JStr (take n s))
      | JArr xs \<Rightarrow> Inr (JArr (take n xs))
      | JObj _ \<Rightarrow> Inl (ROther (ascii ''unhashable type: '' @ repr_str (ascii ''slice'')))
      | _ \<Rightarrow> Inl (ROther (repr_str (type_name v) @ ascii '' object is not subscriptable'')))"

definition extract_key_output :: "'w tool_registry \<Rightarrow> pystr \<Rightarrow> json dict \<Rightarrow> raised + json option" where
  "extract_key_output reg name result =
     (case dict_get reg name of
        None \<Rightarrow> Inr None
      | Some spec \<Rightarrow>
          if \<not> ts_key_result spec then Inr None
          else
            (let limit = ts_key_output_limit spec;
                 summary = dict_get result (ascii ''summary'');
                 fallback = (case dict_get result (ascii ''result'') of None \<Rightarrow> [] | Some v \<Rightarrow> py_str v);
                 val = (case summary of
                            Some v \<Rightarrow> if truthy v then v else JStr (take limit fallback)
                          | None \<Rightarrow> JStr (take limit fallback))
             in (case slice_value limit val of Inl e \<Rightarrow> Inl e | Inr v \<Rightarrow> Inr (Some v))))"

section \<open>Lemmas\<close>

lemma get_tool_ok: "get_tool reg name = Inr spec \<longleftrightarrow> dict_get reg name = Some spec"
  by (simp add: get_tool_def split: option.splits)

lemma get_tool_unknown: "get_tool reg name = Inl e \<Longrightarrow> ee_code e = Some NOT_FOUND \<and> dict_get reg name = None"
  by (auto simp: get_tool_def tool_error_def split: option.splits)

text \<open>A registered tool is found under its name and nothing else changes; a second registration fails.\<close>

lemma register_lookup:
  assumes "register spec reg = Inr reg'"
  shows "dict_get reg' name = (if name = ts_name spec then Some spec else dict_get reg name)"
    and "dict_get reg (ts_name spec) = None"
  using assms by (auto simp: register_def split: if_splits)

lemma register_once:
  "register spec reg = Inr reg' \<Longrightarrow> \<exists>e. register spec' reg' = Inl e" if "ts_name spec' = ts_name spec"
  using that by (auto simp: register_def split: if_splits)

lemma execute_world:
  assumes "execute clock reg name args w = (r, w')" and "w' \<noteq> w"
  shows "\<exists>spec. dict_get reg name = Some spec \<and> validate spec args = None"
  using assms by (auto simp: execute_def get_tool_def split: sum.splits option.splits)

text \<open>Validation happens before the handler: a rejected call leaves the world as it was.\<close>

lemma execute_rejected:
  "\<lbrakk>dict_get reg name = Some spec; validate spec args = Some msg\<rbrakk>
    \<Longrightarrow> execute clock reg name args w = (Inl (RValidation msg), w)"
  by (simp add: execute_def get_tool_def)

lemma execute_unknown:
  "dict_get reg name = None \<Longrightarrow> \<exists>e. execute clock reg name args w = (Inl (RExec e), w) \<and> ee_code e = Some NOT_FOUND"
  by (simp add: execute_def get_tool_def tool_error_def)

lemma code_for_exception_table [simp]:
  "code_for_exception {} = None"
  "PermissionError \<in> cs \<Longrightarrow> code_for_exception cs = Some PERMISSION"
  by (simp_all add: code_for_exception_def exception_code_map_def)

text \<open>The exceptions \<open>execute\<close> lets out: validation, coded execution errors, and process death.\<close>

lemma execute_raises:
  assumes "execute clock reg name args w = (Inl r, w')"
  shows "(\<exists>m. r = RValidation m) \<or> (\<exists>e. r = RExec e) \<or> (\<exists>m. r = RBase m)"
  using assms
  by (auto simp: execute_def fold_exception_def split: sum.splits option.splits prod.splits handler_exc.splits)

end
