(* ===== verification/Journal.thy ===== *)
theory Journal
  imports Registry
begin

text \<open>
  The journal of tool executions: the table \<open>tool_executions\<close> and the four operations of
  \<^verbatim>\<open>app/storage/repository.py\<close> on it. The contract \<open>ToolJournal\<close> of
  \<^verbatim>\<open>app/graph/engine.py\<close> is the locale \<open>tool_journal\<close>, interpreted on those operations; on
  top of it the protocol of several workers that run the same call is a step relation.
\<close>

section \<open>Observations and rows\<close>

text \<open>The observation dictionary of a tool call; a missing key is \<open>None\<close> or the empty text.\<close>

record observation =
  ob_ok :: bool
  ob_tool :: pystr
  ob_arguments :: json
  ob_result :: "json option"
  ob_error :: pystr
  ob_error_type :: "error_type option"
  ob_error_code :: "tool_error_code option"

text \<open>The column \<open>error_type\<close>: the marker of a placeholder row or the type of the observation.\<close>

datatype te_mark = InFlight | Completed "error_type option"

record tool_execution =
  te_task :: pystr
  te_call :: pystr
  te_tool :: pystr
  te_arguments :: pystr
  te_ok :: bool
  te_result :: pystr
  te_error :: pystr
  te_mark :: te_mark

type_synonym te_table = "tool_execution list"

definition result_text :: "json option \<Rightarrow> pystr" where
  "result_text r = (case r of None \<Rightarrow> [] | Some v \<Rightarrow> dumps v)"

definition te_row :: "pystr \<Rightarrow> pystr \<Rightarrow> observation \<Rightarrow> tool_execution" where
  "te_row task_id call_id obs =
     \<lparr>te_task = task_id, te_call = call_id, te_tool = ob_tool obs, te_arguments = dumps (ob_arguments obs),
      te_ok = ob_ok obs, te_result = result_text (ob_result obs), te_error = ob_error obs,
      te_mark = Completed (ob_error_type obs)\<rparr>"

definition te_placeholder :: "pystr \<Rightarrow> pystr \<Rightarrow> pystr \<Rightarrow> json \<Rightarrow> tool_execution" where
  "te_placeholder task_id call_id tool arguments =
     \<lparr>te_task = task_id, te_call = call_id, te_tool = tool, te_arguments = dumps arguments,
      te_ok = False, te_result = [], te_error = [25191, 34892, 20013, 65288, 21344, 20301, 65289], te_mark = InFlight\<rparr>"

definition te_key :: "pystr \<Rightarrow> pystr \<Rightarrow> tool_execution \<Rightarrow> bool" where
  "te_key task_id call_id r = (te_task r = task_id \<and> te_call r = call_id)"

text \<open>
  \<open>_tool_exec_dict\<close>: the row as an observation. \<open>err\<close> is the text of a \<open>JSONDecodeError\<close>.
  The row has no column for the error code, so the observation carries none.
\<close>

definition tool_exec_dict :: "(pystr \<Rightarrow> pystr) \<Rightarrow> tool_execution \<Rightarrow> raised + observation" where
  "tool_exec_dict err r =
     (let text = (if te_arguments r = [] then ascii ''{}'' else te_arguments r)
      in case loads text of
           None \<Rightarrow> Inl (ROther (err text))
         | Some args \<Rightarrow>
             (let obs = \<lparr>ob_ok = te_ok r, ob_tool = te_tool r, ob_arguments = args, ob_result = None,
                         ob_error = te_error r,
                         ob_error_type = (case te_mark r of InFlight \<Rightarrow> None | Completed t \<Rightarrow> t),
                         ob_error_code = None\<rparr>
              in if te_result r = [] then Inr obs
                 else case loads (te_result r) of
                        None \<Rightarrow> Inl (ROther (err (te_result r)))
                      | Some v \<Rightarrow> Inr (obs\<lparr>ob_result := Some v\<rparr>)))"

section \<open>Operations\<close>

definition get_tool_execution ::
  "(pystr \<Rightarrow> pystr) \<Rightarrow> te_table \<Rightarrow> pystr \<Rightarrow> pystr \<Rightarrow> raised + observation option" where
  "get_tool_execution err tbl task_id call_id =
     (case find (\<lambda>r. te_key task_id call_id r \<and> te_mark r \<noteq> InFlight) tbl of
        None \<Rightarrow> Inr None
      | Some row \<Rightarrow> map_sum id Some (tool_exec_dict err row))"

text \<open>
  \<open>try_claim_tool_execution\<close>: the insertion succeeds unless the unique constraint on
  \<open>(task_id, call_id)\<close> is violated, in which case the present row decides.
\<close>

definition try_claim_tool_execution ::
  "(pystr \<Rightarrow> pystr) \<Rightarrow> te_table \<Rightarrow> pystr \<Rightarrow> pystr \<Rightarrow> pystr \<Rightarrow> json
     \<Rightarrow> te_table \<times> (raised + bool \<times> observation option)" where
  "try_claim_tool_execution err tbl task_id call_id tool arguments =
     (case find (te_key task_id call_id) tbl of
        None \<Rightarrow> (tbl @ [te_placeholder task_id call_id tool arguments], Inr (True, None))
      | Some row \<Rightarrow>
          if te_mark row = InFlight then (tbl, Inr (False, None))
          else (tbl, map_sum id (\<lambda>obs. (False, Some obs)) (tool_exec_dict err row)))"

fun complete_tool_execution :: "te_table \<Rightarrow> pystr \<Rightarrow> pystr \<Rightarrow> observation \<Rightarrow> te_table" where
  "complete_tool_execution [] task_id call_id obs = [te_row task_id call_id obs]"
| "complete_tool_execution (r # rs) task_id call_id obs =
     (if te_key task_id call_id r
      then (if te_mark r = InFlight then te_row task_id call_id obs # rs else r # rs)
      else r # complete_tool_execution rs task_id call_id obs)"

definition record_tool_execution :: "te_table \<Rightarrow> pystr \<Rightarrow> pystr \<Rightarrow> observation \<Rightarrow> te_table" where
  "record_tool_execution tbl task_id call_id obs =
     (if find (te_key task_id call_id) tbl = None then tbl @ [te_row task_id call_id obs] else tbl)"

section \<open>The contract\<close>

text \<open>The state of a call in the journal.\<close>

datatype 'o call_state = Unclaimed | Claimed | Filled 'o

text \<open>
  What the engine relies on: a claim on an unclaimed call succeeds and marks it, every other
  claim leaves the journal alone and reports the state; completing fills a call once, and no
  operation on one call touches another.
\<close>

locale tool_journal =
  fixes look :: "'s \<Rightarrow> 'k \<Rightarrow> 'o call_state"
    and claim :: "'s \<Rightarrow> 'k \<Rightarrow> 's"
    and fill :: "'s \<Rightarrow> 'k \<Rightarrow> 'v \<Rightarrow> 's"
    and stored :: "'k \<Rightarrow> 'v \<Rightarrow> 'o"
  assumes look_claim: "look (claim s k) k' =
      (if k' = k \<and> look s k = Unclaimed then Claimed else look s k')"
    and look_fill: "look (fill s k v) k' =
      (if k' = k then (case look s k of Filled u \<Rightarrow> Filled u | _ \<Rightarrow> Filled (stored k v)) else look s k')"
begin

lemma claim_again: "look (claim (claim s k) k) = look (claim s k)"
  by (rule ext) (simp add: look_claim)

lemma filled_stable:
  assumes "look s k = Filled u"
  shows "look (claim s k') k = Filled u" and "look (fill s k' v) k = Filled u"
  using assms by (auto simp: look_claim look_fill)

lemma claimed_once: "look (claim s k) k \<noteq> Unclaimed" and fill_claimed: "look (fill s k v) k \<noteq> Unclaimed"
  by (auto simp: look_claim look_fill split: call_state.splits)

lemma first_fill_wins: "look (fill (fill s k u) k v) k = look (fill s k u) k"
  by (simp add: look_fill split: call_state.splits)

lemma unclaimed_claim: "look s k \<noteq> Unclaimed \<Longrightarrow> look (claim s k) k = look s k"
  by (simp add: look_claim)

end

text \<open>The state of a call in the table, as the row that the observation is read from.\<close>

definition te_look :: "te_table \<Rightarrow> pystr \<times> pystr \<Rightarrow> tool_execution call_state" where
  "te_look tbl k =
     (case find (te_key (fst k) (snd k)) tbl of
        None \<Rightarrow> Unclaimed
      | Some r \<Rightarrow> if te_mark r = InFlight then Claimed else Filled r)"

text \<open>Rows that are filled in: those that stem from an observation of the call itself.\<close>

definition te_claim :: "pystr \<Rightarrow> json \<Rightarrow> te_table \<Rightarrow> pystr \<times> pystr \<Rightarrow> te_table" where
  "te_claim tool arguments tbl k =
     fst (try_claim_tool_execution id tbl (fst k) (snd k) tool arguments)"

lemma find_append: "find P (xs @ ys) = (case find P xs of None \<Rightarrow> find P ys | Some x \<Rightarrow> Some x)"
  by (induction xs) auto

lemma te_key_simps [simp]:
  "te_key t c (te_placeholder t' c' tool args) \<longleftrightarrow> t' = t \<and> c' = c"
  "te_key t c (te_row t' c' obs) \<longleftrightarrow> t' = t \<and> c' = c"
  "te_mark (te_placeholder t c tool args) = InFlight"
  "te_mark (te_row t c obs) = Completed (ob_error_type obs)"
  by (auto simp: te_key_def te_placeholder_def te_row_def)

lemma try_claim_table:
  "fst (try_claim_tool_execution err tbl t c tool args) =
     (if find (te_key t c) tbl = None then tbl @ [te_placeholder t c tool args] else tbl)"
  by (simp add: try_claim_tool_execution_def split: option.splits)

lemma te_claim_try:
  "fst (try_claim_tool_execution err tbl t c tool args) = te_claim tool args tbl (t, c)"
  by (simp add: te_claim_def try_claim_table)

lemma te_key_same: "te_key t c r \<Longrightarrow> te_key t' c' r \<longleftrightarrow> (t', c') = (t, c)"
  by (auto simp: te_key_def)

lemma complete_find_same:
  "find (te_key t c) (complete_tool_execution tbl t c obs) =
     Some (case find (te_key t c) tbl of
              None \<Rightarrow> te_row t c obs
            | Some r \<Rightarrow> if te_mark r = InFlight then te_row t c obs else r)"
  by (induction tbl) simp_all

lemma complete_find_other:
  "(t', c') \<noteq> (t, c) \<Longrightarrow> find (te_key t' c') (complete_tool_execution tbl t c obs) = find (te_key t' c') tbl"
  by (induction tbl) (auto dest: te_key_same)

interpretation te_journal: tool_journal te_look "te_claim tool args"
    "\<lambda>tbl k obs. complete_tool_execution tbl (fst k) (snd k) obs" "\<lambda>k obs. te_row (fst k) (snd k) obs"
    for tool args
proof
  fix s :: te_table and k k' :: "pystr \<times> pystr" and v :: observation
  show "te_look (te_claim tool args s k) k' =
      (if k' = k \<and> te_look s k = Unclaimed then Claimed else te_look s k')"
    by (cases k; cases k')
       (auto simp: te_look_def te_claim_def try_claim_table find_append split: option.splits)
  show "te_look (complete_tool_execution s (fst k) (snd k) v) k' =
      (if k' = k then (case te_look s k of Filled u \<Rightarrow> Filled u | _ \<Rightarrow> Filled (te_row (fst k) (snd k) v))
       else te_look s k')"
    by (cases k; cases k'; cases "k' = k")
       (simp_all add: te_look_def complete_find_same complete_find_other split: option.splits)
qed

section \<open>The unique constraint\<close>

definition te_unique :: "te_table \<Rightarrow> bool" where
  "te_unique tbl = distinct (map (\<lambda>r. (te_task r, te_call r)) tbl)"

lemma find_key_None: "find (te_key t c) tbl = None \<longleftrightarrow> (t, c) \<notin> (\<lambda>r. (te_task r, te_call r)) ` set tbl"
  by (auto simp: find_None_iff te_key_def)

lemma unique_claim: "te_unique tbl \<Longrightarrow> te_unique (fst (try_claim_tool_execution err tbl t c tool args))"
  by (auto simp: try_claim_table te_unique_def find_key_None te_placeholder_def)

lemma unique_record: "te_unique tbl \<Longrightarrow> te_unique (record_tool_execution tbl t c obs)"
  by (auto simp: record_tool_execution_def te_unique_def find_key_None te_row_def)

lemma complete_keys:
  "map (\<lambda>r. (te_task r, te_call r)) (complete_tool_execution tbl t c obs) =
     (let ks = map (\<lambda>r. (te_task r, te_call r)) tbl in if (t, c) \<in> set ks then ks else ks @ [(t, c)])"
  by (induction tbl) (auto simp: te_key_def te_row_def Let_def)

lemma unique_complete: "te_unique tbl \<Longrightarrow> te_unique (complete_tool_execution tbl t c obs)"
  by (simp add: te_unique_def complete_keys Let_def)

lemmas te_unique_ops = unique_claim unique_record unique_complete

lemma unique_find:
  "te_unique tbl \<Longrightarrow> find (\<lambda>r. te_key t c r \<and> Q r) tbl =
     (case find (te_key t c) tbl of None \<Rightarrow> None | Some r \<Rightarrow> if Q r then Some r else None)"
proof (induction tbl)
  case (Cons a tbl)
  then have IH: "find (\<lambda>r. te_key t c r \<and> Q r) tbl =
     (case find (te_key t c) tbl of None \<Rightarrow> None | Some r \<Rightarrow> if Q r then Some r else None)"
    by (simp add: te_unique_def)
  show ?case
  proof (cases "te_key t c a")
    case True
    then have "find (te_key t c) tbl = None"
      using Cons.prems by (auto simp: te_unique_def find_key_None te_key_def)
    then show ?thesis using True IH by simp
  qed (use IH in simp)
qed simp

text \<open>Reading and claiming, by the state of the call.\<close>

lemma get_by_look:
  "te_unique tbl \<Longrightarrow> get_tool_execution err tbl t c =
     (case te_look tbl (t, c) of Filled r \<Rightarrow> map_sum id Some (tool_exec_dict err r) | _ \<Rightarrow> Inr None)"
  by (auto simp: get_tool_execution_def te_look_def unique_find split: option.splits)

lemma claim_by_look:
  "snd (try_claim_tool_execution err tbl t c tool args) =
     (case te_look tbl (t, c) of
        Unclaimed \<Rightarrow> Inr (True, None)
      | Claimed \<Rightarrow> Inr (False, None)
      | Filled r \<Rightarrow> map_sum id (\<lambda>obs. (False, Some obs)) (tool_exec_dict err r))"
  by (simp add: try_claim_tool_execution_def te_look_def split: option.splits)

section \<open>Replay\<close>

definition wf_obs :: "observation \<Rightarrow> bool" where
  "wf_obs obs \<longleftrightarrow> wf_json (ob_arguments obs) \<and> (\<forall>v. ob_result obs = Some v \<longrightarrow> wf_json v)"

lemma dumps_not_empty: "wf_json v \<Longrightarrow> dumps v \<noteq> []"
  using dumps_head by blast

lemma tool_exec_dict_row:
  assumes "wf_obs obs"
  shows "tool_exec_dict err (te_row t c obs) = Inr (obs\<lparr>ob_error_code := None\<rparr>)"
  using assms
  by (cases obs) (auto simp: tool_exec_dict_def te_row_def wf_obs_def result_text_def dumps_not_empty
      loads_dumps split: option.splits)

text \<open>
  Replaying a completed call: once a claimed call is filled in, reading it or claiming it
  again gives back the observation, with its arguments and result decoded from the stored
  text, and changes nothing. The error code is the one field that is lost: the replayed
  observation never has one.
\<close>

theorem journal_replay:
  assumes "te_unique tbl" and "\<forall>r. te_look tbl (t, c) \<noteq> Filled r" and "wf_obs obs"
    and "tbl' = complete_tool_execution tbl t c obs" and "replayed = obs\<lparr>ob_error_code := None\<rparr>"
  shows "get_tool_execution err tbl' t c = Inr (Some replayed)
         \<and> try_claim_tool_execution err tbl' t c tool args = (tbl', Inr (False, Some replayed))"
proof -
  have look: "te_look tbl' (t, c) = Filled (te_row t c obs)"
    using te_journal.look_fill [of tbl "(t, c)" obs "(t, c)"] assms(2,4) by (auto split: call_state.splits)
  have "te_unique tbl'" using assms(1,4) by (simp add: te_unique_ops)
  then have get: "get_tool_execution err tbl' t c = Inr (Some replayed)"
    using look assms(3,5) by (simp add: get_by_look tool_exec_dict_row)
  have "fst (try_claim_tool_execution err tbl' t c tool args) = tbl'"
    using look by (auto simp: try_claim_table te_look_def split: option.splits)
  moreover have "snd (try_claim_tool_execution err tbl' t c tool args) = Inr (False, Some replayed)"
    using look assms(3,5) by (simp add: claim_by_look tool_exec_dict_row)
  ultimately show ?thesis using get by (metis prod.collapse)
qed

definition demo_failure :: observation where
  "demo_failure = \<lparr>ob_ok = False, ob_tool = ascii ''db'', ob_arguments = JObj [(ascii ''q'', JInt 1)],
     ob_result = None, ob_error = ascii ''HTTP 403'', ob_error_type = Some EtRuntime, ob_error_code = Some AUTH\<rparr>"

theorem journal_replay_witness:
  "get_tool_execution id (complete_tool_execution [] (ascii ''t'') (ascii ''c'') demo_failure) (ascii ''t'') (ascii ''c'')
     = Inr (Some (demo_failure\<lparr>ob_error_code := None\<rparr>))"
  using journal_replay [of "[]" "ascii ''t''" "ascii ''c''" demo_failure _ _ id, OF _ _ _ refl refl]
  by (simp add: te_unique_def te_look_def wf_obs_def demo_failure_def)

section \<open>Several workers on one call\<close>

text \<open>
  The phases of a worker inside \<open>run_one\<close>: before the claim, holding the right to execute
  (after a successful claim or a takeover), waiting for the holder, executed but not yet
  written, and finished with an observation.
\<close>

datatype wphase = WStart | WHolder | WWaiting | WExecuted observation | WDone observation

record race =
  rc_table :: te_table
  rc_workers :: "wphase list"
  rc_executions :: nat
  rc_takeovers :: nat

text \<open>
  One step of one worker. \<open>crash\<close> is the death of a worker, after which the node is run again
  from its checkpoint; the takeover is the expiry of the waiting time.
\<close>

inductive race_step ::
  "(pystr \<Rightarrow> pystr) \<Rightarrow> pystr \<Rightarrow> pystr \<Rightarrow> pystr \<Rightarrow> json \<Rightarrow> race \<Rightarrow> race \<Rightarrow> bool"
  for err t c tool args where
  claim_won:
    "\<lbrakk>i < length (rc_workers s); rc_workers s ! i = WStart;
      try_claim_tool_execution err (rc_table s) t c tool args = (tbl, Inr (True, None))\<rbrakk>
     \<Longrightarrow> race_step err t c tool args s (s\<lparr>rc_table := tbl, rc_workers := (rc_workers s)[i := WHolder]\<rparr>)"
| claim_replay:
    "\<lbrakk>i < length (rc_workers s); rc_workers s ! i = WStart;
      try_claim_tool_execution err (rc_table s) t c tool args = (tbl, Inr (False, Some obs))\<rbrakk>
     \<Longrightarrow> race_step err t c tool args s (s\<lparr>rc_table := tbl, rc_workers := (rc_workers s)[i := WDone obs]\<rparr>)"
| claim_busy:
    "\<lbrakk>i < length (rc_workers s); rc_workers s ! i = WStart;
      try_claim_tool_execution err (rc_table s) t c tool args = (tbl, Inr (False, None))\<rbrakk>
     \<Longrightarrow> race_step err t c tool args s (s\<lparr>rc_table := tbl, rc_workers := (rc_workers s)[i := WWaiting]\<rparr>)"
| run_tool:
    "\<lbrakk>i < length (rc_workers s); rc_workers s ! i = WHolder\<rbrakk>
     \<Longrightarrow> race_step err t c tool args s
          (s\<lparr>rc_workers := (rc_workers s)[i := WExecuted obs], rc_executions := Suc (rc_executions s)\<rparr>)"
| write_result:
    "\<lbrakk>i < length (rc_workers s); rc_workers s ! i = WExecuted obs\<rbrakk>
     \<Longrightarrow> race_step err t c tool args s
          (s\<lparr>rc_table := complete_tool_execution (rc_table s) t c obs,
             rc_workers := (rc_workers s)[i := WDone obs]\<rparr>)"
| poll_hit:
    "\<lbrakk>i < length (rc_workers s); rc_workers s ! i = WWaiting;
      get_tool_execution err (rc_table s) t c = Inr (Some obs)\<rbrakk>
     \<Longrightarrow> race_step err t c tool args s (s\<lparr>rc_workers := (rc_workers s)[i := WDone obs]\<rparr>)"
| takeover:
    "\<lbrakk>i < length (rc_workers s); rc_workers s ! i = WWaiting\<rbrakk>
     \<Longrightarrow> race_step err t c tool args s
          (s\<lparr>rc_workers := (rc_workers s)[i := WHolder], rc_takeovers := Suc (rc_takeovers s)\<rparr>)"
| crash:
    "i < length (rc_workers s)
     \<Longrightarrow> race_step err t c tool args s (s\<lparr>rc_workers := (rc_workers s)[i := WStart]\<rparr>)"

definition holders :: "wphase list \<Rightarrow> nat" where
  "holders ws = length (filter (\<lambda>p. p = WHolder) ws)"

lemma holders_update:
  "i < length ws \<Longrightarrow> holders (ws[i := p]) + of_bool (ws ! i = WHolder) = holders ws + of_bool (p = WHolder)"
  unfolding holders_def
proof (induction ws arbitrary: i)
  case (Cons a ws)
  then show ?case by (cases i) auto
qed simp

definition race_inv :: "pystr \<Rightarrow> pystr \<Rightarrow> race \<Rightarrow> bool" where
  "race_inv t c s \<longleftrightarrow>
     rc_executions s + holders (rc_workers s)
       \<le> of_bool (te_look (rc_table s) (t, c) \<noteq> Unclaimed) + rc_takeovers s"

lemma claim_won_look:
  assumes "try_claim_tool_execution err tbl t c tool args = (tbl', Inr (True, None))"
  shows "te_look tbl (t, c) = Unclaimed" and "te_look tbl' (t, c) = Claimed"
proof -
  have "map_sum id (\<lambda>obs. (False, Some obs)) x \<noteq> (Inr (True, None) :: raised + bool \<times> observation option)" for x
    by (cases x) auto
  then show un: "te_look tbl (t, c) = Unclaimed"
    using claim_by_look [of err tbl t c tool args] assms by (auto split: call_state.splits)
  show "te_look tbl' (t, c) = Claimed"
    using te_journal.look_claim [of tool args tbl "(t, c)" "(t, c)"] un assms
    by (simp flip: te_claim_try [of err])
qed

lemma claim_lost_table:
  "try_claim_tool_execution err tbl t c tool args = (tbl', Inr (False, r)) \<Longrightarrow> tbl' = tbl"
  by (auto simp: try_claim_tool_execution_def split: option.splits if_splits)

lemma race_inv_step:
  assumes "race_step err t c tool args s s'" and "race_inv t c s"
  shows "race_inv t c s'"
  using assms(1)
proof (cases rule: race_step.cases)
  case (claim_won i tbl)
  then show ?thesis
    using assms(2) claim_won_look [OF claim_won(4)] holders_update [of i "rc_workers s" WHolder]
    by (simp add: race_inv_def)
next
  case (claim_replay i tbl obs)
  then show ?thesis
    using assms(2) claim_lost_table [OF claim_replay(4)] holders_update [of i "rc_workers s" "WDone obs"]
    by (simp add: race_inv_def)
next
  case (claim_busy i tbl)
  then show ?thesis
    using assms(2) claim_lost_table [OF claim_busy(4)] holders_update [of i "rc_workers s" WWaiting]
    by (simp add: race_inv_def)
next
  case (run_tool i obs)
  then show ?thesis using assms(2) holders_update [of i "rc_workers s" "WExecuted obs"]
    by (simp add: race_inv_def)
next
  case (write_result i obs)
  then show ?thesis
    using assms(2) holders_update [of i "rc_workers s" "WDone obs"]
      te_journal.fill_claimed [of "rc_table s" "(t, c)" obs]
    by (cases "te_look (rc_table s) (t, c) = Unclaimed") (simp_all add: race_inv_def)
next
  case (poll_hit i obs)
  then show ?thesis using assms(2) holders_update [of i "rc_workers s" "WDone obs"]
    by (simp add: race_inv_def)
next
  case (takeover i)
  then show ?thesis using assms(2) holders_update [of i "rc_workers s" WHolder]
    by (simp add: race_inv_def)
next
  case (crash i)
  then show ?thesis using assms(2) holders_update [of i "rc_workers s" WStart]
    by (cases "te_look (rc_table s) (t, c) = Unclaimed") (simp_all add: race_inv_def)
qed

text \<open>A filled row stays as it was written, whatever the workers do.\<close>

lemma race_filled_stable:
  assumes "race_step err t c tool args s s'" and "te_look (rc_table s) (t, c) = Filled r"
  shows "te_look (rc_table s') (t, c) = Filled r"
  using assms(1)
proof (cases rule: race_step.cases)
  case (claim_won i tbl)
  then show ?thesis using claim_won_look(1) [OF claim_won(4)] assms(2) by simp
next
  case (write_result i obs)
  then show ?thesis
    using te_journal.filled_stable(2) [OF assms(2), of "(t, c)" obs] by simp
qed (use assms(2) in \<open>auto dest: claim_lost_table\<close>)

text \<open>The workers start with no row for the call.\<close>

definition race_start :: "te_table \<Rightarrow> nat \<Rightarrow> race" where
  "race_start tbl n = \<lparr>rc_table = tbl, rc_workers = replicate n WStart, rc_executions = 0, rc_takeovers = 0\<rparr>"

lemma holders_start [simp]: "holders (replicate n WStart) = 0"
  by (simp add: holders_def)



end
