(* ===== verification/Agent_State.thy ===== *)
theory Agent_State
  imports Plan_Dag Prompts Compressor Journal
begin

text \<open>
  The state of a task (\<^verbatim>\<open>app/graph/state.py\<close>), the settings the graph reads
  (\<^verbatim>\<open>app/config.py\<close>), the event stream, and the environment the nodes act on: the model, the
  tools, the clock, the cancellation flag and the journal.
\<close>

section \<open>State\<close>

datatype task_status =
    StQueued | StRunning | StResuming | StDone | StFailed | StCanceled | StBudgetExceeded | StWaitingApproval

datatype agent_mode = ReactMode | PlanExecute

record agent_state =
  as_task_id :: pystr
  as_goal :: pystr
  as_mode :: agent_mode
  as_messages :: "message list"
  as_plan :: "plan_step list"
  as_current_step :: nat
  as_plan_defect_streak :: int
  as_mode_switches :: int
  as_key_outputs :: "json dict"
  as_iterations :: int
  as_steps_used :: int
  as_tokens_used :: int
  as_max_steps :: int
  as_max_tokens :: int
  as_downgraded :: bool
  as_status :: task_status
  as_last_error :: pystr
  as_error_kind :: error_kind
  as_pending_tool_calls :: "tool_call list"
  as_last_observations :: "observation list"
  as_needs_final :: bool
  as_final_answer :: pystr
  as_selfheal_total :: nat
  as_require_approval :: bool
  as_approval_pending :: bool

definition init_state :: "pystr \<Rightarrow> pystr \<Rightarrow> agent_mode \<Rightarrow> int \<Rightarrow> int \<Rightarrow> bool \<Rightarrow> agent_state" where
  "init_state task_id goal mode max_tokens max_steps require_approval =
     \<lparr>as_task_id = task_id, as_goal = goal, as_mode = mode, as_messages = [], as_plan = [],
      as_current_step = 0, as_plan_defect_streak = 0, as_mode_switches = 0, as_key_outputs = [],
      as_iterations = 0, as_steps_used = 0, as_tokens_used = 0, as_max_steps = max_steps,
      as_max_tokens = max_tokens, as_downgraded = False, as_status = StRunning, as_last_error = [],
      as_error_kind = ERR_NONE, as_pending_tool_calls = [], as_last_observations = [],
      as_needs_final = False, as_final_answer = [], as_selfheal_total = 0,
      as_require_approval = require_approval, as_approval_pending = False\<rparr>"

section \<open>Settings\<close>

record settings =
  st_llm_model :: pystr
  st_llm_model_cheap :: pystr
  st_default_max_steps :: int
  st_compress_threshold_tokens :: int
  st_max_selfheal_retries :: nat
  st_adaptive_downgrade_after_replans :: int
  st_max_mode_switches :: int
  st_retry_max_attempts :: nat
  st_retry_base_delay_s :: seconds
  st_retry_max_delay_s :: seconds
  st_spans_max_per_task :: int

definition default_settings :: settings where
  "default_settings =
     \<lparr>st_llm_model = ascii ''qwen-plus'', st_llm_model_cheap = [], st_default_max_steps = 24,
      st_compress_threshold_tokens = 8000, st_max_selfheal_retries = 3,
      st_adaptive_downgrade_after_replans = 2, st_max_mode_switches = 3, st_retry_max_attempts = 2,
      st_retry_base_delay_s = 1 / 2, st_retry_max_delay_s = 8, st_spans_max_per_task = 500\<rparr>"

definition model_of :: "settings \<Rightarrow> agent_state \<Rightarrow> pystr" where
  "model_of cfg s =
     (if as_downgraded s \<and> st_llm_model_cheap cfg \<noteq> [] then st_llm_model_cheap cfg else st_llm_model cfg)"

section \<open>Events\<close>

text \<open>
  The events of \<open>engine.emit\<close>, one constructor per event type with the fields of its payload
  (constant fields and texts that only repeat a setting are left out; delays are the ones before
  rounding for display).
\<close>

datatype agent_event =
    EvPlanCreated "pystr list" nat "nat list" int pystr
  | EvReplan "pystr list" nat "nat list" int pystr
  | EvModeUpgraded nat
  | EvBudgetExceeded pystr
  | EvBudgetDowngrade pystr pystr
  | EvLlmStep int pystr "(pystr \<times> json) list" pystr
  | EvLlmFinalDraft pystr pystr
  | EvClaimTakeover pystr pystr
  | EvToolReplay pystr pystr json bool
  | EvToolResult pystr json pystr "json option"
  | EvToolError pystr json pystr "error_type option" "tool_error_code option"
  | EvValidationFailed pystr pystr json pystr nat
  | EvSelfhealSuccess pystr pystr json nat
  | EvRetryScheduled pystr pystr nat seconds bool "tool_error_code option" pystr
  | EvRetrySuccess pystr pystr nat seconds
  | EvRetryExhausted pystr pystr nat "tool_error_code option" pystr
  | EvStepDone nat pystr nat
  | EvCritic error_kind pystr "tool_error_code set"
  | EvModeThrashingStopped int int int pystr
  | EvModeDowngraded int pystr int
  | EvContextCompressed int int int int pystr int "pystr list"
  | EvTaskCanceled
  | EvTaskFailed pystr
  | EvTaskDone bool pystr
  | EvTokens int
  | EvApprovalGranted
  | EvApprovalRejected

section \<open>Environment and world\<close>

text \<open>
  \<open>'w\<close> is everything outside the process's own data that the nodes reach: the tools, the
  model, the clock, the cancellation flag. The journal is a table of the database, which other
  workers may change while this one sleeps. The log is the stream of emitted events.
\<close>

record 'w world =
  wd_ext :: 'w
  wd_journal :: te_table
  wd_log :: "agent_event list"

text \<open>
  The collaborators of the engine. \<open>en_journal\<close> says whether a journal is injected,
  \<open>en_sha1\<close> is the hexadecimal SHA-1 digest of the UTF-8 text, \<open>en_llm_text\<close> and
  \<open>en_json_err\<close> are the texts of the exceptions of the client library and of \<open>json.loads\<close>.
\<close>

record 'w env =
  en_settings :: settings
  en_registry :: "'w tool_registry"
  en_llm :: "'w chat_fn"
  en_clock :: "'w \<Rightarrow> seconds"
  en_sleep :: "seconds \<Rightarrow> 'w \<times> te_table \<Rightarrow> 'w \<times> te_table"
  en_canceled :: "pystr \<Rightarrow> 'w \<Rightarrow> bool"
  en_journal :: bool
  en_now :: "'w \<Rightarrow> pystr \<times> nat \<times> pystr"
  en_sha1 :: "pystr \<Rightarrow> pystr"
  en_llm_text :: "llm_error \<Rightarrow> pystr"
  en_json_err :: "pystr \<Rightarrow> pystr"

definition emit :: "agent_event \<Rightarrow> 'w world \<Rightarrow> 'w world" where
  "emit e W = W\<lparr>wd_log := wd_log W @ [e]\<rparr>"

definition is_canceled :: "'w env \<Rightarrow> pystr \<Rightarrow> 'w world \<Rightarrow> bool" where
  "is_canceled E tid W = en_canceled E tid (wd_ext W)"

definition do_sleep :: "'w env \<Rightarrow> seconds \<Rightarrow> 'w world \<Rightarrow> 'w world" where
  "do_sleep E d W =
     (case en_sleep E d (wd_ext W, wd_journal W) of (x, j) \<Rightarrow> W\<lparr>wd_ext := x, wd_journal := j\<rparr>)"

text \<open>A model call and a tool execution from a node.\<close>

definition call_llm ::
  "'w env \<Rightarrow> message list \<Rightarrow> bool \<Rightarrow> pystr \<Rightarrow> 'w world \<Rightarrow> (raised + llm_response) \<times> 'w world" where
  "call_llm E ms tools model W =
     (case en_llm E ms tools model (wd_ext W) of
        (r, x) \<Rightarrow> (map_sum RLlm id r, W\<lparr>wd_ext := x\<rparr>))"

definition call_tool ::
  "'w env \<Rightarrow> pystr \<Rightarrow> json \<Rightarrow> 'w world \<Rightarrow> (raised + json dict) \<times> 'w world" where
  "call_tool E name args W =
     (case execute (en_clock E) (en_registry E) name args (wd_ext W) of
        (r, x) \<Rightarrow> (r, W\<lparr>wd_ext := x\<rparr>))"

lemma emit_simps [simp]:
  "wd_ext (emit e W) = wd_ext W" "wd_journal (emit e W) = wd_journal W" "wd_log (emit e W) = wd_log W @ [e]"
  by (simp_all add: emit_def)

lemma call_llm_log:
  "call_llm E ms tools model W = (r, W') \<Longrightarrow> wd_log W' = wd_log W \<and> wd_journal W' = wd_journal W"
  by (auto simp: call_llm_def split: prod.splits)

lemma call_tool_log:
  "call_tool E name args W = (r, W') \<Longrightarrow> wd_log W' = wd_log W \<and> wd_journal W' = wd_journal W"
  by (auto simp: call_tool_def split: prod.splits)

lemma do_sleep_log [simp]: "wd_log (do_sleep E d W) = wd_log W"
  by (simp add: do_sleep_def split: prod.splits)

lemma call_tool_raises:
  assumes "call_tool E name args W = (Inl r, W')"
  shows "(\<exists>m. r = RValidation m) \<or> (\<exists>e. r = RExec e) \<or> (\<exists>m. r = RBase m)"
proof -
  obtain x where "execute (en_clock E) (en_registry E) name args (wd_ext W) = (Inl r, x)"
    using assms by (auto simp: call_tool_def split: prod.splits)
  then show ?thesis by (rule execute_raises)
qed

end
