(* ===== verification/Tool_Exec.thy ===== *)
theory Tool_Exec
  imports Agent_State
begin

text \<open>
  Tool execution (\<^verbatim>\<open>app/graph/nodes.py\<close>): the idempotency key, the interruptible sleep, the
  retry of transient failures, the repair of arguments, one call with its journal, and the
  node \<open>tool_executor\<close>. The calls of a round run concurrently in the source; the model runs
  them in the order of the calls, which is one of the schedules of \<open>asyncio.gather\<close>.
\<close>

section \<open>Key outputs\<close>

definition key_outputs_max_items :: nat where
  "key_outputs_max_items = 30"

definition key_outputs_token_budget :: int where
  "key_outputs_token_budget = 1500"

definition key_output_tokens :: "pystr \<times> json \<Rightarrow> int" where
  "key_output_tokens kv = estimate_tokens (fst kv @ ascii '': '' @ py_str (snd kv))"

fun drop_oldest :: "json dict \<Rightarrow> int \<Rightarrow> json dict" where
  "drop_oldest [] tot = []"
| "drop_oldest (kv # items) tot =
     (if tot > key_outputs_token_budget then drop_oldest items (tot - key_output_tokens kv)
      else kv # items)"

definition prune_key_outputs :: "json dict \<Rightarrow> json dict" where
  "prune_key_outputs key_outputs =
     (let items = (if length key_outputs > key_outputs_max_items
                   then take_last key_outputs_max_items key_outputs else key_outputs)
      in drop_oldest items (sum_list (map key_output_tokens items)))"

section \<open>Idempotency key\<close>

text \<open>\<open>json.dumps(..., sort_keys=True)\<close> sorts the keys of every object.\<close>

fun sort_keys :: "json \<Rightarrow> json" where
  "sort_keys (JArr xs) = JArr (map sort_keys xs)"
| "sort_keys (JObj kvs) = JObj (sort_key fst (map (\<lambda>(k, v). (k, sort_keys v)) kvs))"
| "sort_keys v = v"

definition call_fingerprint_text :: "tool_call \<Rightarrow> pystr" where
  "call_fingerprint_text call =
     dumps (sort_keys (JObj [(ascii ''n'', JStr (tc_name call)), (ascii ''a'', tc_arguments call),
                             (ascii ''p'', JStr (tc_parse_error call))]))"

definition journal_call_key :: "(pystr \<Rightarrow> pystr) \<Rightarrow> int \<Rightarrow> tool_call \<Rightarrow> pystr" where
  "journal_call_key sha1 iterations call =
     (let fp = take 10 (sha1 (call_fingerprint_text call));
          key = tc_id call @ ascii ''#'' @ int_str iterations @ ascii '':'' @ fp
      in if length key > 80 then take 20 (sha1 key) else key)"

section \<open>Waiting\<close>

lemma sleep_slice_measure:
  "remaining > 0 \<Longrightarrow> nat \<lceil>2 * (remaining - min (1/2) remaining)\<rceil> < nat \<lceil>2 * (remaining :: real)\<rceil>"
proof (cases "remaining \<le> 1/2")
  case True
  moreover assume "remaining > 0"
  ultimately show ?thesis by (simp add: min_def)
next
  case False
  assume "remaining > 0"
  have "\<lceil>2 * (remaining - 1/2)\<rceil> = \<lceil>2 * remaining\<rceil> - 1" by (simp add: algebra_simps)
  moreover have "\<lceil>2 * remaining\<rceil> > 0" using \<open>remaining > 0\<close> by simp
  ultimately show ?thesis using False by (simp add: min_def)
qed

function cancellable_sleep :: "'w env \<Rightarrow> pystr \<Rightarrow> seconds \<Rightarrow> 'w world \<Rightarrow> bool \<times> 'w world" where
  "cancellable_sleep E tid remaining W =
     (if remaining > 0 then
        if is_canceled E tid W then (True, W)
        else (let slice = min (1/2) remaining
              in cancellable_sleep E tid (remaining - slice) (do_sleep E slice W))
      else (False, W))"
  by pat_completeness auto

termination
  by (relation "measure (\<lambda>(E, tid, remaining, W). nat \<lceil>2 * remaining\<rceil>)")
     (simp_all only: wf_measure in_measure prod.case sleep_slice_measure)

declare cancellable_sleep.simps [simp del]

section \<open>Retrying transient failures\<close>

text \<open>The outcome of a retry: the result if there is one, the last error text and its code.\<close>

type_synonym retry_outcome = "json dict option \<times> pystr \<times> tool_error_code option"

definition canceled_note :: pystr where
  "canceled_note = [65288, 20219, 21153, 24050, 21462, 28040, 65292, 19981, 20877, 37325, 35797, 65289]"

definition retry_delay :: "settings \<Rightarrow> nat \<Rightarrow> exec_error \<Rightarrow> retry_error + seconds \<times> bool" where
  "retry_delay cfg attempt e =
     (case retry_delay_hint e of
        Some hint \<Rightarrow> Inr (min hint (st_retry_max_delay_s cfg), True)
      | None \<Rightarrow>
          map_sum id (\<lambda>d. (d, False))
            (backoff_delay (int attempt) (st_retry_base_delay_s cfg) (st_retry_max_delay_s cfg)))"

definition retry_give_up :: "'w env \<Rightarrow> pystr \<Rightarrow> pystr \<Rightarrow> nat \<Rightarrow> exec_error \<Rightarrow> 'w world
     \<Rightarrow> (raised + retry_outcome) \<times> 'w world" where
  "retry_give_up E cid name made last_exc W =
     (Inr (None, ee_message last_exc, ee_code last_exc),
      if made \<ge> st_retry_max_attempts (en_settings E) \<and> st_retry_max_attempts (en_settings E) > 0
      then emit (EvRetryExhausted name cid made (ee_code last_exc) (take 300 (ee_message last_exc))) W
      else W)"

text \<open>
  The loop of \<open>_retry_transient\<close> with \<open>left\<close> attempts to go: \<open>attempt\<close> is the number of the
  next one, \<open>made\<close> the number of attempts begun.
\<close>

fun retry_loop :: "'w env \<Rightarrow> pystr \<Rightarrow> pystr \<Rightarrow> pystr \<Rightarrow> json \<Rightarrow> nat \<Rightarrow> nat \<Rightarrow> nat \<Rightarrow> exec_error \<Rightarrow> 'w world
     \<Rightarrow> (raised + retry_outcome) \<times> 'w world" where
  "retry_loop E tid cid name args 0 attempt made last_exc W = retry_give_up E cid name made last_exc W"
| "retry_loop E tid cid name args (Suc left) attempt made last_exc W =
     (if \<not> is_transient_error last_exc then retry_give_up E cid name made last_exc W
      else if is_canceled E tid W
      then (Inr (None, ee_message last_exc @ canceled_note, ee_code last_exc), W)
      else
        (case retry_delay (en_settings E) attempt last_exc of
           Inl _ \<Rightarrow> (Inl (ROther (ascii ''attempt '' @ [20174, 32, 49, 32, 24320, 22987])), W)
         | Inr (delay, hinted) \<Rightarrow>
             (let W1 = emit (EvRetryScheduled name cid attempt delay hinted (ee_code last_exc)
                               (take 300 (ee_message last_exc))) W
              in case cancellable_sleep E tid delay W1 of
                   (True, W2) \<Rightarrow> (Inr (None, ee_message last_exc @ canceled_note, ee_code last_exc), W2)
                 | (False, W2) \<Rightarrow>
                     (case call_tool E name args W2 of
                        (Inr result, W3) \<Rightarrow>
                          (Inr (Some result, ee_message last_exc, ee_code last_exc),
                           emit (EvRetrySuccess name cid attempt delay) W3)
                      | (Inl (RExec e), W3) \<Rightarrow>
                          retry_loop E tid cid name args left (Suc attempt) attempt e W3
                      | (Inl (RValidation m), W3) \<Rightarrow>
                          (Inr (None, [37325, 35797, 26399, 38388, 21442, 25968, 26657, 39564, 22833, 36133, 58, 32] @ m, Some INVALID_ARGS), W3)
                      | (Inl r, W3) \<Rightarrow> (Inl r, W3)))))"

definition retry_transient :: "'w env \<Rightarrow> pystr \<Rightarrow> pystr \<Rightarrow> pystr \<Rightarrow> json \<Rightarrow> exec_error \<Rightarrow> 'w world
     \<Rightarrow> (raised + retry_outcome) \<times> 'w world" where
  "retry_transient E tid cid name args first_error W =
     (if \<not> is_transient_error first_error
      then (Inr (None, ee_message first_error, ee_code first_error), W)
      else
        (case get_tool (en_registry E) name of
           Inl _ \<Rightarrow> (Inr (None, ee_message first_error, ee_code first_error), W)
         | Inr spec \<Rightarrow>
             (if \<not> ts_retry_transient spec
              then (Inr (None, ee_message first_error, ee_code first_error), W)
              else retry_loop E tid cid name args (st_retry_max_attempts (en_settings E)) 1 0 first_error W)))"

section \<open>Repairing arguments\<close>

text \<open>\<open>json.dumps(..., indent=2)\<close>.\<close>

definition newline_indent :: "nat \<Rightarrow> pystr" where
  "newline_indent n = 10 # replicate (2 * n) 32"

fun dumps_indent :: "nat \<Rightarrow> json \<Rightarrow> pystr" where
  "dumps_indent n (JArr xs) =
     (if xs = [] then ascii ''[]''
      else ascii ''['' @ newline_indent (Suc n)
           @ str_join (ascii '','' @ newline_indent (Suc n)) (map (dumps_indent (Suc n)) xs)
           @ newline_indent n @ ascii '']'')"
| "dumps_indent n (JObj kvs) =
     (if kvs = [] then ascii ''{}''
      else ascii ''{'' @ newline_indent (Suc n)
           @ str_join (ascii '','' @ newline_indent (Suc n))
               (map (\<lambda>(k, v). dumps_str k @ ascii '': '' @ dumps_indent (Suc n) v) kvs)
           @ newline_indent n @ ascii ''}'')"
| "dumps_indent n v = dumps v"

definition repair_messages :: "'w tool_spec \<Rightarrow> pystr \<Rightarrow> json \<Rightarrow> pystr \<Rightarrow> message list" where
  "repair_messages spec tool_name bad_args err =
     [plain_message RSystem repair_system,
      plain_message RUser (dumps_indent 0 (JObj
        [(ascii ''tool'', JStr tool_name), (ascii ''description'', JStr (ts_description spec)),
         (ascii ''input_schema'', ts_input_schema spec), (ascii ''validation_error'', JStr err),
         (ascii ''original_arguments'', bad_args)]))]"

definition repair_args :: "'w env \<Rightarrow> pystr \<Rightarrow> pystr \<Rightarrow> json \<Rightarrow> pystr \<Rightarrow> 'w world
     \<Rightarrow> (raised + json option \<times> int) \<times> 'w world" where
  "repair_args E model tool_name bad_args err W =
     (case get_tool (en_registry E) tool_name of
        Inl e \<Rightarrow> (Inl (RExec e), W)
      | Inr spec \<Rightarrow>
          (case call_llm E (repair_messages spec tool_name bad_args err) False model W of
             (Inl r, W1) \<Rightarrow> (Inl r, W1)
           | (Inr resp, W1) \<Rightarrow>
               (Inr ((case parse_json_loose (lr_text resp) of
                        Some (JObj kvs) \<Rightarrow> if validate spec (JObj kvs) = None then Some (JObj kvs) else None
                      | _ \<Rightarrow> None), lr_tokens resp), W1)))"

section \<open>One tool call\<close>

datatype heal_outcome =
    Healed json "json dict"
  | HealRuntime json exec_error
  | HealFailed json pystr

text \<open>
  The self-healing loop with \<open>left\<close> rounds to go. It returns the outcome, the rounds used and
  the tokens of the repair calls.
\<close>

fun heal_loop :: "'w env \<Rightarrow> pystr \<Rightarrow> pystr \<Rightarrow> pystr \<Rightarrow> nat \<Rightarrow> nat \<Rightarrow> json \<Rightarrow> pystr \<Rightarrow> int \<Rightarrow> 'w world
     \<Rightarrow> (raised + heal_outcome \<times> nat \<times> int) \<times> 'w world" where
  "heal_loop E model cid name 0 attempts args last_err tokens W =
     (Inr (HealFailed args last_err, attempts, tokens), W)"
| "heal_loop E model cid name (Suc left) attempts args last_err tokens W =
     (let W1 = emit (EvValidationFailed name cid args last_err (Suc attempts)) W
      in case repair_args E model name args last_err W1 of
           (Inl r, W2) \<Rightarrow> (Inl r, W2)
         | (Inr (None, tk), W2) \<Rightarrow>
             heal_loop E model cid name left (Suc attempts) args last_err (tokens + tk) W2
         | (Inr (Some fixed, tk), W2) \<Rightarrow>
             (case call_tool E name fixed W2 of
                (Inr result, W3) \<Rightarrow>
                  (Inr (Healed fixed result, Suc attempts, tokens + tk),
                   emit (EvSelfhealSuccess name cid fixed (Suc attempts)) W3)
              | (Inl (RValidation m), W3) \<Rightarrow>
                  heal_loop E model cid name left (Suc attempts) fixed m (tokens + tk) W3
              | (Inl (RExec e), W3) \<Rightarrow> (Inr (HealRuntime fixed e, Suc attempts, tokens + tk), W3)
              | (Inl r, W3) \<Rightarrow> (Inl r, W3)))"

definition ok_obs :: "pystr \<Rightarrow> json \<Rightarrow> json dict \<Rightarrow> observation" where
  "ok_obs name args result =
     \<lparr>ob_ok = True, ob_tool = name, ob_arguments = args, ob_result = Some (JObj result), ob_error = [],
      ob_error_type = None, ob_error_code = None\<rparr>"

definition error_obs :: "pystr \<Rightarrow> json \<Rightarrow> pystr \<Rightarrow> error_type \<Rightarrow> tool_error_code option \<Rightarrow> observation" where
  "error_obs name args err et code =
     \<lparr>ob_ok = False, ob_tool = name, ob_arguments = args, ob_result = None, ob_error = err,
      ob_error_type = Some et, ob_error_code = code\<rparr>"

text \<open>The observation of a retried call.\<close>

definition retried_obs :: "'w env \<Rightarrow> pystr \<Rightarrow> pystr \<Rightarrow> pystr \<Rightarrow> json \<Rightarrow> exec_error \<Rightarrow> 'w world
     \<Rightarrow> (raised + observation) \<times> 'w world" where
  "retried_obs E tid cid name args e W =
     (case retry_transient E tid cid name args e W of
        (Inl r, W1) \<Rightarrow> (Inl r, W1)
      | (Inr (Some result, _, _), W1) \<Rightarrow> (Inr (ok_obs name args result), W1)
      | (Inr (None, last_err, code), W1) \<Rightarrow> (Inr (error_obs name args last_err EtRuntime code), W1))"

text \<open>The branch of \<open>_execute_call\<close> that a validation error with text \<open>m\<close> enters.\<close>

definition heal_call :: "'w env \<Rightarrow> pystr \<Rightarrow> pystr \<Rightarrow> tool_call \<Rightarrow> pystr \<Rightarrow> 'w world
     \<Rightarrow> (raised + observation \<times> nat \<times> int) \<times> 'w world" where
  "heal_call E tid model call m W =
     (case heal_loop E model (tc_id call) (tc_name call) (st_max_selfheal_retries (en_settings E)) 0
             (tc_arguments call) m 0 W of
        (Inl r, W1) \<Rightarrow> (Inl r, W1)
      | (Inr (Healed args result, n, tk), W1) \<Rightarrow> (Inr (ok_obs (tc_name call) args result, n, tk), W1)
      | (Inr (HealFailed args err, n, tk), W1) \<Rightarrow>
          (Inr (error_obs (tc_name call) args err EtValidation (Some INVALID_ARGS), n, tk), W1)
      | (Inr (HealRuntime args e, n, tk), W1) \<Rightarrow>
          (case retried_obs E tid (tc_id call) (tc_name call) args e W1 of
             (Inl r, W2) \<Rightarrow> (Inl r, W2)
           | (Inr obs, W2) \<Rightarrow> (Inr (obs, n, tk), W2)))"

text \<open>\<open>_execute_call\<close>: the observation, the repair rounds and their tokens.\<close>

definition execute_call :: "'w env \<Rightarrow> pystr \<Rightarrow> pystr \<Rightarrow> tool_call \<Rightarrow> 'w world
     \<Rightarrow> (raised + observation \<times> nat \<times> int) \<times> 'w world" where
  "execute_call E tid model call W =
     (if tc_parse_error call \<noteq> [] then heal_call E tid model call (tc_parse_error call) W
      else
        (case call_tool E (tc_name call) (tc_arguments call) W of
           (Inr result, W1) \<Rightarrow> (Inr (ok_obs (tc_name call) (tc_arguments call) result, 0, 0), W1)
         | (Inl (RValidation m), W1) \<Rightarrow> heal_call E tid model call m W1
         | (Inl (RExec e), W1) \<Rightarrow>
             (case retried_obs E tid (tc_id call) (tc_name call) (tc_arguments call) e W1 of
                (Inl r, W2) \<Rightarrow> (Inl r, W2)
              | (Inr obs, W2) \<Rightarrow> (Inr (obs, 0, 0), W2))
         | (Inl r, W1) \<Rightarrow> (Inl r, W1)))"

section \<open>One call of a round\<close>

definition claim_wait_s :: seconds where "claim_wait_s = 5"

definition claim_poll_interval_s :: seconds where "claim_poll_interval_s = 1 / 4"

text \<open>
  \<open>_await_claim_result\<close>. The loop ends at the deadline because sleeping advances the clock;
  \<open>claim_polls\<close> rounds cover the waiting time (\<open>await_claim_enough\<close>).
\<close>

fun await_claim :: "nat \<Rightarrow> 'w env \<Rightarrow> pystr \<Rightarrow> pystr \<Rightarrow> seconds \<Rightarrow> 'w world
     \<Rightarrow> (raised + observation option) \<times> 'w world" where
  "await_claim 0 E tid key deadline W = (Inr None, W)"
| "await_claim (Suc n) E tid key deadline W =
     (if en_clock E (wd_ext W) < deadline then
        (let W1 = do_sleep E claim_poll_interval_s W
         in case get_tool_execution (en_json_err E) (wd_journal W1) tid key of
              Inl r \<Rightarrow> (Inl r, W1)
            | Inr (Some obs) \<Rightarrow> (Inr (Some obs), W1)
            | Inr None \<Rightarrow> await_claim n E tid key deadline W1)
      else (Inr None, W))"

definition claim_polls :: nat where "claim_polls = 20"

definition await_claim_result :: "'w env \<Rightarrow> pystr \<Rightarrow> pystr \<Rightarrow> 'w world
     \<Rightarrow> (raised + observation option) \<times> 'w world" where
  "await_claim_result E tid key W =
     await_claim claim_polls E tid key (en_clock E (wd_ext W) + claim_wait_s) W"

text \<open>The claim of \<open>run_one\<close>: \<open>Some obs\<close> is a result to replay, \<open>None\<close> the right to execute.\<close>

definition claim_or_replay :: "'w env \<Rightarrow> pystr \<Rightarrow> pystr \<Rightarrow> tool_call \<Rightarrow> 'w world
     \<Rightarrow> (raised + observation option) \<times> 'w world" where
  "claim_or_replay E tid key call W =
     (if \<not> en_journal E then (Inr None, W)
      else
        (case try_claim_tool_execution (en_json_err E) (wd_journal W) tid key (tc_name call) (tc_arguments call) of
           (tbl, r) \<Rightarrow>
             (let W1 = W\<lparr>wd_journal := tbl\<rparr>
              in case r of
                   Inl e \<Rightarrow> (Inl e, W1)
                 | Inr (True, _) \<Rightarrow> (Inr None, W1)
                 | Inr (False, Some obs) \<Rightarrow> (Inr (Some obs), W1)
                 | Inr (False, None) \<Rightarrow>
                     (case await_claim_result E tid key W1 of
                        (Inr None, W2) \<Rightarrow> (Inr None, emit (EvClaimTakeover (tc_name call) (tc_id call)) W2)
                      | other \<Rightarrow> other))))"

text \<open>What the calls of a round accumulate.\<close>

record round_acc =
  ac_key_outputs :: "json dict"
  ac_tokens :: int
  ac_selfheal :: nat

text \<open>\<open>int(extra)\<close>.\<close>

definition float_int :: "pystr \<Rightarrow> int" where
  "float_int f =
     (let neg = (take 1 f = ascii ''-''); body = (if neg then drop 1 f else f);
          mant = takeWhile (\<lambda>c. c \<noteq> 101 \<and> c \<noteq> 69) body; ex = drop (Suc (length mant)) body;
          ip = takeWhile is_digit mant; fp = drop (Suc (length ip)) mant;
          e = (if take 1 ex = ascii ''-'' then - int (digits_val (drop 1 ex))
               else int (digits_val (dropWhile (\<lambda>c. c = 43) ex))) - int (length fp);
          m = int (digits_val (ip @ fp));
          v = (if e \<ge> 0 then m * 10 ^ nat e else m div 10 ^ nat (- e))
      in if neg then - v else v)"

definition py_int :: "json \<Rightarrow> raised + int" where
  "py_int v =
     (case v of
        JInt i \<Rightarrow> Inr i
      | JBool b \<Rightarrow> Inr (if b then 1 else 0)
      | JFloat f \<Rightarrow> Inr (float_int f)
      | JStr s \<Rightarrow>
          (let t = str_strip s; neg = (take 1 t = ascii ''-'');
               ds = (if neg \<or> take 1 t = ascii ''+'' then drop 1 t else t)
           in if ds \<noteq> [] \<and> list_all is_digit ds
              then Inr ((if neg then -1 else 1) * int (digits_val ds))
              else Inl (ROther (ascii ''invalid literal for int() with base 10: '' @ repr_str s)))
      | _ \<Rightarrow> Inl (ROther (ascii ''int() argument must be a string, a bytes-like object or a real number, not ''
               @ repr_str (type_name v))))"

text \<open>
  The post-processing of an observation: the key output is recorded under the tool and the
  call, and the tokens a sub-agent reports are charged and removed from the result.
\<close>

definition post_process :: "'w env \<Rightarrow> tool_call \<Rightarrow> observation \<Rightarrow> round_acc
     \<Rightarrow> (raised + observation) \<times> round_acc" where
  "post_process E call obs acc =
     (if \<not> ob_ok obs then (Inr obs, acc)
      else
        (case ob_result obs of
           Some (JObj d) \<Rightarrow>
             (case extract_key_output (en_registry E) (ob_tool obs) d of
                Inl r \<Rightarrow> (Inl r, acc)
              | Inr key \<Rightarrow>
                  (let acc1 = (case key of
                                 Some v \<Rightarrow>
                                   if truthy v
                                   then acc\<lparr>ac_key_outputs :=
                                          dict_set (ob_tool obs @ ascii ''('' @ tc_id call @ ascii '')'') v (ac_key_outputs acc)\<rparr>
                                   else acc
                               | None \<Rightarrow> acc);
                       extra = (case dict_get d (ascii ''_budget_tokens'') of None \<Rightarrow> JInt 0 | Some x \<Rightarrow> x);
                       obs1 = obs\<lparr>ob_result := Some (JObj (dict_pop (ascii ''_budget_tokens'') d))\<rparr>
                   in if truthy extra
                      then (case py_int extra of
                              Inl r \<Rightarrow> (Inl r, acc1)
                            | Inr n \<Rightarrow> (Inr obs1, acc1\<lparr>ac_tokens := ac_tokens acc1 + n\<rparr>))
                      else (Inr obs1, acc1)))
         | other \<Rightarrow>
             (case dict_get (en_registry E) (ob_tool obs) of
                Some spec \<Rightarrow>
                  if ts_key_result spec
                  then (Inl (ROther (repr_str (case other of None \<Rightarrow> ascii ''NoneType'' | Some v \<Rightarrow> type_name v)
                              @ ascii '' object has no attribute '' @ repr_str (ascii ''get''))), acc)
                  else (Inr obs, acc)
              | None \<Rightarrow> (Inr obs, acc))))"

definition run_one :: "'w env \<Rightarrow> agent_state \<Rightarrow> tool_call \<Rightarrow> round_acc \<Rightarrow> 'w world
     \<Rightarrow> (raised + observation) \<times> round_acc \<times> 'w world" where
  "run_one E s call acc W =
     (let tid = as_task_id s; key = journal_call_key (en_sha1 E) (as_iterations s) call
      in case claim_or_replay E tid key call W of
           (Inl r, W1) \<Rightarrow> (Inl r, acc, W1)
         | (Inr (Some obs), W1) \<Rightarrow>
             (let W2 = emit (EvToolReplay (ob_tool obs) (tc_id call) (ob_arguments obs) (ob_ok obs)) W1;
                  (r, acc1) = post_process E call obs acc
              in (r, acc1, W2))
         | (Inr None, W1) \<Rightarrow>
             (case execute_call E tid (model_of (en_settings E) s) call W1 of
                (Inl r, W2) \<Rightarrow> (Inl r, acc, W2)
              | (Inr (obs, n, tk), W2) \<Rightarrow>
                  (let W3 = (if en_journal E
                             then W2\<lparr>wd_journal := complete_tool_execution (wd_journal W2) tid key obs\<rparr>
                             else W2);
                       (r, acc1) = post_process E call obs
                                     (acc\<lparr>ac_tokens := ac_tokens acc + tk, ac_selfheal := ac_selfheal acc + n\<rparr>)
                   in (r, acc1, W3))))"

fun run_calls :: "'w env \<Rightarrow> agent_state \<Rightarrow> tool_call list \<Rightarrow> round_acc \<Rightarrow> 'w world
     \<Rightarrow> (raised + observation) list \<times> round_acc \<times> 'w world" where
  "run_calls E s [] acc W = ([], acc, W)"
| "run_calls E s (c # cs) acc W =
     (case run_one E s c acc W of
        (r, acc1, W1) \<Rightarrow>
          (case run_calls E s cs acc1 W1 of (rs, acc2, W2) \<Rightarrow> (r # rs, acc2, W2)))"

section \<open>The node\<close>

definition raised_text :: "'w env \<Rightarrow> raised \<Rightarrow> pystr" where
  "raised_text E r =
     (case r of RValidation m \<Rightarrow> m | RExec e \<Rightarrow> ee_message e | RLlm e \<Rightarrow> en_llm_text E e
      | ROther m \<Rightarrow> m | RBase m \<Rightarrow> m)"

text \<open>An exception that left \<open>run_one\<close> becomes a failed observation without a code.\<close>

definition settle :: "'w env \<Rightarrow> tool_call \<Rightarrow> raised + observation \<Rightarrow> observation" where
  "settle E call r =
     (case r of
        Inr obs \<Rightarrow> obs
      | Inl e \<Rightarrow> error_obs (tc_name call) (tc_arguments call)
                  ([25191, 34892, 21327, 31243, 20869, 37096, 24322, 24120, 58, 32] @ raised_text E e) EtRuntime None)"

definition code_str :: "tool_error_code \<Rightarrow> pystr" where
  "code_str c =
     (case c of TIMEOUT \<Rightarrow> ascii ''timeout'' | NETWORK \<Rightarrow> ascii ''network''
      | RATE_LIMITED \<Rightarrow> ascii ''rate_limited'' | UPSTREAM_5XX \<Rightarrow> ascii ''upstream_5xx''
      | UPSTREAM_4XX \<Rightarrow> ascii ''upstream_4xx'' | AUTH \<Rightarrow> ascii ''auth'' | PERMISSION \<Rightarrow> ascii ''permission''
      | NOT_FOUND \<Rightarrow> ascii ''not_found'' | INVALID_ARGS \<Rightarrow> ascii ''invalid_args'' | UNKNOWN \<Rightarrow> ascii ''unknown'')"

definition obs_payload :: "observation \<Rightarrow> json" where
  "obs_payload obs =
     (if ob_ok obs then (case ob_result obs of None \<Rightarrow> JNull | Some v \<Rightarrow> v)
      else JObj ((ascii ''error'', JStr (ob_error obs)) #
                 (case ob_error_code obs of None \<Rightarrow> [] | Some c \<Rightarrow> [(ascii ''error_code'', JStr (code_str c))])))"

definition tool_message :: "tool_call \<Rightarrow> observation \<Rightarrow> message" where
  "tool_message call obs =
     \<lparr>m_role = RTool, m_content = take 6000 (dumps (obs_payload obs)), m_tool_calls = [],
      m_tool_call_id = Some (tc_id call), m_name = Some (tc_name call)\<rparr>"

definition obs_event :: "observation \<Rightarrow> raised + agent_event" where
  "obs_event obs =
     (if ob_ok obs
      then (case ob_result obs of
              Some (JObj d) \<Rightarrow>
                Inr (EvToolResult (ob_tool obs) (ob_arguments obs)
                       (take 300 (case dict_get d (ascii ''summary'') of None \<Rightarrow> [] | Some v \<Rightarrow> py_str v))
                       (dict_get d (ascii ''elapsed_ms'')))
            | other \<Rightarrow>
                Inl (ROther (repr_str (case other of None \<Rightarrow> ascii ''NoneType'' | Some v \<Rightarrow> type_name v)
                       @ ascii '' object has no attribute '' @ repr_str (ascii ''get''))))
      else Inr (EvToolError (ob_tool obs) (ob_arguments obs) (ob_error obs) (ob_error_type obs) (ob_error_code obs)))"

fun report_results :: "(tool_call \<times> observation) list \<Rightarrow> message list \<Rightarrow> 'w world
     \<Rightarrow> (raised + message list) \<times> 'w world" where
  "report_results [] ms W = (Inr ms, W)"
| "report_results ((call, obs) # rest) ms W =
     (case obs_event obs of
        Inl r \<Rightarrow> (Inl r, W)
      | Inr ev \<Rightarrow> report_results rest (ms @ [tool_message call obs]) (emit ev W))"

definition canceled_answer :: pystr where
  "canceled_answer = [20219, 21153, 24050, 34987, 29992, 25143, 21462, 28040, 12290]"

definition base_raised :: "(raised + observation) list \<Rightarrow> raised option" where
  "base_raised rs = (case find (\<lambda>r. \<exists>m. r = Inl (RBase m)) rs of Some (Inl e) \<Rightarrow> Some e | _ \<Rightarrow> None)"

text \<open>\<open>tool_executor_node\<close>: the updated state, or the exception that ends the run.\<close>

definition tool_executor_node :: "'w env \<Rightarrow> agent_state \<Rightarrow> 'w world
     \<Rightarrow> (raised + agent_state) \<times> 'w world" where
  "tool_executor_node E s W =
     (let calls = as_pending_tool_calls s
      in if calls = []
         then (Inr (s\<lparr>as_pending_tool_calls := [], as_last_observations := []\<rparr>), W)
         else if is_canceled E (as_task_id s) W
         then (Inr (s\<lparr>as_status := StCanceled, as_needs_final := True, as_final_answer := canceled_answer,
                      as_pending_tool_calls := [], as_last_observations := []\<rparr>), W)
         else
           (case run_calls E s calls
                   \<lparr>ac_key_outputs = as_key_outputs s, ac_tokens = as_tokens_used s, ac_selfheal = 0\<rparr> W of
              (rs, acc, W1) \<Rightarrow>
                (case base_raised rs of
                   Some e \<Rightarrow> (Inl e, W1)
                 | None \<Rightarrow>
                     (let obs = map2 (settle E) calls rs
                      in case report_results (zip calls obs) (as_messages s) W1 of
                           (Inl r, W2) \<Rightarrow> (Inl r, W2)
                         | (Inr ms, W2) \<Rightarrow>
                             (Inr (s\<lparr>as_messages := ms, as_pending_tool_calls := [],
                                     as_last_observations := obs,
                                     as_key_outputs := prune_key_outputs (ac_key_outputs acc),
                                     as_selfheal_total := as_selfheal_total s + ac_selfheal acc,
                                     as_tokens_used := ac_tokens acc\<rparr>), W2)))))"

section \<open>Bounded execution of a call\<close>

text \<open>
  \<open>cnt\<close> counts handler runs in the outside world: a handler run adds one, a model call and a
  sleep add none.
\<close>

definition counts :: "'w env \<Rightarrow> ('w \<Rightarrow> nat) \<Rightarrow> bool" where
  "counts E cnt \<longleftrightarrow>
     (\<forall>name spec args x. dict_get (en_registry E) name = Some spec
        \<longrightarrow> cnt (snd (ts_handler spec args x)) = Suc (cnt x))
     \<and> (\<forall>ms tools model x. cnt (snd (en_llm E ms tools model x)) = cnt x)
     \<and> (\<forall>d x j. cnt (fst (en_sleep E d (x, j))) = cnt x)"

named_theorems counting

lemma cnt_do_sleep [counting]: "counts E cnt \<Longrightarrow> cnt (wd_ext (do_sleep E d W)) = cnt (wd_ext W)"
  unfolding counts_def do_sleep_def by (metis (no_types, lifting) case_prod_beta fst_conv world.select_convs(1)
      world.surjective world.update_convs(1) world.update_convs(2))

lemma cnt_sleep [counting]:
  "\<lbrakk>counts E cnt; cancellable_sleep E tid d W = (b, W')\<rbrakk> \<Longrightarrow> cnt (wd_ext W') = cnt (wd_ext W)"
proof (induction E tid d W arbitrary: b W' rule: cancellable_sleep.induct)
  case (1 E tid remaining W)
  note run = "1.prems"(2) [unfolded cancellable_sleep.simps [of E tid remaining W]]
  show ?case
    using run "1.IH" [OF _ _ refl "1.prems"(1)] cnt_do_sleep [OF "1.prems"(1)]
    by (auto simp: Let_def split: if_splits)
qed

lemma cnt_llm [counting]:
  "\<lbrakk>counts E cnt; call_llm E ms tools model W = (r, W')\<rbrakk> \<Longrightarrow> cnt (wd_ext W') = cnt (wd_ext W)"
  unfolding counts_def call_llm_def by (auto split: prod.splits) (metis snd_conv)

text \<open>A tool call runs the handler at most once, and not at all when the arguments are rejected.\<close>

lemma cnt_tool [counting]:
  assumes "counts E cnt" and "call_tool E name args W = (r, W')"
  shows "cnt (wd_ext W') \<le> Suc (cnt (wd_ext W))"
    and "r = Inl (RValidation m) \<Longrightarrow> cnt (wd_ext W') = cnt (wd_ext W)"
proof -
  obtain x where ex: "execute (en_clock E) (en_registry E) name args (wd_ext W) = (r, x)" and W': "wd_ext W' = x"
    using assms(2) by (auto simp: call_tool_def split: prod.splits)
  have run: "cnt x' = Suc (cnt (wd_ext W))"
    if "dict_get (en_registry E) name = Some spec" "ts_handler spec args (wd_ext W) = (r', x')" for spec r' x'
    using assms(1) that unfolding counts_def by (metis snd_conv)
  show "cnt (wd_ext W') \<le> Suc (cnt (wd_ext W))"
    using ex run unfolding W' execute_def get_tool_def
    by (auto split: option.splits prod.splits sum.splits)
  show "r = Inl (RValidation m) \<Longrightarrow> cnt (wd_ext W') = cnt (wd_ext W)"
    using ex unfolding W' execute_def get_tool_def
    by (auto simp: fold_exception_def split: option.splits prod.splits sum.splits handler_exc.splits)
qed

lemma give_up_ext:
  "retry_give_up E cid name made e W = (r, W') \<Longrightarrow> wd_ext W' = wd_ext W"
  by (auto simp: retry_give_up_def)

lemma cnt_retry_loop:
  assumes "counts E cnt"
  shows "retry_loop E tid cid name args left attempt made e W = (r, W')
     \<Longrightarrow> cnt (wd_ext W') \<le> cnt (wd_ext W) + left"
proof (induction left arbitrary: attempt made e W)
  case 0
  then show ?case by (simp add: give_up_ext)
next
  case (Suc left)
  show ?case
  proof (cases "\<not> is_transient_error e \<or> is_canceled E tid W")
    case True
    then show ?thesis using Suc.prems by (auto dest: give_up_ext split: if_splits)
  next
    case False
    show ?thesis
    proof (cases "retry_delay (en_settings E) attempt e")
      case (Inl a)
      then show ?thesis using Suc.prems False by simp
    next
      case (Inr dh)
      obtain delay hinted where dh: "dh = (delay, hinted)" by fastforce
      let ?W1 = "emit (EvRetryScheduled name cid attempt delay hinted (ee_code e) (take 300 (ee_message e))) W"
      obtain b W2 where sl: "cancellable_sleep E tid delay ?W1 = (b, W2)" by fastforce
      obtain x W3 where ct: "call_tool E name args W2 = (x, W3)" by fastforce
      have c2: "cnt (wd_ext W2) = cnt (wd_ext W)" using cnt_sleep [OF assms sl] by simp
      have c3: "cnt (wd_ext W3) \<le> Suc (cnt (wd_ext W))" using cnt_tool(1) [OF assms ct] c2 by simp
      show ?thesis
      proof (cases b)
        case True
        then show ?thesis using Suc.prems False Inr dh sl c2 by (simp add: Let_def)
      next
        case b: False
        show ?thesis
        proof (cases "\<exists>e'. x = Inl (RExec e')")
          case True
          then obtain e' where "x = Inl (RExec e')" by blast
          then have "retry_loop E tid cid name args left (Suc attempt) attempt e' W3 = (r, W')"
            using Suc.prems False Inr dh sl b ct by (simp add: Let_def)
          from Suc.IH [OF this] c3 show ?thesis by linarith
        next
          case no: False
          then have "wd_ext W' = wd_ext W3"
            using Suc.prems False Inr dh sl b ct
            by (auto simp: Let_def split: sum.splits raised.splits)
          then show ?thesis using c3 by simp
        qed
      qed
    qed
  qed
qed

lemma cnt_retry_transient:
  assumes "counts E cnt" and "retry_transient E tid cid name args e W = (r, W')"
  shows "cnt (wd_ext W') \<le> cnt (wd_ext W) + st_retry_max_attempts (en_settings E)"
    and "\<lbrakk>dict_get (en_registry E) name = Some spec; \<not> ts_retry_transient spec\<rbrakk> \<Longrightarrow> W' = W"
    and "\<not> is_transient_error e \<Longrightarrow> W' = W"
  using assms
  by (auto simp: retry_transient_def get_tool_def split: if_splits option.splits sum.splits
      dest: cnt_retry_loop [OF assms(1)])

lemma cnt_repair [counting]:
  "\<lbrakk>counts E cnt; repair_args E model name args err W = (r, W')\<rbrakk> \<Longrightarrow> cnt (wd_ext W') = cnt (wd_ext W)"
  by (auto simp: repair_args_def split: sum.splits prod.splits dest: cnt_llm)

lemma cnt_heal_loop:
  assumes "counts E cnt"
  shows "heal_loop E model cid name left attempts args err tokens W = (r, W')
     \<Longrightarrow> cnt (wd_ext W') \<le> Suc (cnt (wd_ext W))"
proof (induction left arbitrary: attempts args err tokens W)
  case (Suc left)
  let ?W1 = "emit (EvValidationFailed name cid args err (Suc attempts)) W"
  obtain x W2 where rp: "repair_args E model name args err ?W1 = (x, W2)" by fastforce
  have c2: "cnt (wd_ext W2) = cnt (wd_ext W)" using cnt_repair [OF assms rp] by simp
  show ?case
  proof (cases "\<exists>fixed tk. x = Inr (Some fixed, tk)")
    case False
    then show ?thesis using Suc.prems Suc.IH rp c2
      by (auto simp: Let_def split: sum.splits option.splits) (metis c2)
  next
    case True
    then obtain fixed tk where x: "x = Inr (Some fixed, tk)" by blast
    obtain y W3 where ct: "call_tool E name fixed W2 = (y, W3)" by fastforce
    show ?thesis
    proof (cases "\<exists>m. y = Inl (RValidation m)")
      case True
      then obtain m where y: "y = Inl (RValidation m)" by blast
      then have "heal_loop E model cid name left (Suc attempts) fixed m (tokens + tk) W3 = (r, W')"
        using Suc.prems rp x ct by (simp add: Let_def)
      from Suc.IH [OF this] show ?thesis using cnt_tool(2) [OF assms ct y] c2 by simp
    next
      case False
      then have "wd_ext W' = wd_ext W3"
        using Suc.prems rp x ct by (auto simp: Let_def split: sum.splits raised.splits)
      then show ?thesis using cnt_tool(1) [OF assms ct] c2 by simp
    qed
  qed
qed simp

lemma retried_obs_cnt:
  assumes "counts E cnt" and "retried_obs E tid cid name args e W = (r, W')"
  shows "cnt (wd_ext W') \<le> cnt (wd_ext W) + st_retry_max_attempts (en_settings E)"
    and "\<lbrakk>dict_get (en_registry E) name = Some spec; \<not> ts_retry_transient spec\<rbrakk> \<Longrightarrow> W' = W"
    and "\<not> is_transient_error e \<Longrightarrow> W' = W"
proof -
  obtain x where rt: "retry_transient E tid cid name args e W = (x, W')"
    using assms(2) by (auto simp: retried_obs_def split: prod.splits sum.splits option.splits)
  note cnt_retry_transient [OF assms(1) rt]
  then show "cnt (wd_ext W') \<le> cnt (wd_ext W) + st_retry_max_attempts (en_settings E)"
    and "\<lbrakk>dict_get (en_registry E) name = Some spec; \<not> ts_retry_transient spec\<rbrakk> \<Longrightarrow> W' = W"
    and "\<not> is_transient_error e \<Longrightarrow> W' = W" by blast+
qed

lemma heal_call_cnt:
  assumes "counts E cnt" and "heal_call E tid model call m W = (r, W')"
  shows "cnt (wd_ext W') \<le> Suc (cnt (wd_ext W)) + st_retry_max_attempts (en_settings E)"
    and "\<lbrakk>dict_get (en_registry E) (tc_name call) = Some spec; \<not> ts_retry_transient spec\<rbrakk>
         \<Longrightarrow> cnt (wd_ext W') \<le> Suc (cnt (wd_ext W))"
proof -
  obtain x W1 where h: "heal_loop E model (tc_id call) (tc_name call)
      (st_max_selfheal_retries (en_settings E)) 0 (tc_arguments call) m 0 W = (x, W1)" by fastforce
  note c = cnt_heal_loop [OF assms(1) h]
  have "W' = W1 \<or> (\<exists>args e y. retried_obs E tid (tc_id call) (tc_name call) args e W1 = (y, W'))"
    using assms(2) h by (auto simp: heal_call_def split: sum.splits heal_outcome.splits prod.splits)
  then show "cnt (wd_ext W') \<le> Suc (cnt (wd_ext W)) + st_retry_max_attempts (en_settings E)"
    and "\<lbrakk>dict_get (en_registry E) (tc_name call) = Some spec; \<not> ts_retry_transient spec\<rbrakk>
         \<Longrightarrow> cnt (wd_ext W') \<le> Suc (cnt (wd_ext W))"
    using c retried_obs_cnt(1,2) [OF assms(1)] by (fastforce, blast)
qed

text \<open>The worlds \<open>execute_call\<close> passes through.\<close>

lemma execute_call_cases:
  assumes "execute_call E tid model call W = (r, W')"
  obtains (direct) y where "call_tool E (tc_name call) (tc_arguments call) W = (y, W')"
  | (retried) e W1 x where "call_tool E (tc_name call) (tc_arguments call) W = (Inl (RExec e), W1)"
      and "retried_obs E tid (tc_id call) (tc_name call) (tc_arguments call) e W1 = (x, W')"
  | (unparsed) m where "heal_call E tid model call m W = (r, W')"
  | (invalid) m W1 where "call_tool E (tc_name call) (tc_arguments call) W = (Inl (RValidation m), W1)"
      and "heal_call E tid model call m W1 = (r, W')"
  using assms
  by (auto simp: execute_call_def split: if_splits prod.splits sum.splits raised.splits)

text \<open>
  C12. One tool call runs the handler a bounded number of times: at most once plus the
  configured number of retries, across the first attempt, argument repair and back-off
  together; and at most once when the tool does not declare its transient errors retryable,
  so a tool with side effects is never repeated blindly.
\<close>

theorem execute_call_bounded:
  assumes "counts E cnt" and "execute_call E tid model call W = (r, W')"
  shows "cnt (wd_ext W') \<le> cnt (wd_ext W) + 1 + st_retry_max_attempts (en_settings E)
         \<and> (\<forall>spec. dict_get (en_registry E) (tc_name call) = Some spec \<longrightarrow> \<not> ts_retry_transient spec
              \<longrightarrow> cnt (wd_ext W') \<le> cnt (wd_ext W) + 1)"
  using assms(2)
proof (cases rule: execute_call_cases)
  case (direct y)
  then show ?thesis using cnt_tool(1) [OF assms(1) direct] by simp
next
  case (retried e W1 x)
  then show ?thesis
    using cnt_tool(1) [OF assms(1) retried(1)] retried_obs_cnt(1,2) [OF assms(1) retried(2)] by fastforce
next
  case (unparsed m)
  then show ?thesis using heal_call_cnt [OF assms(1) unparsed] by fastforce
next
  case (invalid m W1)
  then show ?thesis
    using heal_call_cnt [OF assms(1) invalid(2)] cnt_tool(2) [OF assms(1) invalid(1) refl] by fastforce
qed

definition demo_tool :: "nat tool_spec" where
  "demo_tool =
     \<lparr>ts_name = ascii ''search'', ts_description = [], ts_input_schema = JObj [],
      ts_handler = (\<lambda>args n. (Inl HxTimeout, Suc n)), ts_timeout_s = ascii ''30.0'', ts_key_result = True,
      ts_key_output_limit = 1500, ts_retry_transient = True, ts_side_effect = False,
      ts_iter_errors = (\<lambda>args. [])\<rparr>"

definition demo_env :: "nat env" where
  "demo_env =
     \<lparr>en_settings = default_settings, en_registry = [(ascii ''search'', demo_tool)],
      en_llm = (\<lambda>ms tools model n. (Inl ApiConnectionError, n)), en_clock = (\<lambda>n. 0),
      en_sleep = (\<lambda>d xj. xj), en_canceled = (\<lambda>tid n. False), en_journal = True,
      en_now = (\<lambda>n. ([], 0, [])), en_sha1 = (\<lambda>t. replicate 40 48), en_llm_text = (\<lambda>e. []),
      en_json_err = (\<lambda>t. [])\<rparr>"

definition demo_call :: tool_call where
  "demo_call = \<lparr>tc_id = ascii ''c1'', tc_name = ascii ''search'', tc_arguments = JObj [], tc_parse_error = []\<rparr>"

definition demo_world :: "nat world" where
  "demo_world = \<lparr>wd_ext = 0, wd_journal = [], wd_log = []\<rparr>"

lemma demo_counts: "counts demo_env id"
  by (simp add: counts_def demo_env_def demo_tool_def dict_get_def)

theorem execute_call_bounded_witness:
  "counts demo_env id \<and> wd_ext (snd (execute_call demo_env (ascii ''t'') (ascii ''m'') demo_call demo_world)) \<le> 3"
  using execute_call_bounded [OF demo_counts prod.collapse [symmetric],
      where call = demo_call and W = demo_world and tid = "ascii ''t''" and model = "ascii ''m''"] demo_counts
  by (simp add: demo_world_def demo_env_def default_settings_def)

section \<open>Delays\<close>

text \<open>The events a step adds satisfy \<open>P\<close>.\<close>

definition logs :: "(agent_event \<Rightarrow> bool) \<Rightarrow> 'w world \<Rightarrow> 'w world \<Rightarrow> bool" where
  "logs P W W' \<longleftrightarrow> (\<exists>evs. wd_log W' = wd_log W @ evs \<and> (\<forall>e \<in> set evs. P e))"

lemma logs_refl [simp, intro]: "logs P W W"
  by (simp add: logs_def)

lemma logs_same [intro]: "wd_log W' = wd_log W \<Longrightarrow> logs P W W'"
  by (simp add: logs_def)

lemma logs_trans [trans]: "\<lbrakk>logs P W W1; logs P W1 W2\<rbrakk> \<Longrightarrow> logs P W W2"
  by (auto simp: logs_def)

lemma logs_emit [simp]: "P e \<Longrightarrow> logs P W (emit e W)"
  by (simp add: logs_def)

lemma logs_llm: "call_llm E ms tools model W = (r, W') \<Longrightarrow> logs P W W'"
  by (auto dest: call_llm_log)

lemma logs_tool: "call_tool E name args W = (r, W') \<Longrightarrow> logs P W W'"
  by (auto dest: call_tool_log)

lemma logs_sleep: "cancellable_sleep E tid d W = (b, W') \<Longrightarrow> logs P W W'"
proof (induction E tid d W arbitrary: b W' rule: cancellable_sleep.induct)
  case (1 E tid remaining W)
  note run = "1.prems" [unfolded cancellable_sleep.simps [of E tid remaining W]]
  show ?case
    using run "1.IH" [OF _ _ refl] by (auto simp: Let_def logs_def split: if_splits)
qed

text \<open>A scheduled retry is within the configured limits.\<close>

definition delay_ok :: "settings \<Rightarrow> agent_event \<Rightarrow> bool" where
  "delay_ok cfg ev =
     (case ev of
        EvRetryScheduled name cid attempt delay hinted code err \<Rightarrow>
          0 \<le> delay \<and> delay \<le> st_retry_max_delay_s cfg
          \<and> 1 \<le> attempt \<and> attempt \<le> st_retry_max_attempts cfg
      | _ \<Rightarrow> True)"

lemma retry_delay_ok:
  assumes "retry_delay cfg attempt e = Inr (d, h)" and "0 \<le> st_retry_base_delay_s cfg"
    and "0 \<le> st_retry_max_delay_s cfg"
  shows "0 \<le> d \<and> d \<le> st_retry_max_delay_s cfg"
proof (cases "retry_delay_hint e")
  case None
  then have "backoff_delay (int attempt) (st_retry_base_delay_s cfg) (st_retry_max_delay_s cfg) = Inr d"
    using assms(1) by (cases "backoff_delay (int attempt) (st_retry_base_delay_s cfg) (st_retry_max_delay_s cfg)")
      (auto simp: retry_delay_def)
  then show ?thesis using backoff_nonneg [OF _ assms(2,3)] backoff_le_max by blast
next
  case (Some hint)
  then show ?thesis using assms retry_delay_hint_nonneg [OF Some] by (auto simp: retry_delay_def)
qed

lemma logs_retry_loop:
  assumes cfg: "0 \<le> st_retry_base_delay_s (en_settings E)" "0 \<le> st_retry_max_delay_s (en_settings E)"
  shows "\<lbrakk>retry_loop E tid cid name args left attempt made e W = (r, W');
      1 \<le> attempt; attempt + left \<le> Suc (st_retry_max_attempts (en_settings E))\<rbrakk>
     \<Longrightarrow> logs (delay_ok (en_settings E)) W W'"
proof (induction left arbitrary: attempt made e W)
  case 0
  then show ?case by (auto simp: retry_give_up_def delay_ok_def)
next
  case (Suc left)
  show ?case
  proof (cases "\<not> is_transient_error e \<or> is_canceled E tid W \<or> isl (retry_delay (en_settings E) attempt e)")
    case True
    then show ?thesis using Suc.prems
      by (auto simp: retry_give_up_def delay_ok_def isl_def split: if_splits)
  next
    case False
    then obtain delay hinted where d: "retry_delay (en_settings E) attempt e = Inr (delay, hinted)"
      by (cases "retry_delay (en_settings E) attempt e") auto
    let ?W1 = "emit (EvRetryScheduled name cid attempt delay hinted (ee_code e) (take 300 (ee_message e))) W"
    obtain b W2 where sl: "cancellable_sleep E tid delay ?W1 = (b, W2)" by fastforce
    obtain x W3 where ct: "call_tool E name args W2 = (x, W3)" by fastforce
    have "logs (delay_ok (en_settings E)) W ?W1"
      using retry_delay_ok [OF d cfg] Suc.prems(2,3) by (simp add: delay_ok_def)
    then have l2: "logs (delay_ok (en_settings E)) W W2" using logs_sleep [OF sl] logs_trans by blast
    then have l3: "logs (delay_ok (en_settings E)) W W3" using logs_tool [OF ct] logs_trans by blast
    show ?thesis
    proof (cases "\<not> b \<and> (\<exists>e'. x = Inl (RExec e'))")
      case True
      then obtain e' where "retry_loop E tid cid name args left (Suc attempt) attempt e' W3 = (r, W')"
        using Suc.prems False d sl ct by (auto simp: Let_def)
      from Suc.IH [OF this] Suc.prems(2,3) l3 show ?thesis using logs_trans by fastforce
    next
      case no: False
      then have "W' = W2 \<or> W' = W3 \<or> W' = emit (EvRetrySuccess name cid attempt delay) W3"
        using Suc.prems False d sl ct
        by (auto simp: Let_def split: bool.splits sum.splits raised.splits)
      moreover have "delay_ok (en_settings E) (EvRetrySuccess name cid attempt delay)"
        by (simp add: delay_ok_def)
      ultimately show ?thesis using l2 l3 logs_trans [OF l3 logs_emit] by blast
    qed
  qed
qed

lemma logs_repair: "repair_args E model name args err W = (r, W') \<Longrightarrow> logs P W W'"
  by (auto simp: repair_args_def split: sum.splits prod.splits dest: logs_llm)

lemma logs_heal_loop:
  assumes "\<And>n c a e k. P (EvValidationFailed n c a e k)" and "\<And>n c a k. P (EvSelfhealSuccess n c a k)"
  shows "heal_loop E model cid name left attempts args err tokens W = (r, W') \<Longrightarrow> logs P W W'"
proof (induction left arbitrary: attempts args err tokens W)
  case (Suc left)
  let ?W1 = "emit (EvValidationFailed name cid args err (Suc attempts)) W"
  obtain x W2 where rp: "repair_args E model name args err ?W1 = (x, W2)" by fastforce
  have l2: "logs P W W2" using logs_trans [OF logs_emit logs_repair [OF rp]] assms(1) by blast
  show ?case
  proof (cases "\<exists>fixed tk. x = Inr (Some fixed, tk)")
    case False
    then have "W' = W2 \<or> logs P W2 W'"
      using Suc.prems Suc.IH rp by (auto simp: Let_def split: sum.splits option.splits)
    then show ?thesis using l2 logs_trans by blast
  next
    case True
    then obtain fixed tk where x: "x = Inr (Some fixed, tk)" by blast
    obtain y W3 where ct: "call_tool E name fixed W2 = (y, W3)" by fastforce
    have l3: "logs P W W3" using logs_trans [OF l2 logs_tool [OF ct]] .
    have "W' = W3 \<or> W' = emit (EvSelfhealSuccess name cid fixed (Suc attempts)) W3 \<or> logs P W3 W'"
      using Suc.prems rp x ct Suc.IH by (auto simp: Let_def split: sum.splits raised.splits)
    then show ?thesis using l3 logs_trans [OF l3 logs_emit] logs_trans [OF l3] assms(2) by blast
  qed
qed simp

text \<open>
  Every retry that a tool call schedules waits between zero seconds and the configured
  maximal delay, whatever \<open>Retry-After\<close> the upstream sent, and carries an attempt number
  between one and the configured number of attempts.
\<close>

theorem execute_call_delays:
  assumes "execute_call E tid model call W = (r, W')"
    and "0 \<le> st_retry_base_delay_s (en_settings E)" and "0 \<le> st_retry_max_delay_s (en_settings E)"
  shows "\<exists>evs. wd_log W' = wd_log W @ evs \<and> (\<forall>ev \<in> set evs. delay_ok (en_settings E) ev)"
proof -
  let ?P = "delay_ok (en_settings E)"
  have ro: "logs ?P W1 W2" if "retried_obs E tid cid name args e W1 = (x, W2)" for cid name args e W1 W2 x
    using that logs_retry_loop [OF assms(2,3)]
    by (auto simp: retried_obs_def retry_transient_def split: prod.splits sum.splits option.splits if_splits)
  have heal: "logs ?P W1 W2" if "heal_call E tid model call m W1 = (x, W2)" for m x W1 W2
  proof -
    obtain y W3 where h: "heal_loop E model (tc_id call) (tc_name call)
      (st_max_selfheal_retries (en_settings E)) 0 (tc_arguments call) m 0 W1 = (y, W3)" by fastforce
    have "logs ?P W1 W3" by (rule logs_heal_loop [OF _ _ h]) (simp_all add: delay_ok_def)
    moreover have "W2 = W3 \<or> logs ?P W3 W2"
      using that h ro by (auto simp: heal_call_def split: sum.splits heal_outcome.splits prod.splits)
    ultimately show ?thesis using logs_trans by blast
  qed
  have "logs ?P W W'"
    using assms(1)
  proof (cases rule: execute_call_cases)
    case (direct y)
    then show ?thesis by (rule logs_tool)
  next
    case (retried e W1 x)
    then show ?thesis using logs_trans [OF logs_tool ro] by blast
  next
    case (unparsed m)
    then show ?thesis by (rule heal)
  next
    case (invalid m W1)
    then show ?thesis using logs_trans [OF logs_tool heal] by blast
  qed
  then show ?thesis by (simp add: logs_def)
qed

theorem execute_call_delays_witness:
  "list_all (delay_ok default_settings)
     (wd_log (snd (execute_call demo_env (ascii ''t'') (ascii ''m'') demo_call demo_world)))"
  using execute_call_delays [OF prod.collapse [symmetric],
      where E = demo_env and call = demo_call and W = demo_world and tid = "ascii ''t''" and model = "ascii ''m''"]
  by (simp add: demo_world_def demo_env_def default_settings_def list_all_iff)

section \<open>What every step of a node does to the world\<close>

text \<open>
  A relation that the primitive steps respect is respected by the whole execution of a call.
\<close>

locale world_rel =
  fixes E :: "'w env" and R :: "'w world \<Rightarrow> 'w world \<Rightarrow> bool"
  assumes R_refl: "R W W"
    and R_trans: "R W W1 \<Longrightarrow> R W1 W2 \<Longrightarrow> R W W2"
    and R_emit: "R W (emit e W)"
    and R_sleep: "R W (do_sleep E d W)"
    and R_llm: "call_llm E ms tools model W = (r, W') \<Longrightarrow> R W W'"
    and R_tool: "call_tool E name args W = (x, W') \<Longrightarrow> R W W'"
begin

lemma R_emit_after: "R W W1 \<Longrightarrow> R W (emit e W1)"
  using R_trans R_emit by blast

lemma R_cancellable_sleep: "cancellable_sleep E tid d W = (b, W') \<Longrightarrow> R W W'"
proof (induction "nat \<lceil>2 * d\<rceil>" arbitrary: d W rule: less_induct)
  case less
  note run = less.prems [unfolded cancellable_sleep.simps [of E tid d W]]
  show ?case
  proof (cases "d > 0 \<and> \<not> is_canceled E tid W")
    case True
    then have "cancellable_sleep E tid (d - min (1/2) d) (do_sleep E (min (1/2) d) W) = (b, W')"
      using run by (simp add: Let_def)
    from less.hyps [OF sleep_slice_measure this] True show ?thesis using R_trans R_sleep by blast
  qed (use run R_refl in \<open>auto split: if_splits\<close>)
qed

lemma R_retry_loop:
  "retry_loop E tid cid name args left attempt made e W = (r, W') \<Longrightarrow> R W W'"
proof (induction left arbitrary: attempt made e W)
  case 0
  then show ?case by (auto simp: retry_give_up_def R_refl R_emit split: if_splits)
next
  case (Suc left)
  show ?case
  proof (cases "\<not> is_transient_error e \<or> is_canceled E tid W \<or> isl (retry_delay (en_settings E) attempt e)")
    case True
    then show ?thesis using Suc.prems
      by (auto simp: retry_give_up_def R_refl R_emit isl_def split: if_splits)
  next
    case False
    then obtain delay hinted where d: "retry_delay (en_settings E) attempt e = Inr (delay, hinted)"
      by (cases "retry_delay (en_settings E) attempt e") auto
    let ?W1 = "emit (EvRetryScheduled name cid attempt delay hinted (ee_code e) (take 300 (ee_message e))) W"
    obtain b W2 where sl: "cancellable_sleep E tid delay ?W1 = (b, W2)" by fastforce
    obtain x W3 where ct: "call_tool E name args W2 = (x, W3)" by fastforce
    have l2: "R W W2" using R_trans [OF R_emit R_cancellable_sleep [OF sl]] .
    have l3: "R W W3" using R_trans [OF l2 R_tool [OF ct]] .
    have "W' = W2 \<or> W' = W3 \<or> W' = emit (EvRetrySuccess name cid attempt delay) W3 \<or> R W3 W'"
      using Suc.prems Suc.IH False d sl ct
      by (auto simp: Let_def split: bool.splits sum.splits raised.splits)
    then show ?thesis using l2 l3 R_emit_after R_trans by blast
  qed
qed

lemma R_retried_obs: "retried_obs E tid cid name args e W = (r, W') \<Longrightarrow> R W W'"
  by (auto simp: retried_obs_def retry_transient_def R_refl
      split: prod.splits sum.splits option.splits if_splits dest: R_retry_loop)

lemma R_repair: "repair_args E model name args err W = (r, W') \<Longrightarrow> R W W'"
  by (auto simp: repair_args_def R_refl split: sum.splits prod.splits dest: R_llm)

lemma R_heal_loop: "heal_loop E model cid name left attempts args err tokens W = (r, W') \<Longrightarrow> R W W'"
proof (induction left arbitrary: attempts args err tokens W)
  case 0
  then show ?case by (simp add: R_refl)
next
  case (Suc left)
  let ?W1 = "emit (EvValidationFailed name cid args err (Suc attempts)) W"
  obtain x W2 where rp: "repair_args E model name args err ?W1 = (x, W2)" by fastforce
  have l2: "R W W2" using R_trans [OF R_emit R_repair [OF rp]] .
  show ?case
  proof (cases "\<exists>fixed tk. x = Inr (Some fixed, tk)")
    case False
    then have "W' = W2 \<or> R W2 W'"
      using Suc.prems Suc.IH rp by (auto simp: Let_def split: sum.splits option.splits)
    then show ?thesis using l2 R_trans by blast
  next
    case True
    then obtain fixed tk where x: "x = Inr (Some fixed, tk)" by blast
    obtain y W3 where ct: "call_tool E name fixed W2 = (y, W3)" by fastforce
    have l3: "R W W3" using R_trans [OF l2 R_tool [OF ct]] .
    have "W' = W3 \<or> W' = emit (EvSelfhealSuccess name cid fixed (Suc attempts)) W3 \<or> R W3 W'"
      using Suc.prems rp x ct Suc.IH by (auto simp: Let_def split: sum.splits raised.splits)
    then show ?thesis using l3 R_emit_after R_trans by blast
  qed
qed

lemma R_heal_call: "heal_call E tid model call m W = (r, W') \<Longrightarrow> R W W'"
proof -
  assume run: "heal_call E tid model call m W = (r, W')"
  obtain y W3 where h: "heal_loop E model (tc_id call) (tc_name call)
    (st_max_selfheal_retries (en_settings E)) 0 (tc_arguments call) m 0 W = (y, W3)" by fastforce
  have "W' = W3 \<or> R W3 W'"
    using run h R_retried_obs by (auto simp: heal_call_def split: sum.splits heal_outcome.splits prod.splits)
  then show ?thesis using R_heal_loop [OF h] R_trans by blast
qed

lemma R_execute_call: "execute_call E tid model call W = (r, W') \<Longrightarrow> R W W'"
  by (erule execute_call_cases) (blast intro: R_tool R_heal_call R_trans R_retried_obs)+

end

text \<open>The event log only grows.\<close>

interpretation log_grows: world_rel E "logs (\<lambda>_. True)" for E :: "'w env"
  by unfold_locales (auto intro: logs_trans logs_llm logs_tool)

text \<open>While no other worker writes the journal, executing a call leaves it alone.\<close>

definition quiet :: "'w env \<Rightarrow> bool" where
  "quiet E \<longleftrightarrow> (\<forall>d x j. snd (en_sleep E d (x, j)) = j)"

lemma quiet_sleep: "quiet E \<Longrightarrow> wd_journal (do_sleep E d W) = wd_journal W"
  by (auto simp: quiet_def do_sleep_def split: prod.splits) (metis snd_conv)

interpretation journal_kept: world_rel E "\<lambda>W W'. quiet E \<longrightarrow> wd_journal W' = wd_journal W" for E :: "'w env"
  by unfold_locales (auto simp: quiet_sleep dest: call_llm_log call_tool_log)

section \<open>Running a node again\<close>

lemma post_process_code:
  "post_process E call (obs\<lparr>ob_error_code := c\<rparr>) acc =
     (case post_process E call obs acc of (r, a) \<Rightarrow> (map_sum id (\<lambda>obs'. obs'\<lparr>ob_error_code := c\<rparr>) r, a))"
  unfolding post_process_def
  by (cases obs) (auto simp: Let_def split: option.splits json.splits sum.splits)

lemma post_process_acc:
  assumes "post_process E call obs (acc\<lparr>ac_tokens := ac_tokens acc + tk, ac_selfheal := m\<rparr>) = (r, a)"
  shows "\<exists>a'. post_process E call obs acc = (r, a') \<and> ac_key_outputs a' = ac_key_outputs a
              \<and> ac_tokens a' = ac_tokens a - tk"
proof (cases "ob_ok obs \<and> (\<exists>d. ob_result obs = Some (JObj d))")
  case False
  then show ?thesis using assms unfolding post_process_def
    by (auto split: if_splits option.splits json.splits)
next
  case True
  then obtain d where d: "ob_ok obs" "ob_result obs = Some (JObj d)" by blast
  show ?thesis
  proof (cases "extract_key_output (en_registry E) (ob_tool obs) d")
    case (Inl e)
    then show ?thesis using assms d by (auto simp: post_process_def)
  next
    case (Inr key)
    define extra where "extra = (case dict_get d (ascii ''_budget_tokens'') of None \<Rightarrow> JInt 0 | Some x \<Rightarrow> x)"
    show ?thesis
      using assms d Inr
      by (cases "truthy extra"; cases "py_int extra"; cases key)
         (auto simp: post_process_def Let_def extra_def [symmetric])
  qed
qed

lemma claim_filled:
  assumes "en_journal E" and "te_look (wd_journal W) (tid, key) = Filled row"
    and "tool_exec_dict (en_json_err E) row = Inr obs"
  shows "claim_or_replay E tid key call W = (Inr (Some obs), W)"
proof -
  have "try_claim_tool_execution (en_json_err E) (wd_journal W) tid key (tc_name call) (tc_arguments call)
      = (wd_journal W, Inr (False, Some obs))"
    using assms(2,3) claim_by_look [of "en_json_err E" "wd_journal W" tid key "tc_name call" "tc_arguments call"]
    by (auto simp: prod_eq_iff try_claim_table te_look_def split: option.splits if_splits)
  then show ?thesis using assms(1) by (simp add: claim_or_replay_def)
qed

lemma run_one_executed:
  assumes "en_journal E" and "quiet E" and "te_unique (wd_journal W)"
    and "te_look (wd_journal W) (tid, key) = Unclaimed"
    and "tid = as_task_id s" and "key = journal_call_key (en_sha1 E) (as_iterations s) call"
    and "run_one E s call acc W = (r, acc1, W1)"
    and "execute_call E tid (model_of (en_settings E) s) call
           (W\<lparr>wd_journal := te_claim (tc_name call) (tc_arguments call) (wd_journal W) (tid, key)\<rparr>)
         = (Inr (obs, n, tk), W2)"
  shows "te_look (wd_journal W1) (tid, key) = Filled (te_row tid key obs)"
    and "(r, acc1) = post_process E call obs (acc\<lparr>ac_tokens := ac_tokens acc + tk, ac_selfheal := ac_selfheal acc + n\<rparr>)"
proof -
  let ?tbl = "te_claim (tc_name call) (tc_arguments call) (wd_journal W) (tid, key)"
  have tc: "try_claim_tool_execution (en_json_err E) (wd_journal W) tid key (tc_name call) (tc_arguments call)
      = (?tbl, Inr (True, None))"
    using claim_by_look [of "en_json_err E" "wd_journal W" tid key "tc_name call" "tc_arguments call"]
      te_claim_try [of "en_json_err E" "wd_journal W" tid key "tc_name call" "tc_arguments call"] assms(4)
    by (simp add: prod_eq_iff)
  have cr: "claim_or_replay E tid key call W = (Inr None, W\<lparr>wd_journal := ?tbl\<rparr>)"
    using assms(1) tc by (simp add: claim_or_replay_def)
  have W1: "wd_journal W1 = complete_tool_execution (wd_journal W2) tid key obs"
    and pp: "(r, acc1) = post_process E call obs (acc\<lparr>ac_tokens := ac_tokens acc + tk, ac_selfheal := ac_selfheal acc + n\<rparr>)"
    using assms(1,5-8) cr by (auto simp: run_one_def Let_def split: prod.splits)
  have "wd_journal W2 = ?tbl"
    using journal_kept.R_execute_call [OF assms(8)] assms(2) by simp
  moreover have "te_look ?tbl (tid, key) = Claimed"
    using te_journal.look_claim [of "tc_name call" "tc_arguments call" "wd_journal W" "(tid, key)" "(tid, key)"] assms(4)
    by simp
  ultimately show "te_look (wd_journal W1) (tid, key) = Filled (te_row tid key obs)"
    using te_journal.look_fill [of "wd_journal W2" "(tid, key)" obs "(tid, key)"] W1 by simp
  show "(r, acc1) = post_process E call obs (acc\<lparr>ac_tokens := ac_tokens acc + tk, ac_selfheal := ac_selfheal acc + n\<rparr>)"
    by (rule pp)
qed

text \<open>
  C9. Running a node again after a crash: a call that was executed and written to the journal
  is replayed from it. Whatever has happened to the outside world in between, the second run
  touches neither the tool, the model nor the journal; it emits the replay event and yields
  the observation of the first run except for the lost error code.
\<close>

theorem run_one_rerun:
  assumes "en_journal E" and "quiet E" and "te_unique (wd_journal W)"
    and "te_look (wd_journal W) (as_task_id s, journal_call_key (en_sha1 E) (as_iterations s) call) = Unclaimed"
    and "execute_call E (as_task_id s) (model_of (en_settings E) s) call
           (W\<lparr>wd_journal := te_claim (tc_name call) (tc_arguments call) (wd_journal W)
                (as_task_id s, journal_call_key (en_sha1 E) (as_iterations s) call)\<rparr>)
         = (Inr (obs, n, tk), W')"
    and "wf_obs obs"
    and "run_one E s call acc W = (Inr done, acc1, W1)"
    and "wd_journal W2 = wd_journal W1"
  shows "\<exists>acc2. run_one E s call acc W2
           = (Inr (done\<lparr>ob_error_code := None\<rparr>), acc2,
              emit (EvToolReplay (ob_tool obs) (tc_id call) (ob_arguments obs) (ob_ok obs)) W2)
         \<and> ac_key_outputs acc2 = ac_key_outputs acc1
         \<and> ac_tokens acc2 = ac_tokens acc1 - tk"
proof -
  let ?key = "journal_call_key (en_sha1 E) (as_iterations s) call" and ?tid = "as_task_id s"
  note ex = run_one_executed [OF assms(1-4) refl refl assms(7,5)]
  have row: "te_look (wd_journal W2) (?tid, ?key) = Filled (te_row ?tid ?key obs)" using ex(1) assms(8) by simp
  have cr: "claim_or_replay E ?tid ?key call W2 = (Inr (Some (obs\<lparr>ob_error_code := None\<rparr>)), W2)"
    by (rule claim_filled [OF assms(1) row tool_exec_dict_row [OF assms(6)]])
  obtain acc2 where pp: "post_process E call obs acc = (Inr done, acc2)"
    and rel: "ac_key_outputs acc2 = ac_key_outputs acc1" "ac_tokens acc2 = ac_tokens acc1 - tk"
    using post_process_acc [OF ex(2) [symmetric]] by blast
  have "post_process E call (obs\<lparr>ob_error_code := None\<rparr>) acc = (Inr (done\<lparr>ob_error_code := None\<rparr>), acc2)"
    by (simp add: post_process_code pp)
  then show ?thesis using cr rel by (simp add: run_one_def)
qed

definition demo_writer :: "nat tool_spec" where
  "demo_writer = demo_tool\<lparr>ts_name := ascii ''write'', ts_retry_transient := False, ts_side_effect := True,
     ts_key_result := False,
     ts_handler := (\<lambda>args n. (Inl (HxUpstream 403 (ascii ''no'') None), Suc n))\<rparr>"

definition demo_env_w :: "nat env" where
  "demo_env_w = demo_env\<lparr>en_registry := [(ascii ''write'', demo_writer)]\<rparr>"

definition demo_call_w :: tool_call where
  "demo_call_w = demo_call\<lparr>tc_name := ascii ''write''\<rparr>"

definition demo_state :: agent_state where
  "demo_state = init_state (ascii ''t'') (ascii ''g'') ReactMode 1000 24 False"

definition demo_obs_w :: observation where
  "demo_obs_w = error_obs (ascii ''write'') (JObj [])
     ([24037, 20855, 32] @ ascii ''write'' @ [32, 19978, 28216, 36820, 22238, 32, 72, 84, 84, 80, 32] @ int_str 403 @ ascii '': '' @ ascii ''no'')
     EtRuntime (Some AUTH)"

lemma demo_execute_w:
  "execute_call demo_env_w tid model demo_call_w W = (Inr (demo_obs_w, 0, 0), W\<lparr>wd_ext := Suc (wd_ext W)\<rparr>)"
  by (simp add: execute_call_def call_tool_def execute_def get_tool_def dict_get_def demo_env_w_def demo_env_def
      demo_call_w_def demo_call_def demo_writer_def demo_tool_def validate_def fold_exception_def retried_obs_def
      retry_transient_def is_transient_error_def tool_error_def code_from_http_status_def retryable_by_code_def
      demo_obs_w_def)

theorem run_one_rerun_witness:
  "\<exists>W1 acc2. wd_ext W1 = 1 \<and> ob_error_code demo_obs_w = Some AUTH
     \<and> run_one demo_env_w demo_state demo_call_w \<lparr>ac_key_outputs = [], ac_tokens = 0, ac_selfheal = 0\<rparr> W1
       = (Inr (demo_obs_w\<lparr>ob_error_code := None\<rparr>), acc2,
          emit (EvToolReplay (ascii ''write'') (ascii ''c1'') (JObj []) False) W1)"
proof -
  let ?acc = "\<lparr>ac_key_outputs = [], ac_tokens = 0, ac_selfheal = 0\<rparr>"
  let ?key = "journal_call_key (en_sha1 demo_env_w) (as_iterations demo_state) demo_call_w"
  have j: "en_journal demo_env_w" "quiet demo_env_w" by (simp_all add: demo_env_w_def demo_env_def quiet_def)
  have un: "te_look (wd_journal demo_world) (as_task_id demo_state, ?key) = Unclaimed" "te_unique (wd_journal demo_world)"
    by (simp_all add: demo_world_def te_look_def te_unique_def)
  have wf: "wf_obs demo_obs_w" by (simp add: wf_obs_def demo_obs_w_def error_obs_def)
  obtain acc1 W1 where r: "run_one demo_env_w demo_state demo_call_w ?acc demo_world = (Inr demo_obs_w, acc1, W1)"
    and one: "wd_ext W1 = 1"
    using j un by (auto simp: run_one_def claim_or_replay_def try_claim_tool_execution_def demo_execute_w
        demo_world_def post_process_def demo_obs_w_def error_obs_def Let_def)
  have "\<exists>acc2. run_one demo_env_w demo_state demo_call_w ?acc W1 = (Inr (demo_obs_w\<lparr>ob_error_code := None\<rparr>), acc2,
      emit (EvToolReplay (ob_tool demo_obs_w) (tc_id demo_call_w) (ob_arguments demo_obs_w) (ob_ok demo_obs_w)) W1)"
    using run_one_rerun [OF j un(2,1) demo_execute_w wf r refl] by blast
  then show ?thesis using one by (auto simp: demo_obs_w_def error_obs_def demo_call_w_def demo_call_def)
qed

section \<open>Waiting for another worker\<close>

lemma await_claim_covered:
  assumes clock: "\<forall>d x j. en_clock E x + d \<le> en_clock E (fst (en_sleep E d (x, j)))"
  shows "deadline \<le> en_clock E (wd_ext W) + real n / 4
    \<Longrightarrow> await_claim (n + k) E tid key deadline W = await_claim n E tid key deadline W"
proof (induction n arbitrary: W)
  case 0
  then show ?case by (cases k) auto
next
  case (Suc n)
  let ?W1 = "do_sleep E claim_poll_interval_s W"
  have "en_clock E (wd_ext W) + 1 / 4 \<le> en_clock E (wd_ext ?W1)"
    using clock [rule_format, of "wd_ext W" "1/4" "wd_journal W"]
    by (auto simp: do_sleep_def claim_poll_interval_s_def split: prod.splits)
  then have "deadline \<le> en_clock E (wd_ext ?W1) + real n / 4"
    using Suc.prems by (simp add: add_divide_distrib)
  note IH = Suc.IH [OF this]
  show ?case unfolding add_Suc await_claim.simps Let_def IH ..
qed

text \<open>
  Waiting for the holder of a claim ends: when sleeping advances the clock by at least the
  time slept, the poll loop reaches its deadline within twenty rounds, so allowing it more
  rounds changes nothing.
\<close>

theorem await_claim_enough:
  assumes "\<forall>d x j. en_clock E x + d \<le> en_clock E (fst (en_sleep E d (x, j)))"
  shows "await_claim (claim_polls + k) E tid key (en_clock E (wd_ext W) + claim_wait_s) W
         = await_claim_result E tid key W"
  unfolding await_claim_result_def
  by (rule await_claim_covered [OF assms]) (simp add: claim_wait_s_def claim_polls_def)

definition demo_clock_env :: "real env" where
  "demo_clock_env =
     \<lparr>en_settings = default_settings, en_registry = [],
      en_llm = (\<lambda>ms tools model n. (Inl ApiConnectionError, n)), en_clock = (\<lambda>t. t),
      en_sleep = (\<lambda>d (x, j). (x + d, j)), en_canceled = (\<lambda>tid n. False), en_journal = True,
      en_now = (\<lambda>n. ([], 0, [])), en_sha1 = (\<lambda>t. replicate 40 48), en_llm_text = (\<lambda>e. []),
      en_json_err = (\<lambda>t. [])\<rparr>"

theorem await_claim_enough_witness:
  "await_claim (claim_polls + 1000) demo_clock_env [] [] claim_wait_s \<lparr>wd_ext = 0, wd_journal = [], wd_log = []\<rparr>
     = await_claim_result demo_clock_env [] [] \<lparr>wd_ext = 0, wd_journal = [], wd_log = []\<rparr>"
  using await_claim_enough [of demo_clock_env 1000 "[]" "[]" "\<lparr>wd_ext = 0, wd_journal = [], wd_log = []\<rparr>"]
  by (simp add: demo_clock_env_def)

section \<open>Idempotency keys\<close>

lemma append_last_sep:
  assumes "a @ c # b = a' @ c # b'" and "c \<notin> set b" and "c \<notin> set b'"
  shows "a = a' \<and> b = b'"
proof -
  have "rev b @ c # rev a = rev b' @ c # rev a'" using arg_cong [OF assms(1), of rev] by simp
  then have t: "takeWhile (\<lambda>x. x \<noteq> c) (rev b @ c # rev a) = takeWhile (\<lambda>x. x \<noteq> c) (rev b' @ c # rev a')" by simp
  have "takeWhile (\<lambda>x. x \<noteq> c) (rev b @ c # rev a) = rev b" "takeWhile (\<lambda>x. x \<noteq> c) (rev b' @ c # rev a') = rev b'"
    using assms(2,3) by (auto simp: takeWhile_append2 intro!: takeWhile_append2 [THEN trans])
  then have "b = b'" using t by simp
  then show ?thesis using assms(1) by simp
qed

lemma nat_str_no_sep: "c \<in> set (nat_str n) \<Longrightarrow> 48 \<le> c \<and> c \<le> 57"
  by (induction n rule: nat_str.induct) (subst (asm) nat_str.simps, auto split: if_splits)

lemma int_str_no_hash: "35 \<notin> set (int_str i)"
  by (auto simp: int_str_def ascii_def dest: nat_str_no_sep split: if_splits)

lemma int_str_inj: "int_str i = int_str j \<Longrightarrow> i = j"
proof -
  assume eq: "int_str i = int_str j"
  have no: "nat_str n \<noteq> 45 # t" for n t using nat_str_no_sep [of 45 n] by auto
  show ?thesis using eq no no [symmetric]
    by (auto simp: int_str_def ascii_def split: if_splits)
qed

text \<open>
  The idempotency key separates calls: with a digest of at least ten characters and ids
  short enough not to be folded, two calls with the same key have the same id, belong to the
  same round and have the same fingerprint of tool, arguments and parse error. An endpoint
  that reuses its call ids in every round therefore never causes a replay of an old result.
\<close>

theorem journal_call_key_separates:
  assumes "\<forall>t. 10 \<le> length (sha1 t)"
    and "length (tc_id c) + length (int_str i) + 12 \<le> 80" and "length (tc_id d) + length (int_str j) + 12 \<le> 80"
    and "journal_call_key sha1 i c = journal_call_key sha1 j d"
  shows "tc_id c = tc_id d \<and> i = j
     \<and> take 10 (sha1 (call_fingerprint_text c)) = take 10 (sha1 (call_fingerprint_text d))"
proof -
  let ?fc = "take 10 (sha1 (call_fingerprint_text c))" and ?fd = "take 10 (sha1 (call_fingerprint_text d))"
  have len: "length ?fc = 10" "length ?fd = 10" using assms(1) by simp_all
  have "tc_id c @ 35 # int_str i @ 58 # ?fc = tc_id d @ 35 # int_str j @ 58 # ?fd"
    using assms(2-4) len by (simp add: journal_call_key_def Let_def ascii_def split: if_splits)
  then have eq: "(tc_id c @ 35 # int_str i) @ 58 # ?fc = (tc_id d @ 35 # int_str j) @ 58 # ?fd" by simp
  have tails: "A = B \<and> f = g" if "A @ 58 # f = B @ 58 # g" "length f = length g" for A B f g :: "nat list"
    using that by simp
  have "tc_id c @ 35 # int_str i = tc_id d @ 35 # int_str j" and f: "?fc = ?fd"
    using tails [OF eq] len by simp_all
  then show ?thesis using append_last_sep [OF _ int_str_no_hash int_str_no_hash] int_str_inj f by blast
qed

theorem journal_call_key_separates_witness:
  "journal_call_key (\<lambda>t. replicate 40 48) 1 demo_call \<noteq> journal_call_key (\<lambda>t. replicate 40 48) 2 demo_call"
proof
  assume eq: "journal_call_key (\<lambda>t. replicate 40 48) 1 demo_call = journal_call_key (\<lambda>t. replicate 40 48) 2 demo_call"
  have "(1::int) = 2"
    using journal_call_key_separates [of "\<lambda>t. replicate 40 48" demo_call 1 demo_call 2, OF _ _ _ eq]
    by (simp add: demo_call_def ascii_def int_str_def nat_str.simps)
  then show False by simp
qed

section \<open>Key outputs stay bounded\<close>

lemma drop_oldest_spec:
  assumes "tot = sum_list (map key_output_tokens items)"
  shows "\<exists>dropped. items = dropped @ drop_oldest items tot
     \<and> sum_list (map key_output_tokens (drop_oldest items tot)) \<le> key_outputs_token_budget
     \<and> (dropped = [] \<or> key_outputs_token_budget
            < sum_list (map key_output_tokens (last dropped # drop_oldest items tot)))"
  using assms
proof (induction items arbitrary: tot)
  case Nil
  then show ?case by (simp add: key_outputs_token_budget_def)
next
  case (Cons kv items)
  show ?case
  proof (cases "tot > key_outputs_token_budget")
    case False
    then show ?thesis using Cons.prems by (intro exI [of _ "[]"]) simp
  next
    case True
    obtain dropped where d: "items = dropped @ drop_oldest items (tot - key_output_tokens kv)"
      and s: "sum_list (map key_output_tokens (drop_oldest items (tot - key_output_tokens kv))) \<le> key_outputs_token_budget"
      and m: "dropped = [] \<or> key_outputs_token_budget
            < sum_list (map key_output_tokens (last dropped # drop_oldest items (tot - key_output_tokens kv)))"
      using Cons.IH [of "tot - key_output_tokens kv"] Cons.prems by auto
    show ?thesis
      using True d s m Cons.prems
      by (intro exI [of _ "kv # dropped"]) (auto simp: split: if_splits)
  qed
qed

text \<open>
  The key data that is pinned into every prompt stays bounded: pruning keeps a suffix of
  the entries in their order, at most thirty of them and at most 1500 estimated tokens, and it
  drops no more than needed: the newest dropped entry would break one of the two limits.
\<close>

theorem prune_key_outputs_spec:
  "\<exists>dropped. ko = dropped @ prune_key_outputs ko
     \<and> length (prune_key_outputs ko) \<le> 30
     \<and> sum_list (map key_output_tokens (prune_key_outputs ko)) \<le> 1500
     \<and> (dropped = [] \<or> length (prune_key_outputs ko) = 30
        \<or> 1500 < sum_list (map key_output_tokens (last dropped # prune_key_outputs ko)))"
proof -
  define items where "items = (if length ko > key_outputs_max_items then take_last key_outputs_max_items ko else ko)"
  have p: "prune_key_outputs ko = drop_oldest items (sum_list (map key_output_tokens items))"
    by (simp add: prune_key_outputs_def items_def Let_def)
  obtain d where d: "items = d @ prune_key_outputs ko"
      "sum_list (map key_output_tokens (prune_key_outputs ko)) \<le> 1500"
      "d = [] \<or> 1500 < sum_list (map key_output_tokens (last d # prune_key_outputs ko))"
    using drop_oldest_spec [OF refl, of items] unfolding p key_outputs_token_budget_def by blast
  obtain old where old: "ko = old @ items" "old = [] \<or> length items = 30"
  proof (cases "length ko > key_outputs_max_items")
    case True
    obtain ys where "ko = ys @ take_last key_outputs_max_items ko" using take_last_append by blast
    with True that show ?thesis by (simp add: items_def key_outputs_max_items_def min_def)
  next
    case False
    with that [of "[]"] show ?thesis by (simp add: items_def)
  qed
  have "length items \<le> 30" by (simp add: items_def key_outputs_max_items_def)
  moreover have "length (prune_key_outputs ko) \<le> length items" using arg_cong [OF d(1), of length] by simp
  moreover have "d = [] \<Longrightarrow> length (prune_key_outputs ko) = length items" using arg_cong [OF d(1), of length] by simp
  moreover have "ko = (old @ d) @ prune_key_outputs ko" using d(1) old(1) by simp
  ultimately show ?thesis using d(2,3) old(2)
    by (intro exI [of _ "old @ d"]) (auto simp: last_append)
qed

section \<open>The messages of a round\<close>

lemma report_results_messages:
  "report_results ps ms W = (Inr ms', W') \<Longrightarrow> ms' = ms @ map (\<lambda>(c, ob). tool_message c ob) ps"
proof (induction ps arbitrary: ms W)
  case (Cons p ps)
  obtain c ob where p: "p = (c, ob)" by fastforce
  with Cons.prems obtain ev where "report_results ps (ms @ [tool_message c ob]) (emit ev W) = (Inr ms', W')"
    by (auto split: sum.splits)
  from Cons.IH [OF this] show ?case by (simp add: p)
qed simp

lemma run_calls_length: "run_calls E s cs acc W = (rs, acc', W') \<Longrightarrow> length rs = length cs"
  by (induction cs arbitrary: acc W rs acc' W') (auto split: prod.splits)

text \<open>An open round: the history ends with the assistant message whose calls are pending.\<close>

definition round_open :: "agent_state \<Rightarrow> bool" where
  "round_open s \<longleftrightarrow>
     (\<exists>ms m. as_messages s = ms @ [m] \<and> paired ms \<and> m_role m = RAssistant
        \<and> map wc_id (m_tool_calls m) = map tc_id (as_pending_tool_calls s))"

lemma answers_tool_messages:
  assumes "map wc_id calls = map tc_id pend" and "length obs = length pend"
  shows "answers calls (map (\<lambda>(c, ob). tool_message c ob) (zip pend obs))"
proof -
  have len: "length calls = length pend" using arg_cong [OF assms(1), of length] by simp
  moreover have "\<forall>i < length calls. wc_id (calls ! i) = tc_id (pend ! i)"
    using assms(1) len by (metis nth_map)
  ultimately show ?thesis using assms(2)
    by (auto simp: answers_def list_all2_conv_all_nth is_tool_def tool_message_def)
qed

lemma paired_close_round:
  assumes "paired ms" and "m_role m = RAssistant" and "answers (m_tool_calls m) ans"
  shows "paired (ms @ m # ans)"
proof -
  have "paired (m # ans)"
    using assms(2,3) answers_length [OF assms(3)] by (simp add: paired.simps is_tool_def Let_def)
  then show ?thesis using paired_append [OF assms(1)] by simp
qed

lemma executor_messages:
  assumes "tool_executor_node E s W = (Inr s', W')" and "as_pending_tool_calls s \<noteq> []"
    and "\<not> is_canceled E (as_task_id s) W"
  shows "length (as_last_observations s') = length (as_pending_tool_calls s)"
    and "as_messages s' = as_messages s
           @ map (\<lambda>(c, ob). tool_message c ob) (zip (as_pending_tool_calls s) (as_last_observations s'))"
    and "as_status s' = as_status s" and "as_pending_tool_calls s' = []"
proof -
  let ?calls = "as_pending_tool_calls s"
  let ?acc = "\<lparr>ac_key_outputs = as_key_outputs s, ac_tokens = as_tokens_used s, ac_selfheal = 0\<rparr>"
  obtain rs acc W1 where rc: "run_calls E s ?calls ?acc W = (rs, acc, W1)" using prod_cases3 by blast
  have br: "base_raised rs = None" using assms rc by (auto simp: tool_executor_node_def Let_def split: option.splits)
  obtain ms W2 where rr: "report_results (zip ?calls (map2 (settle E) ?calls rs)) (as_messages s) W1 = (Inr ms, W2)"
    and s': "s' = s\<lparr>as_messages := ms, as_pending_tool_calls := [],
         as_last_observations := map2 (settle E) ?calls rs,
         as_key_outputs := prune_key_outputs (ac_key_outputs acc),
         as_selfheal_total := as_selfheal_total s + ac_selfheal acc, as_tokens_used := ac_tokens acc\<rparr>"
    using assms rc br by (auto simp: tool_executor_node_def Let_def split: prod.splits sum.splits)
  show "length (as_last_observations s') = length ?calls"
    using s' run_calls_length [OF rc] by simp
  show "as_messages s' = as_messages s
           @ map (\<lambda>(c, ob). tool_message c ob) (zip ?calls (as_last_observations s'))"
    using report_results_messages [OF rr] s' by simp
  show "as_status s' = as_status s" "as_pending_tool_calls s' = []" using s' by simp_all
qed

text \<open>
  After the tool node every call of the round has exactly one answer: if the history was
  paired up to the assistant message whose calls are pending, then it is paired again
  afterwards, whatever the tools, the repair model and the journal did, exceptions included;
  the only other outcomes are the cancelled task and a node that fails as a whole.
\<close>

theorem tool_executor_paired:
  assumes "round_open s" and "tool_executor_node E s W = (Inr s', W')"
  shows "paired (as_messages s') \<or> as_status s' = StCanceled"
proof -
  obtain ms m where ms: "as_messages s = ms @ [m]" "paired ms" "m_role m = RAssistant"
      "map wc_id (m_tool_calls m) = map tc_id (as_pending_tool_calls s)"
    using assms(1) by (auto simp: round_open_def)
  show ?thesis
  proof (cases "as_pending_tool_calls s \<noteq> [] \<and> \<not> is_canceled E (as_task_id s) W")
    case True
    note ex = executor_messages [OF assms(2), OF True [THEN conjunct1] True [THEN conjunct2]]
    show ?thesis
      using ex(2) paired_close_round [OF ms(2,3) answers_tool_messages [OF ms(4) ex(1)]] ms(1) by simp
  next
    case False
    then have "as_pending_tool_calls s = [] \<or> as_status s' = StCanceled"
      using assms(2) by (auto simp: tool_executor_node_def Let_def split: if_splits)
    then show ?thesis
      using assms(2) ms paired_close_round [OF ms(2,3), of "[]"]
      by (auto simp: tool_executor_node_def Let_def answers_def)
  qed
qed

definition demo_state_w :: agent_state where
  "demo_state_w = demo_state\<lparr>as_pending_tool_calls := [demo_call_w],
     as_messages := [assistant_message \<lparr>lr_text = [], lr_tool_calls = [demo_call_w], lr_model = [], lr_tokens = 5\<rparr>]\<rparr>"

lemma demo_round_open: "round_open demo_state_w"
  unfolding round_open_def demo_state_w_def demo_state_def init_state_def assistant_message_def by simp

lemma demo_run_one_w:
  "\<exists>acc W. run_one demo_env_w demo_state_w demo_call_w acc0 demo_world = (Inr demo_obs_w, acc, W)"
proof -
  have j: "en_journal demo_env_w" by (simp add: demo_env_w_def demo_env_def)
  have o: "post_process demo_env_w demo_call_w demo_obs_w acc = (Inr demo_obs_w, acc)" for acc
    by (simp add: post_process_def demo_obs_w_def error_obs_def)
  show ?thesis
    by (simp add: run_one_def claim_or_replay_def try_claim_tool_execution_def demo_execute_w j o
        demo_world_def Let_def)
qed

theorem tool_executor_paired_witness:
  "\<exists>s' W'. tool_executor_node demo_env_w demo_state_w demo_world = (Inr s', W')
     \<and> (paired (as_messages s') \<or> as_status s' = StCanceled)"
proof -
  have p: "as_pending_tool_calls demo_state_w = [demo_call_w]" by (simp add: demo_state_w_def)
  have c: "\<not> is_canceled demo_env_w tid demo_world" for tid
    by (simp add: is_canceled_def demo_env_w_def demo_env_def)
  obtain s' W' where run: "tool_executor_node demo_env_w demo_state_w demo_world = (Inr s', W')"
    using demo_run_one_w [of "\<lparr>ac_key_outputs = as_key_outputs demo_state_w,
        ac_tokens = as_tokens_used demo_state_w, ac_selfheal = 0\<rparr>"]
    by (auto simp: tool_executor_node_def p c Let_def base_raised_def settle_def obs_event_def demo_obs_w_def error_obs_def)
  then show ?thesis using tool_executor_paired [OF demo_round_open run] by blast
qed

end
