(* ===== verification/Nodes.thy ===== *)
theory Nodes
  imports Tool_Exec
begin

text \<open>
  The nodes and routes of the agent graph (\<^verbatim>\<open>app/graph/nodes.py\<close>). A node returns the updated
  state, or the exception that ends the run; the approval gate may also suspend it. Metrics and
  spans, which no node reads, are left out.
\<close>

section \<open>Entry and planner\<close>

datatype graph_node = Planner | ReactStep | ApprovalGate | ToolExecutor | Critic | CompressorN | Finisher

definition route_entry :: "agent_state \<Rightarrow> graph_node" where
  "route_entry s = (if as_mode s = PlanExecute then Planner else ReactStep)"

definition planner_prompt :: "agent_state \<Rightarrow> pystr" where
  "planner_prompt s =
     (let plan_desc = str_join [10] (map (\<lambda>p. ascii ''- '' @ ps_description p) (as_plan s));
          user = [29992, 25143, 30446, 26631, 65306] @ as_goal s
      in if as_last_error s \<noteq> []
         then user @ replan_note (take 200 (as_last_error s)) [35265, 19978]
         else user @ (if plan_desc \<noteq> [] then [10] @ [29616, 26377, 32972, 26223, 20449, 24687, 65306] @ plan_desc else []))"

text \<open>The number of an id \<open>s<digits>\<close>, as \<open>re.match\<close> finds it (a final newline is allowed by \<open>$\<close>).\<close>

definition id_number :: "pystr \<Rightarrow> nat option" where
  "id_number k =
     (case k of
        c # r \<Rightarrow>
          (let ds = (if r \<noteq> [] \<and> last r = 10 then butlast r else r)
           in if c = 115 \<and> ds \<noteq> [] \<and> list_all is_digit ds then Some (digits_val ds) else None)
      | [] \<Rightarrow> None)"

definition id_base :: "plan_step list \<Rightarrow> nat" where
  "id_base plan =
     fold (\<lambda>p base. case id_number (case ps_id p of None \<Rightarrow> [] | Some k \<Rightarrow> k) of
                      None \<Rightarrow> base | Some n \<Rightarrow> max base n) plan 0"

text \<open>
  \<open>rename\<close>: the new id of every id in the new plan; a later step with the same id wins, as in
  a dictionary comprehension.
\<close>

definition rename_map :: "nat \<Rightarrow> plan_step list \<Rightarrow> pystr dict" where
  "rename_map base steps =
     fold (\<lambda>(i, p) d. dict_set (case ps_id p of None \<Rightarrow> [] | Some k \<Rightarrow> k) (auto_id (base + 1 + i)) d)
       (zip [0..<length steps] steps) []"

definition rename_ref :: "pystr dict \<Rightarrow> pystr \<Rightarrow> pystr" where
  "rename_ref d k = (case dict_get d k of None \<Rightarrow> k | Some k' \<Rightarrow> k')"

definition rename_step :: "pystr dict \<Rightarrow> pystr option \<Rightarrow> plan_step \<Rightarrow> plan_step" where
  "rename_step d last_done p =
     (let p1 = p\<lparr>ps_id := map_option (rename_ref d) (ps_id p)\<rparr>
      in case ps_deps p of
           Some (JArr refs) \<Rightarrow>
             (let new = map (\<lambda>r. case r of JStr k \<Rightarrow> JStr (rename_ref d k) | _ \<Rightarrow> r) refs
              in p1\<lparr>ps_deps := Some (JArr (case last_done of
                                            Some k \<Rightarrow> if new = [] then [JStr k] else new
                                          | None \<Rightarrow> new))\<rparr>)
         | _ \<Rightarrow> p1)"

definition last_done_id :: "plan_step list \<Rightarrow> pystr option" where
  "last_done_id ps =
     (if ps = [] then None
      else case ps_id (last ps) of Some k \<Rightarrow> if k = [] then None else Some k | None \<Rightarrow> None)"

definition replan_merge :: "plan_step list \<Rightarrow> plan_step list \<Rightarrow> plan_step list" where
  "replan_merge old steps =
     (let finished = filter (\<lambda>p. ps_status p = StepDone) old;
          d = rename_map (id_base old) steps
      in finished @ map (rename_step d (last_done_id finished)) steps)"

text \<open>The first batch with a pending step, or the number of batches.\<close>

definition first_open :: "plan_step list \<Rightarrow> nat" where
  "first_open plan =
     (let layers = safe_layers plan
      in case find (\<lambda>i. \<exists>k \<in> set (layers ! i). ps_status (plan ! k) = Pending) [0..<length layers] of
           Some i \<Rightarrow> i
         | None \<Rightarrow> length layers)"

definition raw_steps :: "json option \<Rightarrow> json option" where
  "raw_steps parsed = (case parsed of Some (JObj kvs) \<Rightarrow> dict_get kvs (ascii ''steps'') | other \<Rightarrow> other)"

definition fallback_step :: "pystr \<Rightarrow> plan_step" where
  "fallback_step goal =
     \<lparr>ps_id = Some (ascii ''s1''), ps_description = goal, ps_status = Pending, ps_result = [], ps_deps = None\<rparr>"

text \<open>The part of \<open>planner_node\<close> after the answer is parsed into steps.\<close>

definition adopt_plan :: "settings \<Rightarrow> agent_state \<Rightarrow> llm_response \<Rightarrow> plan_step list \<Rightarrow> 'w world
     \<Rightarrow> agent_state \<times> 'w world" where
  "adopt_plan cfg s resp parsed W =
     (let is_replan = (as_last_error s \<noteq> []);
          steps = (if parsed = [] then [fallback_step (as_goal s)] else parsed);
          upgraded = (is_replan \<and> as_mode s = ReactMode \<and> as_mode_switches s < st_max_mode_switches cfg);
          new_plan = (if is_replan then replan_merge (as_plan s) steps else steps);
          ev = (if is_replan then EvReplan else EvPlanCreated) (map ps_description steps) (length new_plan)
                 (map length (safe_layers new_plan)) (lr_tokens resp) (take 500 (lr_text resp));
          W1 = emit ev W;
          s1 = s\<lparr>as_plan := new_plan, as_current_step := first_open new_plan,
                 as_tokens_used := as_tokens_used s + lr_tokens resp,
                 as_last_error := [], as_error_kind := ERR_NONE\<rparr>
      in if upgraded
         then (s1\<lparr>as_mode := PlanExecute, as_mode_switches := as_mode_switches s + 1\<rparr>,
               emit (EvModeUpgraded (length new_plan)) W1)
         else (s1, W1))"

definition planner_node :: "'w env \<Rightarrow> agent_state \<Rightarrow> 'w world \<Rightarrow> (raised + agent_state) \<times> 'w world" where
  "planner_node E s W =
     (let ms = [plain_message RSystem (plan_system (as_max_steps s) @ now_context (en_now E (wd_ext W))),
                plain_message RUser (planner_prompt s)]
      in case call_llm E ms False (model_of (en_settings E) s) W of
           (Inl r, W1) \<Rightarrow> (Inl r, W1)
         | (Inr resp, W1) \<Rightarrow>
             (case parse_plan_steps (raw_steps (parse_json_loose (lr_text resp))) of
                Inl _ \<Rightarrow>
                  (Inl (ROther (case raw_steps (parse_json_loose (lr_text resp)) of
                                  Some v \<Rightarrow> repr_str (type_name v) @ ascii '' object is not iterable''
                                | None \<Rightarrow> [])), W1)
              | Inr parsed \<Rightarrow> map_prod Inr id (adopt_plan (en_settings E) s resp parsed W1)))"

section \<open>Context and decision step\<close>

definition plan_context :: "agent_state \<Rightarrow> pystr" where
  "plan_context s =
     (if as_plan s \<noteq> [] \<and> as_mode s = PlanExecute then
        (let layers = safe_layers (as_plan s); idx = as_current_step s
         in if idx < length layers then
              (let pending = filter (\<lambda>p. ps_status p = Pending) (map ((!) (as_plan s)) (layers ! idx));
                   desc = str_join [10] (map (\<lambda>p. ascii ''- '' @ ps_description p) pending)
               in plan_context_line (plan_text (as_plan s)) (int idx + 1) (int (length layers))
                    (if desc = [] then [65288, 26412, 25209, 27493, 39588, 24050, 20840, 37096, 23436, 25104, 65289] else desc))
            else [])
      else [])"

definition assemble_base :: "pystr \<times> nat \<times> pystr \<Rightarrow> agent_state \<Rightarrow> message list" where
  "assemble_base now s =
     [plain_message RSystem (inject_key_outputs react_system (as_key_outputs s) @ now_context now),
      plain_message RUser (react_task (as_goal s) (as_steps_used s) (as_max_steps s) (plan_context s))]
     @ as_messages s"

definition plan_finished :: "agent_state \<Rightarrow> bool" where
  "plan_finished s \<longleftrightarrow> as_mode s = PlanExecute \<and> as_plan s \<noteq> []
     \<and> as_current_step s \<ge> length (safe_layers (as_plan s))"

text \<open>The part of \<open>_react_step_inner\<close> after the model has answered.\<close>

definition adopt_decision :: "agent_state \<Rightarrow> bool \<Rightarrow> llm_response \<Rightarrow> 'w world \<Rightarrow> agent_state \<times> 'w world" where
  "adopt_decision s down resp W =
     (let s1 = s\<lparr>as_downgraded := (down \<or> as_downgraded s),
                 as_messages := as_messages s @ [assistant_message resp],
                 as_tokens_used := as_tokens_used s + lr_tokens resp,
                 as_steps_used := as_steps_used s + 1,
                 as_iterations := as_iterations s + 1, as_error_kind := ERR_NONE,
                 as_pending_tool_calls := lr_tool_calls resp\<rparr>
      in if lr_tool_calls resp \<noteq> []
         then (s1, emit (EvLlmStep (as_iterations s + 1) (take 400 (lr_text resp))
                           (map (\<lambda>c. (tc_name c, tc_arguments c)) (lr_tool_calls resp)) (lr_model resp)) W)
         else (s1\<lparr>as_needs_final := True, as_final_answer := lr_text resp\<rparr>,
               emit (EvLlmFinalDraft (take 400 (lr_text resp)) (lr_model resp)) W))"

text \<open>Calling the model for a decision, with the downgrade to the cheap model where the budget asks for it.\<close>

definition decide :: "'w env \<Rightarrow> agent_state \<Rightarrow> budget_decision \<Rightarrow> 'w world \<Rightarrow> (raised + agent_state) \<times> 'w world" where
  "decide E s decision W =
     (let cfg = en_settings E;
          down = (bd_action decision = BudgetDowngrade);
          model = (if down then st_llm_model_cheap cfg else model_of cfg s);
          W1 = (if down then emit (EvBudgetDowngrade (bd_reason decision) model) W else W)
      in case call_llm E (assemble_base (en_now E (wd_ext W1)) s) True model W1 of
           (Inl r, W2) \<Rightarrow> (Inl r, W2)
         | (Inr resp, W2) \<Rightarrow> map_prod Inr id (adopt_decision s down resp W2))"

definition react_step_node :: "'w env \<Rightarrow> agent_state \<Rightarrow> 'w world \<Rightarrow> (raised + agent_state) \<times> 'w world" where
  "react_step_node E s W =
     (if is_canceled E (as_task_id s) W
      then (Inr (s\<lparr>as_status := StCanceled, as_needs_final := True, as_final_answer := canceled_answer\<rparr>), W)
      else
        (let decision = check_budget (as_tokens_used s) (as_steps_used s) (as_max_tokens s) (as_max_steps s)
                          (as_downgraded s) (st_llm_model_cheap (en_settings E) \<noteq> [])
         in if bd_action decision = BudgetExceededAct
            then (Inr (s\<lparr>as_status := StBudgetExceeded, as_needs_final := True,
                         as_last_error := bd_reason decision, as_error_kind := ERR_NONE\<rparr>),
                  emit (EvBudgetExceeded (bd_reason decision)) W)
            else if plan_finished s then (Inr (s\<lparr>as_needs_final := True\<rparr>), W)
            else decide E s decision W))"

section \<open>Critic\<close>

definition obs_summary :: "observation \<Rightarrow> raised + pystr" where
  "obs_summary obs =
     (case ob_result obs of
        Some (JObj d) \<Rightarrow>
          (case slice_value 200 (case dict_get d (ascii ''summary'') of None \<Rightarrow> JStr [] | Some v \<Rightarrow> v) of
             Inl r \<Rightarrow> Inl r
           | Inr (JStr t) \<Rightarrow> Inr t
           | Inr v \<Rightarrow> Inl (ROther (ascii ''expected str instance, '' @ type_name v @ ascii '' found'')))
      | other \<Rightarrow>
          Inl (ROther (repr_str (case other of None \<Rightarrow> ascii ''NoneType'' | Some v \<Rightarrow> type_name v)
                 @ ascii '' object has no attribute '' @ repr_str (ascii ''get''))))"

fun join_summaries :: "observation list \<Rightarrow> raised + pystr list" where
  "join_summaries [] = Inr []"
| "join_summaries (ob # obs) =
     (case obs_summary ob of
        Inl r \<Rightarrow> Inl r
      | Inr t \<Rightarrow> (case join_summaries obs of Inl r \<Rightarrow> Inl r | Inr ts \<Rightarrow> Inr (t # ts)))"

text \<open>Marking the pending steps of a batch, with one event per step.\<close>

fun mark_done :: "nat list \<Rightarrow> pystr \<Rightarrow> nat \<Rightarrow> plan_step list \<Rightarrow> 'w world \<Rightarrow> plan_step list \<times> 'w world" where
  "mark_done [] summaries pending_left plan W = (plan, W)"
| "mark_done (k # ks) summaries pending_left plan W =
     (if ps_status (plan ! k) \<noteq> Pending then mark_done ks summaries pending_left plan W
      else mark_done ks summaries (pending_left - 1)
             (plan[k := (plan ! k)\<lparr>ps_status := StepDone, ps_result := summaries\<rparr>])
             (emit (EvStepDone (k + 1) (ps_description (plan ! k)) (pending_left - 1)) W))"

definition critic_success :: "agent_state \<Rightarrow> 'w world \<Rightarrow> (raised + agent_state) \<times> 'w world" where
  "critic_success s W =
     (let plan = as_plan s; idx = as_current_step s; observations = as_last_observations s;
          finish = (\<lambda>plan'. s\<lparr>as_error_kind := ERR_NONE, as_last_error := [], as_plan := plan',
                              as_current_step := idx + 1, as_plan_defect_streak := 0\<rparr>);
          layers = safe_layers plan
      in if plan \<noteq> [] \<and> as_mode s = PlanExecute \<and> observations \<noteq> [] \<and> idx < length layers
         then (case join_summaries observations of
                 Inl r \<Rightarrow> (Inl r, W)
               | Inr ts \<Rightarrow>
                   (case mark_done (layers ! idx) (take 400 (str_join (ascii ''; '') ts))
                           (length (filter (\<lambda>q. ps_status q = Pending) plan)) plan W of
                      (plan', W') \<Rightarrow> (Inr (finish plan'), W')))
         else (Inr (finish plan), W))"

definition critic_failure :: "settings \<Rightarrow> agent_state \<Rightarrow> 'w world \<Rightarrow> (raised + agent_state) \<times> 'w world" where
  "critic_failure cfg s W =
     (let failed = filter (\<lambda>ob. \<not> ob_ok ob) (as_last_observations s);
          codes = set (List.map_filter ob_error_code failed);
          ets = set (List.map_filter ob_error_type failed);
          errors = str_join (ascii ''; '') (map (\<lambda>ob. take 200 (ob_error ob)) failed);
          kind = classify_failure codes ets errors;
          W1 = emit (EvCritic kind (take 300 errors) codes) W;
          s1 = s\<lparr>as_error_kind := kind, as_last_error := errors\<rparr>;
          streak = as_plan_defect_streak s + 1;
          threshold = st_adaptive_downgrade_after_replans cfg;
          switches = as_mode_switches s + 1
      in case kind of
           ERR_FATAL \<Rightarrow> (Inr (s1\<lparr>as_status := StFailed, as_needs_final := True\<rparr>), W1)
         | ERR_RETRYABLE \<Rightarrow>
             (Inr (if as_iterations s \<ge> as_max_steps s
                   then s1\<lparr>as_status := StFailed, as_needs_final := True\<rparr> else s1), W1)
         | ERR_PLAN_DEFECT \<Rightarrow>
             (if as_mode s = PlanExecute \<and> 0 < threshold \<and> threshold \<le> streak then
                (if switches > st_max_mode_switches cfg
                 then (Inr (s1\<lparr>as_status := StFailed, as_needs_final := True\<rparr>),
                       emit (EvModeThrashingStopped (switches - 1) (st_max_mode_switches cfg) streak (take 200 errors)) W1)
                 else (Inr (s1\<lparr>as_mode := ReactMode,
                               as_plan := filter (\<lambda>p. ps_status p = StepDone) (as_plan s),
                               as_current_step := 0, as_plan_defect_streak := 0,
                               as_mode_switches := switches, as_error_kind := ERR_RETRYABLE\<rparr>),
                       emit (EvModeDowngraded streak (take 200 errors) switches) W1))
              else (Inr (s1\<lparr>as_plan_defect_streak := streak\<rparr>), W1))
         | ERR_NONE \<Rightarrow> (Inr s1, W1))"

definition critic_node :: "'w env \<Rightarrow> agent_state \<Rightarrow> 'w world \<Rightarrow> (raised + agent_state) \<times> 'w world" where
  "critic_node E s W =
     (if as_status s \<noteq> StRunning then (Inr s, W)
      else if list_all ob_ok (as_last_observations s) then critic_success s W
      else critic_failure (en_settings E) s W)"

section \<open>Compressor\<close>

definition min_history_budget_tokens :: int where
  "min_history_budget_tokens = 512"

definition compressor_node :: "'w env \<Rightarrow> agent_state \<Rightarrow> 'w world \<Rightarrow> (raised + agent_state) \<times> 'w world" where
  "compressor_node E s W =
     (let cfg = en_settings E;
          overhead = estimate_messages_tokens (assemble_base (en_now E (wd_ext W)) (s\<lparr>as_messages := []\<rparr>));
          threshold = max (st_compress_threshold_tokens cfg - overhead) min_history_budget_tokens
      in if \<not> needs_compression (as_messages s) threshold then (Inr s, W)
         else
           (case compress_messages (en_llm E) (as_messages s) threshold (model_of cfg s) (wd_ext W) of
              (Inl e, x) \<Rightarrow> (Inl (RLlm e), W\<lparr>wd_ext := x\<rparr>)
            | (Inr None, x) \<Rightarrow> (Inr s, W\<lparr>wd_ext := x\<rparr>)
            | (Inr (Some (compressed, summary, tokens)), x) \<Rightarrow>
                (Inr (s\<lparr>as_messages := compressed, as_tokens_used := as_tokens_used s + tokens\<rparr>),
                 emit (EvContextCompressed (estimate_messages_tokens (as_messages s))
                         (estimate_messages_tokens compressed) overhead threshold (take 300 summary) tokens
                         (sort (map fst (as_key_outputs s)))) (W\<lparr>wd_ext := x\<rparr>))))"

section \<open>Finisher\<close>

definition key_data_text :: "json dict \<Rightarrow> pystr" where
  "key_data_text ko =
     (let t = str_join [10] (map (\<lambda>(k, v). ascii ''- '' @ k @ ascii '': '' @ py_str v) ko)
      in if t = [] then [65288, 26080, 65289] else t)"

definition step_results :: "plan_step list \<Rightarrow> pystr" where
  "step_results plan =
     str_join [10] (map (\<lambda>p. ascii ''- ['' @ status_str (ps_status p) @ ascii ''] '' @ ps_description p
                             @ [65306] @ take 200 (ps_result p)) plan)"

definition finish_messages :: "pystr \<times> nat \<times> pystr \<Rightarrow> agent_state \<Rightarrow> message list" where
  "finish_messages now s =
     [plain_message RSystem (finish_system @ now_context now),
      plain_message RUser (dumps (JObj
        [(ascii ''goal'', JStr (as_goal s)), (ascii ''key_outputs'', JObj (as_key_outputs s)),
         (ascii ''step_results'', JStr (step_results (as_plan s))),
         (ascii ''recent'', JArr (map (\<lambda>m. JStr (take 200 (m_content m))) (take_last 4 (as_messages s))))]))]"

definition finisher_node :: "'w env \<Rightarrow> agent_state \<Rightarrow> 'w world \<Rightarrow> (raised + agent_state) \<times> 'w world" where
  "finisher_node E s W =
     (case as_status s of
        StCanceled \<Rightarrow>
          (Inr (s\<lparr>as_final_answer := (if as_final_answer s = [] then [20219, 21153, 24050, 34987, 21462, 28040, 12290] else as_final_answer s)\<rparr>),
           emit EvTaskCanceled W)
      | StFailed \<Rightarrow>
          (Inr (s\<lparr>as_final_answer := [20219, 21153, 22833, 36133, 65306] @ as_last_error s\<rparr>),
           emit (EvTaskFailed (take 300 (as_last_error s))) W)
      | StBudgetExceeded \<Rightarrow>
          (Inr (s\<lparr>as_final_answer := budget_exceeded_template (as_last_error s)
                    (int (length (filter (\<lambda>p. ps_status p = StepDone) (as_plan s))))
                    (if as_plan s = [] then as_steps_used s else int (length (as_plan s)))
                    (key_data_text (as_key_outputs s))\<rparr>),
           emit (EvTaskDone True []) W)
      | _ \<Rightarrow>
          (if as_needs_final s \<and> as_final_answer s \<noteq> [] \<and> as_mode s \<noteq> PlanExecute
           then (Inr (s\<lparr>as_status := StDone\<rparr>),
                 emit (EvTaskDone False (take 200 (as_final_answer s))) W)
           else
             (case call_llm E (finish_messages (en_now E (wd_ext W)) s) False (model_of (en_settings E) s) W of
                (Inl r, W1) \<Rightarrow> (Inl r, W1)
              | (Inr resp, W1) \<Rightarrow>
                  (Inr (s\<lparr>as_final_answer := lr_text resp, as_status := StDone,
                          as_tokens_used := as_tokens_used s + lr_tokens resp\<rparr>),
                   emit (EvTaskDone False (take 200 (lr_text resp))) (emit (EvTokens (lr_tokens resp)) W1)))))"

section \<open>Routes and the approval gate\<close>

definition route_after_step :: "agent_state \<Rightarrow> graph_node" where
  "route_after_step s =
     (if as_status s \<noteq> StRunning then Finisher else if as_needs_final s then Finisher else ApprovalGate)"

text \<open>
  The gate suspends the run (\<open>None\<close>) when approval is required and no decision is there;
  with a decision it lets the run go on or cancels it.
\<close>

definition rejected_answer :: pystr where
  "rejected_answer = [20154, 24037, 23457, 25209, 25298, 32477, 65292, 20219, 21153, 24050, 34987, 20154, 24037, 32456, 27490, 12290]"

definition approval_gate_node :: "bool option \<Rightarrow> agent_state \<Rightarrow> 'w world \<Rightarrow> agent_state option \<times> 'w world" where
  "approval_gate_node decision s W =
     (if \<not> as_require_approval s then (Some s, W)
      else case decision of
             None \<Rightarrow> (None, W)
           | Some True \<Rightarrow> (Some (s\<lparr>as_approval_pending := False\<rparr>), emit EvApprovalGranted W)
           | Some False \<Rightarrow>
               (Some (s\<lparr>as_approval_pending := False, as_status := StCanceled,
                        as_last_error := [20154, 24037, 23457, 25209, 25298, 32477], as_pending_tool_calls := [],
                        as_final_answer := rejected_answer\<rparr>), emit EvApprovalRejected W))"

definition route_after_gate :: "agent_state \<Rightarrow> graph_node" where
  "route_after_gate s = (if as_status s \<noteq> StRunning then Finisher else ToolExecutor)"

definition route_after_critic :: "agent_state \<Rightarrow> graph_node" where
  "route_after_critic s =
     (if as_status s \<noteq> StRunning then Finisher
      else if as_error_kind s = ERR_PLAN_DEFECT then Planner else CompressorN)"

end
