(* ===== verification/Engine.thy ===== *)
theory Engine
  imports Nodes
begin

text \<open>
  The engine (\<^verbatim>\<open>app/graph/engine.py\<close>): the graph that the nodes form, its execution under the
  recursion limit, checkpoints after every superstep, suspension at the approval gate,
  resumption, and the numbering of events. The graph library is represented by its documented
  behaviour: one node per superstep, the state saved after each, an error when the limit of
  supersteps is used up before the end.
\<close>

section \<open>The graph\<close>

text \<open>A node as a step: an exception, suspension (\<open>None\<close>) or the new state.\<close>

definition node_step :: "'w env \<Rightarrow> bool option \<Rightarrow> graph_node \<Rightarrow> agent_state \<Rightarrow> 'w world
     \<Rightarrow> (raised + agent_state option) \<times> 'w world" where
  "node_step E decision node s W =
     (case node of
        Planner \<Rightarrow> map_prod (map_sum id Some) id (planner_node E s W)
      | ReactStep \<Rightarrow> map_prod (map_sum id Some) id (react_step_node E s W)
      | ApprovalGate \<Rightarrow> map_prod Inr id (approval_gate_node decision s W)
      | ToolExecutor \<Rightarrow> map_prod (map_sum id Some) id (tool_executor_node E s W)
      | Critic \<Rightarrow> map_prod (map_sum id Some) id (critic_node E s W)
      | CompressorN \<Rightarrow> map_prod (map_sum id Some) id (compressor_node E s W)
      | Finisher \<Rightarrow> map_prod (map_sum id Some) id (finisher_node E s W))"

text \<open>The edges of \<open>_build\<close>; \<open>None\<close> is the end.\<close>

definition next_node :: "graph_node \<Rightarrow> agent_state \<Rightarrow> graph_node option" where
  "next_node node s =
     (case node of
        Planner \<Rightarrow> Some ReactStep
      | ReactStep \<Rightarrow> Some (route_after_step s)
      | ApprovalGate \<Rightarrow> Some (route_after_gate s)
      | ToolExecutor \<Rightarrow> Some Critic
      | Critic \<Rightarrow> Some (route_after_critic s)
      | CompressorN \<Rightarrow> Some ReactStep
      | Finisher \<Rightarrow> None)"

datatype run_end = Finished | Suspended | RunRaised raised | RecursionLimit

text \<open>
  A checkpoint: the node to run next (none at the end), the state, and whether an interrupt is
  pending on that node.
\<close>

record checkpoint =
  cp_next :: "graph_node option"
  cp_values :: agent_state
  cp_interrupt :: bool

fun run_graph :: "nat \<Rightarrow> 'w env \<Rightarrow> bool option \<Rightarrow> graph_node \<Rightarrow> agent_state \<Rightarrow> 'w world
     \<Rightarrow> run_end \<times> checkpoint \<times> 'w world" where
  "run_graph 0 E decision node s W =
     (RecursionLimit, \<lparr>cp_next = Some node, cp_values = s, cp_interrupt = False\<rparr>, W)"
| "run_graph (Suc n) E decision node s W =
     (case node_step E decision node s W of
        (Inl r, W1) \<Rightarrow> (RunRaised r, \<lparr>cp_next = Some node, cp_values = s, cp_interrupt = False\<rparr>, W1)
      | (Inr None, W1) \<Rightarrow> (Suspended, \<lparr>cp_next = Some node, cp_values = s, cp_interrupt = True\<rparr>, W1)
      | (Inr (Some s1), W1) \<Rightarrow>
          (case next_node node s1 of
             None \<Rightarrow> (Finished, \<lparr>cp_next = None, cp_values = s1, cp_interrupt = False\<rparr>, W1)
           | Some m \<Rightarrow> run_graph n E (if node = ApprovalGate then None else decision) m s1 W1))"

section \<open>The engine\<close>

record engine =
  eg_saver :: bool
  eg_checkpoints :: "checkpoint dict"
  eg_canceled :: "pystr set"
  eg_seqs :: "nat dict"

definition cancel :: "pystr \<Rightarrow> engine \<Rightarrow> engine" where
  "cancel tid eng = eng\<lparr>eg_canceled := insert tid (eg_canceled eng)\<rparr>"

definition clear_cancel :: "pystr \<Rightarrow> engine \<Rightarrow> engine" where
  "clear_cancel tid eng = eng\<lparr>eg_canceled := eg_canceled eng - {tid}\<rparr>"

definition recursion_limit :: "settings \<Rightarrow> int \<Rightarrow> nat" where
  "recursion_limit cfg max_steps =
     (let steps = (if max_steps \<le> 0 then max (st_default_max_steps cfg) 1 else max_steps)
      in nat (steps * 4 + 24))"

text \<open>\<open>_seed_seq\<close> (\<open>stored\<close> is what the journal reports) and the numbering of \<open>emit\<close>.\<close>

definition seq_of :: "engine \<Rightarrow> pystr \<Rightarrow> nat" where
  "seq_of eng tid = (case dict_get (eg_seqs eng) tid of None \<Rightarrow> 0 | Some n \<Rightarrow> n)"

definition seed_seq :: "bool \<Rightarrow> nat \<Rightarrow> pystr \<Rightarrow> engine \<Rightarrow> engine" where
  "seed_seq has_journal stored tid eng =
     (if has_journal \<and> stored > seq_of eng tid then eng\<lparr>eg_seqs := dict_set tid stored (eg_seqs eng)\<rparr> else eng)"

definition number_events :: "nat \<Rightarrow> 'e list \<Rightarrow> (nat \<times> 'e) list" where
  "number_events base evs = zip [Suc base..<Suc base + length evs] evs"

text \<open>
  \<open>_execute\<close>: run the graph from a node, keep the checkpoint, number the new events, and report a
  suspended run as waiting for approval.
\<close>

definition run_status :: "bool \<Rightarrow> checkpoint \<Rightarrow> agent_state" where
  "run_status saver cp =
     (if saver \<and> cp_next cp \<noteq> None then (cp_values cp)\<lparr>as_status := StWaitingApproval\<rparr> else cp_values cp)"

definition engine_execute :: "'w env \<Rightarrow> nat \<Rightarrow> pystr \<Rightarrow> int \<Rightarrow> bool option \<Rightarrow> graph_node \<Rightarrow> agent_state
     \<Rightarrow> engine \<Rightarrow> 'w world \<Rightarrow> (run_end + agent_state) \<times> (nat \<times> agent_event) list \<times> engine \<times> 'w world" where
  "engine_execute E stored tid max_steps decision node s eng W =
     (let eng1 = seed_seq (en_journal E) stored tid eng
      in case run_graph (recursion_limit (en_settings E) max_steps) E decision node s W of
           (e, cp, W1) \<Rightarrow>
             (let new = drop (length (wd_log W)) (wd_log W1);
                  events = number_events (seq_of eng1 tid) new;
                  eng2 = eng1\<lparr>eg_seqs := (if new = [] then eg_seqs eng1
                                          else dict_set tid (seq_of eng1 tid + length new) (eg_seqs eng1)),
                              eg_checkpoints := (if eg_saver eng1 then dict_set tid cp (eg_checkpoints eng1)
                                                 else eg_checkpoints eng1)\<rparr>
              in (case e of
                    Finished \<Rightarrow> Inr (run_status (eg_saver eng1) cp)
                  | Suspended \<Rightarrow> Inr (run_status (eg_saver eng1) cp)
                  | _ \<Rightarrow> Inl e, events, eng2, W1)))"

definition run_task :: "'w env \<Rightarrow> nat \<Rightarrow> pystr \<Rightarrow> pystr \<Rightarrow> agent_mode \<Rightarrow> int \<Rightarrow> int \<Rightarrow> bool
     \<Rightarrow> engine \<Rightarrow> 'w world \<Rightarrow> (run_end + agent_state) \<times> (nat \<times> agent_event) list \<times> engine \<times> 'w world" where
  "run_task E stored tid goal mode max_tokens max_steps require_approval eng W =
     (let s = init_state tid goal mode max_tokens max_steps require_approval
      in engine_execute E stored tid max_steps None (route_entry s) s eng W)"

datatype resume_error = NothingToResume | AwaitingApproval

text \<open>\<open>resume_task\<close>: \<open>Inl\<close> is a rejected request, \<open>Inr (Inl s)\<close> a task that is at its end.\<close>

definition resume_task :: "'w env \<Rightarrow> nat \<Rightarrow> pystr \<Rightarrow> bool option \<Rightarrow> engine \<Rightarrow> 'w world
     \<Rightarrow> resume_error + (agent_state
          + (run_end + agent_state) \<times> (nat \<times> agent_event) list \<times> engine \<times> 'w world)" where
  "resume_task E stored tid resume_value eng W =
     (case dict_get (eg_checkpoints eng) tid of
        None \<Rightarrow> Inl NothingToResume
      | Some cp \<Rightarrow>
          (case cp_next cp of
             None \<Rightarrow> Inr (Inl (cp_values cp))
           | Some node \<Rightarrow>
               (if resume_value = None \<and> cp_interrupt cp then Inl AwaitingApproval
                else Inr (Inr (engine_execute E stored tid (as_max_steps (cp_values cp)) resume_value node
                                 (cp_values cp) eng W)))))"

definition is_paused :: "engine \<Rightarrow> pystr \<Rightarrow> bool" where
  "is_paused eng tid =
     (case dict_get (eg_checkpoints eng) tid of None \<Rightarrow> False | Some cp \<Rightarrow> cp_next cp \<noteq> None)"

definition get_snapshot :: "engine \<Rightarrow> pystr \<Rightarrow> graph_node list \<times> agent_state option" where
  "get_snapshot eng tid =
     (case dict_get (eg_checkpoints eng) tid of
        None \<Rightarrow> ([], None)
      | Some cp \<Rightarrow> (case cp_next cp of None \<Rightarrow> [] | Some n \<Rightarrow> [n], Some (cp_values cp)))"

end
