(* ===== verification/Graph_Invariants.thy ===== *)
theory Graph_Invariants
  imports Engine
begin

text \<open>
  Invariants of the agent graph. \<open>reachable\<close> collects the (node, state) pairs a task can be in
  when the outside world behaves arbitrarily between and during supersteps: every crash,
  resumption from a checkpoint, human decision and answer of the model or a tool is a step of it.
\<close>

section \<open>Reachable checkpoints\<close>

inductive reachable :: "'w env \<Rightarrow> agent_state \<Rightarrow> graph_node \<Rightarrow> agent_state \<Rightarrow> bool"
  for E :: "'w env" and s0 where
  start: "reachable E s0 (route_entry s0) s0"
| step: "\<lbrakk>reachable E s0 node s; node_step E decision node s W = (Inr (Some s'), W');
          next_node node s' = Some m\<rbrakk> \<Longrightarrow> reachable E s0 m s'"

lemma run_graph_reachable:
  assumes "run_graph n E decision node s W = (e, cp, W')" and "reachable E s0 node s"
    and "cp_next cp = Some m"
  shows "reachable E s0 m (cp_values cp)"
  using assms
proof (induction n arbitrary: decision node s W)
  case (Suc n)
  obtain x W1 where st: "node_step E decision node s W = (x, W1)" by fastforce
  show ?case
  proof (cases "\<exists>s1 k. x = Inr (Some s1) \<and> next_node node s1 = Some k")
    case True
    then obtain s1 k where x: "x = Inr (Some s1)" "next_node node s1 = Some k" by blast
    have "reachable E s0 k s1" using reachable.step [OF Suc.prems(2)] st x by blast
    then show ?thesis using Suc.IH Suc.prems(1,3) st x by simp
  next
    case False
    then show ?thesis using Suc.prems st by (auto split: sum.splits option.splits)
  qed
qed auto

section \<open>What the nodes do to the state\<close>

lemma replan_merge_nonempty: "steps \<noteq> [] \<Longrightarrow> replan_merge old steps \<noteq> []"
  by (simp add: replan_merge_def Let_def)

lemma adopt_plan_effect:
  assumes "adopt_plan cfg s resp parsed W = (s', W')"
  shows "as_plan s' \<noteq> []" and "as_current_step s' = first_open (as_plan s')"
    and "s' = s\<lparr>as_plan := as_plan s', as_current_step := as_current_step s', as_tokens_used := as_tokens_used s',
                as_last_error := [], as_error_kind := ERR_NONE, as_mode := as_mode s',
                as_mode_switches := as_mode_switches s'\<rparr>"
    and "as_mode s' = as_mode s \<and> as_mode_switches s' = as_mode_switches s
         \<or> as_mode s = ReactMode \<and> as_mode s' = PlanExecute
           \<and> as_mode_switches s' = as_mode_switches s + 1 \<and> as_mode_switches s < st_max_mode_switches cfg"
proof -
  define steps where "steps = (if parsed = [] then [fallback_step (as_goal s)] else parsed)"
  define plan where "plan = (if as_last_error s \<noteq> [] then replan_merge (as_plan s) steps else steps)"
  have "steps \<noteq> []" by (simp add: steps_def)
  then have ne: "plan \<noteq> []" using replan_merge_nonempty by (simp add: plan_def)
  define up where "up \<longleftrightarrow> as_last_error s \<noteq> [] \<and> as_mode s = ReactMode \<and> as_mode_switches s < st_max_mode_switches cfg"
  let ?s1 = "s\<lparr>as_plan := plan, as_current_step := first_open plan,
      as_tokens_used := as_tokens_used s + lr_tokens resp, as_last_error := [], as_error_kind := ERR_NONE\<rparr>"
  have f: "fst (adopt_plan cfg s resp parsed W) =
      (if up then ?s1\<lparr>as_mode := PlanExecute, as_mode_switches := as_mode_switches s + 1\<rparr> else ?s1)"
    unfolding adopt_plan_def Let_def steps_def [symmetric] plan_def [symmetric] up_def by (simp only: if_distrib [of fst] fst_conv)
  have s': "s' = (if up then ?s1\<lparr>as_mode := PlanExecute, as_mode_switches := as_mode_switches s + 1\<rparr> else ?s1)"
    using f unfolding assms by (simp only: fst_conv)
  show "as_plan s' \<noteq> []" and "as_current_step s' = first_open (as_plan s')"
    and "s' = s\<lparr>as_plan := as_plan s', as_current_step := as_current_step s', as_tokens_used := as_tokens_used s',
                as_last_error := [], as_error_kind := ERR_NONE, as_mode := as_mode s',
                as_mode_switches := as_mode_switches s'\<rparr>"
    and "as_mode s' = as_mode s \<and> as_mode_switches s' = as_mode_switches s
         \<or> as_mode s = ReactMode \<and> as_mode s' = PlanExecute
           \<and> as_mode_switches s' = as_mode_switches s + 1 \<and> as_mode_switches s < st_max_mode_switches cfg"
    unfolding s' using ne by (cases up; simp add: up_def)+
qed

lemma planner_effect:
  assumes "planner_node E s W = (Inr s', W')"
  obtains resp parsed W1 where "adopt_plan (en_settings E) s resp parsed W1 = (s', W')"
proof -
  obtain x W1 where ll: "call_llm E
      [plain_message RSystem (plan_system (as_max_steps s) @ now_context (en_now E (wd_ext W))),
       plain_message RUser (planner_prompt s)] False (model_of (en_settings E) s) W = (x, W1)" by fastforce
  obtain resp where x: "x = Inr resp" using assms ll by (cases x) (auto simp: planner_node_def)
  show thesis
    using assms ll x that
    by (cases "parse_plan_steps (raw_steps (parse_json_loose (lr_text resp)))")
       (auto simp: planner_node_def map_prod_def split: prod.splits)
qed

lemma react_effect:
  assumes "react_step_node E s W = (Inr s', W')"
  obtains (canceled) "s' = s\<lparr>as_status := StCanceled, as_needs_final := True, as_final_answer := canceled_answer\<rparr>"
  | (exceeded) reason where "s' = s\<lparr>as_status := StBudgetExceeded, as_needs_final := True,
                         as_last_error := reason, as_error_kind := ERR_NONE\<rparr>"
  | (finished) "plan_finished s" and "s' = s\<lparr>as_needs_final := True\<rparr>" and "as_steps_used s < as_max_steps s"
  | (decided) resp down W2 where "\<not> plan_finished s" and "as_steps_used s < as_max_steps s"
      and "adopt_decision s down resp W2 = (s', W')"
proof (cases "is_canceled E (as_task_id s) W")
  case True
  then show thesis using assms canceled by (simp add: react_step_node_def)
next
  case nc: False
  define dec where "dec = check_budget (as_tokens_used s) (as_steps_used s) (as_max_tokens s) (as_max_steps s)
                          (as_downgraded s) (st_llm_model_cheap (en_settings E) \<noteq> [])"
  have run: "react_step_node E s W =
     (if bd_action dec = BudgetExceededAct
      then (Inr (s\<lparr>as_status := StBudgetExceeded, as_needs_final := True,
                   as_last_error := bd_reason dec, as_error_kind := ERR_NONE\<rparr>),
            emit (EvBudgetExceeded (bd_reason dec)) W)
      else if plan_finished s then (Inr (s\<lparr>as_needs_final := True\<rparr>), W)
      else decide E s dec W)"
    using nc by (simp add: react_step_node_def dec_def Let_def)
  have lt: "as_steps_used s < as_max_steps s" if "bd_action dec \<noteq> BudgetExceededAct"
    using that by (auto simp: dec_def check_budget_exceeded_iff)
  consider (a) "bd_action dec = BudgetExceededAct" | (b) "bd_action dec \<noteq> BudgetExceededAct" "plan_finished s"
    | (c) "bd_action dec \<noteq> BudgetExceededAct" "\<not> plan_finished s" by blast
  then show thesis
  proof cases
    case a
    then show thesis using assms run exceeded [of "bd_reason dec"] by simp
  next
    case b
    then show thesis using assms run finished lt by simp
  next
    case c
    then have "decide E s dec W = (Inr s', W')" using assms run by simp
    then obtain resp down W2 where "adopt_decision s down resp W2 = (s', W')"
      by (auto simp: decide_def Let_def map_prod_def split: prod.splits sum.splits if_splits)
    then show thesis using decided [OF c(2) lt] c(1) by blast
  qed
qed

lemma adopt_decision_effect:
  assumes "adopt_decision s down resp W = (s', W')"
  shows "s' = s\<lparr>as_downgraded := as_downgraded s', as_messages := as_messages s @ [assistant_message resp],
                 as_tokens_used := as_tokens_used s + lr_tokens resp,
                 as_steps_used := as_steps_used s + 1, as_iterations := as_iterations s + 1,
                 as_error_kind := ERR_NONE, as_pending_tool_calls := lr_tool_calls resp,
                 as_needs_final := as_needs_final s', as_final_answer := as_final_answer s'\<rparr>"
    and "lr_tool_calls resp = [] \<Longrightarrow> as_needs_final s'"
  using assms by (auto simp: adopt_decision_def Let_def split: if_splits)

lemma executor_effect:
  assumes "tool_executor_node E s W = (Inr s', W')"
  obtains (empty) "as_pending_tool_calls s = []" and "s' = s\<lparr>as_pending_tool_calls := [], as_last_observations := []\<rparr>"
  | (canceled) "s' = s\<lparr>as_status := StCanceled, as_needs_final := True, as_final_answer := canceled_answer,
                      as_pending_tool_calls := [], as_last_observations := []\<rparr>"
  | (ran) "as_pending_tool_calls s \<noteq> []" and "\<not> is_canceled E (as_task_id s) W"
      and "s' = s\<lparr>as_messages := as_messages s', as_pending_tool_calls := [],
                 as_last_observations := as_last_observations s', as_key_outputs := as_key_outputs s',
                 as_selfheal_total := as_selfheal_total s', as_tokens_used := as_tokens_used s'\<rparr>"
proof (cases "as_pending_tool_calls s = []")
  case True
  then show thesis using assms empty by (simp add: tool_executor_node_def)
next
  case ne: False
  show thesis
  proof (cases "is_canceled E (as_task_id s) W")
    case True
    then show thesis using assms ne canceled by (simp add: tool_executor_node_def Let_def)
  next
    case False
    let ?calls = "as_pending_tool_calls s"
    let ?acc = "\<lparr>ac_key_outputs = as_key_outputs s, ac_tokens = as_tokens_used s, ac_selfheal = 0\<rparr>"
    obtain rs acc W1 where rc: "run_calls E s ?calls ?acc W = (rs, acc, W1)" using prod_cases3 by blast
    have br: "base_raised rs = None"
      using assms ne False rc by (auto simp: tool_executor_node_def Let_def split: option.splits)
    obtain x W2 where rr: "report_results (zip ?calls (map2 (settle E) ?calls rs)) (as_messages s) W1 = (x, W2)"
      by fastforce
    obtain ms where x: "x = Inr ms"
      using assms ne False rc br rr by (cases x) (auto simp: tool_executor_node_def Let_def)
    have "s' = s\<lparr>as_messages := ms, as_pending_tool_calls := [],
         as_last_observations := map2 (settle E) ?calls rs,
         as_key_outputs := prune_key_outputs (ac_key_outputs acc),
         as_selfheal_total := as_selfheal_total s + ac_selfheal acc, as_tokens_used := ac_tokens acc\<rparr>"
      using assms ne False rc br rr x by (simp add: tool_executor_node_def Let_def)
    then show thesis using ran [OF ne False] by simp
  qed
qed

lemma mark_done_effect:
  "\<lbrakk>mark_done ks t left plan W = (plan', W'); \<forall>k \<in> set ks. k < length plan\<rbrakk> \<Longrightarrow>
     length plan' = length plan \<and> map ps_id plan' = map ps_id plan \<and> map ps_deps plan' = map ps_deps plan
     \<and> (\<forall>k \<in> set ks. ps_status (plan' ! k) \<noteq> Pending)
     \<and> (\<forall>k < length plan. ps_status (plan ! k) \<noteq> Pending \<longrightarrow> ps_status (plan' ! k) \<noteq> Pending)"
proof (induction ks arbitrary: left plan W)
  case (Cons k ks)
  show ?case
  proof (cases "ps_status (plan ! k) = Pending")
    case False
    then have run: "mark_done ks t left plan W = (plan', W')" using Cons.prems(1) by simp
    have "\<forall>j \<in> set ks. j < length plan" and k: "k < length plan" using Cons.prems(2) by simp_all
    note IH = Cons.IH [OF run this(1)]
    then have "ps_status (plan' ! k) \<noteq> Pending" using False k by blast
    with IH show ?thesis by simp
  next
    case True
    define q where "q = plan[k := (plan ! k)\<lparr>ps_status := StepDone, ps_result := t\<rparr>]"
    have run: "mark_done ks t (left - 1) q
        (emit (EvStepDone (k + 1) (ps_description (plan ! k)) (left - 1)) W) = (plan', W')"
      using Cons.prems(1) True by (simp add: q_def)
    have k: "k < length plan" and len: "length q = length plan" using Cons.prems(2) by (simp_all add: q_def)
    have "\<forall>j \<in> set ks. j < length q" using Cons.prems(2) len by simp
    note IH = Cons.IH [OF run this]
    have ids: "map ps_id q = map ps_id plan" "map ps_deps q = map ps_deps plan"
      using k by (simp_all add: q_def map_update list_update_same_conv)
    have st: "ps_status (q ! j) = (if j = k then StepDone else ps_status (plan ! j))" if "j < length plan" for j
      using that by (simp add: q_def nth_list_update)
    have "ps_status (plan' ! k) \<noteq> Pending" using IH st [OF k] k len by simp
    moreover have "\<forall>j < length plan. ps_status (plan ! j) \<noteq> Pending \<longrightarrow> ps_status (plan' ! j) \<noteq> Pending"
      using IH st len by simp
    ultimately show ?thesis using IH ids len by simp
  qed
qed simp

lemma critic_success_effect:
  assumes "critic_success s W = (Inr s', W')"
  obtains (plain) "\<not> (as_plan s \<noteq> [] \<and> as_mode s = PlanExecute \<and> as_last_observations s \<noteq> []
            \<and> as_current_step s < length (safe_layers (as_plan s)))"
      and "s' = s\<lparr>as_error_kind := ERR_NONE, as_last_error := [], as_plan := as_plan s,
                  as_current_step := as_current_step s + 1, as_plan_defect_streak := 0\<rparr>"
  | (marked) t left plan' W1 where
      "as_current_step s < length (safe_layers (as_plan s))"
      and "mark_done (safe_layers (as_plan s) ! as_current_step s) t left (as_plan s) W = (plan', W1)"
      and "s' = s\<lparr>as_error_kind := ERR_NONE, as_last_error := [], as_plan := plan',
                  as_current_step := as_current_step s + 1, as_plan_defect_streak := 0\<rparr>"
proof (cases "as_plan s \<noteq> [] \<and> as_mode s = PlanExecute \<and> as_last_observations s \<noteq> []
            \<and> as_current_step s < length (safe_layers (as_plan s))")
  case False
  then have "(Inr s', W') = (Inr (s\<lparr>as_error_kind := ERR_NONE, as_last_error := [], as_plan := as_plan s,
                  as_current_step := as_current_step s + 1, as_plan_defect_streak := 0\<rparr>) :: raised + agent_state, W)"
    unfolding assms [symmetric] critic_success_def Let_def by (simp only: if_False)
  then show thesis using plain [OF False] by blast
next
  case True
  obtain ts where js: "join_summaries (as_last_observations s) = Inr ts"
    using assms True unfolding critic_success_def Let_def
    by (cases "join_summaries (as_last_observations s)") auto
  let ?t = "take 400 (str_join (ascii ''; '') ts)" and ?l = "length (filter (\<lambda>q. ps_status q = Pending) (as_plan s))"
  obtain plan' W1 where md: "mark_done (safe_layers (as_plan s) ! as_current_step s) ?t ?l (as_plan s) W = (plan', W1)"
    by fastforce
  then have "s' = s\<lparr>as_error_kind := ERR_NONE, as_last_error := [], as_plan := plan',
                  as_current_step := as_current_step s + 1, as_plan_defect_streak := 0\<rparr>"
    using assms True js unfolding critic_success_def Let_def by simp
  then show thesis using marked md True by blast
qed

lemma critic_failure_effect:
  assumes "critic_failure cfg s W = (Inr s', W')"
  obtains (stay) k err st nf x where
      "s' = s\<lparr>as_error_kind := k, as_last_error := err, as_status := st, as_needs_final := nf,
              as_plan_defect_streak := x\<rparr>"
      and "st = as_status s \<or> st = StFailed"
  | (downgrade) err where "as_mode s = PlanExecute" and "as_mode_switches s + 1 \<le> st_max_mode_switches cfg"
      and "s' = s\<lparr>as_last_error := err, as_mode := ReactMode,
              as_plan := filter (\<lambda>p. ps_status p = StepDone) (as_plan s), as_current_step := 0,
              as_plan_defect_streak := 0, as_mode_switches := as_mode_switches s + 1,
              as_error_kind := ERR_RETRYABLE\<rparr>"
proof -
  let ?failed = "filter (\<lambda>ob. \<not> ob_ok ob) (as_last_observations s)"
  define errors where "errors = str_join (ascii ''; '') (map (\<lambda>ob. take 200 (ob_error ob)) ?failed)"
  define kind where "kind = classify_failure (set (List.map_filter ob_error_code ?failed))
      (set (List.map_filter ob_error_type ?failed)) errors"
  note run = assms [unfolded critic_failure_def Let_def, folded errors_def, folded kind_def]
  have keep: thesis if "s' = s\<lparr>as_error_kind := k, as_last_error := err\<rparr>" for k err
    by (rule stay [where k = k and err = err and st = "as_status s" and nf = "as_needs_final s"
          and x = "as_plan_defect_streak s"]) (simp_all add: that)
  have fail: thesis if "s' = s\<lparr>as_error_kind := k, as_last_error := err, as_status := StFailed, as_needs_final := True\<rparr>" for k err
    by (rule stay [where k = k and err = err and st = StFailed and nf = True and x = "as_plan_defect_streak s"])
       (simp_all add: that)
  show thesis
  proof (cases kind)
    case ERR_NONE
    show thesis by (rule keep [of errors kind]) (use run ERR_NONE in simp)
  next
    case ERR_RETRYABLE
    show thesis
    proof (cases "as_iterations s \<ge> as_max_steps s")
      case True
      show thesis by (rule fail [of errors kind]) (use run ERR_RETRYABLE True in simp)
    next
      case False
      show thesis by (rule keep [of errors kind]) (use run ERR_RETRYABLE False in simp)
    qed
  next
    case ERR_FATAL
    show thesis by (rule fail [of errors kind]) (use run ERR_FATAL in simp)
  next
    case ERR_PLAN_DEFECT
    let ?c = "as_mode s = PlanExecute \<and> 0 < st_adaptive_downgrade_after_replans cfg
        \<and> st_adaptive_downgrade_after_replans cfg \<le> as_plan_defect_streak s + 1"
    note run' = run [unfolded ERR_PLAN_DEFECT error_kind.case]
    consider (no) "\<not> ?c" | (thrash) ?c "as_mode_switches s + 1 > st_max_mode_switches cfg"
      | (down) ?c "as_mode_switches s + 1 \<le> st_max_mode_switches cfg" by linarith
    then show thesis
    proof cases
      case no
      then have "s' = s\<lparr>as_error_kind := ERR_PLAN_DEFECT, as_last_error := errors,
          as_plan_defect_streak := as_plan_defect_streak s + 1\<rparr>" using run' by (simp only: if_False) simp
      then show thesis
        by (intro stay [where k = ERR_PLAN_DEFECT and err = errors and st = "as_status s" and nf = "as_needs_final s"
              and x = "as_plan_defect_streak s + 1"]) simp_all
    next
      case thrash
      show thesis by (rule fail [of errors ERR_PLAN_DEFECT]) (use run' thrash in simp)
    next
      case down
      show thesis by (rule downgrade [of errors]) (use run' down in simp_all)
    qed
  qed
qed

lemma compressor_effect:
  assumes "compressor_node E s W = (Inr s', W')" and "paired (as_messages s)"
  shows "s' = s\<lparr>as_messages := as_messages s', as_tokens_used := as_tokens_used s'\<rparr>" and "paired (as_messages s')"
proof -
  define overhead where "overhead = estimate_messages_tokens (assemble_base (en_now E (wd_ext W)) (s\<lparr>as_messages := []\<rparr>))"
  define threshold where "threshold = max (st_compress_threshold_tokens (en_settings E) - overhead) min_history_budget_tokens"
  note run = assms(1) [unfolded compressor_node_def Let_def, folded overhead_def, folded threshold_def]
  obtain x y where cm: "compress_messages (en_llm E) (as_messages s) threshold (model_of (en_settings E) s) (wd_ext W) = (x, y)"
    by fastforce
  have "s' = s \<or> (\<exists>ms t n. x = Inr (Some (ms, t, n)) \<and> s' = s\<lparr>as_messages := ms, as_tokens_used := as_tokens_used s + n\<rparr>)"
    using run cm by (cases x) (auto split: if_splits option.splits)
  then show "s' = s\<lparr>as_messages := as_messages s', as_tokens_used := as_tokens_used s'\<rparr>" and "paired (as_messages s')"
    using cm assms(2) compress_messages_keeps_pairing by auto
qed

lemma gate_effect:
  assumes "approval_gate_node decision s W = (Some s', W')"
  shows "s' = s \<or> s' = s\<lparr>as_approval_pending := False\<rparr> \<or> as_status s' = StCanceled
      \<and> s' = s\<lparr>as_approval_pending := False, as_status := StCanceled, as_last_error := as_last_error s',
               as_pending_tool_calls := [], as_final_answer := as_final_answer s'\<rparr>"
  using assms by (auto simp: approval_gate_node_def split: if_splits option.splits bool.splits)

section \<open>The invariant\<close>

definition bounds_ok :: "settings \<Rightarrow> agent_state \<Rightarrow> agent_state \<Rightarrow> bool" where
  "bounds_ok cfg s0 s \<longleftrightarrow>
     as_max_steps s = as_max_steps s0 \<and> as_iterations s = as_steps_used s
     \<and> 0 \<le> as_steps_used s \<and> as_steps_used s \<le> max 0 (as_max_steps s0)
     \<and> 0 \<le> as_mode_switches s \<and> as_mode_switches s \<le> max 0 (st_max_mode_switches cfg)"

definition status_ok :: "graph_node \<Rightarrow> agent_state \<Rightarrow> bool" where
  "status_ok node s \<longleftrightarrow>
     (case node of
        Finisher \<Rightarrow> True
      | Critic \<Rightarrow> as_status s = StRunning \<or> as_status s = StCanceled
      | _ \<Rightarrow> as_status s = StRunning)"

definition hist_ok :: "graph_node \<Rightarrow> agent_state \<Rightarrow> bool" where
  "hist_ok node s \<longleftrightarrow>
     (case node of
        ApprovalGate \<Rightarrow> round_open s \<and> as_pending_tool_calls s \<noteq> []
      | ToolExecutor \<Rightarrow> round_open s \<and> as_pending_tool_calls s \<noteq> []
      | Critic \<Rightarrow> as_status s = StCanceled \<or> paired (as_messages s) \<and> as_last_observations s \<noteq> []
      | Finisher \<Rightarrow> True
      | _ \<Rightarrow> paired (as_messages s))"

text \<open>No pending step in the batches before the current one.\<close>

definition batches_done :: "agent_state \<Rightarrow> bool" where
  "batches_done s \<longleftrightarrow>
     (\<forall>i < as_current_step s. i < length (safe_layers (as_plan s))
        \<longrightarrow> (\<forall>k \<in> set (safe_layers (as_plan s) ! i). ps_status (as_plan s ! k) \<noteq> Pending))"

definition batch_open :: "agent_state \<Rightarrow> bool" where
  "batch_open s \<longleftrightarrow> as_plan s \<noteq> [] \<and> batches_done s \<and> as_current_step s < length (safe_layers (as_plan s))"

definition plan_ok :: "graph_node \<Rightarrow> agent_state \<Rightarrow> bool" where
  "plan_ok node s \<longleftrightarrow>
     (as_mode s = PlanExecute \<longrightarrow>
       (case node of
          Planner \<Rightarrow> True
        | Finisher \<Rightarrow> True
        | Critic \<Rightarrow> as_status s = StCanceled \<or> batch_open s
        | ApprovalGate \<Rightarrow> batch_open s
        | ToolExecutor \<Rightarrow> batch_open s
        | _ \<Rightarrow> as_plan s \<noteq> [] \<and> batches_done s))"

definition ginv :: "settings \<Rightarrow> agent_state \<Rightarrow> graph_node \<Rightarrow> agent_state \<Rightarrow> bool" where
  "ginv cfg s0 node s \<longleftrightarrow> bounds_ok cfg s0 s \<and> status_ok node s \<and> hist_ok node s \<and> plan_ok node s"

lemmas ginv_defs = ginv_def bounds_ok_def status_ok_def hist_ok_def plan_ok_def

lemma batches_done_cong:
  "\<lbrakk>as_plan s' = as_plan s; as_current_step s' = as_current_step s\<rbrakk> \<Longrightarrow> batches_done s' = batches_done s"
  by (simp add: batches_done_def)

lemma batch_open_cong:
  "\<lbrakk>as_plan s' = as_plan s; as_current_step s' = as_current_step s\<rbrakk> \<Longrightarrow> batch_open s' = batch_open s"
  by (simp add: batch_open_def batches_done_def)

lemma round_open_cong:
  "\<lbrakk>as_messages s' = as_messages s; as_pending_tool_calls s' = as_pending_tool_calls s\<rbrakk>
    \<Longrightarrow> round_open s' = round_open s"
  by (simp add: round_open_def)

lemma first_open_done:
  assumes "i < first_open plan" and "i < length (safe_layers plan)" and "k \<in> set (safe_layers plan ! i)"
  shows "ps_status (plan ! k) \<noteq> Pending"
proof -
  let ?P = "\<lambda>i. \<exists>k \<in> set (safe_layers plan ! i). ps_status (plan ! k) = Pending"
  have "\<not> ?P i"
  proof (cases "find ?P [0..<length (safe_layers plan)]")
    case None
    then show ?thesis using assms(2) by (simp add: find_None_iff)
  next
    case (Some j)
    then have "i < j" using assms(1) by (simp add: first_open_def)
    moreover obtain n where "n < length (safe_layers plan)" "[0..<length (safe_layers plan)] ! n = j"
        "\<forall>m < n. \<not> ?P ([0..<length (safe_layers plan)] ! m)"
      using Some by (auto simp: find_Some_iff)
    ultimately show ?thesis by auto
  qed
  then show ?thesis using assms(3) by blast
qed

lemma inv_planner:
  assumes "ginv (en_settings E) s0 Planner s" and "planner_node E s W = (Inr s', W')"
  shows "ginv (en_settings E) s0 ReactStep s'"
proof -
  obtain resp parsed W1 where "adopt_plan (en_settings E) s resp parsed W1 = (s', W')"
    using planner_effect [OF assms(2)] by blast
  note eff = adopt_plan_effect [OF this]
  have same: "as_max_steps s' = as_max_steps s" "as_iterations s' = as_iterations s" "as_steps_used s' = as_steps_used s"
      "as_status s' = as_status s" "as_messages s' = as_messages s"
    by (subst eff(3), simp)+
  have "batches_done s'" using first_open_done by (simp add: batches_done_def eff(2))
  then show ?thesis using assms(1) eff(1,4) same by (auto simp: ginv_defs)
qed

lemma inv_react:
  assumes "ginv (en_settings E) s0 ReactStep s" and "react_step_node E s W = (Inr s', W')"
  shows "ginv (en_settings E) s0 (route_after_step s') s'"
  using assms(2)
proof (cases rule: react_effect)
  case canceled
  then show ?thesis using assms(1) by (simp add: ginv_defs route_after_step_def)
next
  case (exceeded reason)
  then show ?thesis using assms(1) by (simp add: ginv_defs route_after_step_def)
next
  case finished
  then show ?thesis using assms(1) by (simp add: ginv_defs route_after_step_def)
next
  case (decided resp down W2)
  note eff = adopt_decision_effect [OF decided(3)]
  have same: "as_max_steps s' = as_max_steps s" "as_iterations s' = as_iterations s + 1"
      "as_steps_used s' = as_steps_used s + 1" "as_status s' = as_status s" "as_mode s' = as_mode s"
      "as_mode_switches s' = as_mode_switches s" "as_plan s' = as_plan s" "as_current_step s' = as_current_step s"
      "as_messages s' = as_messages s @ [assistant_message resp]" "as_pending_tool_calls s' = lr_tool_calls resp"
    by (subst eff(1), simp)+
  have "bounds_ok (en_settings E) s0 s'" using assms(1) decided(2) same by (auto simp: ginv_defs)
  moreover have "round_open s'"
    using assms(1) same by (auto simp: round_open_def ginv_defs assistant_message_def)
  moreover have "as_mode s' = PlanExecute \<Longrightarrow> batch_open s'"
    using assms(1) decided(1) same by (auto simp: ginv_defs batch_open_def batches_done_def plan_finished_def)
  ultimately show ?thesis
    using assms(1) eff(2) same by (auto simp: ginv_def status_ok_def hist_ok_def plan_ok_def route_after_step_def)
qed

lemma inv_gate:
  assumes "ginv cfg s0 ApprovalGate s" and "approval_gate_node decision s W = (Some s', W')"
  shows "ginv cfg s0 (route_after_gate s') s'"
  using gate_effect [OF assms(2)]
proof (elim disjE conjE)
  assume "s' = s"
  then show ?thesis using assms(1) by (simp add: ginv_defs route_after_gate_def)
next
  assume "s' = s\<lparr>as_approval_pending := False\<rparr>"
  then show ?thesis using assms(1)
    by (simp add: ginv_defs route_after_gate_def round_open_def batch_open_def batches_done_def)
next
  assume c: "as_status s' = StCanceled"
    and eq: "s' = s\<lparr>as_approval_pending := False, as_status := StCanceled, as_last_error := as_last_error s',
               as_pending_tool_calls := [], as_final_answer := as_final_answer s'\<rparr>"
  have "as_max_steps s' = as_max_steps s" "as_iterations s' = as_iterations s"
      "as_steps_used s' = as_steps_used s" "as_mode_switches s' = as_mode_switches s"
    by (subst eq, simp)+
  then have "bounds_ok cfg s0 s'" using assms(1) by (simp add: ginv_defs)
  then show ?thesis using c by (simp add: ginv_def status_ok_def hist_ok_def plan_ok_def route_after_gate_def)
qed

lemma inv_executor:
  assumes "ginv (en_settings E) s0 ToolExecutor s" and "tool_executor_node E s W = (Inr s', W')"
  shows "ginv (en_settings E) s0 Critic s'"
  using assms(2)
proof (cases rule: executor_effect)
  case empty
  then show ?thesis using assms(1) by (simp add: ginv_defs)
next
  case canceled
  then show ?thesis using assms(1) by (simp add: ginv_defs)
next
  case ran
  note ex = executor_messages [OF assms(2) ran(1,2)]
  have same: "as_max_steps s' = as_max_steps s" "as_iterations s' = as_iterations s"
      "as_steps_used s' = as_steps_used s" "as_status s' = as_status s" "as_mode s' = as_mode s"
      "as_mode_switches s' = as_mode_switches s" "as_plan s' = as_plan s" "as_current_step s' = as_current_step s"
    by (subst ran(3), simp)+
  have ro: "round_open s" and st: "as_status s = StRunning" using assms(1) by (simp_all add: ginv_defs)
  have "paired (as_messages s')"
  proof -
    obtain ms m where ms: "as_messages s = ms @ [m]" "paired ms" "m_role m = RAssistant"
        "map wc_id (m_tool_calls m) = map tc_id (as_pending_tool_calls s)"
      using ro by (auto simp: round_open_def)
    show ?thesis
      using ex(2) paired_close_round [OF ms(2,3) answers_tool_messages [OF ms(4) ex(1)]] ms(1) by simp
  qed
  moreover have "as_last_observations s' \<noteq> []" using ex(1) ran(1) by auto
  moreover have "batch_open s' = batch_open s" by (rule batch_open_cong) (simp_all add: same)
  ultimately show ?thesis using assms(1) same st by (simp add: ginv_defs)
qed

lemma marked_batches_done:
  assumes "batches_done s" and "as_current_step s < length (safe_layers (as_plan s))"
    and "mark_done (safe_layers (as_plan s) ! as_current_step s) t left (as_plan s) W = (as_plan s', W1)"
    and "as_current_step s' = as_current_step s + 1"
  shows "batches_done s'" and "length (as_plan s') = length (as_plan s)"
proof -
  let ?L = "safe_layers (as_plan s)"
  have below: "\<forall>i < length ?L. \<forall>k \<in> set (?L ! i). k < length (as_plan s)"
    using safe_layers_partition [of "as_plan s"] by (metis UN_I lessThan_iff nth_mem set_concat)
  then have "\<forall>k \<in> set (?L ! as_current_step s). k < length (as_plan s)" using assms(2) by blast
  note md = mark_done_effect [OF assms(3) this]
  have L: "safe_layers (as_plan s') = ?L"
    by (rule safe_layers_cong) (use md in simp_all)
  show "batches_done s'"
    unfolding batches_done_def L assms(4)
  proof (intro allI impI ballI)
    fix i k assume i: "i < as_current_step s + 1" "i < length ?L" and k: "k \<in> set (?L ! i)"
    show "ps_status (as_plan s' ! k) \<noteq> Pending"
    proof (cases "i = as_current_step s")
      case True
      then show ?thesis using md k by simp
    next
      case False
      then have "i < as_current_step s" using i(1) by simp
      then have "ps_status (as_plan s ! k) \<noteq> Pending" using assms(1) i(2) k by (simp add: batches_done_def)
      then show ?thesis using md below i(2) k by blast
    qed
  qed
  show "length (as_plan s') = length (as_plan s)" using md by simp
qed

lemma inv_critic:
  assumes "ginv (en_settings E) s0 Critic s" and "critic_node E s W = (Inr s', W')"
  shows "ginv (en_settings E) s0 (route_after_critic s') s'"
proof (cases "as_status s = StRunning")
  case False
  then have "s' = s" using assms(2) by (simp add: critic_node_def)
  then show ?thesis using assms(1) False by (simp add: ginv_defs route_after_critic_def)
next
  case run: True
  have hist: "paired (as_messages s)" "as_last_observations s \<noteq> []"
    and plan: "as_mode s = PlanExecute \<Longrightarrow> batch_open s" and bd: "bounds_ok (en_settings E) s0 s"
    using assms(1) run by (simp_all add: ginv_defs)
  show ?thesis
  proof (cases "list_all ob_ok (as_last_observations s)")
    case True
    then have cs: "critic_success s W = (Inr s', W')" using assms(2) run by (simp add: critic_node_def)
    then show ?thesis
    proof (cases rule: critic_success_effect)
      case plain
      then have "as_mode s \<noteq> PlanExecute" using plan hist by (auto simp: batch_open_def)
      then show ?thesis using plain(2) bd run hist by (simp add: ginv_defs route_after_critic_def)
    next
      case (marked t left plan' W1)
      have same: "as_plan s' = plan'" "as_current_step s' = as_current_step s + 1" "as_mode s' = as_mode s"
          "as_error_kind s' = ERR_NONE" "as_status s' = as_status s" "as_messages s' = as_messages s"
          "bounds_ok (en_settings E) s0 s' = bounds_ok (en_settings E) s0 s"
        unfolding marked(3) by (simp_all add: bounds_ok_def)
      have "as_mode s = PlanExecute \<Longrightarrow> batches_done s' \<and> as_plan s' \<noteq> []"
        using marked_batches_done [of s t left W s' W1] plan marked(1,2) same(1,2)
        by (auto simp: batch_open_def)
      then show ?thesis using bd run hist same by (simp add: ginv_def status_ok_def hist_ok_def plan_ok_def route_after_critic_def)
    qed
  next
    case False
    then have "critic_failure (en_settings E) s W = (Inr s', W')" using assms(2) run by (simp add: critic_node_def)
    then show ?thesis
    proof (cases rule: critic_failure_effect)
      case (stay k err st nf x)
      have same: "as_plan s' = as_plan s" "as_current_step s' = as_current_step s" "as_mode s' = as_mode s"
          "as_status s' = st" "as_messages s' = as_messages s"
          "bounds_ok (en_settings E) s0 s' = bounds_ok (en_settings E) s0 s"
        unfolding stay(1) by (simp_all add: bounds_ok_def)
      have "batch_open s' = batch_open s" by (rule batch_open_cong) (simp_all add: same)
      then show ?thesis using bd run hist plan same stay(2)
        by (auto simp: ginv_def status_ok_def hist_ok_def plan_ok_def route_after_critic_def batch_open_def)
    next
      case (downgrade err)
      have same: "as_mode s' = ReactMode" "as_status s' = as_status s" "as_messages s' = as_messages s"
          "as_error_kind s' = ERR_RETRYABLE"
          "as_max_steps s' = as_max_steps s" "as_iterations s' = as_iterations s"
          "as_steps_used s' = as_steps_used s" "as_mode_switches s' = as_mode_switches s + 1"
        unfolding downgrade(3) by simp_all
      then show ?thesis using bd run hist downgrade(2)
        by (simp add: ginv_defs route_after_critic_def)
    qed
  qed
qed

lemma inv_compressor:
  assumes "ginv (en_settings E) s0 CompressorN s" and "compressor_node E s W = (Inr s', W')"
  shows "ginv (en_settings E) s0 ReactStep s'"
proof -
  have p: "paired (as_messages s)" using assms(1) by (simp add: ginv_defs)
  note eff = compressor_effect [OF assms(2) p]
  have same: "as_max_steps s' = as_max_steps s" "as_iterations s' = as_iterations s"
      "as_steps_used s' = as_steps_used s" "as_status s' = as_status s" "as_mode s' = as_mode s"
      "as_mode_switches s' = as_mode_switches s" "as_plan s' = as_plan s" "as_current_step s' = as_current_step s"
    by (subst eff(1), simp)+
  have "batches_done s' = batches_done s" by (rule batches_done_cong) (simp_all add: same)
  then show ?thesis using assms(1) eff(2) same by (simp add: ginv_defs)
qed

lemma lift_node_Some:
  "map_prod (map_sum id Some) id x = (Inr (Some s'), W') \<longleftrightarrow> x = (Inr s', W')"
  by (cases x; cases "fst x") auto

lemma lift_gate_Some: "map_prod Inr id x = (Inr (Some s'), W') \<longleftrightarrow> x = (Some s', W')"
  by (cases x) auto

lemma ginv_step:
  assumes "ginv (en_settings E) s0 node s" and "node_step E decision node s W = (Inr (Some s'), W')"
    and "next_node node s' = Some m"
  shows "ginv (en_settings E) s0 m s'"
  using assms
  by (cases node)
     (auto simp: node_step_def next_node_def lift_node_Some lift_gate_Some simp del: map_prod_simp
        intro: inv_planner inv_gate inv_executor inv_compressor inv_react inv_critic)

lemma reachable_ginv:
  assumes "reachable E s0 node s" and "s0 = init_state tid goal mode mt ms ra"
  shows "ginv (en_settings E) s0 node s"
  using assms(1)
proof (induction rule: reachable.induct)
  case start
  show ?case using assms(2)
    by (cases mode) (simp_all add: ginv_defs init_state_def route_entry_def)
next
  case (step node s decision W s' W' m)
  then show ?case using ginv_step by blast
qed

section \<open>Safety of every reachable state\<close>

text \<open>
  C1. Budgets hold in every state a task can reach, across crashes, resumptions, approvals and
  any behaviour of the model and the tools: the decision steps used never exceed the task's
  limit, and the switches between the two execution modes never exceed the configured limit.
\<close>

theorem graph_budgets:
  assumes "reachable E (init_state tid goal mode max_tokens max_steps appr) node s" and "0 \<le> max_steps"
  shows "as_steps_used s \<le> max_steps \<and> as_iterations s = as_steps_used s
     \<and> as_mode_switches s \<le> max 0 (st_max_mode_switches (en_settings E))"
  using reachable_ginv [OF assms(1) refl] assms(2) by (simp add: ginv_defs init_state_def)

text \<open>
  C2. Whenever the model is asked for a decision, the history it is sent is well-formed: every
  tool call has exactly one answer, in order, and there is no orphaned answer. This holds in
  every reachable state, with compression, failures and re-executed nodes in any order.
\<close>

theorem graph_history_paired:
  assumes "reachable E (init_state tid goal mode max_tokens max_steps appr) ReactStep s"
  shows "paired (assemble_base now s)"
proof -
  have "paired (as_messages s)" using reachable_ginv [OF assms refl] by (simp add: ginv_defs)
  then show ?thesis by (simp add: assemble_base_def paired.simps plain_message_def is_tool_def)
qed

text \<open>
  C3. Plans run to completion in order: in plan mode a batch is only reached when no step of an
  earlier batch is pending, so when the decision step finds the plan finished, no step of the
  plan is pending any more.
\<close>

theorem graph_plan_progress:
  assumes "reachable E (init_state tid goal mode max_tokens max_steps appr) ReactStep s"
    and "as_mode s = PlanExecute"
  shows "(\<forall>i k. i < as_current_step s \<longrightarrow> i < length (safe_layers (as_plan s))
            \<longrightarrow> k \<in> set (safe_layers (as_plan s) ! i) \<longrightarrow> ps_status (as_plan s ! k) \<noteq> Pending)
     \<and> (plan_finished s \<longrightarrow> (\<forall>p \<in> set (as_plan s). ps_status p \<noteq> Pending))"
proof -
  have bd: "batches_done s" using reachable_ginv [OF assms(1) refl] assms(2) by (simp add: ginv_defs)
  have "ps_status p \<noteq> Pending" if pf: "plan_finished s" and p: "p \<in> set (as_plan s)" for p
  proof -
    obtain k where k: "k < length (as_plan s)" "p = as_plan s ! k" using p by (metis in_set_conv_nth)
    then have "k \<in> set (concat (safe_layers (as_plan s)))" using safe_layers_partition [of "as_plan s"] by simp
    then obtain i where "i < length (safe_layers (as_plan s))" "k \<in> set (safe_layers (as_plan s) ! i)"
      by (metis UN_E in_set_conv_nth set_concat)
    moreover from this have "i < as_current_step s" using pf by (simp add: plan_finished_def)
    ultimately show ?thesis using bd k(2) by (simp add: batches_done_def)
  qed
  then show ?thesis using bd by (simp add: batches_done_def)
qed

section \<open>Termination\<close>

text \<open>The supersteps a task may still take from a node.\<close>

definition steps_left :: "agent_state \<Rightarrow> nat" where
  "steps_left s = nat (as_max_steps s - as_steps_used s)"

definition superstep_bound :: "graph_node \<Rightarrow> agent_state \<Rightarrow> nat" where
  "superstep_bound node s =
     (case node of
        Finisher \<Rightarrow> 1
      | ReactStep \<Rightarrow> 5 * steps_left s + 2
      | Planner \<Rightarrow> 5 * steps_left s + 3
      | CompressorN \<Rightarrow> 5 * steps_left s + 3
      | Critic \<Rightarrow> 5 * steps_left s + 4
      | ToolExecutor \<Rightarrow> 5 * steps_left s + 5
      | ApprovalGate \<Rightarrow> 5 * steps_left s + 6)"

lemma steps_left_cong:
  "\<lbrakk>as_max_steps s' = as_max_steps s; as_steps_used s' = as_steps_used s\<rbrakk> \<Longrightarrow> steps_left s' = steps_left s"
  by (simp add: steps_left_def)

lemma steps_left_react:
  assumes "react_step_node E s W = (Inr s', W')"
  shows "route_after_step s' = Finisher \<or> Suc (steps_left s') = steps_left s"
  using assms
proof (cases rule: react_effect)
  case (decided resp down W2)
  have "as_max_steps s' = as_max_steps s" "as_steps_used s' = as_steps_used s + 1"
    by (subst adopt_decision_effect(1) [OF decided(3)], simp)+
  then have "Suc (steps_left s') = steps_left s" using decided(2) unfolding steps_left_def by linarith
  then show ?thesis by simp
qed (simp_all add: route_after_step_def)

lemma steps_left_critic: "critic_node E s W = (Inr s', W') \<Longrightarrow> steps_left s' = steps_left s"
proof -
  assume run: "critic_node E s W = (Inr s', W')"
  consider "s' = s" | "critic_success s W = (Inr s', W')" | "critic_failure (en_settings E) s W = (Inr s', W')"
    using run by (auto simp: critic_node_def split: if_splits)
  then show ?thesis
  proof cases
    case 2
    then show ?thesis by (cases rule: critic_success_effect) (simp_all add: steps_left_def)
  next
    case 3
    then show ?thesis by (cases rule: critic_failure_effect) (simp_all add: steps_left_def)
  qed simp
qed

lemma steps_left_executor: "tool_executor_node E s W = (Inr s', W') \<Longrightarrow> steps_left s' = steps_left s"
proof (erule executor_effect, goal_cases)
  case 3
  have "as_max_steps s' = as_max_steps s" "as_steps_used s' = as_steps_used s" by (subst 3(3), simp)+
  then show ?case by (rule steps_left_cong)
qed (simp_all add: steps_left_def)

lemma steps_left_planner: "planner_node E s W = (Inr s', W') \<Longrightarrow> steps_left s' = steps_left s"
proof (erule planner_effect)
  fix resp parsed W1 assume "adopt_plan (en_settings E) s resp parsed W1 = (s', W')"
  note eff = adopt_plan_effect(3) [OF this]
  have "as_max_steps s' = as_max_steps s" "as_steps_used s' = as_steps_used s" by (subst eff, simp)+
  then show ?thesis by (rule steps_left_cong)
qed

lemma steps_left_compressor: "compressor_node E s W = (Inr s', W') \<Longrightarrow> steps_left s' = steps_left s"
  by (auto simp: compressor_node_def Let_def steps_left_def split: if_splits prod.splits sum.splits option.splits)

lemma steps_left_gate: "approval_gate_node d s W = (Some s', W') \<Longrightarrow> steps_left s' = steps_left s"
  by (auto simp: approval_gate_node_def steps_left_def split: if_splits option.splits bool.splits)

lemma superstep_decreases:
  assumes "node_step E decision node s W = (Inr (Some s'), W')" and "next_node node s' = Some m"
  shows "superstep_bound m s' < superstep_bound node s"
proof (cases node)
  case ReactStep
  then have "react_step_node E s W = (Inr s', W')" and m: "m = route_after_step s'"
    using assms by (simp_all add: node_step_def next_node_def lift_node_Some del: map_prod_simp)
  from steps_left_react [OF this(1)] show ?thesis
    using ReactStep m by (auto simp: superstep_bound_def route_after_step_def split: if_splits)
next
  case Critic
  then have "critic_node E s W = (Inr s', W')" and m: "m = route_after_critic s'"
    using assms by (simp_all add: node_step_def next_node_def lift_node_Some del: map_prod_simp)
  from steps_left_critic [OF this(1)] show ?thesis
    using Critic m by (auto simp: superstep_bound_def route_after_critic_def)
next
  case ApprovalGate
  then have "approval_gate_node decision s W = (Some s', W')" and m: "m = route_after_gate s'"
    using assms by (simp_all add: node_step_def next_node_def lift_gate_Some del: map_prod_simp)
  from steps_left_gate [OF this(1)] show ?thesis
    using ApprovalGate m by (auto simp: superstep_bound_def route_after_gate_def)
qed (use assms in \<open>auto simp: node_step_def next_node_def lift_node_Some superstep_bound_def simp del: map_prod_simp
        dest: steps_left_planner steps_left_executor steps_left_compressor\<close>)

lemma run_graph_within_bound:
  "superstep_bound node s \<le> n \<Longrightarrow> fst (run_graph n E decision node s W) \<noteq> RecursionLimit"
proof (induction n arbitrary: decision node s W)
  case 0
  then show ?case by (cases node) (simp_all add: superstep_bound_def)
next
  case (Suc n)
  obtain x W1 where st: "node_step E decision node s W = (x, W1)" by fastforce
  show ?case
  proof (cases "\<exists>s1 k. x = Inr (Some s1) \<and> next_node node s1 = Some k")
    case True
    then obtain s1 k where x: "x = Inr (Some s1)" "next_node node s1 = Some k" by blast
    have "superstep_bound k s1 \<le> n" using superstep_decreases [of E decision node s W s1 W1 k] st x Suc.prems by simp
    then show ?thesis using Suc.IH st x by simp
  next
    case False
    then show ?thesis using st by (auto split: sum.splits option.splits)
  qed
qed

lemma entry_bound:
  "0 \<le> max_steps \<Longrightarrow> superstep_bound (route_entry (init_state tid goal mode mt max_steps ap))
     (init_state tid goal mode mt max_steps ap) \<le> 5 * nat max_steps + 3"
  by (cases mode) (simp_all add: superstep_bound_def route_entry_def init_state_def steps_left_def)

lemma run_task_end:
  assumes "run_task E stored tid goal mode mt ms ap eng W = (r, evs, eng', W')"
  obtains e cp where "run_graph (recursion_limit (en_settings E) ms) E None
      (route_entry (init_state tid goal mode mt ms ap)) (init_state tid goal mode mt ms ap) W = (e, cp, W')"
    and "r = (case e of Finished \<Rightarrow> Inr (run_status (eg_saver eng) cp) | Suspended \<Rightarrow> Inr (run_status (eg_saver eng) cp)
              | _ \<Rightarrow> Inl e)"
proof -
  obtain e cp W1 where rg: "run_graph (recursion_limit (en_settings E) ms) E None
      (route_entry (init_state tid goal mode mt ms ap)) (init_state tid goal mode mt ms ap) W = (e, cp, W1)"
    using prod_cases3 by blast
  have sv: "eg_saver (seed_seq j st t eng) = eg_saver eng" for j st t by (simp add: seed_seq_def)
  have "W1 = W'" and "r = (case e of Finished \<Rightarrow> Inr (run_status (eg_saver eng) cp)
      | Suspended \<Rightarrow> Inr (run_status (eg_saver eng) cp) | _ \<Rightarrow> Inl e)"
    using assms rg by (cases e; simp add: run_task_def engine_execute_def Let_def sv)+
  then show thesis using that rg by blast
qed


section \<open>The step budget and the recursion limit\<close>

lemma finisher_status:
  assumes "finisher_node E s W = (Inr s', W')" and "as_status s' = StBudgetExceeded"
  shows "as_status s = StBudgetExceeded" and "as_steps_used s' = as_steps_used s"
  using assms
  by (auto simp: finisher_node_def split: task_status.splits if_splits prod.splits sum.splits)

lemma react_to_exceeded:
  assumes "react_step_node E s W = (Inr s', W')" and "as_status s = StRunning"
  shows "(as_status s' = StBudgetExceeded \<longrightarrow> as_steps_used s' = as_steps_used s)
    \<and> (route_after_step s' \<noteq> Finisher \<longrightarrow> as_steps_used s' = as_steps_used s + 1
         \<and> as_max_steps s' = as_max_steps s \<and> as_steps_used s < as_max_steps s)"
  using assms(1)
proof (cases rule: react_effect)
  case (decided resp down W2)
  have "as_status s' = as_status s" "as_steps_used s' = as_steps_used s + 1" "as_max_steps s' = as_max_steps s"
    by (subst adopt_decision_effect(1) [OF decided(3)], simp)+
  then show ?thesis using assms(2) decided(2) by simp
qed (simp_all add: route_after_step_def)

lemma critic_status:
  "critic_node E s W = (Inr s', W') \<Longrightarrow> as_status s' = as_status s \<or> as_status s' = StFailed"
proof -
  assume run: "critic_node E s W = (Inr s', W')"
  consider "s' = s" | "critic_success s W = (Inr s', W')" | "critic_failure (en_settings E) s W = (Inr s', W')"
    using run by (auto simp: critic_node_def split: if_splits)
  then show ?thesis
  proof cases
    case 2
    then show ?thesis by (cases rule: critic_success_effect) simp_all
  next
    case 3
    then show ?thesis by (cases rule: critic_failure_effect) auto
  qed simp
qed

lemma lift_Some_not_None: "map_sum id Some x \<noteq> Inr None"
  by (cases x) simp_all

lemma run_graph_finisher:
  assumes "run_graph n E decision Finisher s W = (Finished, cp, W')"
  shows "finisher_node E s W = (Inr (cp_values cp), W')"
proof (cases n)
  case 0
  then show ?thesis using assms by simp
next
  case (Suc m)
  obtain x W1 where f: "finisher_node E s W = (x, W1)" by fastforce
  then show ?thesis using assms Suc by (cases x) (auto simp: node_step_def next_node_def)
qed

lemma run_graph_suspended:
  "run_graph n E decision node s W = (Suspended, cp, W') \<Longrightarrow> cp_next cp = Some ApprovalGate"
proof (induction n arbitrary: decision node s W)
  case (Suc n)
  obtain x W1 where st: "node_step E decision node s W = (x, W1)" by fastforce
  have gate: "node = ApprovalGate" if "x = Inr None"
    using st that by (cases node) (auto simp: node_step_def map_prod_def lift_Some_not_None split: prod.splits)
  show ?case
    using Suc st gate by (auto split: sum.splits option.splits)
qed simp

text \<open>A run that ends by exhausting the step budget takes all the supersteps of the bound.\<close>

lemma budget_end_cost:
  assumes "ginv (en_settings E) s0 node s"
    and "run_graph n E decision node s W = (Finished, cp, W')"
    and "as_status (cp_values cp) = StBudgetExceeded" and "as_steps_used (cp_values cp) = as_max_steps s"
    and "node = Finisher \<longrightarrow> as_status s = StBudgetExceeded"
  shows "superstep_bound node s \<le> n"
  using assms
proof (induction n arbitrary: decision node s W)
  case (Suc n)
  obtain x W1 where st: "node_step E decision node s W = (x, W1)" by fastforce
  show ?case
  proof (cases "node = Finisher")
    case True
    then show ?thesis by (simp add: superstep_bound_def)
  next
    case nf: False
    then have nn: "next_node node s1 \<noteq> None" for s1 by (cases node) (simp_all add: next_node_def)
    obtain s1 k where x: "x = Inr (Some s1)" and k: "next_node node s1 = Some k"
      using Suc.prems(2) st nn by (auto split: sum.splits option.splits)
    then have rest: "run_graph n E (if node = ApprovalGate then None else decision) k s1 W1 = (Finished, cp, W')"
      using Suc.prems(2) st by simp
    have step: "node_step E decision node s W = (Inr (Some s1), W1)" using st x by simp
    have inv1: "ginv (en_settings E) s0 k s1" by (rule ginv_step [OF Suc.prems(1) step k])
    have mx: "as_max_steps s1 = as_max_steps s" using inv1 Suc.prems(1) by (simp add: ginv_defs)
    have fin: "k = Finisher \<Longrightarrow> as_status s1 = StBudgetExceeded \<and> as_steps_used s1 = as_max_steps s"
      using finisher_status [OF run_graph_finisher] rest Suc.prems(3,4) by metis
    have IH: "superstep_bound k s1 \<le> n"
      by (rule Suc.IH [OF inv1 rest Suc.prems(3)]) (use mx Suc.prems(4) fin in simp_all)
    have run: "as_status s = StRunning \<or> node = Critic \<and> as_status s = StCanceled"
      using Suc.prems(1) nf by (cases node) (auto simp: ginv_defs)
    show ?thesis
    proof (cases node)
      case ReactStep
      then have re: "react_step_node E s W = (Inr s1, W1)" and kk: "k = route_after_step s1"
        using step k by (simp_all add: node_step_def next_node_def lift_node_Some del: map_prod_simp)
      note eff = react_to_exceeded [OF re]
      show ?thesis
      proof (cases "k = Finisher")
        case True
        then have "steps_left s = 0" using fin eff run ReactStep by (simp add: steps_left_def)
        then show ?thesis using IH True ReactStep by (simp add: superstep_bound_def)
      next
        case False
        then have "k = ApprovalGate" "Suc (steps_left s1) = steps_left s"
          using eff run ReactStep kk by (auto simp: route_after_step_def steps_left_def split: if_splits)
        then show ?thesis using IH ReactStep by (simp add: superstep_bound_def)
      qed
    next
      case Critic
      then have cr: "critic_node E s W = (Inr s1, W1)" and kk: "k = route_after_critic s1"
        using step k by (simp_all add: node_step_def next_node_def lift_node_Some del: map_prod_simp)
      have "as_status s1 \<noteq> StBudgetExceeded"
        using critic_status [OF cr] run by auto
      then have "k \<noteq> Finisher" using fin by blast
      then show ?thesis using IH Critic steps_left_critic [OF cr] kk
        by (auto simp: superstep_bound_def route_after_critic_def split: if_splits)
    next
      case ApprovalGate
      then have ga: "approval_gate_node decision s W = (Some s1, W1)" and kk: "k = route_after_gate s1"
        using step k by (simp_all add: node_step_def next_node_def lift_gate_Some del: map_prod_simp)
      have "as_status s1 \<noteq> StBudgetExceeded"
        using gate_effect [OF ga] run ApprovalGate by auto
      then have "k \<noteq> Finisher" using fin by blast
      then show ?thesis using IH ApprovalGate steps_left_gate [OF ga] kk
        by (auto simp: superstep_bound_def route_after_gate_def split: if_splits)
    qed (use nf IH step k in \<open>auto simp: node_step_def next_node_def lift_node_Some superstep_bound_def simp del: map_prod_simp
        dest: steps_left_planner steps_left_executor steps_left_compressor\<close>)
  qed
qed simp

lemma run_status_plain:
  assumes "s = run_status saver cp" and "as_status s \<noteq> StWaitingApproval"
  shows "s = cp_values cp"
proof (cases "saver \<and> cp_next cp \<noteq> None")
  case True
  then have "s = (cp_values cp)\<lparr>as_status := StWaitingApproval\<rparr>" unfolding assms(1) run_status_def by (rule if_P)
  then show ?thesis using assms(2) by simp
next
  case False
  then show ?thesis unfolding assms(1) run_status_def by (rule if_not_P)
qed

text \<open>
  The step budget and the recursion limit do not fit together: a run that exhausts its step
  budget needs five supersteps per step, the limit allows for four, so for a limit of 23 steps
  or more (the default is 24) no run ever ends with the report that the step budget is used up;
  it dies of the recursion limit before.
\<close>

theorem step_budget_report_unreachable:
  assumes "23 \<le> max_steps"
    and "run_task E stored tid goal mode max_tokens max_steps appr eng W = (Inr s, evs, eng', W')"
  shows "\<not> (as_status s = StBudgetExceeded \<and> as_steps_used s = max_steps)"
proof
  assume bad: "as_status s = StBudgetExceeded \<and> as_steps_used s = max_steps"
  let ?s = "init_state tid goal mode max_tokens max_steps appr"
  from assms(2) show False
  proof (cases rule: run_task_end)
    case (1 e cp)
    have inv: "ginv (en_settings E) ?s (route_entry ?s) ?s"
      by (rule reachable_ginv [OF reachable.start refl])
    have s: "s = run_status (eg_saver eng) cp" and e: "e = Finished \<or> e = Suspended" using 1(2) by (cases e; simp)+
    have cp: "s = cp_values cp" by (rule run_status_plain [OF s]) (use bad in simp)
    have "e = Finished"
    proof (rule ccontr)
      assume "e \<noteq> Finished"
      then have "e = Suspended" using e by simp
      then obtain m where "cp_next cp = Some m" "m \<noteq> Finisher"
        using 1(1) run_graph_suspended by blast
      then have "reachable E ?s m s" using run_graph_reachable [OF 1(1) reachable.start] cp by simp
      from reachable_ginv [OF this refl] show False
        using bad \<open>m \<noteq> Finisher\<close> by (cases m) (auto simp: ginv_defs)
    qed
    then have "run_graph (recursion_limit (en_settings E) max_steps) E None (route_entry ?s) ?s W = (Finished, cp, W')"
      using 1(1) by simp
    from budget_end_cost [OF inv this]
    have "superstep_bound (route_entry ?s) ?s \<le> recursion_limit (en_settings E) max_steps"
      using bad cp by (simp add: init_state_def route_entry_def)
    moreover have "5 * nat max_steps + 2 \<le> superstep_bound (route_entry ?s) ?s"
      by (cases mode) (simp_all add: superstep_bound_def route_entry_def init_state_def steps_left_def)
    ultimately show False using assms(1) by (simp add: recursion_limit_def nat_le_iff)
  qed
qed

definition demo_engine :: engine where
  "demo_engine = \<lparr>eg_saver = True, eg_checkpoints = [], eg_canceled = {}, eg_seqs = []\<rparr>"

text \<open>A model that answers every question with an empty text.\<close>

definition demo_env_t :: "nat env" where
  "demo_env_t = demo_env\<lparr>en_llm := (\<lambda>ms tools model n.
     (Inr \<lparr>lr_text = [], lr_tool_calls = [], lr_model = model, lr_tokens = 1\<rparr>, n))\<rparr>"

theorem graph_budgets_witness:
  "as_steps_used (init_state (ascii ''t'') [] ReactMode 10 24 False) \<le> 24
   \<and> reachable demo_env (init_state (ascii ''t'') [] ReactMode 10 24 False) ReactStep
        (init_state (ascii ''t'') [] ReactMode 10 24 False)"
proof -
  let ?s = "init_state (ascii ''t'') [] ReactMode 10 24 False"
  have "route_entry ?s = ReactStep" by (simp add: route_entry_def init_state_def)
  then have "reachable demo_env ?s ReactStep ?s" using reachable.start [of demo_env ?s] by simp
  then show ?thesis using graph_budgets [of demo_env "ascii ''t''" "[]" ReactMode 10 24 False ReactStep ?s] by simp
qed

theorem graph_history_paired_witness:
  "paired (assemble_base ([], 0, []) (init_state (ascii ''t'') [] ReactMode 10 24 False))"
proof -
  let ?s = "init_state (ascii ''t'') [] ReactMode 10 24 False"
  have "route_entry ?s = ReactStep" by (simp add: route_entry_def init_state_def)
  then have "reachable demo_env ?s ReactStep ?s" using reachable.start [of demo_env ?s] by simp
  then show ?thesis by (rule graph_history_paired)
qed

lemma demo_planned:
  "\<exists>s. reachable demo_env_t (init_state (ascii ''t'') [] PlanExecute 10 24 False) ReactStep s \<and> as_mode s = PlanExecute"
proof -
  let ?s0 = "init_state (ascii ''t'') [] PlanExecute 10 24 False"
  have none: "parse_json_loose [] = None" by code_simp
  have "\<exists>s W. planner_node demo_env_t ?s0 demo_world = (Inr s, W)"
    unfolding planner_node_def call_llm_def demo_env_t_def
    by (simp add: none raw_steps_def parse_plan_steps_def iter_json_def map_prod_def split: prod.split)
  then obtain s W where pl: "planner_node demo_env_t ?s0 demo_world = (Inr s, W)" by blast
  have r: "route_entry ?s0 = Planner" by (simp add: route_entry_def init_state_def)
  then have r0: "reachable demo_env_t ?s0 Planner ?s0" using reachable.start [of demo_env_t ?s0] by simp
  have reach: "reachable demo_env_t ?s0 ReactStep s"
    by (rule reachable.step [OF r0, of None demo_world _ W])
       (simp_all add: node_step_def pl next_node_def)
  obtain resp parsed W1 where "adopt_plan (en_settings demo_env_t) ?s0 resp parsed W1 = (s, W)"
    using planner_effect [OF pl] by blast
  then have "as_mode s = PlanExecute" using adopt_plan_effect(4) by (fastforce simp: init_state_def)
  then show ?thesis using reach by blast
qed

theorem graph_plan_progress_witness:
  "\<exists>s. reachable demo_env_t (init_state (ascii ''t'') [] PlanExecute 10 24 False) ReactStep s
     \<and> \<not> (plan_finished s \<and> Pending \<in> ps_status ` set (as_plan s))"
proof -
  obtain s where s: "reachable demo_env_t (init_state (ascii ''t'') [] PlanExecute 10 24 False) ReactStep s"
      "as_mode s = PlanExecute" using demo_planned by blast
  have "\<not> (plan_finished s \<and> Pending \<in> ps_status ` set (as_plan s))"
    using graph_plan_progress [OF s] by force
  then show ?thesis using s(1) by blast
qed


lemma demo_react_end:
  assumes "s = init_state (ascii ''t'') [] ReactMode 1000 24 False"
  shows "\<exists>s' W'. run_graph (Suc (Suc n)) demo_env_t None ReactStep s demo_world = (Finished, s', W')"
proof -
  let ?resp = "\<lparr>lr_text = [], lr_tool_calls = [], lr_model = st_llm_model default_settings, lr_tokens = 1\<rparr>"
  have cfg: "en_settings demo_env_t = default_settings" by (simp add: demo_env_t_def demo_env_def)
  have llm: "call_llm demo_env_t ms tools m W = (Inr (?resp\<lparr>lr_model := m\<rparr>), W)" for ms tools m W
    by (simp add: call_llm_def demo_env_t_def)
  have model: "model_of default_settings s' = st_llm_model default_settings" for s'
    by (simp add: model_of_def default_settings_def)
  have ok: "check_budget 0 0 1000 24 False False = \<lparr>bd_action = BudgetOk, bd_reason = []\<rparr>"
    by (simp add: check_budget_def)
  have cheap: "st_llm_model_cheap default_settings = []" by (simp add: default_settings_def)
  have nc: "\<not> is_canceled demo_env_t tid W" for tid W by (simp add: is_canceled_def demo_env_t_def demo_env_def)
  have sel: "as_tokens_used s = 0" "as_steps_used s = 0" "as_max_tokens s = 1000" "as_max_steps s = 24"
      "as_downgraded s = False" "\<not> plan_finished s" "as_status s = StRunning" "as_final_answer s = []"
    by (simp_all add: assms init_state_def plan_finished_def)
  obtain s1 W1 where ad: "adopt_decision s False ?resp demo_world = (s1, W1)" by fastforce
  have react: "react_step_node demo_env_t s demo_world = (Inr s1, W1)"
    using nc by (simp add: react_step_node_def cfg cheap sel ok decide_def llm model ad)
  have s1: "as_status s1 = StRunning" "as_needs_final s1" "as_final_answer s1 = []"
    using ad sel by (auto simp: adopt_decision_def)
  have fin: "\<exists>s2 W2. finisher_node demo_env_t s1 W1 = (Inr s2, W2)"
    by (simp add: finisher_node_def s1 llm)
  then show ?thesis
    using react s1 by (auto simp: node_step_def next_node_def route_after_step_def)
qed

theorem step_budget_report_unreachable_witness:
  "\<exists>s evs eng W. run_task demo_env_t 0 (ascii ''t'') [] ReactMode 1000 24 False demo_engine demo_world = (Inr s, evs, eng, W)
     \<and> \<not> (as_status s = StBudgetExceeded \<and> as_steps_used s = 24)"
proof -
  let ?s = "init_state (ascii ''t'') [] ReactMode 1000 24 False"
  obtain r evs eng W where run: "run_task demo_env_t 0 (ascii ''t'') [] ReactMode 1000 24 False demo_engine demo_world
      = (r, evs, eng, W)" using prod_cases4 by blast
  have lim: "recursion_limit (en_settings demo_env_t) 24 = Suc (Suc 118)" by (simp add: recursion_limit_def)
  have ent: "route_entry ?s = ReactStep" by (simp add: route_entry_def init_state_def)
  have "\<exists>s. r = Inr s"
    using run
  proof (cases rule: run_task_end)
    case (1 e cp)
    then show ?thesis using demo_react_end [OF refl, of 118] unfolding lim ent by auto
  qed
  then obtain s where "r = Inr s" by blast
  with run have run': "run_task demo_env_t 0 (ascii ''t'') [] ReactMode 1000 24 False demo_engine demo_world
      = (Inr s, evs, eng, W)" by simp
  have "\<not> (as_status s = StBudgetExceeded \<and> as_steps_used s = 24)"
    by (rule step_budget_report_unreachable [OF _ run']) simp
  then show ?thesis using run' by blast
qed

section \<open>Approval and cancellation\<close>

lemma mark_done_ext: "mark_done ks t left plan W = (plan', W') \<Longrightarrow> wd_ext W' = wd_ext W"
  by (induction ks t left plan W rule: mark_done.induct) (auto split: if_splits)

lemma cnt_critic: "critic_node E s W = (x, W') \<Longrightarrow> wd_ext W' = wd_ext W"
  by (auto simp: critic_node_def critic_success_def critic_failure_def Let_def
      split: if_splits sum.splits prod.splits error_kind.splits dest: mark_done_ext)

lemma adopt_plan_ext: "adopt_plan cfg s resp parsed W = (s', W') \<Longrightarrow> wd_ext W' = wd_ext W"
  by (auto simp: adopt_plan_def Let_def split: if_splits)

lemma adopt_decision_ext: "adopt_decision s d resp W = (s', W') \<Longrightarrow> wd_ext W' = wd_ext W"
  by (auto simp: adopt_decision_def Let_def split: if_splits)

lemma cnt_planner: "\<lbrakk>counts E cnt; planner_node E s W = (x, W')\<rbrakk> \<Longrightarrow> cnt (wd_ext W') = cnt (wd_ext W)"
proof -
  assume c: "counts E cnt" and run: "planner_node E s W = (x, W')"
  obtain y W1 where ll: "call_llm E
      [plain_message RSystem (plan_system (as_max_steps s) @ now_context (en_now E (wd_ext W))),
       plain_message RUser (planner_prompt s)] False (model_of (en_settings E) s) W = (y, W1)" by fastforce
  have "wd_ext W' = wd_ext W1"
    using run ll by (cases y)
      (auto simp: planner_node_def map_prod_def split: sum.splits prod.splits dest: adopt_plan_ext)
  then show ?thesis using cnt_llm [OF c ll] by simp
qed

lemma cnt_react: "\<lbrakk>counts E cnt; react_step_node E s W = (x, W')\<rbrakk> \<Longrightarrow> cnt (wd_ext W') = cnt (wd_ext W)"
proof -
  assume c: "counts E cnt" and run: "react_step_node E s W = (x, W')"
  have dec: "cnt (wd_ext W2) = cnt (wd_ext W)" if "decide E s dd W = (y, W2)" for dd y W2
  proof -
    define model where "model = (if bd_action dd = BudgetDowngrade then st_llm_model_cheap (en_settings E) else model_of (en_settings E) s)"
    define W1 where "W1 = (if bd_action dd = BudgetDowngrade then emit (EvBudgetDowngrade (bd_reason dd) model) W else W)"
    obtain z W3 where ll: "call_llm E (assemble_base (en_now E (wd_ext W1)) s) True model W1 = (z, W3)" by fastforce
    have "wd_ext W2 = wd_ext W3"
      using that ll unfolding decide_def Let_def model_def [symmetric] W1_def [symmetric]
      by (cases z) (auto simp: map_prod_def split: prod.splits dest: adopt_decision_ext)
    then show ?thesis using cnt_llm [OF c ll] by (simp add: W1_def)
  qed
  show ?thesis using run dec by (auto simp: react_step_node_def Let_def split: if_splits)
qed

lemma cnt_compressor: "\<lbrakk>counts E cnt; compressor_node E s W = (x, W')\<rbrakk> \<Longrightarrow> cnt (wd_ext W') = cnt (wd_ext W)"
proof -
  assume c: "counts E cnt" and run: "compressor_node E s W = (x, W')"
  have "cnt w' = cnt w" if "compress_messages (en_llm E) ms th m w = (y, w')" for ms th m w y w'
    using that c unfolding compress_messages_def counts_def
    by (auto simp: Let_def split: if_splits prod.splits sum.splits) (metis snd_conv)+
  then show ?thesis
    using run by (auto simp: compressor_node_def Let_def split: if_splits prod.splits sum.splits option.splits)
qed

lemma cnt_finisher: "\<lbrakk>counts E cnt; finisher_node E s W = (x, W')\<rbrakk> \<Longrightarrow> cnt (wd_ext W') = cnt (wd_ext W)"
  by (auto simp: finisher_node_def split: task_status.splits if_splits prod.splits sum.splits dest: cnt_llm)

lemma node_step_cnt:
  assumes "counts E cnt" and "node \<noteq> ToolExecutor" and "node_step E decision node s W = (x, W')"
  shows "cnt (wd_ext W') = cnt (wd_ext W)"
  using assms
proof (cases node)
  case ApprovalGate
  then show ?thesis
    using assms(3) by (auto simp: node_step_def approval_gate_node_def split: if_splits option.splits bool.splits)
qed (auto simp: node_step_def map_prod_def split: prod.splits
      dest: cnt_planner [OF assms(1)] cnt_react [OF assms(1)] cnt_critic cnt_compressor [OF assms(1)] cnt_finisher [OF assms(1)])

lemma node_step_approval:
  assumes "node_step E decision node s W = (Inr (Some s'), W')"
  shows "as_require_approval s' = as_require_approval s"
proof (cases node)
  case Planner
  then have "planner_node E s W = (Inr s', W')"
    using assms by (simp add: node_step_def lift_node_Some del: map_prod_simp)
  then obtain resp parsed W1 where "adopt_plan (en_settings E) s resp parsed W1 = (s', W')" using planner_effect by blast
  note eff = adopt_plan_effect(3) [OF this]
  show ?thesis by (subst eff) simp
next
  case ReactStep
  then have "react_step_node E s W = (Inr s', W')"
    using assms by (simp add: node_step_def lift_node_Some del: map_prod_simp)
  then show ?thesis
  proof (cases rule: react_effect)
    case (decided resp down W2)
    show ?thesis by (subst adopt_decision_effect(1) [OF decided(3)]) simp
  qed simp_all
next
  case ApprovalGate
  then have "approval_gate_node decision s W = (Some s', W')"
    using assms by (simp add: node_step_def lift_gate_Some del: map_prod_simp)
  then show ?thesis by (auto simp: approval_gate_node_def split: if_splits option.splits bool.splits)
next
  case ToolExecutor
  then have "tool_executor_node E s W = (Inr s', W')"
    using assms by (simp add: node_step_def lift_node_Some del: map_prod_simp)
  then show ?thesis
  proof (cases rule: executor_effect)
    case ran
    show ?thesis by (subst ran(3)) simp
  qed simp_all
next
  case Critic
  then have "critic_node E s W = (Inr s', W')"
    using assms by (simp add: node_step_def lift_node_Some del: map_prod_simp)
  then consider "s' = s" | "critic_success s W = (Inr s', W')" | "critic_failure (en_settings E) s W = (Inr s', W')"
    by (auto simp: critic_node_def split: if_splits)
  then show ?thesis
  proof cases
    case 2
    then show ?thesis by (cases rule: critic_success_effect) simp_all
  next
    case 3
    then show ?thesis by (cases rule: critic_failure_effect) simp_all
  qed simp
next
  case CompressorN
  then have "compressor_node E s W = (Inr s', W')"
    using assms by (simp add: node_step_def lift_node_Some del: map_prod_simp)
  then show ?thesis
    by (auto simp: compressor_node_def Let_def split: if_splits prod.splits sum.splits option.splits)
next
  case Finisher
  then have "finisher_node E s W = (Inr s', W')"
    using assms by (simp add: node_step_def lift_node_Some del: map_prod_simp)
  then show ?thesis
    by (auto simp: finisher_node_def split: task_status.splits if_splits prod.splits sum.splits)
qed

lemma run_graph_no_tool:
  assumes "counts E cnt"
  shows "\<lbrakk>run_graph n E None node s W = (e, cp, W'); as_require_approval s; node \<noteq> ToolExecutor\<rbrakk>
     \<Longrightarrow> cnt (wd_ext W') = cnt (wd_ext W)"
proof (induction n arbitrary: node s W)
  case (Suc n)
  obtain x W1 where st: "node_step E None node s W = (x, W1)" by fastforce
  have c: "cnt (wd_ext W1) = cnt (wd_ext W)" by (rule node_step_cnt [OF assms Suc.prems(3) st])
  show ?case
  proof (cases "\<exists>s1 k. x = Inr (Some s1) \<and> next_node node s1 = Some k")
    case True
    then obtain s1 k where x: "x = Inr (Some s1)" and k: "next_node node s1 = Some k" by blast
    have "node \<noteq> ApprovalGate"
      using st x Suc.prems(2) by (auto simp: node_step_def approval_gate_node_def)
    then have "k \<noteq> ToolExecutor"
      using k Suc.prems(3) by (cases node) (auto simp: next_node_def route_after_step_def route_after_critic_def split: if_splits)
    moreover have "as_require_approval s1" using node_step_approval [of E None node s W s1 W1] st x Suc.prems(2) by simp
    moreover have "run_graph n E None k s1 W1 = (e, cp, W')" using Suc.prems(1) st x k by simp
    ultimately show ?thesis using Suc.IH c by simp
  next
    case False
    then have "W' = W1" using Suc.prems(1) st by (auto split: sum.splits option.splits)
    then show ?thesis using c by simp
  qed
qed simp

text \<open>
  C6. Human approval is a hard gate: when a task requires approval, running it executes no tool
  at all, whatever the model decides; and neither does resuming it from any checkpoint without
  a decision, unless the checkpoint lies behind the gate.
\<close>

theorem approval_blocks_tools:
  assumes "counts E cnt" and "as_require_approval s" and "node \<noteq> ToolExecutor"
    and "run_graph n E None node s W = (e, cp, W')"
  shows "cnt (wd_ext W') = cnt (wd_ext W)"
  by (rule run_graph_no_tool [OF assms(1,4,2,3)])

theorem approval_blocks_tools_witness:
  "wd_ext (snd (snd (run_graph 100 demo_env None ReactStep
     (init_state (ascii ''t'') [] ReactMode 1000 24 True) demo_world))) = 0"
proof -
  obtain e cp W where run: "run_graph 100 demo_env None ReactStep
     (init_state (ascii ''t'') [] ReactMode 1000 24 True) demo_world = (e, cp, W)" using prod_cases3 by blast
  have "id (wd_ext W) = id (wd_ext demo_world)"
    by (rule approval_blocks_tools [OF demo_counts _ _ run]) (simp_all add: init_state_def)
  then have "wd_ext W = 0" by (simp add: demo_world_def)
  then show ?thesis by (simp add: run)
qed



end
