(* ===== verification/Repository.thy ===== *)
theory Repository
  imports Agent_State
begin

text \<open>
  The business database and the operations of \<^verbatim>\<open>app/storage/repository.py\<close> on tenants, tasks,
  rate windows, events and spans (the table of tool executions is in \<open>Journal\<close>). A table
  is the list of its rows in the order of insertion; every operation is one transaction. Time
  is the argument \<open>now\<close>. A violated unique constraint is the error \<open>IntegrityError\<close>.
\<close>

section \<open>Tables\<close>

record tenant =
  tn_id :: pystr
  tn_name :: pystr
  tn_key_hash :: pystr
  tn_key_prefix :: pystr
  tn_enabled :: bool
  tn_quota :: int
  tn_created_at :: seconds

record task_row =
  tk_id :: pystr
  tk_goal :: pystr
  tk_mode :: agent_mode
  tk_status :: task_status
  tk_tenant :: pystr
  tk_require_approval :: bool
  tk_max_tokens :: int
  tk_max_steps :: int
  tk_tokens_used :: int
  tk_steps_used :: int
  tk_downgraded :: bool
  tk_selfheal :: nat
  tk_result :: pystr
  tk_error :: pystr
  tk_duration :: seconds
  tk_created_at :: seconds
  tk_updated_at :: seconds

record event_row =
  er_task :: pystr
  er_seq :: nat
  er_type :: pystr
  er_trace :: pystr
  er_payload :: pystr
  er_created_at :: seconds

text \<open>A span: with attributes as a JSON value, or as their text in a row of the table.\<close>

record 'a span_rec =
  sp_trace :: pystr
  sp_id :: pystr
  sp_parent :: pystr
  sp_kind :: pystr
  sp_name :: pystr
  sp_task :: pystr
  sp_start :: seconds
  sp_end :: seconds
  sp_duration_ms :: real
  sp_status :: pystr
  sp_attributes :: 'a

type_synonym span_row = "pystr span_rec"
type_synonym span_dict = "json span_rec"

record rate_window =
  rw_scope :: pystr
  rw_start :: seconds
  rw_hits :: int
  rw_updated_at :: seconds

record database =
  db_tenants :: "tenant list"
  db_tasks :: "task_row list"
  db_events :: "event_row list"
  db_spans :: "span_row list"
  db_tools :: te_table
  db_windows :: "rate_window list"

datatype db_error = IntegrityError

definition active_statuses :: "task_status list" where
  "active_statuses = [StQueued, StRunning, StResuming]"

section \<open>Tenants\<close>

definition create_tenant :: "seconds \<Rightarrow> pystr \<Rightarrow> pystr \<Rightarrow> pystr \<Rightarrow> pystr \<Rightarrow> int \<Rightarrow> database
     \<Rightarrow> db_error + tenant \<times> database" where
  "create_tenant now tenant_id name api_key_hash key_prefix quota db =
     (if (\<exists>t \<in> set (db_tenants db). tn_id t = tenant_id \<or> tn_key_hash t = api_key_hash) then Inl IntegrityError
      else (let t = \<lparr>tn_id = tenant_id, tn_name = name, tn_key_hash = api_key_hash, tn_key_prefix = key_prefix,
                     tn_enabled = True, tn_quota = quota, tn_created_at = now\<rparr>
            in Inr (t, db\<lparr>db_tenants := db_tenants db @ [t]\<rparr>)))"

definition get_tenant_by_key_hash :: "pystr \<Rightarrow> database \<Rightarrow> tenant option" where
  "get_tenant_by_key_hash h db = find (\<lambda>t. tn_key_hash t = h) (db_tenants db)"

definition get_tenant_by_name :: "pystr \<Rightarrow> database \<Rightarrow> tenant option" where
  "get_tenant_by_name name db = find (\<lambda>t. tn_name t = name) (db_tenants db)"

definition get_tenant :: "pystr \<Rightarrow> database \<Rightarrow> tenant option" where
  "get_tenant tenant_id db = find (\<lambda>t. tn_id t = tenant_id) (db_tenants db)"

definition list_tenants :: "database \<Rightarrow> tenant list" where
  "list_tenants db = sort_key tn_created_at (db_tenants db)"

text \<open>
  \<open>update_tenant\<close>: the columns to set are a function on the row (no caller sets the id).
\<close>

definition update_tenant :: "pystr \<Rightarrow> (tenant \<Rightarrow> tenant) \<Rightarrow> database
     \<Rightarrow> db_error + tenant option \<times> database" where
  "update_tenant tenant_id upd db =
     (case get_tenant tenant_id db of
        None \<Rightarrow> Inr (None, db)
      | Some t \<Rightarrow>
          (if (\<exists>u \<in> set (db_tenants db). tn_id u \<noteq> tenant_id \<and> tn_key_hash u = tn_key_hash (upd t))
           then Inl IntegrityError
           else Inr (Some (upd t),
                     db\<lparr>db_tenants := map (\<lambda>u. if tn_id u = tenant_id then upd u else u) (db_tenants db)\<rparr>)))"

section \<open>Tasks\<close>

definition create_task :: "seconds \<Rightarrow> pystr \<Rightarrow> pystr \<Rightarrow> agent_mode \<Rightarrow> int \<Rightarrow> int \<Rightarrow> pystr \<Rightarrow> bool \<Rightarrow> database
     \<Rightarrow> db_error + task_row \<times> database" where
  "create_task now task_id goal mode max_tokens max_steps tenant_id require_approval db =
     (if (\<exists>t \<in> set (db_tasks db). tk_id t = task_id) then Inl IntegrityError
      else (let t = \<lparr>tk_id = task_id, tk_goal = goal, tk_mode = mode, tk_status = StQueued, tk_tenant = tenant_id,
                     tk_require_approval = require_approval, tk_max_tokens = max_tokens, tk_max_steps = max_steps,
                     tk_tokens_used = 0, tk_steps_used = 0, tk_downgraded = False, tk_selfheal = 0,
                     tk_result = [], tk_error = [], tk_duration = 0, tk_created_at = now, tk_updated_at = now\<rparr>
            in Inr (t, db\<lparr>db_tasks := db_tasks db @ [t]\<rparr>)))"

definition get_task_row :: "pystr \<Rightarrow> pystr option \<Rightarrow> database \<Rightarrow> task_row option" where
  "get_task_row task_id tenant_id db =
     find (\<lambda>t. tk_id t = task_id \<and> (case tenant_id of None \<Rightarrow> True | Some n \<Rightarrow> tk_tenant t = n)) (db_tasks db)"

definition update_task :: "seconds \<Rightarrow> pystr \<Rightarrow> (task_row \<Rightarrow> task_row) \<Rightarrow> database \<Rightarrow> task_row option \<times> database" where
  "update_task now task_id upd db =
     (case get_task_row task_id None db of
        None \<Rightarrow> (None, db)
      | Some t \<Rightarrow>
          (let touch = (\<lambda>u. (upd u)\<lparr>tk_updated_at := now\<rparr>)
           in (Some (touch t),
               db\<lparr>db_tasks := map (\<lambda>u. if tk_id u = task_id then touch u else u) (db_tasks db)\<rparr>)))"

definition fail_row :: "seconds \<Rightarrow> pystr \<Rightarrow> task_row \<Rightarrow> task_row" where
  "fail_row now error t = t\<lparr>tk_status := StFailed, tk_error := error, tk_updated_at := now\<rparr>"

definition fail_interrupted_tasks :: "seconds \<Rightarrow> pystr \<Rightarrow> task_status list \<Rightarrow> database \<Rightarrow> nat \<times> database" where
  "fail_interrupted_tasks now error statuses db =
     (let hit = (\<lambda>t. tk_status t \<in> set statuses)
      in (length (filter hit (db_tasks db)),
          db\<lparr>db_tasks := map (\<lambda>t. if hit t then fail_row now error t else t) (db_tasks db)\<rparr>))"

definition fail_stale_active_tasks :: "seconds \<Rightarrow> seconds \<Rightarrow> pystr \<Rightarrow> task_status list \<Rightarrow> database \<Rightarrow> nat \<times> database" where
  "fail_stale_active_tasks now max_age error statuses db =
     (let hit = (\<lambda>t. tk_status t \<in> set statuses \<and> tk_updated_at t < now - max_age)
      in (length (filter hit (db_tasks db)),
          db\<lparr>db_tasks := map (\<lambda>t. if hit t then fail_row now error t else t) (db_tasks db)\<rparr>))"

definition list_task_rows :: "nat \<Rightarrow> pystr option \<Rightarrow> database \<Rightarrow> task_row list" where
  "list_task_rows limit tenant_id db =
     take limit (sort_key (\<lambda>t. - tk_created_at t)
       (filter (\<lambda>t. case tenant_id of None \<Rightarrow> True | Some n \<Rightarrow> tk_tenant t = n) (db_tasks db)))"

text \<open>\<open>delete_task\<close> up to the checkpoints, which are in another database.\<close>

definition delete_task_rows :: "pystr \<Rightarrow> pystr option \<Rightarrow> database \<Rightarrow> task_row option \<times> database" where
  "delete_task_rows task_id tenant_id db =
     (case get_task_row task_id tenant_id db of
        None \<Rightarrow> (None, db)
      | Some t \<Rightarrow>
          (Some t, db\<lparr>db_tasks := filter (\<lambda>u. tk_id u \<noteq> task_id) (db_tasks db),
                      db_events := filter (\<lambda>e. er_task e \<noteq> task_id) (db_events db),
                      db_spans := filter (\<lambda>s. sp_task s \<noteq> task_id) (db_spans db),
                      db_tools := filter (\<lambda>r. te_task r \<noteq> task_id) (db_tools db)\<rparr>))"

definition count_tasks_since :: "seconds \<Rightarrow> pystr option \<Rightarrow> database \<Rightarrow> nat" where
  "count_tasks_since since tenant_id db =
     length (filter (\<lambda>t. since \<le> tk_created_at t \<and> (case tenant_id of None \<Rightarrow> True | Some n \<Rightarrow> tk_tenant t = n))
       (db_tasks db))"

record token_usage =
  tu_used :: int
  tu_reserved :: int

definition tenant_token_usage :: "pystr \<Rightarrow> seconds \<Rightarrow> database \<Rightarrow> token_usage" where
  "tenant_token_usage tenant_id since db =
     (let mine = filter (\<lambda>t. tk_tenant t = tenant_id \<and> since \<le> tk_created_at t) (db_tasks db)
      in \<lparr>tu_used = (\<Sum>t\<leftarrow>mine. tk_tokens_used t),
          tu_reserved = (\<Sum>t\<leftarrow>filter (\<lambda>t. tk_status t \<in> set active_statuses) mine. tk_max_tokens t)\<rparr>)"

section \<open>Rate windows\<close>

definition rate_limit_hit :: "seconds \<Rightarrow> pystr \<Rightarrow> seconds \<Rightarrow> database \<Rightarrow> int \<times> database" where
  "rate_limit_hit now scope window_start db =
     (let same = (\<lambda>r. rw_scope r = scope \<and> rw_start r = window_start)
      in case find same (db_windows db) of
           Some r \<Rightarrow>
             (rw_hits r + 1,
              db\<lparr>db_windows := map (\<lambda>u. if same u then u\<lparr>rw_hits := rw_hits u + 1, rw_updated_at := now\<rparr> else u)
                                 (db_windows db)\<rparr>)
         | None \<Rightarrow>
             (1, db\<lparr>db_windows := filter (\<lambda>u. \<not> (rw_scope u = scope \<and> rw_start u < window_start))
                      (db_windows db @ [\<lparr>rw_scope = scope, rw_start = window_start, rw_hits = 1,
                                         rw_updated_at = now\<rparr>])\<rparr>))"

definition count_rate_windows :: "pystr \<Rightarrow> database \<Rightarrow> nat" where
  "count_rate_windows scope db = length (filter (\<lambda>r. rw_scope r = scope) (db_windows db))"

section \<open>Events\<close>

text \<open>The event dictionary that the engine emits and the API returns.\<close>

record event =
  ev_seq :: nat
  ev_task :: pystr
  ev_trace :: pystr
  ev_type :: pystr
  ev_payload :: json
  ev_ts :: seconds

definition event_to_row :: "seconds \<Rightarrow> event \<Rightarrow> event_row" where
  "event_to_row now e =
     \<lparr>er_task = ev_task e, er_seq = ev_seq e, er_type = ev_type e, er_trace = ev_trace e,
      er_payload = dumps (ev_payload e), er_created_at = now\<rparr>"

definition append_event :: "seconds \<Rightarrow> event \<Rightarrow> database \<Rightarrow> db_error + database" where
  "append_event now e db =
     (if (\<exists>r \<in> set (db_events db). er_task r = ev_task e \<and> er_seq r = ev_seq e) then Inl IntegrityError
      else Inr (db\<lparr>db_events := db_events db @ [event_to_row now e]\<rparr>))"

definition event_dict :: "(pystr \<Rightarrow> pystr) \<Rightarrow> event_row \<Rightarrow> raised + event" where
  "event_dict err r =
     (let text = (if er_payload r = [] then ascii ''{}'' else er_payload r)
      in case loads text of
           None \<Rightarrow> Inl (ROther (err text))
         | Some v \<Rightarrow> Inr \<lparr>ev_seq = er_seq r, ev_task = er_task r, ev_trace = er_trace r, ev_type = er_type r,
                           ev_payload = v, ev_ts = er_created_at r\<rparr>)"

fun event_dicts :: "(pystr \<Rightarrow> pystr) \<Rightarrow> event_row list \<Rightarrow> raised + event list" where
  "event_dicts err [] = Inr []"
| "event_dicts err (r # rs) =
     (case event_dict err r of
        Inl x \<Rightarrow> Inl x
      | Inr e \<Rightarrow> map_sum id ((#) e) (event_dicts err rs))"

definition get_events :: "(pystr \<Rightarrow> pystr) \<Rightarrow> pystr \<Rightarrow> int \<Rightarrow> database \<Rightarrow> raised + event list" where
  "get_events err task_id after_seq db =
     event_dicts err (sort_key er_seq
       (filter (\<lambda>r. er_task r = task_id \<and> after_seq < int (er_seq r)) (db_events db)))"

definition get_max_event_seq :: "pystr \<Rightarrow> database \<Rightarrow> nat" where
  "get_max_event_seq task_id db =
     (case map er_seq (filter (\<lambda>r. er_task r = task_id) (db_events db)) of
        [] \<Rightarrow> 0
      | n # ns \<Rightarrow> fold max ns n)"

section \<open>Spans\<close>

definition span_to_row :: "span_dict \<Rightarrow> span_row" where
  "span_to_row s =
     \<lparr>sp_trace = sp_trace s, sp_id = sp_id s, sp_parent = sp_parent s, sp_kind = sp_kind s, sp_name = sp_name s,
      sp_task = sp_task s, sp_start = sp_start s, sp_end = sp_end s, sp_duration_ms = sp_duration_ms s,
      sp_status = (if sp_status s = [] then ascii ''ok'' else sp_status s),
      sp_attributes = dumps (sp_attributes s)\<rparr>"

definition record_span :: "span_dict \<Rightarrow> database \<Rightarrow> database" where
  "record_span s db = db\<lparr>db_spans := db_spans db @ [span_to_row s]\<rparr>"

definition record_spans :: "span_dict list \<Rightarrow> database \<Rightarrow> database" where
  "record_spans spans db =
     (if spans = [] then db else db\<lparr>db_spans := db_spans db @ map span_to_row spans\<rparr>)"

definition row_to_span :: "span_row \<Rightarrow> span_dict" where
  "row_to_span r =
     \<lparr>sp_trace = sp_trace r, sp_id = sp_id r, sp_parent = sp_parent r, sp_kind = sp_kind r, sp_name = sp_name r,
      sp_task = sp_task r, sp_start = sp_start r, sp_end = sp_end r, sp_duration_ms = sp_duration_ms r,
      sp_status = sp_status r,
      sp_attributes = (case loads (if sp_attributes r = [] then ascii ''{}'' else sp_attributes r) of
                         None \<Rightarrow> JObj [] | Some v \<Rightarrow> v)\<rparr>"

definition get_spans :: "pystr \<Rightarrow> pystr \<Rightarrow> database \<Rightarrow> span_dict list" where
  "get_spans trace_id kind db =
     map row_to_span (sort_key sp_start
       (filter (\<lambda>s. sp_trace s = trace_id \<and> (kind \<noteq> [] \<longrightarrow> sp_kind s = kind)) (db_spans db)))"

definition get_spans_by_task :: "pystr \<Rightarrow> pystr \<Rightarrow> database \<Rightarrow> span_dict list" where
  "get_spans_by_task task_id kind db =
     map row_to_span (sort_key sp_start
       (filter (\<lambda>s. sp_task s = task_id \<and> (kind \<noteq> [] \<longrightarrow> sp_kind s = kind)) (db_spans db)))"

section \<open>Metrics\<close>

text \<open>\<open>GROUP BY\<close> with a count per group.\<close>

definition group_count :: "'a list \<Rightarrow> ('a \<times> nat) list" where
  "group_count xs = map (\<lambda>x. (x, count_list xs x)) (remdups xs)"

text \<open>\<open>round\<close> to an integer: ties go to the even neighbour.\<close>

definition round_half_even :: "real \<Rightarrow> int" where
  "round_half_even x =
     (let f = \<lfloor>x\<rfloor>; d = x - of_int f
      in if d < 1 / 2 then f else if d > 1 / 2 then f + 1 else if even f then f else f + 1)"

record metrics_view =
  mv_by_status :: "(task_status \<times> nat) list"
  mv_tokens :: int
  mv_steps :: int
  mv_selfheals :: nat
  mv_avg_duration :: real
  mv_events :: "(pystr \<times> nat) list"

definition repo_metrics :: "pystr option \<Rightarrow> database \<Rightarrow> metrics_view" where
  "repo_metrics tenant_id db =
     (let tasks = filter (\<lambda>t. case tenant_id of None \<Rightarrow> True | Some n \<Rightarrow> tk_tenant t = n) (db_tasks db);
          events = (case tenant_id of
                      None \<Rightarrow> db_events db
                    | Some n \<Rightarrow> filter (\<lambda>e. er_task e \<in> set (map tk_id tasks)) (db_events db));
          avg = (if tasks = [] then 0 else (\<Sum>t\<leftarrow>tasks. tk_duration t) / real (length tasks))
      in \<lparr>mv_by_status = group_count (map tk_status tasks),
          mv_tokens = (\<Sum>t\<leftarrow>tasks. tk_tokens_used t),
          mv_steps = (\<Sum>t\<leftarrow>tasks. tk_steps_used t),
          mv_selfheals = (\<Sum>t\<leftarrow>tasks. tk_selfheal t),
          mv_avg_duration = of_int (round_half_even (avg * 100)) / 100,
          mv_events = group_count (map er_type events)\<rparr>)"

section \<open>Reachable databases\<close>

text \<open>One rule per operation that writes; the columns an update sets never include the primary key.\<close>

inductive repo_step :: "database \<Rightarrow> database \<Rightarrow> bool" where
  step_create_tenant: "create_tenant now i n h p q db = Inr (t, db') \<Longrightarrow> repo_step db db'"
| step_update_tenant: "\<lbrakk>\<And>u. tn_id (upd u) = tn_id u; update_tenant i upd db = Inr (t, db')\<rbrakk> \<Longrightarrow> repo_step db db'"
| step_create_task: "create_task now i g m mt ms n ra db = Inr (k, db') \<Longrightarrow> repo_step db db'"
| step_update_task: "\<lbrakk>\<And>u. tk_id (upd u) = tk_id u\<rbrakk> \<Longrightarrow> repo_step db (snd (update_task now i upd db))"
| step_fail_interrupted: "repo_step db (snd (fail_interrupted_tasks now e sts db))"
| step_fail_stale: "repo_step db (snd (fail_stale_active_tasks now age e sts db))"
| step_delete: "repo_step db (snd (delete_task_rows i n db))"
| step_hit: "repo_step db (snd (rate_limit_hit now sc w db))"
| step_event: "\<lbrakk>wf_json (ev_payload ev); append_event now ev db = Inr db'\<rbrakk> \<Longrightarrow> repo_step db db'"
| step_spans: "repo_step db (record_spans ss db)"
| step_claim: "repo_step db (db\<lparr>db_tools := fst (try_claim_tool_execution err (db_tools db) i c tool args)\<rparr>)"
| step_complete: "repo_step db (db\<lparr>db_tools := complete_tool_execution (db_tools db) i c obs\<rparr>)"
| step_record: "repo_step db (db\<lparr>db_tools := record_tool_execution (db_tools db) i c obs\<rparr>)"

definition empty_db :: database where
  "empty_db = \<lparr>db_tenants = [], db_tasks = [], db_events = [], db_spans = [], db_tools = [], db_windows = []\<rparr>"

text \<open>The unique constraints, and that every stored payload can be read back.\<close>

definition db_ok :: "database \<Rightarrow> bool" where
  "db_ok db \<longleftrightarrow> distinct (map tn_id (db_tenants db)) \<and> distinct (map tn_key_hash (db_tenants db))
     \<and> distinct (map tk_id (db_tasks db))
     \<and> distinct (map (\<lambda>e. (er_task e, er_seq e)) (db_events db))
     \<and> (\<forall>e \<in> set (db_events db). \<exists>e'. event_dict (\<lambda>_. []) e = Inr e')
     \<and> te_unique (db_tools db)
     \<and> distinct (map (\<lambda>w. (rw_scope w, rw_start w)) (db_windows db))"

lemma distinct_map_filter_key: "distinct (map f xs) \<Longrightarrow> distinct (map f (filter P xs))"
  by (induction xs) auto

lemma map_same_key: "(\<And>x. f (g x) = f x) \<Longrightarrow> map f (map (\<lambda>x. if P x then g x else x) xs) = map f xs"
  by (induction xs) auto

lemma find_key_unique:
  assumes "distinct (map f xs)" and "find (\<lambda>x. f x = k) xs = Some y" and "x \<in> set xs"
  shows "f x = k \<longleftrightarrow> x = y"
proof -
  have "y \<in> set xs" "f y = k" using assms(2) by (auto simp: find_Some_iff in_set_conv_nth)
  then show ?thesis using assms(1,3) by (auto simp: distinct_map inj_on_def)
qed

lemma find_map_same:
  assumes "\<And>x. P (g x) \<longleftrightarrow> P x"
  shows "find P (map (\<lambda>x. if P x then g x else x) xs) = map_option g (find P xs)"
  using assms by (induction xs) auto

lemma distinct_update_hash:
  assumes "distinct (map tn_id ts)" "distinct (map tn_key_hash ts)" and t: "find (\<lambda>t. tn_id t = i) ts = Some t"
    and fresh: "\<not> (\<exists>u \<in> set ts. tn_id u \<noteq> i \<and> tn_key_hash u = tn_key_hash (upd t))"
  shows "distinct (map tn_key_hash (map (\<lambda>u. if tn_id u = i then upd u else u) ts))"
proof -
  have only: "tn_id u = i \<longleftrightarrow> u = t" if "u \<in> set ts" for u
    by (rule find_key_unique [OF assms(1) t that])
  have "inj_on (\<lambda>u. tn_key_hash (if tn_id u = i then upd u else u)) (set ts)"
  proof (rule inj_onI)
    fix u v assume u: "u \<in> set ts" and v: "v \<in> set ts"
      and eq: "tn_key_hash (if tn_id u = i then upd u else u) = tn_key_hash (if tn_id v = i then upd v else v)"
    show "u = v"
      using eq only [OF u] only [OF v] fresh u v assms(2)
      by (cases "tn_id u = i"; cases "tn_id v = i") (auto simp: distinct_map inj_on_def)
  qed
  then show ?thesis using assms(1) by (simp add: distinct_map o_def)
qed

lemma event_to_row_simps [simp]:
  "er_task (event_to_row now e) = ev_task e" "er_seq (event_to_row now e) = ev_seq e"
  by (simp_all add: event_to_row_def)

lemma event_dict_row:
  "wf_json (ev_payload e) \<Longrightarrow> event_dict err (event_to_row now e) = Inr (e\<lparr>ev_ts := now\<rparr>)"
  by (simp add: event_dict_def event_to_row_def dumps_not_empty loads_dumps)

lemma repo_step_ok:
  assumes "repo_step db db'" and "db_ok db"
  shows "db_ok db'"
  using assms
proof (induction rule: repo_step.induct)
  case (step_update_tenant upd i db t db')
  then show ?case
    by (auto simp: update_tenant_def get_tenant_def db_ok_def map_same_key distinct_update_hash
        simp del: map_map split: option.splits if_splits)
next
  case (step_event ev now db db')
  then show ?case
    by (fastforce simp: append_event_def db_ok_def event_dict_row split: if_splits)
next
  case (step_delete db i n)
  then show ?case
    by (auto simp: delete_task_rows_def db_ok_def te_unique_def distinct_map_filter_key split: option.splits)
next
  case (step_hit db now sc w)
  then show ?case
    by (auto simp: rate_limit_hit_def Let_def db_ok_def distinct_map_filter_key map_same_key find_None_iff image_iff
        simp del: map_map intro: distinct_map_filter_key split: option.splits)
next
  case (step_update_task upd db now i)
  then show ?case
    by (auto simp: update_task_def db_ok_def map_same_key Let_def simp del: map_map split: option.splits)
next
  case (step_claim db err i c tool args)
  then show ?case by (simp add: db_ok_def te_unique_ops)
next
  case (step_complete db i c obs)
  then show ?case by (simp add: db_ok_def te_unique_ops)
next
  case (step_record db i c obs)
  then show ?case by (simp add: db_ok_def te_unique_ops)
qed (auto simp: create_tenant_def create_task_def fail_interrupted_tasks_def fail_stale_active_tasks_def
      record_spans_def db_ok_def map_same_key fail_row_def Let_def simp del: map_map split: if_splits)


lemma event_dicts_all:
  "(\<forall>r \<in> set rs. \<exists>e. event_dict err r = Inr e) \<Longrightarrow> \<exists>es. event_dicts err rs = Inr es"
  by (induction rs) fastforce+

lemma event_dict_err: "(\<exists>e. event_dict err r = Inr e) \<longleftrightarrow> (\<exists>e. event_dict err' r = Inr e)"
  by (cases "loads (if er_payload r = [] then ascii ''{}'' else er_payload r)") (simp_all add: event_dict_def Let_def)

lemma db_ok_events:
  assumes "db_ok db"
  shows "\<exists>es. get_events err task_id n db = Inr es"
  unfolding get_events_def using assms event_dict_err [of err _ "\<lambda>_. []"]
  by (intro event_dicts_all) (simp add: db_ok_def)

lemma reachable_db_ok: "repo_step\<^sup>*\<^sup>* db db' \<Longrightarrow> db_ok db \<Longrightarrow> db_ok db'"
  by (induction rule: rtranclp_induct) (auto intro: repo_step_ok)

lemma empty_db_ok: "db_ok empty_db"
  by (simp add: db_ok_def empty_db_def te_unique_def)

section \<open>What one tenant sees\<close>

text \<open>
  The part of the database that belongs to a tenant: its tasks, their events and their spans.
\<close>

definition owned_ids :: "pystr \<Rightarrow> database \<Rightarrow> pystr list" where
  "owned_ids n db = map tk_id (filter (\<lambda>t. tk_tenant t = n) (db_tasks db))"

definition tenant_view :: "pystr \<Rightarrow> database \<Rightarrow> task_row list \<times> event_row list \<times> span_row list" where
  "tenant_view n db =
     (filter (\<lambda>t. tk_tenant t = n) (db_tasks db),
      filter (\<lambda>e. er_task e \<in> set (owned_ids n db)) (db_events db),
      filter (\<lambda>s. sp_task s \<in> set (owned_ids n db)) (db_spans db))"

lemma find_filter: "find P (filter Q xs) = find (\<lambda>x. P x \<and> Q x) xs"
  by (induction xs) auto

lemma get_task_row_view:
  "get_task_row i (Some n) db = find (\<lambda>t. tk_id t = i) (fst (tenant_view n db))"
  by (simp add: get_task_row_def tenant_view_def find_filter)

lemma owned_row:
  assumes "get_task_row i (Some n) db = Some t"
  shows "tk_id t = i \<and> tk_tenant t = n \<and> t \<in> set (db_tasks db) \<and> i \<in> set (owned_ids n db)"
  using assms by (auto simp: get_task_row_def owned_ids_def find_Some_iff)

lemma tenant_queries_view:
  assumes "tenant_view n db = tenant_view n db'"
  shows "get_task_row i (Some n) db = get_task_row i (Some n) db'"
    and "list_task_rows k (Some n) db = list_task_rows k (Some n) db'"
    and "count_tasks_since since (Some n) db = count_tasks_since since (Some n) db'"
    and "tenant_token_usage n since db = tenant_token_usage n since db'"
    and "repo_metrics (Some n) db = repo_metrics (Some n) db'"
    and "i \<in> set (owned_ids n db) \<Longrightarrow> get_events err i m db = get_events err i m db'"
    and "i \<in> set (owned_ids n db) \<Longrightarrow> get_spans_by_task i kind db = get_spans_by_task i kind db'"
proof -
  have tasks: "filter (\<lambda>t. tk_tenant t = n) (db_tasks db) = filter (\<lambda>t. tk_tenant t = n) (db_tasks db')"
    and ids: "owned_ids n db = owned_ids n db'"
    using assms by (simp_all add: tenant_view_def owned_ids_def)
  have events: "filter (\<lambda>e. er_task e \<in> set (owned_ids n db)) (db_events db)
      = filter (\<lambda>e. er_task e \<in> set (owned_ids n db)) (db_events db')"
    and spans: "filter (\<lambda>s. sp_task s \<in> set (owned_ids n db)) (db_spans db)
      = filter (\<lambda>s. sp_task s \<in> set (owned_ids n db)) (db_spans db')"
    using assms ids by (simp_all add: tenant_view_def)
  have split: "filter (\<lambda>t. P t \<and> tk_tenant t = n) xs = filter P (filter (\<lambda>t. tk_tenant t = n) xs)"
    "filter (\<lambda>t. tk_tenant t = n \<and> P t) xs = filter P (filter (\<lambda>t. tk_tenant t = n) xs)"
    for P :: "task_row \<Rightarrow> bool" and xs
    by (simp_all add: conj_commute)
  show "get_task_row i (Some n) db = get_task_row i (Some n) db'" using assms by (simp add: get_task_row_view)
  show "list_task_rows k (Some n) db = list_task_rows k (Some n) db'" by (simp add: list_task_rows_def tasks)
  show "count_tasks_since since (Some n) db = count_tasks_since since (Some n) db'"
    by (simp only: count_tasks_since_def option.case split tasks)
  show "tenant_token_usage n since db = tenant_token_usage n since db'"
    by (simp only: tenant_token_usage_def split tasks)
  show "repo_metrics (Some n) db = repo_metrics (Some n) db'"
    using events ids by (simp add: repo_metrics_def Let_def tasks owned_ids_def)
  assume i: "i \<in> set (owned_ids n db)"
  have sub: "filter (\<lambda>e. g e = i \<and> P e) xs = filter (\<lambda>e. g e = i \<and> P e) (filter (\<lambda>e. g e \<in> set (owned_ids n db)) xs)"
    for g :: "'a \<Rightarrow> pystr" and P xs using i by (auto simp del: set_map intro!: filter_cong)
  show "get_events err i m db = get_events err i m db'"
    unfolding get_events_def by (subst (1 2) sub) (simp only: events)
  show "get_spans_by_task i kind db = get_spans_by_task i kind db'"
    unfolding get_spans_by_task_def by (subst (1 2) sub) (simp only: spans)
qed

lemma filter_map_other:
  assumes "\<And>x. x \<in> set xs \<Longrightarrow> P x \<Longrightarrow> \<not> Q x \<and> \<not> Q (g x)"
  shows "filter Q (map (\<lambda>x. if P x then g x else x) xs) = filter Q xs"
  using assms by (induction xs) auto

lemma tenant_view_tasks:
  assumes "filter (\<lambda>t. tk_tenant t = n) (db_tasks db') = filter (\<lambda>t. tk_tenant t = n) (db_tasks db)"
    and "db_events db' = db_events db" and "db_spans db' = db_spans db"
  shows "tenant_view n db' = tenant_view n db"
  using assms by (simp add: tenant_view_def owned_ids_def)

lemma view_create_task:
  assumes "create_task now i g m mt ms n' ra db = Inr (t, db')" and "n' \<noteq> n"
  shows "tenant_view n db' = tenant_view n db"
  using assms by (intro tenant_view_tasks) (auto simp: create_task_def Let_def split: if_splits)

lemma view_update_task:
  assumes "db_ok db" and "get_task_row i (Some n') db = Some t" and "n' \<noteq> n"
    and "\<And>u. tk_tenant (upd u) = tk_tenant u"
  shows "tenant_view n (snd (update_task now i upd db)) = tenant_view n db"
proof -
  have t: "t \<in> set (db_tasks db)" "tk_id t = i" "tk_tenant t = n'" using owned_row [OF assms(2)] by simp_all
  have only: "tk_tenant u = n'" if "u \<in> set (db_tasks db)" "tk_id u = i" for u
    using assms(1) t that by (auto simp: db_ok_def distinct_map inj_on_def)
  show ?thesis
    using assms(3,4) only
    by (intro tenant_view_tasks) (auto simp: update_task_def Let_def intro!: filter_map_other split: option.splits)
qed

lemma view_delete_task:
  assumes "db_ok db" and "n' \<noteq> n"
  shows "tenant_view n (snd (delete_task_rows i (Some n') db)) = tenant_view n db"
proof (cases "get_task_row i (Some n') db")
  case (Some t)
  have t: "t \<in> set (db_tasks db)" "tk_id t = i" "tk_tenant t = n'" using owned_row [OF Some] by simp_all
  have other: "tk_id u \<noteq> i" if "u \<in> set (db_tasks db)" "tk_tenant u = n" for u
    using assms t that by (auto simp: db_ok_def distinct_map inj_on_def)
  then have tasks: "filter (\<lambda>u. tk_id u \<noteq> i \<and> tk_tenant u = n) (db_tasks db) = filter (\<lambda>u. tk_tenant u = n) (db_tasks db)"
    by (intro filter_cong) auto
  have ids: "i \<notin> set (owned_ids n db)" using other by (auto simp: owned_ids_def)
  have sub: "filter (\<lambda>e. f e \<noteq> i \<and> f e \<in> set (owned_ids n db)) xs = filter (\<lambda>e. f e \<in> set (owned_ids n db)) xs"
    for f :: "'a \<Rightarrow> pystr" and xs using ids by (intro filter_cong) auto
  have own: "owned_ids n (snd (delete_task_rows i (Some n') db)) = owned_ids n db"
    using Some tasks by (simp add: delete_task_rows_def owned_ids_def)
  show ?thesis using Some tasks sub [of er_task "db_events db"] sub [of sp_task "db_spans db"] own by (simp add: delete_task_rows_def tenant_view_def)
qed (simp add: delete_task_rows_def)

lemma delete_task_gone:
  assumes "get_task_row i n db = Some t"
  shows "get_task_row i m (snd (delete_task_rows i n db)) = None
     \<and> get_events err i k (snd (delete_task_rows i n db)) = Inr []
     \<and> get_spans_by_task i kind (snd (delete_task_rows i n db)) = []
     \<and> get_tool_execution err (db_tools (snd (delete_task_rows i n db))) i c = Inr None"
proof -
  have no_tool: "find (\<lambda>r. te_key i c r \<and> te_mark r \<noteq> InFlight) (filter (\<lambda>r. te_task r \<noteq> i) xs) = None" for xs
    by (simp add: find_None_iff te_key_def)
  have no_task: "find (\<lambda>t. tk_id t = i \<and> P t) (filter (\<lambda>u. tk_id u \<noteq> i) xs) = None" for P xs
    by (simp add: find_None_iff)
  show ?thesis
    using assms
    by (simp add: delete_task_rows_def get_tool_execution_def no_tool)
       (simp add: get_task_row_def no_task get_events_def get_spans_by_task_def)
qed

section \<open>Properties\<close>

text \<open>
  C25. Whatever operations are applied to a fresh database, in any order and by any number of
  processes, it keeps its unique constraints (tenants by id and by key, tasks by id, events by
  task and number, tool executions by task and call, rate windows by scope and start), and
  reading the events of any task never fails.
\<close>

theorem repository_safe:
  assumes "repo_step\<^sup>*\<^sup>* empty_db db"
  shows "db_ok db \<and> (\<exists>es. get_events err task_id n db = Inr es)"
  using reachable_db_ok [OF assms empty_db_ok] db_ok_events by blast

definition demo_db :: database where
  "demo_db = snd (projr (create_task 5 (ascii ''k'') (ascii ''g'') ReactMode 1000 24 (ascii ''t'') False empty_db))"

theorem repository_safe_witness:
  "db_ok demo_db \<and> (\<exists>es. get_events (\<lambda>x. x) (ascii ''k'') 0 demo_db = Inr es)"
proof (rule repository_safe)
  show "repo_step\<^sup>*\<^sup>* empty_db demo_db"
    by (rule r_into_rtranclp, rule step_create_task [of 5 "ascii ''k''" "ascii ''g''" ReactMode 1000 24 "ascii ''t''" False])
       (simp add: demo_db_def create_task_def empty_db_def Let_def)
qed


end
