(* ===== verification/Queue.thy ===== *)
theory Queue
  imports Graph_Invariants Repository
begin

text \<open>
  The execution of tasks: the queue in the API process (\<^verbatim>\<open>app/worker/local_queue.py\<close>) and
  the Celery worker (\<^verbatim>\<open>app/worker/celery_app.py\<close>), which run the engine and write its result
  back to the row of the task. The engine's events go to the database through the sink; a run is
  one step of the model with its events stored at its end.
\<close>

section \<open>The event sink\<close>

text \<open>
  \<open>render\<close> gives the type and the payload of an event. An event gets the number that the
  engine assigned and the trace of the run.
\<close>

definition event_of :: "(agent_event \<Rightarrow> pystr \<times> json) \<Rightarrow> pystr \<Rightarrow> pystr \<Rightarrow> seconds \<Rightarrow> nat \<times> agent_event \<Rightarrow> event" where
  "event_of render tid trace now ne =
     \<lparr>ev_seq = fst ne, ev_task = tid, ev_trace = trace, ev_type = fst (render (snd ne)),
      ev_payload = snd (render (snd ne)), ev_ts = now\<rparr>"

fun sink_events :: "seconds \<Rightarrow> event list \<Rightarrow> database \<Rightarrow> db_error + database" where
  "sink_events now [] db = Inr db"
| "sink_events now (e # es) db =
     (case append_event now e db of Inl x \<Rightarrow> Inl x | Inr db1 \<Rightarrow> sink_events now es db1)"

section \<open>Running one task\<close>

text \<open>
  The collaborators of a queue: the engine's environment, the rendering of events, and the
  text \<open>type: message\<close> of an exception that ends a run.
\<close>

record 'w runner =
  rn_env :: "'w env"
  rn_render :: "agent_event \<Rightarrow> pystr \<times> json"
  rn_error :: "run_end \<Rightarrow> pystr"
  rn_resume_error :: "resume_error \<Rightarrow> pystr"
  rn_sink_error :: pystr

record 'w service =
  sv_db :: database
  sv_engine :: "engine option"
  sv_world :: "'w world"

text \<open>The result of the engine: a final state, or the text of the exception.\<close>

definition run_engine :: "'w runner \<Rightarrow> pystr \<Rightarrow> seconds \<Rightarrow> pystr
     \<Rightarrow> (run_end + agent_state) \<times> (nat \<times> agent_event) list \<times> engine \<times> 'w world \<Rightarrow> 'w service
     \<Rightarrow> (pystr + agent_state) \<times> 'w service" where
  "run_engine R trace now tid result sv =
     (case result of (r, evs, eng, W) \<Rightarrow>
        (case sink_events now (map (event_of (rn_render R) tid trace now) evs) (sv_db sv) of
           Inl _ \<Rightarrow> (Inl (rn_sink_error R), sv\<lparr>sv_engine := Some eng, sv_world := W\<rparr>)
         | Inr db \<Rightarrow>
             (case r of Inl e \<Rightarrow> Inl (rn_error R e) | Inr s \<Rightarrow> Inr s,
              sv\<lparr>sv_db := db, sv_engine := Some eng, sv_world := W\<rparr>)))"

definition engine_run_task :: "'w runner \<Rightarrow> pystr \<Rightarrow> seconds \<Rightarrow> task_row \<Rightarrow> engine \<Rightarrow> 'w service
     \<Rightarrow> (pystr + agent_state) \<times> 'w service" where
  "engine_run_task R trace now t eng sv =
     run_engine R trace now (tk_id t)
       (run_task (rn_env R) (get_max_event_seq (tk_id t) (sv_db sv)) (tk_id t) (tk_goal t) (tk_mode t) (tk_max_tokens t)
          (tk_max_steps t) (tk_require_approval t) eng (sv_world sv)) sv"

definition engine_resume_task :: "'w runner \<Rightarrow> pystr \<Rightarrow> seconds \<Rightarrow> pystr \<Rightarrow> bool option \<Rightarrow> engine \<Rightarrow> 'w service
     \<Rightarrow> (pystr + agent_state) \<times> 'w service" where
  "engine_resume_task R trace now tid resume_value eng sv =
     (case resume_task (rn_env R) (get_max_event_seq tid (sv_db sv)) tid resume_value eng (sv_world sv) of
        Inl e \<Rightarrow> (Inl (rn_resume_error R e), sv)
      | Inr (Inl s) \<Rightarrow> (Inr s, sv)
      | Inr (Inr result) \<Rightarrow> run_engine R trace now tid result sv)"

text \<open>The columns that a finished run sets; \<open>duration\<close> is rounded to two digits.\<close>

definition result_columns :: "seconds \<Rightarrow> agent_state \<Rightarrow> task_row \<Rightarrow> task_row" where
  "result_columns duration s t =
     t\<lparr>tk_status := as_status s, tk_result := as_final_answer s, tk_error := as_last_error s,
       tk_tokens_used := as_tokens_used s, tk_steps_used := as_steps_used s, tk_downgraded := as_downgraded s,
       tk_selfheal := as_selfheal_total s, tk_duration := of_int (round_half_even (duration * 100)) / 100\<rparr>"

definition set_row :: "seconds \<Rightarrow> pystr \<Rightarrow> (task_row \<Rightarrow> task_row) \<Rightarrow> 'w service \<Rightarrow> 'w service" where
  "set_row now tid upd sv = sv\<lparr>sv_db := snd (update_task now tid upd (sv_db sv))\<rparr>"

section \<open>The local queue\<close>

text \<open>
  \<open>_execute\<close>: \<open>started\<close> and \<open>ended\<close> are the clock before and after the run.
\<close>

definition no_engine_error :: pystr where
  "no_engine_error = [24341, 25806, 26410, 21021, 22987, 21270]"

definition execute_task :: "'w runner \<Rightarrow> pystr \<Rightarrow> seconds \<Rightarrow> seconds \<Rightarrow> bool \<Rightarrow> bool option \<Rightarrow> pystr \<Rightarrow> 'w service \<Rightarrow> 'w service" where
  "execute_task R trace started ended resume resume_value tid sv =
     (case get_task_row tid None (sv_db sv) of
        None \<Rightarrow> sv
      | Some t \<Rightarrow>
          (case sv_engine sv of
             None \<Rightarrow> set_row started tid (\<lambda>u. u\<lparr>tk_status := StFailed, tk_error := no_engine_error\<rparr>) sv
           | Some eng0 \<Rightarrow>
               (let eng = clear_cancel tid eng0;
                    sv1 = set_row started tid (\<lambda>u. u\<lparr>tk_status := StRunning\<rparr>) (sv\<lparr>sv_engine := Some eng\<rparr>)
                in case (if resume then engine_resume_task R trace started tid resume_value eng sv1
                         else engine_run_task R trace started t eng sv1) of
                     (Inr s, sv2) \<Rightarrow> set_row ended tid (result_columns (ended - started) s) sv2
                   | (Inl text, sv2) \<Rightarrow>
                       set_row ended tid
                         (\<lambda>u. u\<lparr>tk_status := StFailed, tk_error := text,
                               tk_duration := of_int (round_half_even ((ended - started) * 100)) / 100\<rparr>) sv2)))"

text \<open>A run that is cancelled from outside, as at a shutdown that does not wait any longer.\<close>

definition interrupted_error :: pystr where
  "interrupted_error = [25191, 34892, 34987, 24378, 21046, 20013, 26029]"

definition execute_interrupted :: "seconds \<Rightarrow> pystr \<Rightarrow> 'w service \<Rightarrow> 'w service" where
  "execute_interrupted now tid sv =
     set_row now tid (\<lambda>u. u\<lparr>tk_status := StCanceled, tk_error := interrupted_error\<rparr>) sv"

text \<open>
  The bookkeeping of \<open>LocalTaskQueue\<close>: the waiting ids, the registered handle of each id, and
  the coroutines that have not ended (a handle number, its task and how it was started).
\<close>

record job =
  jb_handle :: nat
  jb_task :: pystr
  jb_resume :: bool
  jb_value :: "bool option"

record local_queue =
  lq_queue :: "pystr list"
  lq_running :: "nat dict"
  lq_live :: "job list"
  lq_traces :: "pystr option dict"
  lq_next :: nat

definition spawn :: "pystr \<Rightarrow> bool \<Rightarrow> bool option \<Rightarrow> local_queue \<Rightarrow> local_queue" where
  "spawn tid resume resume_value q =
     (if (\<exists>j \<in> set (lq_live q). dict_get (lq_running q) tid = Some (jb_handle j))
      then q\<lparr>lq_traces := dict_pop tid (lq_traces q)\<rparr>
      else q\<lparr>lq_running := dict_set tid (lq_next q) (lq_running q),
             lq_live := lq_live q @ [\<lparr>jb_handle = lq_next q, jb_task = tid, jb_resume = resume, jb_value = resume_value\<rparr>],
             lq_next := lq_next q + 1\<rparr>)"

text \<open>A coroutine that starts to run takes the trace of its task along.\<close>

definition job_begin :: "job \<Rightarrow> local_queue \<Rightarrow> pystr option \<times> local_queue" where
  "job_begin j q = (Option.bind (dict_get (lq_traces q) (jb_task j)) id, q\<lparr>lq_traces := dict_pop (jb_task j) (lq_traces q)\<rparr>)"

text \<open>The end of a coroutine, with its callback.\<close>

definition job_done :: "job \<Rightarrow> local_queue \<Rightarrow> local_queue" where
  "job_done j q =
     q\<lparr>lq_live := filter (\<lambda>k. jb_handle k \<noteq> jb_handle j) (lq_live q),
       lq_running := (if dict_get (lq_running q) (jb_task j) = Some (jb_handle j)
                      then dict_pop (jb_task j) (lq_running q) else lq_running q)\<rparr>"

definition queue_submit :: "seconds \<Rightarrow> pystr \<Rightarrow> pystr option \<Rightarrow> database \<Rightarrow> local_queue \<Rightarrow> database \<times> local_queue" where
  "queue_submit now tid traceparent db q =
     (snd (update_task now tid (\<lambda>u. u\<lparr>tk_status := StQueued\<rparr>) db),
      q\<lparr>lq_traces := dict_set tid traceparent (lq_traces q), lq_queue := lq_queue q @ [tid]\<rparr>)"

definition submit_resume :: "pystr \<Rightarrow> bool option \<Rightarrow> local_queue \<Rightarrow> local_queue" where
  "submit_resume tid resume_value q = spawn tid True resume_value q"

definition consume :: "local_queue \<Rightarrow> local_queue" where
  "consume q = (case lq_queue q of [] \<Rightarrow> q | tid # rest \<Rightarrow> spawn tid False None (q\<lparr>lq_queue := rest\<rparr>))"

definition queue_cancel :: "pystr \<Rightarrow> engine option \<Rightarrow> local_queue \<Rightarrow> bool \<times> engine option" where
  "queue_cancel tid eng q =
     (case eng of
        Some e \<Rightarrow> if dict_get (lq_running q) tid \<noteq> None then (True, Some (cancel tid e)) else (False, eng)
      | None \<Rightarrow> (False, None))"

definition queue_start :: "bool \<Rightarrow> seconds \<Rightarrow> pystr \<Rightarrow> database \<Rightarrow> database" where
  "queue_start local_mode now error db =
     (if local_mode then snd (fail_interrupted_tasks now error active_statuses db) else db)"

section \<open>The Celery worker\<close>

text \<open>
  A fresh engine for every task: it shares the checkpoints, and counts events and cancellations
  anew. The arguments of the message, not the row, give the goal and the limits; only the
  approval flag is read from the row, and a missing row reads as no approval.
\<close>

definition stale_max_age :: "int \<Rightarrow> seconds" where
  "stale_max_age time_limit = of_int (time_limit * 2 + 60)"

definition celery_execute :: "'w runner \<Rightarrow> pystr \<Rightarrow> int \<Rightarrow> seconds \<Rightarrow> seconds \<Rightarrow> pystr \<Rightarrow> pystr \<Rightarrow> agent_mode \<Rightarrow> int \<Rightarrow> int
     \<Rightarrow> bool \<Rightarrow> bool option \<Rightarrow> pystr \<Rightarrow> engine \<Rightarrow> 'w service \<Rightarrow> 'w service" where
  "celery_execute R trace time_limit started ended stale_error goal mode max_tokens max_steps resume resume_value tid saver sv =
     (let db1 = snd (fail_stale_active_tasks started (stale_max_age time_limit) stale_error [StRunning, StResuming] (sv_db sv));
          eng = saver\<lparr>eg_canceled := {}, eg_seqs := []\<rparr>;
          sv1 = set_row started tid (\<lambda>u. u\<lparr>tk_status := StRunning\<rparr>) (sv\<lparr>sv_db := db1\<rparr>);
          approval = (case get_task_row tid None (sv_db sv1) of None \<Rightarrow> False | Some t \<Rightarrow> tk_require_approval t)
      in case (if resume then engine_resume_task R trace started tid resume_value eng sv1
               else run_engine R trace started tid
                      (run_task (rn_env R) (get_max_event_seq tid (sv_db sv1)) tid goal mode max_tokens max_steps approval
                         eng (sv_world sv1)) sv1) of
           (Inr s, sv2) \<Rightarrow> set_row ended tid (result_columns (ended - started) s) sv2
         | (Inl text, sv2) \<Rightarrow> set_row ended tid (\<lambda>u. u\<lparr>tk_status := StFailed, tk_error := text\<rparr>) sv2)"

section \<open>Events reach the database\<close>

lemma insort_key_append: "(\<forall>y \<in> set ys. f x \<le> f y) \<Longrightarrow> insort_key f x (zs @ ys) = insort_key f x zs @ ys"
  by (induction zs) (cases ys; auto)+

lemma sort_key_append:
  assumes "sorted (map f ys)" and "\<forall>x \<in> set xs. \<forall>y \<in> set ys. f x \<le> f y"
  shows "sort_key f (xs @ ys) = sort_key f xs @ ys"
  using assms by (induction xs) (simp_all add: sort_key_id_if_sorted insort_key_append)

lemma fold_max_ge: "(\<forall>x \<in> set xs. x \<le> fold max xs (n::nat)) \<and> n \<le> fold max xs n"
  by (induction xs arbitrary: n) (auto, (metis max.bounded_iff)+)

lemma max_event_seq_ge:
  assumes "r \<in> set (db_events db)" and "er_task r = tid"
  shows "er_seq r \<le> get_max_event_seq tid db"
proof -
  have mem: "er_seq r \<in> set (map er_seq (filter (\<lambda>r. er_task r = tid) (db_events db)))" using assms by auto
  show ?thesis
  proof (cases "map er_seq (filter (\<lambda>r. er_task r = tid) (db_events db))")
    case (Cons n ns)
    then have "er_seq r = n \<or> er_seq r \<in> set ns" using mem by auto
    then show ?thesis using Cons fold_max_ge [of ns n] by (auto simp: get_max_event_seq_def)
  qed (use mem in simp)
qed

lemma sink_events_append:
  assumes "distinct (map (\<lambda>e. (ev_task e, ev_seq e)) es)"
    and "\<forall>e \<in> set es. \<forall>r \<in> set (db_events db). \<not> (er_task r = ev_task e \<and> er_seq r = ev_seq e)"
  shows "sink_events now es db = Inr (db\<lparr>db_events := db_events db @ map (event_to_row now) es\<rparr>)"
  using assms
proof (induction es arbitrary: db)
  case (Cons e es)
  have "append_event now e db = Inr (db\<lparr>db_events := db_events db @ [event_to_row now e]\<rparr>)"
    using Cons.prems(2) by (auto simp: append_event_def)
  moreover have "sink_events now es (db\<lparr>db_events := db_events db @ [event_to_row now e]\<rparr>)
      = Inr (db\<lparr>db_events := (db_events db @ [event_to_row now e]) @ map (event_to_row now) es\<rparr>)"
    by (subst Cons.IH) (use Cons.prems in \<open>fastforce+\<close>)
  ultimately show ?case by simp
qed simp

lemma sink_events_tasks: "sink_events now es db = Inr db' \<Longrightarrow> db_tasks db' = db_tasks db"
  by (induction es arbitrary: db) (auto simp: append_event_def split: sum.splits if_splits)

lemma event_dicts_rows:
  "\<forall>e \<in> set es. wf_json (ev_payload e) \<Longrightarrow> event_dicts err (map (event_to_row now) es) = Inr (map (\<lambda>e. e\<lparr>ev_ts := now\<rparr>) es)"
  by (induction es) (auto simp: event_dict_row)

lemma event_dicts_append:
  "event_dicts err xs = Inr us \<Longrightarrow> event_dicts err ys = Inr vs \<Longrightarrow> event_dicts err (xs @ ys) = Inr (us @ vs)"
  by (induction xs arbitrary: us) (auto split: sum.splits simp: map_sum_Inr_iff)

lemma number_events_simps:
  "map snd (number_events b evs) = evs" "map fst (number_events b evs) = [Suc b..<Suc b + length evs]"
  "length (number_events b evs) = length evs"
  by (simp_all add: number_events_def del: upt_Suc)

lemma engine_execute_numbers:
  assumes "engine_execute E stored tid ms dec node s eng W = (r, evs, eng', W')" and "en_journal E"
  obtains b where "stored \<le> b" and "map fst evs = [Suc b..<Suc b + length evs]"
proof -
  let ?eng = "seed_seq (en_journal E) stored tid eng"
  have "stored \<le> seq_of ?eng tid" using assms(2) by (auto simp: seed_seq_def seq_of_def)
  moreover have "\<exists>new. evs = number_events (seq_of ?eng tid) new"
    using assms(1) by (auto simp: engine_execute_def Let_def split: prod.splits run_end.splits)
  ultimately show thesis using that number_events_simps by metis
qed

text \<open>
  C14. The event stream loses and repeats nothing: the events of a run, a first one or one resumed
  after a crash by another process, are all stored without a collision, in order and with
  consecutive numbers above those already stored, and a subscriber that polls from any earlier
  number reads what it would have read before followed by exactly these events.
\<close>

theorem event_stream_complete:
  assumes "db_ok db" and "en_journal E" and "\<forall>e. wf_json (snd (render e))"
    and "engine_execute E (get_max_event_seq tid db) tid ms dec node s eng W = (r, evs, eng', W')"
    and "new = map (event_of render tid trace now) evs"
  shows "\<exists>db'. sink_events now new db = Inr db'
     \<and> (\<exists>b \<ge> get_max_event_seq tid db. map ev_seq new = [Suc b..<Suc b + length evs])
     \<and> (\<forall>n old. n \<le> int (get_max_event_seq tid db) \<longrightarrow> get_events err tid n db = Inr old
           \<longrightarrow> get_events err tid n db' = Inr (old @ new))
     \<and> (\<forall>tid' n. tid' \<noteq> tid \<longrightarrow> get_events err tid' n db' = get_events err tid' n db)"
proof -
  obtain b where b: "get_max_event_seq tid db \<le> b" and nums: "map fst evs = [Suc b..<Suc b + length evs]"
    using engine_execute_numbers [OF assms(4,2)] by blast
  have seqs: "map ev_seq new = [Suc b..<Suc b + length evs]" using nums by (simp add: assms(5) event_of_def o_def)
  have tasks: "\<forall>e \<in> set new. ev_task e = tid" "\<forall>e \<in> set new. wf_json (ev_payload e)" "\<forall>e \<in> set new. e\<lparr>ev_ts := now\<rparr> = e"
    using assms(3) by (auto simp: assms(5) event_of_def)
  have high: "b < ev_seq e" if "e \<in> set new" for e
  proof -
    have "ev_seq e \<in> set (map ev_seq new)" using that by simp
    then show ?thesis unfolding seqs by (simp del: upt_Suc)
  qed
  have fresh: "\<not> (er_task r = ev_task e \<and> er_seq r = ev_seq e)" if "e \<in> set new" "r \<in> set (db_events db)" for e r
    using max_event_seq_ge [OF that(2)] high [OF that(1)] b tasks(1) that(1) by fastforce
  have "distinct (map ev_seq new)" unfolding seqs by (simp del: upt_Suc)
  then have "distinct (map (\<lambda>e. (ev_task e, ev_seq e)) new)" by (auto simp: distinct_map inj_on_def)
  then have sunk: "sink_events now new db = Inr (db\<lparr>db_events := db_events db @ map (event_to_row now) new\<rparr>)"
    using fresh by (intro sink_events_append) auto
  let ?db = "db\<lparr>db_events := db_events db @ map (event_to_row now) new\<rparr>"
  have mine: "get_events err tid n ?db = Inr (old @ new)"
    if n: "n \<le> int (get_max_event_seq tid db)" and old: "get_events err tid n db = Inr old" for n old
  proof -
    let ?old = "filter (\<lambda>r. er_task r = tid \<and> n < int (er_seq r)) (db_events db)"
    have "filter (\<lambda>r. er_task r = tid \<and> n < int (er_seq r)) (map (event_to_row now) new) = map (event_to_row now) new"
      using tasks(1) high b n by (auto simp: filter_id_conv) (metis (no_types) high less_le_not_le of_nat_less_iff order_le_less_trans order_trans of_nat_le_iff)
    then have "get_events err tid n ?db = event_dicts err (sort_key er_seq (?old @ map (event_to_row now) new))"
      by (simp add: get_events_def)
    also have "sort_key er_seq (?old @ map (event_to_row now) new) = sort_key er_seq ?old @ map (event_to_row now) new"
    proof (rule sort_key_append)
      have "map er_seq (map (event_to_row now) new) = map ev_seq new" by simp
      then show "sorted (map er_seq (map (event_to_row now) new))" unfolding seqs by (simp del: upt_Suc)
      show "\<forall>x \<in> set ?old. \<forall>y \<in> set (map (event_to_row now) new). er_seq x \<le> er_seq y"
        using max_event_seq_ge high b by (force dest: less_imp_le)
    qed
    also have "event_dicts err \<dots> = Inr (old @ new)"
    proof (rule event_dicts_append)
      show "event_dicts err (sort_key er_seq ?old) = Inr old" using old by (simp add: get_events_def)
      show "event_dicts err (map (event_to_row now) new) = Inr new"
        using event_dicts_rows [OF tasks(2)] tasks(3) by (simp add: map_idI)
    qed
    finally show ?thesis .
  qed
  have others: "get_events err tid' n ?db = get_events err tid' n db" if "tid' \<noteq> tid" for tid' n
    using that tasks(1) by (simp add: get_events_def filter_empty_conv)
  show ?thesis using sunk mine others seqs b by (intro exI [of _ ?db]) blast
qed

definition demo_saver :: engine where
  "demo_saver = \<lparr>eg_saver = True, eg_checkpoints = [], eg_canceled = {}, eg_seqs = []\<rparr>"

theorem event_stream_complete_witness:
  "\<exists>db'. sink_events 0 (map (event_of (\<lambda>_. ([], JNull)) (ascii ''t'') [] 0)
     (fst (snd (engine_execute demo_env 0 (ascii ''t'') 5 None ReactStep demo_state demo_saver demo_world)))) empty_db = Inr db'"
proof -
  obtain r evs eng' W' where run:
    "engine_execute demo_env 0 (ascii ''t'') 5 None ReactStep demo_state demo_saver demo_world = (r, evs, eng', W')"
    by (metis prod.exhaust)
  have "get_max_event_seq (ascii ''t'') empty_db = 0" by (simp add: get_max_event_seq_def empty_db_def)
  then have "\<exists>db'. sink_events 0 (map (event_of (\<lambda>_. ([], JNull)) (ascii ''t'') [] 0) evs) empty_db = Inr db'"
    using event_stream_complete [OF empty_db_ok _ _ _ refl, of demo_env "\<lambda>_. ([], JNull)" "ascii ''t''" 5 None ReactStep
        demo_state demo_saver demo_world r evs eng' W' 0 "[]"] run
    by (simp add: demo_env_def del: upt_Suc) blast
  then show ?thesis by (simp add: run)
qed

section \<open>One execution per task\<close>

inductive queue_run :: "local_queue \<Rightarrow> bool" where
  start: "queue_run \<lparr>lq_queue = [], lq_running = [], lq_live = [], lq_traces = [], lq_next = 0\<rparr>"
| submitted: "queue_run q \<Longrightarrow> queue_run (snd (queue_submit now tid tp db q))"
| resumed: "queue_run q \<Longrightarrow> queue_run (submit_resume tid v q)"
| consumed: "queue_run q \<Longrightarrow> queue_run (consume q)"
| begun: "\<lbrakk>queue_run q; j \<in> set (lq_live q)\<rbrakk> \<Longrightarrow> queue_run (snd (job_begin j q))"
| ended: "\<lbrakk>queue_run q; j \<in> set (lq_live q)\<rbrakk> \<Longrightarrow> queue_run (job_done j q)"

text \<open>Handles are used once, and the registered handles are those of the live coroutines.\<close>

definition queue_inv :: "local_queue \<Rightarrow> bool" where
  "queue_inv q \<longleftrightarrow> distinct (map jb_handle (lq_live q)) \<and> (\<forall>j \<in> set (lq_live q). jb_handle j < lq_next q)
     \<and> (\<forall>j \<in> set (lq_live q). dict_get (lq_running q) (jb_task j) = Some (jb_handle j))
     \<and> (\<forall>tid h. dict_get (lq_running q) tid = Some h \<longrightarrow> (\<exists>j \<in> set (lq_live q). jb_task j = tid \<and> jb_handle j = h))"

lemma live_registered:
  assumes "queue_inv q"
  shows "distinct (map jb_task (lq_live q))" and "dict_get (lq_running q) tid \<noteq> None \<longleftrightarrow> tid \<in> jb_task ` set (lq_live q)"
proof -
  have reg: "dict_get (lq_running q) (jb_task j) = Some (jb_handle j)" if "j \<in> set (lq_live q)" for j
    using assms that by (simp add: queue_inv_def)
  have "inj_on jb_task (set (lq_live q))"
  proof (rule inj_onI)
    fix j k assume "j \<in> set (lq_live q)" "k \<in> set (lq_live q)" "jb_task j = jb_task k"
    moreover from this have "jb_handle j = jb_handle k" using reg [of j] reg [of k] by simp
    ultimately show "j = k" using assms by (auto simp: queue_inv_def distinct_map inj_on_def)
  qed
  then show "distinct (map jb_task (lq_live q))" using assms by (simp add: queue_inv_def distinct_map)
  show "dict_get (lq_running q) tid \<noteq> None \<longleftrightarrow> tid \<in> jb_task ` set (lq_live q)"
    using assms reg by (fastforce simp: queue_inv_def)
qed

lemma queue_inv_spawn:
  assumes "queue_inv q"
  shows "queue_inv (spawn tid r v q)"
proof (cases "tid \<in> jb_task ` set (lq_live q)")
  case True
  then have "\<exists>j \<in> set (lq_live q). dict_get (lq_running q) tid = Some (jb_handle j)"
    using assms by (auto simp: queue_inv_def)
  then show ?thesis using assms by (simp add: spawn_def queue_inv_def)
next
  case False
  then have none: "dict_get (lq_running q) tid = None" using live_registered(2) [OF assms, of tid] by blast
  have "jb_task j \<noteq> tid" if "j \<in> set (lq_live q)" for j using False that by auto
  then show ?thesis using assms none by (fastforce simp: spawn_def queue_inv_def)
qed

lemma queue_inv_done:
  assumes "queue_inv q" and "j \<in> set (lq_live q)"
  shows "queue_inv (job_done j q)"
proof -
  have reg: "dict_get (lq_running q) (jb_task j) = Some (jb_handle j)" using assms by (simp add: queue_inv_def)
  have same: "k = j" if "k \<in> set (lq_live q)" "jb_task k = jb_task j \<or> jb_handle k = jb_handle j" for k
    using that assms live_registered(1) [OF assms(1)] by (auto simp: queue_inv_def distinct_map inj_on_def)
  show ?thesis
    using assms reg same by (fastforce simp: job_done_def queue_inv_def distinct_map_filter_key)
qed

lemma queue_run_inv: "queue_run q \<Longrightarrow> queue_inv q"
proof (induction rule: queue_run.induct)
  case start
  then show ?case by (simp add: queue_inv_def)
next
  case (submitted q now tid tp db)
  then show ?case by (simp add: queue_submit_def queue_inv_def)
next
  case (resumed q tid v)
  then show ?case by (simp add: submit_resume_def queue_inv_spawn)
next
  case (consumed q)
  have "queue_inv (q\<lparr>lq_queue := rest\<rparr>)" for rest using consumed by (simp add: queue_inv_def)
  then show ?case using consumed by (simp add: consume_def queue_inv_spawn split: list.splits)
next
  case (begun q j)
  then show ?case by (simp add: job_begin_def queue_inv_def)
next
  case (ended q j)
  then show ?case by (simp add: queue_inv_done)
qed



section \<open>Runs settle\<close>

text \<open>The checkpoint of a task that is at its end holds a settled state.\<close>

definition settled :: "task_status \<Rightarrow> bool" where
  "settled st \<longleftrightarrow> st \<notin> set active_statuses"

definition engine_ok :: "engine \<Rightarrow> bool" where
  "engine_ok eng \<longleftrightarrow> eg_saver eng \<and>
     (\<forall>tid cp. dict_get (eg_checkpoints eng) tid = Some cp \<longrightarrow> cp_next cp = None \<longrightarrow> settled (as_status (cp_values cp)))"

lemma finisher_settles: "finisher_node E s W = (Inr s', W') \<Longrightarrow> settled (as_status s')"
  by (auto simp: finisher_node_def settled_def active_statuses_def split: task_status.splits if_splits prod.splits sum.splits)

lemma run_graph_settles:
  "run_graph n E decision node s W = (e, cp, W') \<Longrightarrow> cp_next cp = None
     \<Longrightarrow> e = Finished \<and> settled (as_status (cp_values cp))"
proof (induction n arbitrary: decision node s W)
  case (Suc n)
  obtain x W1 where st: "node_step E decision node s W = (x, W1)" by fastforce
  show ?case
  proof (cases "\<exists>s1. x = Inr (Some s1) \<and> next_node node s1 = None")
    case True
    then obtain s1 where x: "x = Inr (Some s1)" and fin: "node = Finisher" by (cases node) (auto simp: next_node_def)
    then have "finisher_node E s W = (Inr s1, W1)"
      using st by (simp add: node_step_def lift_node_Some del: map_prod_simp)
    then show ?thesis using finisher_settles Suc.prems(1) st x fin by (auto simp: next_node_def)
  next
    case False
    then show ?thesis using Suc st by (auto split: sum.splits option.splits)
  qed
qed auto

lemma engine_execute_settles:
  assumes "engine_execute E stored tid ms dec node s eng W = (r, evs, eng', W')" and "engine_ok eng"
  shows "engine_ok eng'" and "r = Inr s' \<Longrightarrow> settled (as_status s')"
proof -
  obtain e cp W1 where rg: "run_graph (recursion_limit (en_settings E) ms) E dec node s W = (e, cp, W1)"
    using prod_cases3 by blast
  let ?eng = "seed_seq (en_journal E) stored tid eng"
  have seed: "eg_saver ?eng = eg_saver eng" "eg_checkpoints ?eng = eg_checkpoints eng" by (simp_all add: seed_seq_def)
  have sv: "eg_saver eng" using assms(2) by (simp add: engine_ok_def)
  have r: "r = (case e of Finished \<Rightarrow> Inr (run_status True cp) | Suspended \<Rightarrow> Inr (run_status True cp) | _ \<Rightarrow> Inl e)"
    and eng': "eg_saver eng' = True" "eg_checkpoints eng' = dict_set tid cp (eg_checkpoints eng)"
    using assms(1) rg seed sv by (cases e; auto simp: engine_execute_def Let_def)+
  show "engine_ok eng'" using assms(2) eng' run_graph_settles [OF rg] by (simp add: engine_ok_def)
  assume "r = Inr s'"
  then have "s' = run_status True cp" using r by (cases e) auto
  then show "settled (as_status s')"
    using run_graph_settles [OF rg] by (cases "cp_next cp") (simp_all add: run_status_def settled_def active_statuses_def)
qed

lemma run_engine_settles:
  assumes "run_engine R trace now tid (engine_execute E stored tid ms dec node s eng W) sv = (x, sv')" and "engine_ok eng"
  shows "db_tasks (sv_db sv') = db_tasks (sv_db sv)" and "\<exists>eng'. sv_engine sv' = Some eng' \<and> engine_ok eng'"
    and "x = Inr s' \<Longrightarrow> settled (as_status s')"
proof -
  obtain r evs eng' W' where ex: "engine_execute E stored tid ms dec node s eng W = (r, evs, eng', W')" by (metis prod.exhaust)
  note ok = engine_execute_settles [OF ex assms(2)]
  show "db_tasks (sv_db sv') = db_tasks (sv_db sv)"
    using assms(1) sink_events_tasks by (auto simp: run_engine_def ex split: sum.splits)
  show "\<exists>eng'. sv_engine sv' = Some eng' \<and> engine_ok eng'"
    using assms(1) ok(1) by (auto simp: run_engine_def ex split: sum.splits)
  show "x = Inr s' \<Longrightarrow> settled (as_status s')"
    using assms(1) ok(2) by (auto simp: run_engine_def ex split: sum.splits)
qed

lemma resume_cases:
  assumes "engine_resume_task R trace now tid v eng sv = (x, sv')"
  obtains "sv' = sv" and "\<exists>text. x = Inl text"
  | cp where "sv' = sv" and "dict_get (eg_checkpoints eng) tid = Some cp" and "cp_next cp = None" and "x = Inr (cp_values cp)"
  | E stored ms dec node s W where "run_engine R trace now tid (engine_execute E stored tid ms dec node s eng W) sv = (x, sv')"
  using assms
  by (auto simp: engine_resume_task_def resume_task_def split: option.splits if_splits)

lemma resume_settles:
  assumes res: "engine_resume_task R trace now tid v eng sv = (x, sv')" and "engine_ok eng" and "sv_engine sv = Some eng"
  shows "db_tasks (sv_db sv') = db_tasks (sv_db sv) \<and> (\<exists>eng'. sv_engine sv' = Some eng' \<and> engine_ok eng')
     \<and> (\<forall>s'. x = Inr s' \<longrightarrow> settled (as_status s'))"
  using res
proof (cases rule: resume_cases)
  case 1
  then show ?thesis using assms(2,3) by auto
next
  case (2 cp)
  then show ?thesis using assms(2,3) by (simp add: engine_ok_def)
next
  case (3 E stored ms dec node s W)
  then show ?thesis using run_engine_settles [OF 3 assms(2)] by simp
qed

lemma get_after_set_row:
  assumes "get_task_row tid None (sv_db sv) = Some t" and "\<And>u. tk_id (upd u) = tk_id u"
  shows "get_task_row tid None (sv_db (set_row now tid upd sv)) = Some ((upd t)\<lparr>tk_updated_at := now\<rparr>)"
  using assms
  by (simp add: set_row_def update_task_def get_task_row_def Let_def)
     (subst find_map_same; simp)


lemma get_task_row_cong: "db_tasks db = db_tasks db' \<Longrightarrow> get_task_row tid n db = get_task_row tid n db'"
  by (simp add: get_task_row_def)


definition demo_runner :: "nat runner" where
  "demo_runner = \<lparr>rn_env = demo_env, rn_render = (\<lambda>_. ([], JNull)), rn_error = (\<lambda>_. ascii ''run''),
     rn_resume_error = (\<lambda>_. ascii ''resume''), rn_sink_error = ascii ''sink''\<rparr>"

definition demo_service :: "nat service" where
  "demo_service = \<lparr>sv_db = demo_db, sv_engine = Some demo_saver, sv_world = demo_world\<rparr>"


section \<open>Deleted tasks\<close>

lemma missing_row_kept:
  assumes "get_task_row tid None db = None"
  shows "update_task now tid upd db = (None, db)"
    and "get_task_row tid None (snd (fail_stale_active_tasks now age error sts db)) = None"
  using assms
  by (simp_all add: update_task_def) (auto simp: get_task_row_def fail_stale_active_tasks_def fail_row_def find_None_iff)

text \<open>
  A task that is deleted while its message is still with the broker: the local queue
  does nothing for it, but the Celery worker runs it in full, without the approval it may have
  required, since a missing row reads as a row without that flag.
\<close>

theorem celery_runs_deleted_task:
  assumes "get_task_row tid None (sv_db sv) = None"
  shows "execute_task R trace started ended False None tid sv = sv
     \<and> sv_world (celery_execute R trace limit_s started ended stale goal mode max_tokens max_steps False None tid saver sv)
       = (case run_task (rn_env R) (get_max_event_seq tid (sv_db sv)) tid goal mode max_tokens max_steps False
                 (saver\<lparr>eg_canceled := {}, eg_seqs := []\<rparr>) (sv_world sv) of (_, _, _, W) \<Rightarrow> W)"
proof -
  let ?db = "snd (fail_stale_active_tasks started (stale_max_age limit_s) stale [StRunning, StResuming] (sv_db sv))"
  have none: "get_task_row tid None ?db = None" using missing_row_kept(2) [OF assms] .
  have ev: "get_max_event_seq tid ?db = get_max_event_seq tid (sv_db sv)"
    by (simp add: fail_stale_active_tasks_def get_max_event_seq_def Let_def)
  show ?thesis
    by (simp add: assms execute_task_def celery_execute_def Let_def set_row_def missing_row_kept(1) [OF none] none ev
        run_engine_def split: prod.splits sum.splits)
qed

theorem celery_runs_deleted_task_witness:
  "sv_world (celery_execute demo_runner [] 600 0 1 [] (ascii ''g'') ReactMode 100 5 False None (ascii ''gone'') demo_saver demo_service)
     = (case run_task demo_env (get_max_event_seq (ascii ''gone'') demo_db) (ascii ''gone'') (ascii ''g'') ReactMode 100 5 False
          demo_saver demo_world of (_, _, _, W) \<Rightarrow> W)"
  using celery_runs_deleted_task [of "ascii ''gone''" demo_service demo_runner "[]" 0 1 600 "[]" "ascii ''g''" ReactMode 100 5 demo_saver]
  by (simp add: demo_service_def demo_db_def demo_runner_def demo_saver_def get_task_row_def create_task_def empty_db_def
      Let_def ascii_def)

end
