(* ===== verification/Rate_Limit.thy ===== *)
theory Rate_Limit
  imports Repository "HOL-Library.Multiset"
begin

text \<open>
  Rate limiting (\<^verbatim>\<open>app/api/ratelimit.py\<close>): the sliding window in memory, the fixed window in
  the database, the interface they share, the middleware per client address, the gate for
  concurrent streams, and the boundaries of the day. Clocks are arguments.
\<close>

section \<open>Requests and errors\<close>

text \<open>
  What the API reads of a request; header names are in lower case, a missing header reads as
  the empty text. An error response is its status and the seconds of \<open>Retry-After\<close>.
\<close>

record request =
  rq_http :: bool
  rq_method :: pystr
  rq_path :: pystr
  rq_client :: "pystr option"
  rq_headers :: "pystr dict"
  rq_query :: "pystr dict"

record http_error =
  he_status :: nat
  he_retry :: "int option"

definition http_exception :: "nat \<Rightarrow> http_error" where
  "http_exception n = \<lparr>he_status = n, he_retry = None\<rparr>"

definition rejected :: "int \<Rightarrow> http_error" where
  "rejected retry_after = \<lparr>he_status = 429, he_retry = Some retry_after\<rparr>"

text \<open>\<open>int\<close> of a float truncates towards zero.\<close>

definition trunc_int :: "real \<Rightarrow> int" where
  "trunc_int x = (if 0 \<le> x then \<lfloor>x\<rfloor> else \<lceil>x\<rceil>)"

section \<open>Sliding window\<close>

definition max_keys :: nat where
  "max_keys = 8192"

type_synonym sliding = "seconds list dict"

definition hits_of :: "sliding \<Rightarrow> pystr \<Rightarrow> seconds list" where
  "hits_of st key = (case dict_get st key of None \<Rightarrow> [] | Some dq \<Rightarrow> dq)"

definition prune_hits :: "seconds \<Rightarrow> seconds \<Rightarrow> sliding \<Rightarrow> sliding" where
  "prune_hits now window_s st = filter (\<lambda>(k, dq). \<not> (dq = [] \<or> last dq \<le> now - window_s)) st"

definition sliding_allow :: "seconds \<Rightarrow> pystr \<Rightarrow> int \<Rightarrow> seconds \<Rightarrow> sliding \<Rightarrow> (bool \<times> int) \<times> sliding" where
  "sliding_allow now key limit window_s st =
     (if limit \<le> 0 then ((True, 0), st)
      else
        (let dq = dropWhile (\<lambda>t. t \<le> now - window_s) (hits_of st key)
         in if limit \<le> int (length dq)
            then ((False, max 1 (trunc_int (window_s - (now - hd dq)) + 1)), dict_set key dq st)
            else
              (let st1 = dict_set key (dq @ [now]) st
               in ((True, 0), if max_keys < length st1 then prune_hits now window_s st1 else st1))))"

section \<open>Fixed window in the database\<close>

text \<open>\<open>up\<close> says whether the write succeeds; when it fails the request is let through.\<close>

definition window_start :: "seconds \<Rightarrow> seconds \<Rightarrow> seconds" where
  "window_start now window_s = of_int \<lfloor>now / window_s\<rfloor> * window_s"

definition db_allow :: "bool \<Rightarrow> seconds \<Rightarrow> pystr \<Rightarrow> int \<Rightarrow> seconds \<Rightarrow> database \<Rightarrow> (bool \<times> int) \<times> database" where
  "db_allow up now key limit window_s db =
     (if limit \<le> 0 then ((True, 0), db)
      else if \<not> up then ((True, 0), db)
      else
        (let ws = window_start now window_s
         in case rate_limit_hit now key ws db of
              (hits, db1) \<Rightarrow>
                (if hits \<le> limit then ((True, 0), db1)
                 else ((False, max 1 (trunc_int (ws + window_s - now) + 1)), db1))))"

section \<open>The interface\<close>

text \<open>
  The use that the callers make of a limiter \<open>allow\<close>: refuse with status 429, or go on. The
  window is one minute.
\<close>

definition rate_guard :: "(seconds \<Rightarrow> pystr \<Rightarrow> int \<Rightarrow> seconds \<Rightarrow> 's \<Rightarrow> (bool \<times> int) \<times> 's)
     \<Rightarrow> seconds \<Rightarrow> pystr \<Rightarrow> int \<Rightarrow> 's \<Rightarrow> (http_error + unit) \<times> 's" where
  "rate_guard allow now key limit s =
     (case allow now key limit 60 s of
        ((True, _), s') \<Rightarrow> (Inr (), s')
      | ((False, r), s') \<Rightarrow> (Inl (rejected r), s'))"

text \<open>
  What the callers of \<open>allow\<close> rely on: a limit of zero or less turns the layer off, a refusal
  comes with at least one second to wait, and a key that was never used is admitted; using one
  key does not use up another.
\<close>

locale rate_limiter =
  fixes allow :: "seconds \<Rightarrow> pystr \<Rightarrow> int \<Rightarrow> seconds \<Rightarrow> 's \<Rightarrow> (bool \<times> int) \<times> 's"
    and unused :: "'s \<Rightarrow> pystr \<Rightarrow> bool"
  assumes allow_off: "limit \<le> 0 \<Longrightarrow> allow now key limit w s = ((True, 0), s)"
    and allow_refused: "allow now key limit w s = ((False, r), s') \<Longrightarrow> 1 \<le> r"
    and allow_unused: "unused s key \<Longrightarrow> fst (allow now key limit w s) = (True, 0)"
    and unused_other: "\<lbrakk>unused s key; key' \<noteq> key\<rbrakk> \<Longrightarrow> unused (snd (allow now key' limit w s)) key"
begin

lemma guard_error:
  assumes "rate_guard allow now key limit s = (Inl e, s')"
  shows "he_status e = 429 \<and> 0 < limit \<and> (\<exists>r \<ge> 1. he_retry e = Some r)"
proof -
  obtain r where a: "allow now key limit 60 s = ((False, r), s')" "e = rejected r"
    using assms by (auto simp: rate_guard_def split: prod.splits bool.splits)
  then have "0 < limit" using allow_off [of limit now key 60 s] by (cases "limit \<le> 0") auto
  then show ?thesis using a allow_refused by (auto simp: rejected_def)
qed

lemma guard_unused: "unused s key \<Longrightarrow> fst (rate_guard allow now key limit s) = Inr ()"
  using allow_unused [of s key now limit 60] by (auto simp: rate_guard_def split: prod.splits)

text \<open>Requests on other keys never make the first request on a key fail.\<close>

lemma unused_after:
  assumes "unused s key" and "\<forall>(now, key', limit) \<in> set rs. key' \<noteq> key"
  shows "unused (fold (\<lambda>(now, key', limit) s. snd (rate_guard allow now key' limit s)) rs s) key"
  using assms
proof (induction rs arbitrary: s)
  case (Cons r rs)
  obtain now key' limit where r: "r = (now, key', limit)" by (cases r) auto
  have "snd (rate_guard allow now key' limit s) = snd (allow now key' limit 60 s)"
    by (auto simp: rate_guard_def split: prod.splits bool.splits)
  then have "unused (snd (rate_guard allow now key' limit s)) key" using unused_other Cons.prems r by auto
  then show ?case using Cons r by simp
qed simp

end

lemma dict_get_filter:
  assumes "distinct (map fst st)"
  shows "dict_get (filter (\<lambda>(k, v). P k v) st) key =
     (case dict_get st key of None \<Rightarrow> None | Some v \<Rightarrow> if P key v then Some v else None)"
  using assms
proof (induction st)
  case (Cons kv st)
  have "key \<notin> fst ` set st \<Longrightarrow> map_of (filter (\<lambda>(k, v). P k v) st) key = None"
    by (auto simp: map_of_eq_None_iff)
  then show ?case using Cons by (auto simp: dict_get_def split: option.splits)
qed (simp add: dict_get_def)

interpretation sw: rate_limiter sliding_allow "\<lambda>st key. dict_get st key = None"
proof (unfold_locales, goal_cases)
  case (2 now key limit w s r s')
  then show ?case by (auto simp: sliding_allow_def Let_def split: if_splits)
next
  case (4 s key key' now limit w)
  have "dict_get (filter P xs) key = None" if "dict_get xs key = None" for P and xs :: sliding
    using that by (auto simp: dict_get_def map_of_eq_None_iff)
  then show ?case using 4 by (auto simp: sliding_allow_def prune_hits_def Let_def)
qed (auto simp: sliding_allow_def hits_of_def Let_def)

interpretation dw: rate_limiter "db_allow up" "\<lambda>db key. \<forall>r \<in> set (db_windows db). rw_scope r \<noteq> key"
proof (unfold_locales, goal_cases)
  case (2 now key limit w s r s')
  then show ?case by (auto simp: db_allow_def Let_def split: if_splits prod.splits)
next
  case (3 s key now limit w)
  then have "find (\<lambda>r. rw_scope r = key \<and> rw_start r = x) (db_windows s) = None" for x
    by (auto simp: find_None_iff)
  then show ?case by (simp add: db_allow_def rate_limit_hit_def Let_def)
next
  case (4 s key key' now limit w)
  then show ?case
    by (auto simp: db_allow_def rate_limit_hit_def Let_def split: prod.splits option.splits if_splits)
qed (auto simp: db_allow_def)

section \<open>The middleware\<close>

definition read_methods :: "pystr list" where
  "read_methods = [ascii ''GET'', ascii ''HEAD'', ascii ''OPTIONS'']"

definition upper_char :: "nat \<Rightarrow> nat" where
  "upper_char c = (if 97 \<le> c \<and> c \<le> 122 then c - 32 else c)"

text \<open>\<open>PerIpRateLimitMiddleware\<close>: the refusal, or the request goes on to the application.\<close>

definition per_ip_middleware :: "(seconds \<Rightarrow> pystr \<Rightarrow> int \<Rightarrow> seconds \<Rightarrow> 's \<Rightarrow> (bool \<times> int) \<times> 's)
     \<Rightarrow> bool \<Rightarrow> int \<Rightarrow> seconds \<Rightarrow> request \<Rightarrow> 's \<Rightarrow> (http_error + unit) \<times> 's" where
  "per_ip_middleware allow read_exempt ip_limit now rq s =
     (if \<not> rq_http rq \<or> \<not> str_prefix (ascii ''/api'') (rq_path rq) then (Inr (), s)
      else if read_exempt \<and> map upper_char (rq_method rq) \<in> set read_methods then (Inr (), s)
      else rate_guard allow now
             (ascii ''ip:'' @ (case rq_client rq of None \<Rightarrow> ascii ''unknown'' | Some ip \<Rightarrow> ip)) ip_limit s)"

section \<open>Concurrent streams\<close>

record gate =
  g_per_tenant :: int
  g_total :: int
  g_counts :: "int dict"
  g_active :: int

definition gate_count :: "gate \<Rightarrow> pystr \<Rightarrow> int" where
  "gate_count g tenant_id = (case dict_get (g_counts g) tenant_id of None \<Rightarrow> 0 | Some n \<Rightarrow> n)"

definition try_acquire :: "pystr \<Rightarrow> gate \<Rightarrow> bool \<times> gate" where
  "try_acquire tenant_id g =
     (if 0 < g_total g \<and> g_total g \<le> g_active g then (False, g)
      else if 0 < g_per_tenant g \<and> g_per_tenant g \<le> gate_count g tenant_id then (False, g)
      else (True, g\<lparr>g_active := g_active g + 1,
                    g_counts := dict_set tenant_id (gate_count g tenant_id + 1) (g_counts g)\<rparr>))"

definition release :: "pystr \<Rightarrow> gate \<Rightarrow> gate" where
  "release tenant_id g =
     (let n = gate_count g tenant_id - 1
      in g\<lparr>g_active := max 0 (g_active g - 1),
           g_counts := (if n \<le> 0 then dict_pop tenant_id (g_counts g) else dict_set tenant_id n (g_counts g))\<rparr>)"

section \<open>Days\<close>

text \<open>\<open>offset\<close> is the offset of local time from UTC at the moment \<open>now\<close>.\<close>

definition day_start_epoch :: "seconds \<Rightarrow> seconds \<Rightarrow> seconds" where
  "day_start_epoch offset now = of_int \<lfloor>(now + offset) / 86400\<rfloor> * 86400 - offset"

definition seconds_until_midnight :: "seconds \<Rightarrow> seconds \<Rightarrow> int" where
  "seconds_until_midnight offset now = max 1 (trunc_int (day_start_epoch offset now + 86400 - now))"

lemma floor_window:
  fixes x w :: real
  assumes "0 < w"
  shows "of_int \<lfloor>x / w\<rfloor> * w \<le> x" and "x < of_int \<lfloor>x / w\<rfloor> * w + w"
proof -
  have "of_int \<lfloor>x / w\<rfloor> \<le> x / w" by simp
  then show "of_int \<lfloor>x / w\<rfloor> * w \<le> x" using assms by (simp only: pos_le_divide_eq)
  have "x / w < of_int \<lfloor>x / w\<rfloor> + 1" by linarith
  then show "x < of_int \<lfloor>x / w\<rfloor> * w + w" using assms by (simp add: pos_divide_less_eq algebra_simps)
qed

lemma day_start_bounds: "day_start_epoch offset now \<le> now" "now < day_start_epoch offset now + 86400"
  using floor_window [of 86400 "now + offset"] by (simp_all add: day_start_epoch_def)

lemma seconds_until_midnight_bounds: "1 \<le> seconds_until_midnight offset now" "seconds_until_midnight offset now \<le> 86400"
  using day_start_bounds [of offset now] by (auto simp: seconds_until_midnight_def trunc_int_def floor_le_iff)

section \<open>The sliding window is exact\<close>

text \<open>
  Admissions that are apart: one and the admission \<open>L\<close> places later are at least a window apart.
  This is what bounds the admissions in every window.
\<close>

definition spaced :: "nat \<Rightarrow> seconds \<Rightarrow> seconds list \<Rightarrow> bool" where
  "spaced L w adm \<longleftrightarrow> (\<forall>i. i + L < length adm \<longrightarrow> adm ! i + w \<le> adm ! (i + L))"

lemma spaced_count:
  assumes "sorted adm" and "spaced L w adm"
  shows "card {i. i < length adm \<and> t - w < adm ! i \<and> adm ! i \<le> t} \<le> L"
proof (cases "{i. i < length adm \<and> t - w < adm ! i \<and> adm ! i \<le> t} = {}")
  case False
  let ?S = "{i. i < length adm \<and> t - w < adm ! i \<and> adm ! i \<le> t}"
  define m where "m = Min ?S"
  have m: "m \<in> ?S" unfolding m_def by (rule Min_in [OF _ False]) simp
  have le: "m \<le> j" if "j \<in> ?S" for j unfolding m_def using that by (intro Min_le) simp_all
  have "?S \<subseteq> {m..<m + L}"
  proof
    fix j assume j: "j \<in> ?S"
    have "\<not> m + L \<le> j"
    proof
      assume far: "m + L \<le> j"
      then have "adm ! m + w \<le> adm ! (m + L)" "adm ! (m + L) \<le> adm ! j"
        using assms j by (auto simp: spaced_def intro: sorted_nth_mono)
      then show False using m j by simp
    qed
    then show "j \<in> {m..<m + L}" using le [OF j] by simp
  qed
  then show ?thesis using card_mono [of "{m..<m + L}" ?S] by simp
next
  case True
  then show ?thesis by (simp only: card.empty)
qed

lemma spaced_snoc:
  assumes "spaced L w adm" and "L \<le> length adm \<Longrightarrow> adm ! (length adm - L) + w \<le> x" and "0 < L"
  shows "spaced L w (adm @ [x])"
  unfolding spaced_def
proof (intro allI impI)
  fix i assume "i + L < length (adm @ [x])"
  then consider "i + L < length adm" | "i = length adm - L" "L \<le> length adm" by fastforce
  then show "(adm @ [x]) ! i + w \<le> (adm @ [x]) ! (i + L)"
    using assms by cases (auto simp: nth_append spaced_def)
qed

text \<open>A run of the limiter on a sequence of timed requests, and the times one key was admitted.\<close>

fun sliding_run :: "(pystr \<Rightarrow> int) \<Rightarrow> seconds \<Rightarrow> (seconds \<times> pystr) list \<Rightarrow> sliding \<Rightarrow> (seconds \<times> pystr) list" where
  "sliding_run limits w [] st = []"
| "sliding_run limits w ((now, key) # rs) st =
     (case sliding_allow now key (limits key) w st of
        ((ok, _), st1) \<Rightarrow> (if ok then [(now, key)] else []) @ sliding_run limits w rs st1)"

definition admitted :: "pystr \<Rightarrow> (seconds \<times> pystr) list \<Rightarrow> seconds list" where
  "admitted key xs = map fst (filter (\<lambda>x. snd x = key) xs)"

definition sliding_inv :: "int \<Rightarrow> seconds \<Rightarrow> pystr \<Rightarrow> seconds \<Rightarrow> seconds list \<Rightarrow> sliding \<Rightarrow> bool" where
  "sliding_inv L w key T adm st \<longleftrightarrow> distinct (map fst st) \<and> sorted adm \<and> (\<forall>x \<in> set adm. x \<le> T)
     \<and> spaced (nat L) w adm \<and> (\<exists>p. adm = p @ hits_of st key \<and> (\<forall>x \<in> set p. x \<le> T - w))"

lemma sliding_invI:
  assumes "distinct (map fst st)" "sorted adm" "\<forall>x \<in> set adm. x \<le> T" "spaced (nat L) w adm"
    and "adm = p @ hits_of st key" "\<forall>x \<in> set p. x \<le> T - w"
  shows "sliding_inv L w key T adm st"
  using assms unfolding sliding_inv_def by blast

lemma hits_of_set [simp]: "hits_of (dict_set k dq st) key = (if key = k then dq else hits_of st key)"
  by (simp add: hits_of_def)

lemma hits_of_prune:
  assumes "distinct (map fst st)"
  shows "hits_of (prune_hits now w st) key
     = (if hits_of st key = [] \<or> last (hits_of st key) \<le> now - w then [] else hits_of st key)"
  using dict_get_filter [OF assms, of "\<lambda>k dq. \<not> (dq = [] \<or> last dq \<le> now - w)" key]
  by (auto simp: hits_of_def prune_hits_def split: option.splits)

lemma distinct_prune: "distinct (map fst st) \<Longrightarrow> distinct (map fst (prune_hits now w st))"
  unfolding prune_hits_def by (rule distinct_map_filter_key)

lemma sliding_inv_prune:
  assumes "sliding_inv L w key T adm st"
  shows "sliding_inv L w key T adm (prune_hits T w st)"
proof -
  obtain p where p: "adm = p @ hits_of st key" "\<forall>x \<in> set p. x \<le> T - w"
    and st: "distinct (map fst st)" "sorted adm" "\<forall>x \<in> set adm. x \<le> T" "spaced (nat L) w adm"
    using assms by (auto simp: sliding_inv_def)
  have "\<forall>x \<in> set (hits_of st key). x \<le> T - w" if "last (hits_of st key) \<le> T - w"
  proof
    fix x assume x: "x \<in> set (hits_of st key)"
    then have "x \<le> last (hits_of st key)"
      using p(1) st(2) by (cases "hits_of st key" rule: rev_cases) (auto simp: sorted_append)
    then show "x \<le> T - w" using that by simp
  qed
  then have "\<exists>q. adm = q @ hits_of (prune_hits T w st) key \<and> (\<forall>x \<in> set q. x \<le> T - w)"
    using p by (auto simp: hits_of_prune [OF st(1)])
  then show ?thesis using st by (simp add: sliding_inv_def distinct_prune)
qed

lemma sliding_inv_step:
  assumes inv: "sliding_inv L w key T adm st" and "T \<le> now" and "0 < w" and "0 < L"
    and lim: "k = key \<Longrightarrow> limit = L"
    and step: "sliding_allow now k limit w st = ((ok, r), st')"
  shows "sliding_inv L w key now (adm @ (if ok \<and> k = key then [now] else [])) st'"
proof -
  obtain p where p: "adm = p @ hits_of st key" "\<forall>x \<in> set p. x \<le> T - w"
    and st: "distinct (map fst st)" "sorted adm" "\<forall>x \<in> set adm. x \<le> T" "spaced (nat L) w adm"
    using inv by (auto simp: sliding_inv_def)
  have later: "\<forall>x \<in> set adm. x \<le> now" "\<forall>x \<in> set p. x \<le> now - w" using st(3) p(2) assms(2) by force+
  let ?dq = "dropWhile (\<lambda>t. t \<le> now - w) (hits_of st key)"
  let ?p = "p @ takeWhile (\<lambda>t. t \<le> now - w) (hits_of st key)"
  have split: "adm = ?p @ ?dq" using p(1) by simp
  have old: "\<forall>x \<in> set ?p. x \<le> now - w" using later(2) by (auto dest: set_takeWhileD)
  have keep: "sliding_inv L w key now adm st" using p st later by (auto simp: sliding_inv_def)
  have cut: "sliding_inv L w key now adm (dict_set key ?dq st)"
    using split old st later(1) by (intro sliding_invI [where p = ?p]) (simp_all only: distinct_dict_set hits_of_set if_True refl)
  have other: "sliding_inv L w key now adm (dict_set k dq st)" if "k \<noteq> key" for dq
    using p st later that by (auto simp: sliding_inv_def)
  have add: "sliding_inv L w key now (adm @ [now]) (dict_set key (?dq @ [now]) st)" if "int (length ?dq) < L"
  proof -
    have "adm ! (length adm - nat L) + w \<le> now" if "nat L \<le> length adm"
    proof -
      have "length adm = length ?p + length ?dq" using split by (metis length_append)
      then have "length adm - nat L < length ?p" using \<open>int (length ?dq) < L\<close> that by linarith
      then have "adm ! (length adm - nat L) \<in> set ?p" using split by (metis nth_append nth_mem)
      then show ?thesis using old by force
    qed
    then have "spaced (nat L) w (adm @ [now])" using st(4) assms(4) by (intro spaced_snoc) auto
    moreover have "adm @ [now] = ?p @ (?dq @ [now])" using split by simp
    moreover have "sorted (adm @ [now])" "\<forall>x \<in> set (adm @ [now]). x \<le> now"
      using st(2) later(1) by (simp_all add: sorted_append)
    ultimately show ?thesis
      using st(1) old
      by (intro sliding_invI [where p = ?p]) (simp_all only: distinct_dict_set hits_of_set if_True refl)
  qed
  show ?thesis
  proof (cases "k = key")
    case True
    then have L: "\<not> limit \<le> 0" "limit = L" using lim assms(4) by simp_all
    show ?thesis
    proof (cases "L \<le> int (length ?dq)")
      case full: True
      then show ?thesis using step L True cut by (auto simp: sliding_allow_def Let_def)
    next
      case room: False
      then show ?thesis
        using step L True add sliding_inv_prune [OF add] by (auto simp: sliding_allow_def Let_def split: if_splits)
    qed
  next
    case False
    note other = other [OF False]
    show ?thesis
      using step False keep other sliding_inv_prune [OF other]
      by (auto simp: sliding_allow_def Let_def split: if_splits)
  qed
qed

lemma sliding_run_spaced:
  assumes "0 < w" and "0 < limits key"
  shows "\<lbrakk>sliding_inv (limits key) w key T adm st; sorted (T # map fst rs)\<rbrakk>
     \<Longrightarrow> sorted (adm @ admitted key (sliding_run limits w rs st))
       \<and> spaced (nat (limits key)) w (adm @ admitted key (sliding_run limits w rs st))"
proof (induction rs arbitrary: adm T st)
  case (Cons r rs)
  obtain now k where r: "r = (now, k)" by fastforce
  obtain ok z st1 where step: "sliding_allow now k (limits k) w st = ((ok, z), st1)" by (metis prod.exhaust)
  have "sliding_inv (limits key) w key now (adm @ (if ok \<and> k = key then [now] else [])) st1"
    using Cons.prems step r assms by (intro sliding_inv_step [of _ w key T adm st]) auto
  from Cons.IH [OF this] show ?case
    using Cons.prems r step by (auto simp: admitted_def)
qed (simp add: admitted_def sliding_inv_def)

lemma sliding_inv_start: "sliding_inv L w key T [] []"
  by (simp add: sliding_inv_def spaced_def hits_of_def dict_get_def)

text \<open>
  The in-memory limiter is exact: whatever requests arrive on whatever keys, in no window of
  the given length, wherever it lies, are more requests of a key admitted than the limit of that
  key; pruning of stale keys does not change this.
\<close>

theorem sliding_window_exact:
  assumes "0 < w" and "0 < limits key" and "sorted (map fst rs)"
    and "adm = admitted key (sliding_run limits w rs [])"
  shows "int (card {i. i < length adm \<and> t - w < adm ! i \<and> adm ! i \<le> t}) \<le> limits key"
proof (cases rs)
  case (Cons r rs')
  then have "sorted (fst r # map fst rs)" using assms(3) by auto
  from sliding_run_spaced [of w limits key, OF assms(1,2) sliding_inv_start this]
  have "card {i. i < length adm \<and> t - w < adm ! i \<and> adm ! i \<le> t} \<le> nat (limits key)"
    using assms(4) by (intro spaced_count) auto
  then show ?thesis using assms(2) by linarith
qed (use assms in \<open>simp add: admitted_def\<close>)

theorem sliding_window_exact_witness:
  "admitted (ascii ''a'') (sliding_run (\<lambda>_. 2) 60 [(1, ascii ''a''), (2, ascii ''b''), (3, ascii ''a''),
      (4, ascii ''a''), (62, ascii ''a'')] []) = [1, 3, 62]
   \<and> int (card {i. i < length [1, 3, 62::real] \<and> 2 < [1, 3, 62::real] ! i \<and> [1, 3, 62::real] ! i \<le> 62}) \<le> 2"
proof -
  have run: "admitted (ascii ''a'') (sliding_run (\<lambda>_. 2) 60 [(1, ascii ''a''), (2, ascii ''b''), (3, ascii ''a''),
      (4, ascii ''a''), (62, ascii ''a'')] []) = [1, 3, 62]"
    by (simp add: sliding_allow_def hits_of_def dict_get_def dict_set_def max_keys_def admitted_def Let_def ascii_def)
  show ?thesis
    using run sliding_window_exact [of 60 "\<lambda>_. 2" "ascii ''a''" "[(1, ascii ''a''), (2, ascii ''b''), (3, ascii ''a''),
      (4, ascii ''a''), (62, ascii ''a'')]" "[1, 3, 62]" 62] by (simp del: sliding_run.simps)
qed

section \<open>The fixed window\<close>

text \<open>A run of the shared limiter: the requests of all workers in the order of their transactions.\<close>

fun db_run :: "(pystr \<Rightarrow> int) \<Rightarrow> seconds \<Rightarrow> (seconds \<times> pystr) list \<Rightarrow> database \<Rightarrow> (seconds \<times> pystr) list" where
  "db_run limits w [] db = []"
| "db_run limits w ((now, key) # rs) db =
     (case db_allow True now key (limits key) w db of
        ((ok, _), db1) \<Rightarrow> (if ok then [(now, key)] else []) @ db_run limits w rs db1)"

definition in_window :: "seconds \<Rightarrow> seconds \<Rightarrow> seconds list \<Rightarrow> nat" where
  "in_window w x ts = length (filter (\<lambda>t. window_start t w = x) ts)"

text \<open>The admissions of a key in a window not yet over never exceed the counter of that window.\<close>

definition window_hits :: "database \<Rightarrow> pystr \<Rightarrow> seconds \<Rightarrow> int" where
  "window_hits db key x =
     (case find (\<lambda>r. rw_scope r = key \<and> rw_start r = x) (db_windows db) of None \<Rightarrow> 0 | Some r \<Rightarrow> rw_hits r)"

definition db_inv :: "int \<Rightarrow> seconds \<Rightarrow> pystr \<Rightarrow> seconds \<Rightarrow> seconds list \<Rightarrow> database \<Rightarrow> bool" where
  "db_inv L w key T adm db \<longleftrightarrow> sorted adm \<and> (\<forall>x \<in> set adm. x \<le> T) \<and> (\<forall>x. int (in_window w x adm) \<le> L)
     \<and> (\<forall>x \<ge> window_start T w. int (in_window w x adm) \<le> window_hits db key x)"

lemma window_start_mono: "0 < w \<Longrightarrow> s \<le> t \<Longrightarrow> window_start s w \<le> window_start t w"
  by (simp add: window_start_def divide_right_mono floor_mono)

lemma find_map_other:
  assumes "\<And>x. P x \<Longrightarrow> \<not> Q x" and "\<And>x. P x \<Longrightarrow> \<not> Q (g x)"
  shows "find Q (map (\<lambda>x. if P x then g x else x) xs) = find Q xs"
  using assms by (induction xs) auto

lemma hit_returns: "fst (rate_limit_hit now key x db) = window_hits db key x + 1"
  by (simp add: rate_limit_hit_def window_hits_def Let_def split: option.splits)

lemma hit_same: "window_hits (snd (rate_limit_hit now key x db)) key x = window_hits db key x + 1"
proof (cases "find (\<lambda>r. rw_scope r = key \<and> rw_start r = x) (db_windows db)")
  case None
  have "find (\<lambda>r. (rw_scope r = key \<and> rw_start r = x) \<and> \<not> (rw_scope r = key \<and> rw_start r < x)) xs
      = find (\<lambda>r. rw_scope r = key \<and> rw_start r = x) xs" for xs :: "rate_window list"
    by (induction xs) auto
  then show ?thesis using None
    by (simp add: rate_limit_hit_def window_hits_def Let_def find_filter find_append del: filter_append de_Morgan_conj)
next
  case (Some r)
  then show ?thesis by (simp add: rate_limit_hit_def window_hits_def Let_def find_map_same)
qed

lemma hit_other:
  assumes "k \<noteq> key \<or> x < y"
  shows "window_hits (snd (rate_limit_hit now k x db)) key y = window_hits db key y"
proof (cases "find (\<lambda>r. rw_scope r = k \<and> rw_start r = x) (db_windows db)")
  case None
  have "find (\<lambda>r. (rw_scope r = key \<and> rw_start r = y) \<and> \<not> (rw_scope r = k \<and> rw_start r < x)) xs
      = find (\<lambda>r. rw_scope r = key \<and> rw_start r = y) xs" for xs :: "rate_window list"
    using assms by (induction xs) auto
  then show ?thesis using None assms
    by (auto simp: rate_limit_hit_def window_hits_def Let_def find_filter find_append split: option.splits)
next
  case (Some r)
  have "find (\<lambda>r. rw_scope r = key \<and> rw_start r = y)
      (map (\<lambda>u. if rw_scope u = k \<and> rw_start u = x then u\<lparr>rw_hits := rw_hits u + 1, rw_updated_at := now\<rparr> else u) (db_windows db))
      = find (\<lambda>r. rw_scope r = key \<and> rw_start r = y) (db_windows db)"
    using assms by (intro find_map_other) auto
  then show ?thesis using Some by (simp add: rate_limit_hit_def window_hits_def Let_def)
qed

lemma in_window_snoc [simp]: "in_window w x (ts @ [t]) = in_window w x ts + (if window_start t w = x then 1 else 0)"
  by (simp add: in_window_def)

lemma db_inv_step:
  assumes inv: "db_inv L w key T adm db" and "T \<le> now" and "0 < w" and "k = key \<Longrightarrow> limit = L" and "0 < L"
    and step: "db_allow True now k limit w db = ((ok, r), db')"
  shows "db_inv L w key now (adm @ (if ok \<and> k = key then [now] else [])) db'"
proof -
  have mono: "window_start T w \<le> window_start now w" using window_start_mono assms(2,3) by simp
  have old: "sorted adm" "\<forall>x \<in> set adm. x \<le> now" "\<And>x. int (in_window w x adm) \<le> L"
    and hits: "\<And>x. window_start now w \<le> x \<Longrightarrow> int (in_window w x adm) \<le> window_hits db key x"
    using inv assms(2) mono by (force simp: db_inv_def)+
  let ?db = "snd (rate_limit_hit now k (window_start now w) db)"
  show ?thesis
  proof (cases "k = key")
    case True
    have hits': "int (in_window w x adm) + (if window_start now w = x then 1 else 0) \<le> window_hits ?db key x"
      if "window_start now w \<le> x" for x
      using hits [OF that] hit_same [of now key "window_start now w" db] hit_other [of k key "window_start now w" x now db] that True
      by (cases "window_start now w = x") auto
    show ?thesis
    proof (cases "window_hits db key (window_start now w) + 1 \<le> L")
      case room: True
      have "ok" "db' = ?db"
        using step room True assms(4,5) hit_returns [of now key "window_start now w" db]
        by (auto simp: db_allow_def Let_def split: prod.splits if_splits)
      moreover have "int (in_window w x (adm @ [now])) \<le> L" for x
        using old(3) [of x] hits [of x] room by (cases "window_start now w = x") auto
      moreover have "int (in_window w x (adm @ [now])) \<le> window_hits ?db key x" if "window_start now w \<le> x" for x
        using hits' [OF that] by (cases "window_start now w = x") auto
      ultimately show ?thesis using True old(1,2) by (simp add: db_inv_def sorted_append del: in_window_snoc)
    next
      case full: False
      have "\<not> ok" "db' = ?db"
        using step full True assms(4,5) hit_returns [of now key "window_start now w" db]
        by (auto simp: db_allow_def Let_def split: prod.splits if_splits)
      then show ?thesis using True old hits' by (fastforce simp: db_inv_def split: if_splits)
    qed
  next
    case False
    have "db' = db \<or> db' = ?db" using step by (auto simp: db_allow_def Let_def split: prod.splits if_splits)
    moreover have "window_hits ?db key x = window_hits db key x" for x using hit_other [of k key] False by simp
    ultimately show ?thesis using False old hits by (auto simp: db_inv_def)
  qed
qed

lemma db_run_inv:
  assumes "0 < w" and "0 < limits key"
  shows "\<lbrakk>db_inv (limits key) w key T adm db; sorted (T # map fst rs)\<rbrakk>
     \<Longrightarrow> sorted (adm @ admitted key (db_run limits w rs db))
       \<and> (\<forall>x. int (in_window w x (adm @ admitted key (db_run limits w rs db))) \<le> limits key)"
proof (induction rs arbitrary: adm T db)
  case (Cons r rs)
  obtain now k where r: "r = (now, k)" by fastforce
  obtain ok z db1 where step: "db_allow True now k (limits k) w db = ((ok, z), db1)" by (metis prod.exhaust)
  have "db_inv (limits key) w key now (adm @ (if ok \<and> k = key then [now] else [])) db1"
    using Cons.prems step r assms by (intro db_inv_step [of _ w key T adm db]) auto
  from Cons.IH [OF this] show ?case using Cons.prems r step by (auto simp: admitted_def)
qed (simp add: admitted_def db_inv_def)


lemma in_window_count:
  assumes "0 < w" and "sorted adm"
  shows "length (filter (\<lambda>x. t - w < x \<and> x \<le> t) adm)
     \<le> in_window w (window_start t w) adm + in_window w (window_start t w - w) adm"
proof -
  have "window_start x w = window_start t w \<or> window_start x w = window_start t w - w" if "t - w < x" "x \<le> t" for x
  proof -
    have "\<lfloor>(t - w) / w\<rfloor> \<le> \<lfloor>x / w\<rfloor>" "\<lfloor>x / w\<rfloor> \<le> \<lfloor>t / w\<rfloor>"
      using that assms(1) by (auto intro!: floor_mono divide_right_mono)
    moreover have "\<lfloor>(t - w) / w\<rfloor> = \<lfloor>t / w\<rfloor> - 1" using assms(1) by (simp add: diff_divide_distrib)
    ultimately have "\<lfloor>x / w\<rfloor> = \<lfloor>t / w\<rfloor> \<or> \<lfloor>x / w\<rfloor> = \<lfloor>t / w\<rfloor> - 1" by linarith
    then show ?thesis by (auto simp: window_start_def left_diff_distrib)
  qed
  then have "length (filter (\<lambda>x. t - w < x \<and> x \<le> t) ys)
      \<le> length (filter (\<lambda>x. window_start x w = window_start t w) ys) + length (filter (\<lambda>x. window_start x w = window_start t w - w) ys)" for ys
    by (induction ys) auto
  then show ?thesis by (simp add: in_window_def)
qed



section \<open>The gate and its abstraction\<close>

text \<open>The gate stands for the multiset of the tenants that hold a slot.\<close>

definition slot :: "nat \<Rightarrow> int option" where
  "slot n = (if n = 0 then None else Some (int n))"

definition gate_holds :: "gate \<Rightarrow> pystr multiset \<Rightarrow> bool" where
  "gate_holds g H \<longleftrightarrow> g_active g = int (size H)
     \<and> (\<forall>t. dict_get (g_counts g) t = slot (count H t))"

lemma gate_count_holds: "gate_holds g H \<Longrightarrow> gate_count g t = int (count H t)"
  by (simp add: gate_holds_def gate_count_def slot_def)

lemma acquire_holds:
  assumes "gate_holds g H" and "try_acquire t g = (ok, g')"
  shows "ok \<longleftrightarrow> (g_total g \<le> 0 \<or> int (size H) < g_total g) \<and> (g_per_tenant g \<le> 0 \<or> int (count H t) < g_per_tenant g)"
    and "gate_holds g' (if ok then add_mset t H else H)"
    and "g_total g' = g_total g" "g_per_tenant g' = g_per_tenant g"
proof -
  note cnt = gate_count_holds [OF assms(1), of t]
  have act: "g_active g = int (size H)" using assms(1) by (simp add: gate_holds_def)
  show "ok \<longleftrightarrow> (g_total g \<le> 0 \<or> int (size H) < g_total g) \<and> (g_per_tenant g \<le> 0 \<or> int (count H t) < g_per_tenant g)"
    using assms(2) cnt act by (auto simp: try_acquire_def split: if_splits)
  have "slot (count (add_mset t H) t) = Some (int (count H t) + 1)" by (simp add: slot_def)
  then have "gate_holds (g\<lparr>g_active := g_active g + 1, g_counts := dict_set t (gate_count g t + 1) (g_counts g)\<rparr>) (add_mset t H)"
    using assms(1) cnt by (simp add: gate_holds_def)
  then show "gate_holds g' (if ok then add_mset t H else H)"
    using assms by (auto simp: try_acquire_def split: if_splits)
  show "g_total g' = g_total g" "g_per_tenant g' = g_per_tenant g"
    using assms(2) by (auto simp: try_acquire_def split: if_splits)
qed

lemma release_holds:
  assumes "gate_holds g H" and "t \<in># H"
  shows "gate_holds (release t g) (H - {#t#})"
    and "g_total (release t g) = g_total g" "g_per_tenant (release t g) = g_per_tenant g"
proof -
  obtain H' where H: "H = add_mset t H'" using assms(2) by (metis mset_add)
  have "gate_count g t = int (count H' t) + 1" using gate_count_holds [OF assms(1), of t] by (simp add: H)
  then have n: "gate_count g t - 1 = int (count H' t)" by simp
  have old: "dict_get (g_counts g) u = slot (count H' u)" if "u \<noteq> t" for u
    using assms(1) that by (simp add: gate_holds_def H)
  have "dict_get (g_counts (release t g)) u = slot (count H' u)" for u
    using old [of u] n by (cases "u = t") (simp_all add: release_def Let_def slot_def not_in_iff)
  moreover have "g_active (release t g) = int (size H')"
    using assms(1) by (simp add: gate_holds_def release_def Let_def H)
  ultimately show "gate_holds (release t g) (H - {#t#})" by (simp add: gate_holds_def H)
qed (simp_all add: release_def Let_def)

text \<open>A stream takes a slot or is refused; a stream that has a slot gives it back when it ends.\<close>

inductive gate_run :: "gate \<Rightarrow> gate \<Rightarrow> pystr multiset \<Rightarrow> bool" for g0 where
  start: "gate_run g0 g0 {#}"
| acquire: "\<lbrakk>gate_run g0 g H; try_acquire t g = (ok, g')\<rbrakk> \<Longrightarrow> gate_run g0 g' (if ok then add_mset t H else H)"
| finish: "\<lbrakk>gate_run g0 g H; t \<in># H\<rbrakk> \<Longrightarrow> gate_run g0 (release t g) (H - {#t#})"

lemma gate_run_inv:
  assumes "gate_run g0 g H" and "g_counts g0 = []" and "g_active g0 = 0"
  shows "gate_holds g H \<and> g_total g = g_total g0 \<and> g_per_tenant g = g_per_tenant g0
     \<and> (0 < g_total g0 \<longrightarrow> int (size H) \<le> g_total g0)
     \<and> (0 < g_per_tenant g0 \<longrightarrow> (\<forall>t. int (count H t) \<le> g_per_tenant g0))"
  using assms
proof (induction rule: gate_run.induct)
  case start
  then show ?case by (simp add: gate_holds_def slot_def)
next
  case (acquire g H t ok g')
  note IH = acquire.IH [OF acquire.prems]
  note acq = acquire_holds [OF conjunct1 [OF IH] acquire.hyps(2)]
  show ?case using IH acq by (auto simp: int_ops)
next
  case (finish g H t)
  note IH = finish.IH [OF finish.prems]
  note rel = release_holds [OF conjunct1 [OF IH] finish.hyps(2)]
  have "size (H - {#t#}) \<le> size H" "count (H - {#t#}) u \<le> count H u" for u
    by (simp_all add: size_mset_mono)
  then show ?case using IH rel by (smt (verit) of_nat_le_iff)
qed

text \<open>
  C27. The stream gate implements a bounded multiset of holders: in every run of streams that open
  and end, its two counters are exactly the streams open in total and per tenant, a request is
  refused exactly when one of the two limits is reached, the limits are never exceeded, and a
  limit of zero or less does not restrict.
\<close>

theorem gate_refines:
  assumes "gate_run g0 g H" and "g_counts g0 = []" and "g_active g0 = 0"
  shows "g_active g = int (size H) \<and> gate_count g t = int (count H t)
     \<and> (0 < g_total g0 \<longrightarrow> g_active g \<le> g_total g0)
     \<and> (0 < g_per_tenant g0 \<longrightarrow> gate_count g t \<le> g_per_tenant g0)
     \<and> (fst (try_acquire t g) \<longleftrightarrow> (g_total g0 \<le> 0 \<or> int (size H) < g_total g0)
                                \<and> (g_per_tenant g0 \<le> 0 \<or> int (count H t) < g_per_tenant g0))"
proof -
  note inv = gate_run_inv [OF assms]
  obtain ok g' where acq: "try_acquire t g = (ok, g')" by fastforce
  show ?thesis
    using inv acquire_holds(1) [OF conjunct1 [OF inv] acq] gate_count_holds [OF conjunct1 [OF inv], of t] acq
    by (simp add: gate_holds_def)
qed

definition demo_gate :: gate where
  "demo_gate = \<lparr>g_per_tenant = 1, g_total = 64, g_counts = [], g_active = 0\<rparr>"

theorem gate_refines_witness:
  "gate_count (snd (try_acquire (ascii ''a'') demo_gate)) (ascii ''a'') = 1
   \<and> \<not> fst (try_acquire (ascii ''a'') (snd (try_acquire (ascii ''a'') demo_gate)))"
proof -
  let ?g = "snd (try_acquire (ascii ''a'') demo_gate)"
  have "gate_run demo_gate ?g (if True then add_mset (ascii ''a'') {#} else {#})"
    by (rule gate_run.acquire [OF gate_run.start]) (simp add: try_acquire_def demo_gate_def gate_count_def)
  then have run: "gate_run demo_gate ?g {#ascii ''a''#}" by simp
  show ?thesis using gate_refines [OF run, of "ascii ''a''"] by (simp add: demo_gate_def)
qed

text \<open>
  The middleware per client address never restricts paths outside the API or reading
  requests, answers every refusal with status 429 and a waiting time of at least one second, and
  lets the first request of an address through whatever the other addresses did; with both
  stores of the counters.
\<close>

theorem per_ip_middleware_contract:
  "(\<not> str_prefix (ascii ''/api'') (rq_path rq) \<or> rq_method rq = ascii ''GET''
      \<longrightarrow> per_ip_middleware sliding_allow True limit now rq st = (Inr (), st))
   \<and> (fst (per_ip_middleware sliding_allow True limit now rq st) = Inl e
      \<longrightarrow> he_status e = 429 \<and> (\<exists>r \<ge> 1. he_retry e = Some r))
   \<and> (rq_client rq = Some ip \<and> dict_get st (ascii ''ip:'' @ ip) = None
      \<longrightarrow> fst (per_ip_middleware sliding_allow True limit now rq st) = Inr ())
   \<and> (fst (per_ip_middleware (db_allow up) True limit now rq db) = Inl e
      \<longrightarrow> he_status e = 429 \<and> (\<exists>r \<ge> 1. he_retry e = Some r))
   \<and> (rq_client rq = Some ip \<and> (\<forall>r \<in> set (db_windows db). rw_scope r \<noteq> ascii ''ip:'' @ ip)
      \<longrightarrow> fst (per_ip_middleware (db_allow up) True limit now rq db) = Inr ())"
proof -
  have up: "map upper_char (ascii ''GET'') \<in> set read_methods"
    by (simp add: read_methods_def ascii_def upper_char_def)
  show ?thesis
    using sw.guard_unused [of st "ascii ''ip:'' @ ip" now limit] dw.guard_unused [of db "ascii ''ip:'' @ ip" up now limit] up
    by (auto simp: per_ip_middleware_def fst_def split: prod.splits dest!: sw.guard_error dw.guard_error)
qed

definition demo_request :: request where
  "demo_request = \<lparr>rq_http = True, rq_method = ascii ''POST'', rq_path = ascii ''/api/tasks'',
     rq_client = Some (ascii ''10.0.0.1''), rq_headers = [], rq_query = []\<rparr>"

theorem per_ip_middleware_contract_witness:
  "fst (per_ip_middleware sliding_allow True 1 0 demo_request []) = Inr ()
   \<and> per_ip_middleware sliding_allow True 1 0 (demo_request\<lparr>rq_method := ascii ''GET''\<rparr>) [] = (Inr (), [])"
  using per_ip_middleware_contract [of demo_request 1 0 "[]" _ "ascii ''10.0.0.1''"]
    per_ip_middleware_contract [of "demo_request\<lparr>rq_method := ascii ''GET''\<rparr>" 1 0 "[]"]
  by (simp add: demo_request_def)

end
