(* ===== verification/Security.thy ===== *)
theory Security
  imports Rate_Limit
begin

text \<open>
  Authentication and tenants (\<^verbatim>\<open>app/api/security.py\<close>) with the administration endpoints that
  change tenants (\<^verbatim>\<open>app/api/routes_admin.py\<close>): extraction of keys, the cache of resolved keys,
  access from the loopback address, the administrator's key and the bootstrap of credentials.
  \<open>sha\<close> is the hexadecimal SHA-256 digest of a text; random tokens are arguments.
\<close>

section \<open>Texts and addresses\<close>

definition strip_chars :: "nat list \<Rightarrow> pystr \<Rightarrow> pystr" where
  "strip_chars cs s = rev (dropWhile (\<lambda>c. c \<in> set cs) (rev (dropWhile (\<lambda>c. c \<in> set cs) s)))"

text \<open>
  \<open>ipaddress.ip_address\<close>: four decimal octets without leading zeros, or the groups of an IPv6
  address with at most one \<open>::\<close>, an optional dotted tail and an optional scope.
\<close>

definition parse_octet :: "pystr \<Rightarrow> nat option" where
  "parse_octet s =
     (if s \<noteq> [] \<and> list_all is_digit s \<and> length s \<le> 3 \<and> (hd s = 48 \<longrightarrow> s = [48]) \<and> digits_val s \<le> 255
      then Some (digits_val s) else None)"

definition parse_ipv4 :: "pystr \<Rightarrow> nat option" where
  "parse_ipv4 s =
     (case map parse_octet (str_split 46 s) of
        [Some a, Some b, Some c, Some d] \<Rightarrow> Some (((a * 256 + b) * 256 + c) * 256 + d)
      | _ \<Rightarrow> None)"

fun hex_number :: "pystr \<Rightarrow> nat option" where
  "hex_number [] = Some 0"
| "hex_number (c # cs) =
     (case (hex_val c, hex_number cs) of
        (Some d, Some n) \<Rightarrow> Some (d * 16 ^ length cs + n)
      | _ \<Rightarrow> None)"

definition parse_hextet :: "pystr \<Rightarrow> nat option" where
  "parse_hextet s = (if s \<noteq> [] \<and> length s \<le> 4 then hex_number s else None)"

fun hextets :: "nat \<Rightarrow> pystr list \<Rightarrow> nat option" where
  "hextets acc [] = Some acc"
| "hextets acc (p # ps) = (case parse_hextet p of None \<Rightarrow> None | Some n \<Rightarrow> hextets (acc * 65536 + n) ps)"

fun hex_str :: "nat \<Rightarrow> pystr" where
  "hex_str n = (if n < 16 then [hex_digit n] else hex_str (n div 16) @ [hex_digit (n mod 16)])"

text \<open>The value of the groups between the colons: \<open>i\<close> is the place of \<open>::\<close>.\<close>

definition ipv6_value :: "pystr list \<Rightarrow> nat option" where
  "ipv6_value parts =
     (if 9 < length parts then None
      else case filter (\<lambda>i. parts ! i = []) [1..<length parts - 1] of
             [] \<Rightarrow> if length parts = 8 then hextets 0 parts else None
           | [i] \<Rightarrow>
               (let parts_hi = (if hd parts = [] then i - 1 else i);
                    parts_lo = (if last parts = [] then length parts - i - 2 else length parts - i - 1)
                in if hd parts = [] \<and> parts_hi \<noteq> 0 \<or> last parts = [] \<and> parts_lo \<noteq> 0 \<or> 8 \<le> parts_hi + parts_lo
                   then None
                   else case hextets 0 (take parts_hi parts) of
                          None \<Rightarrow> None
                        | Some a \<Rightarrow> hextets (a * 65536 ^ (8 - (parts_hi + parts_lo))) (take_last parts_lo parts))
           | _ \<Rightarrow> None)"

definition parse_ipv6 :: "pystr \<Rightarrow> nat option" where
  "parse_ipv6 s =
     (case str_split 37 s of
        addr # scope \<Rightarrow>
          (if addr = [] \<or> 1 < length scope \<or> scope = [[]] then None
           else (let parts = str_split 58 addr
                 in if length parts < 3 then None
                    else if 46 \<in> set (last parts)
                    then (case parse_ipv4 (last parts) of
                            None \<Rightarrow> None
                          | Some v \<Rightarrow> ipv6_value (butlast parts @ [hex_str (v div 65536), hex_str (v mod 65536)]))
                    else ipv6_value parts))
      | [] \<Rightarrow> None)"

definition ip_is_loopback :: "pystr \<Rightarrow> bool" where
  "ip_is_loopback s =
     (47 \<notin> set s \<and>
      (case parse_ipv4 s of
         Some v \<Rightarrow> v div 2 ^ 24 = 127
       | None \<Rightarrow> parse_ipv6 s = Some 1))"

section \<open>Settings, tenants and the cache\<close>

record auth_settings =
  au_enabled :: bool
  au_localhost_bypass :: bool
  au_trusted_proxy_hops :: nat
  au_admin_fail_per_min :: int
  au_admin_api_key :: pystr
  au_default_quota :: int

datatype via = ViaDisabled | ViaApiKey | ViaLocalhost

record tenant_context =
  tx_id :: pystr
  tx_name :: pystr
  tx_quota :: int
  tx_via :: via

definition anonymous :: tenant_context where
  "anonymous = \<lparr>tx_id = ascii ''local'', tx_name = ascii ''local'', tx_quota = 0, tx_via = ViaDisabled\<rparr>"

definition default_tenant_name :: pystr where
  "default_tenant_name = ascii ''default''"

definition context_of :: "via \<Rightarrow> tenant \<Rightarrow> tenant_context" where
  "context_of v t = \<lparr>tx_id = tn_id t, tx_name = tn_name t, tx_quota = tn_quota t, tx_via = v\<rparr>"

definition generate_api_key :: "pystr \<Rightarrow> pystr \<times> pystr" where
  "generate_api_key token = (let key = ascii ''art-'' @ token in (key, take 12 key))"

text \<open>What the application keeps for authentication: the cache of \<open>TenantRegistry\<close> and two settings of the state.\<close>

record auth_app =
  ap_cache :: "tenant option dict"
  ap_admin_key :: pystr
  ap_login_disabled :: bool

definition cache_max :: nat where
  "cache_max = 4096"

text \<open>
  \<open>resolve\<close> in its two parts, between which other requests may run: the lookup, in the
  cache or in the database, and the insertion of a row that came from the database.
\<close>

definition resolve_lookup :: "(pystr \<Rightarrow> pystr) \<Rightarrow> pystr \<Rightarrow> database \<Rightarrow> tenant option dict \<Rightarrow> tenant option + tenant option" where
  "resolve_lookup sha key db cache =
     (case dict_get cache (sha key) of
        Some row \<Rightarrow> Inl row
      | None \<Rightarrow> Inr (get_tenant_by_key_hash (sha key) db))"

definition resolve_store :: "pystr \<Rightarrow> tenant option \<Rightarrow> tenant option dict \<Rightarrow> tenant option dict" where
  "resolve_store h row cache = dict_set h row (if cache_max \<le> length cache then [] else cache)"

definition resolve :: "(pystr \<Rightarrow> pystr) \<Rightarrow> pystr \<Rightarrow> database \<Rightarrow> tenant option dict \<Rightarrow> tenant option \<times> tenant option dict" where
  "resolve sha key db cache =
     (case resolve_lookup sha key db cache of
        Inl row \<Rightarrow> (row, cache)
      | Inr row \<Rightarrow> (row, resolve_store (sha key) row cache))"

definition invalidate_tenant :: "pystr \<Rightarrow> tenant option dict \<Rightarrow> tenant option dict" where
  "invalidate_tenant tenant_id cache =
     filter (\<lambda>(h, row). \<not> (case row of None \<Rightarrow> True | Some t \<Rightarrow> tn_id t = tenant_id)) cache"

section \<open>Requests of tenants\<close>

definition header :: "request \<Rightarrow> string \<Rightarrow> pystr" where
  "header rq name = (case dict_get (rq_headers rq) (ascii name) of None \<Rightarrow> [] | Some v \<Rightarrow> v)"

definition bearer :: "request \<Rightarrow> pystr" where
  "bearer rq =
     (let auth = header rq ''authorization''
      in if str_prefix (ascii ''bearer '') (str_lower auth) then str_strip (drop 7 auth) else [])"

definition extract_key :: "request \<Rightarrow> pystr" where
  "extract_key rq =
     (let k1 = str_strip (header rq ''x-api-key'');
          k2 = (if k1 = [] then bearer rq else k1)
      in if k2 = [] \<and> str_suffix (ascii ''/stream'') (rq_path rq)
         then str_strip (case dict_get (rq_query rq) (ascii ''api_key'') of None \<Rightarrow> [] | Some v \<Rightarrow> v)
         else k2)"

definition forwarded_for :: "request \<Rightarrow> pystr list" where
  "forwarded_for rq = filter (\<lambda>p. p \<noteq> []) (map str_strip (str_split 44 (header rq ''x-forwarded-for'')))"

definition client_is_loopback :: "request \<Rightarrow> nat \<Rightarrow> bool" where
  "client_is_loopback rq trusted_hops =
     (case rq_client rq of
        None \<Rightarrow> False
      | Some [] \<Rightarrow> False
      | Some client \<Rightarrow>
          (let fwd = forwarded_for rq;
               raw = (if 0 < trusted_hops \<and> trusted_hops \<le> length fwd then fwd ! (length fwd - trusted_hops) else client);
               host = strip_chars [91, 93] (str_strip raw)
           in if host = ascii ''localhost'' \<or> host = ascii ''0.0.0.0'' then True
              else ip_is_loopback (str_removeprefix (ascii ''::ffff:'') host)))"

definition has_forwarding_headers :: "request \<Rightarrow> bool" where
  "has_forwarding_headers rq =
     (header rq ''x-forwarded-for'' \<noteq> [] \<or> header rq ''x-real-ip'' \<noteq> [] \<or> header rq ''forwarded'' \<noteq> [])"

definition localhost_bypass_allowed :: "auth_settings \<Rightarrow> auth_app \<Rightarrow> request \<Rightarrow> bool" where
  "localhost_bypass_allowed cfg app rq =
     (if \<not> au_localhost_bypass cfg then False
      else if ap_login_disabled app then False
      else if \<not> client_is_loopback rq (au_trusted_proxy_hops cfg) then False
      else if au_trusted_proxy_hops cfg = 0 \<and> has_forwarding_headers rq then False
      else True)"

definition default_tenant :: "database \<Rightarrow> http_error + tenant_context" where
  "default_tenant db =
     (case get_tenant_by_name default_tenant_name db of
        None \<Rightarrow> Inl (http_exception 401)
      | Some row \<Rightarrow> if tn_enabled row then Inr (context_of ViaLocalhost row) else Inl (http_exception 401))"

text \<open>\<open>_resolve_tenant_by_key\<close>; \<open>None\<close> is an unknown key when \<open>strict\<close> is off.\<close>

definition resolve_tenant_by_key :: "(pystr \<Rightarrow> pystr) \<Rightarrow> bool \<Rightarrow> pystr \<Rightarrow> database \<Rightarrow> auth_app
     \<Rightarrow> (http_error + tenant_context option) \<times> auth_app" where
  "resolve_tenant_by_key sha strict key db app =
     (case resolve sha key db (ap_cache app) of
        (row, cache) \<Rightarrow>
          (case row of
             None \<Rightarrow> if strict then Inl (http_exception 401) else Inr None
           | Some t \<Rightarrow> if tn_enabled t then Inr (Some (context_of ViaApiKey t)) else Inl (http_exception 403),
           app\<lparr>ap_cache := cache\<rparr>))"

definition require_tenant :: "(pystr \<Rightarrow> pystr) \<Rightarrow> auth_settings \<Rightarrow> request \<Rightarrow> database \<Rightarrow> auth_app
     \<Rightarrow> (http_error + tenant_context) \<times> auth_app" where
  "require_tenant sha cfg rq db app =
     (if \<not> au_enabled cfg then (Inr anonymous, app)
      else
        (let key = extract_key rq
         in if key \<noteq> [] then
              (case resolve_tenant_by_key sha False key db app of
                 (Inl e, app1) \<Rightarrow> (Inl e, app1)
               | (Inr (Some ctx), app1) \<Rightarrow> (Inr ctx, app1)
               | (Inr None, app1) \<Rightarrow>
                   (if localhost_bypass_allowed cfg app1 rq then (default_tenant db, app1)
                    else (Inl (http_exception 401), app1)))
            else if localhost_bypass_allowed cfg app rq then (default_tenant db, app)
            else (Inl (http_exception 401), app)))"

section \<open>Requests of the administrator\<close>

text \<open>
  \<open>secrets.compare_digest\<close> raises on texts with characters beyond ASCII, which the server
  answers with status 500.
\<close>

definition admin_key_from :: "request \<Rightarrow> pystr" where
  "admin_key_from rq =
     (let k = str_strip (header rq ''x-admin-key'') in if k = [] then bearer rq else k)"

definition require_admin :: "(seconds \<Rightarrow> pystr \<Rightarrow> int \<Rightarrow> seconds \<Rightarrow> 's \<Rightarrow> (bool \<times> int) \<times> 's) \<Rightarrow> auth_settings \<Rightarrow> seconds
     \<Rightarrow> request \<Rightarrow> auth_app \<Rightarrow> 's \<Rightarrow> (http_error + unit) \<times> 's" where
  "require_admin allow cfg now rq app s =
     (if \<not> au_enabled cfg then (Inr (), s)
      else
        (let client = (case rq_client rq of None \<Rightarrow> ascii ''unknown'' | Some c \<Rightarrow> c)
         in case (if 0 < au_admin_fail_per_min cfg
                  then rate_guard allow now (ascii ''admin:'' @ client) (au_admin_fail_per_min cfg) s
                  else (Inr (), s)) of
              (Inl e, s1) \<Rightarrow> (Inl e, s1)
            | (Inr _, s1) \<Rightarrow>
                (let provided = admin_key_from rq;
                     expected = (if ap_admin_key app \<noteq> [] then ap_admin_key app else au_admin_api_key cfg)
                 in (if provided = [] then Inl (http_exception 401)
                     else if expected = [] then Inl (http_exception 403)
                     else if (\<exists>c \<in> set (provided @ expected). 128 \<le> c) then Inl (http_exception 500)
                     else if provided \<noteq> expected then Inl (http_exception 403)
                     else Inr (), s1))))"

section \<open>Bootstrap\<close>

text \<open>
  The credentials file (an absent file or key reads as the empty text). \<open>tokens\<close> are three
  random tokens: for the administrator's key, a key of the default tenant, and its id.
\<close>

record credentials =
  cr_admin :: pystr
  cr_default :: pystr

text \<open>The part that makes sure of a default tenant with a key that the file can hold.\<close>

definition ensure_default_tenant :: "(pystr \<Rightarrow> pystr) \<Rightarrow> auth_settings \<Rightarrow> pystr \<Rightarrow> pystr \<Rightarrow> seconds \<Rightarrow> pystr
     \<Rightarrow> database \<Rightarrow> db_error + pystr \<times> database" where
  "ensure_default_tenant sha cfg key_token id_token now default_key db =
     (let new_key = fst (generate_api_key key_token); prefix = snd (generate_api_key key_token)
      in case get_tenant_by_name default_tenant_name db of
           Some row \<Rightarrow>
             (if default_key \<noteq> [] \<and> tn_enabled row \<and> tn_key_hash row = sha default_key then Inr (default_key, db)
              else map_sum id (\<lambda>(_, db1). (new_key, db1))
                     (update_tenant (tn_id row)
                        (\<lambda>t. t\<lparr>tn_key_hash := sha new_key, tn_key_prefix := prefix, tn_enabled := True\<rparr>) db))
         | None \<Rightarrow>
             map_sum id (\<lambda>(_, db1). (new_key, db1))
               (create_tenant now (ascii ''t-'' @ id_token) default_tenant_name (sha new_key) prefix
                  (au_default_quota cfg) db))"

definition bootstrap_auth :: "(pystr \<Rightarrow> pystr) \<Rightarrow> auth_settings \<Rightarrow> pystr \<times> pystr \<times> pystr \<Rightarrow> seconds
     \<Rightarrow> credentials \<Rightarrow> database \<Rightarrow> auth_app \<Rightarrow> db_error + credentials \<times> database \<times> auth_app" where
  "bootstrap_auth sha cfg tokens now creds db app =
     (case tokens of (admin_token, key_token, id_token) \<Rightarrow>
       if \<not> au_enabled cfg then Inr (creds, db, app\<lparr>ap_admin_key := [], ap_login_disabled := True\<rparr>)
       else
         (let k0 = (if au_admin_api_key cfg \<noteq> [] then au_admin_api_key cfg else cr_admin creds);
              admin_key = (if k0 = [] then ascii ''adm-'' @ admin_token else k0)
          in map_sum id (\<lambda>(default_key, db1).
               (\<lparr>cr_admin = admin_key, cr_default = default_key\<rparr>, db1,
                app\<lparr>ap_admin_key := admin_key, ap_login_disabled := False\<rparr>))
               (ensure_default_tenant sha cfg key_token id_token now (cr_default creds) db)))"

section \<open>Administration of tenants\<close>

text \<open>The public view of a tenant drops the digest of its key.\<close>

record public_tenant =
  pt_id :: pystr
  pt_name :: pystr
  pt_key_prefix :: pystr
  pt_enabled :: bool
  pt_quota :: int
  pt_created_at :: seconds

definition public_view :: "tenant \<Rightarrow> public_tenant" where
  "public_view t = \<lparr>pt_id = tn_id t, pt_name = tn_name t, pt_key_prefix = tn_key_prefix t,
     pt_enabled = tn_enabled t, pt_quota = tn_quota t, pt_created_at = tn_created_at t\<rparr>"

definition admin_create_tenant :: "(pystr \<Rightarrow> pystr) \<Rightarrow> auth_settings \<Rightarrow> pystr \<times> pystr \<Rightarrow> seconds \<Rightarrow> pystr \<Rightarrow> int option
     \<Rightarrow> database \<Rightarrow> db_error + (public_tenant \<times> pystr) \<times> database" where
  "admin_create_tenant sha cfg tokens now name quota db =
     (let key = fst (generate_api_key (fst tokens)); prefix = snd (generate_api_key (fst tokens))
      in map_sum id (\<lambda>(t, db1). ((public_view t, key), db1))
           (create_tenant now (ascii ''t-'' @ snd tokens) name (sha key) prefix
              (case quota of None \<Rightarrow> au_default_quota cfg | Some q \<Rightarrow> q) db))"

definition admin_list_tenants :: "database \<Rightarrow> public_tenant list" where
  "admin_list_tenants db = map public_view (list_tenants db)"

text \<open>\<open>Inl\<close> of an HTTP error, or the updated tenant.\<close>

definition patch_tenant :: "pystr \<Rightarrow> bool option \<Rightarrow> int option \<Rightarrow> database \<Rightarrow> auth_app
     \<Rightarrow> db_error + (http_error + public_tenant) \<times> database \<times> auth_app" where
  "patch_tenant tenant_id enabled quota db app =
     (if enabled = None \<and> quota = None then Inr (Inl (http_exception 400), db, app)
      else case update_tenant tenant_id
                  (\<lambda>t. t\<lparr>tn_enabled := (case enabled of None \<Rightarrow> tn_enabled t | Some b \<Rightarrow> b),
                         tn_quota := (case quota of None \<Rightarrow> tn_quota t | Some q \<Rightarrow> q)\<rparr>) db of
             Inl e \<Rightarrow> Inl e
           | Inr (None, db1) \<Rightarrow> Inr (Inl (http_exception 404), db1, app)
           | Inr (Some t, db1) \<Rightarrow>
               Inr (Inr (public_view t), db1, app\<lparr>ap_cache := invalidate_tenant tenant_id (ap_cache app)\<rparr>))"

definition rotate_key :: "(pystr \<Rightarrow> pystr) \<Rightarrow> pystr \<Rightarrow> pystr \<Rightarrow> database \<Rightarrow> auth_app
     \<Rightarrow> db_error + (http_error + public_tenant \<times> pystr) \<times> database \<times> auth_app" where
  "rotate_key sha token tenant_id db app =
     (let key = fst (generate_api_key token); prefix = snd (generate_api_key token)
      in case update_tenant tenant_id (\<lambda>t. t\<lparr>tn_key_hash := sha key, tn_key_prefix := prefix\<rparr>) db of
           Inl e \<Rightarrow> Inl e
         | Inr (None, db1) \<Rightarrow> Inr (Inl (http_exception 404), db1, app)
         | Inr (Some t, db1) \<Rightarrow>
             Inr (Inr (public_view t, key), db1, app\<lparr>ap_cache := invalidate_tenant tenant_id (ap_cache app)\<rparr>))"

record usage_view =
  uv_used :: int
  uv_reserved :: int
  uv_tasks_today :: nat

definition tenant_usage :: "seconds \<Rightarrow> seconds \<Rightarrow> pystr \<Rightarrow> database \<Rightarrow> http_error + usage_view" where
  "tenant_usage offset now tenant_id db =
     (if get_tenant tenant_id db = None then Inl (http_exception 404)
      else (let u = tenant_token_usage tenant_id (day_start_epoch offset now) db
            in Inr \<lparr>uv_used = tu_used u, uv_reserved = tu_reserved u,
                    uv_tasks_today = count_tasks_since (day_start_epoch offset now) (Some tenant_id) db\<rparr>))"

section \<open>The cache agrees with the database\<close>

definition cache_ok :: "database \<Rightarrow> tenant option dict \<Rightarrow> bool" where
  "cache_ok db cache \<longleftrightarrow> distinct (map fst cache)
     \<and> (\<forall>h row. dict_get cache h = Some row \<longrightarrow> row = get_tenant_by_key_hash h db)"

lemma by_hash_iff:
  assumes "db_ok db"
  shows "get_tenant_by_key_hash h db = Some t \<longleftrightarrow> t \<in> set (db_tenants db) \<and> tn_key_hash t = h"
proof
  assume "get_tenant_by_key_hash h db = Some t"
  then show "t \<in> set (db_tenants db) \<and> tn_key_hash t = h"
    by (auto simp: get_tenant_by_key_hash_def find_Some_iff)
next
  assume t: "t \<in> set (db_tenants db) \<and> tn_key_hash t = h"
  then obtain u where u: "get_tenant_by_key_hash h db = Some u"
    by (cases "get_tenant_by_key_hash h db") (auto simp: get_tenant_by_key_hash_def find_None_iff)
  have "distinct (map tn_key_hash (db_tenants db))" using assms by (simp add: db_ok_def)
  from find_key_unique [OF this, of h u t] u t show "get_tenant_by_key_hash h db = Some t"
    by (simp add: get_tenant_by_key_hash_def)
qed

lemma resolve_exact:
  assumes "cache_ok db cache"
  shows "fst (resolve sha key db cache) = get_tenant_by_key_hash (sha key) db"
    and "cache_ok db (snd (resolve sha key db cache))"
  using assms by (auto simp: resolve_def resolve_lookup_def resolve_store_def cache_ok_def split: option.splits)

lemma cache_after_update:
  assumes "db_ok db" and cache: "cache_ok db cache" and "\<And>u. tn_id (upd u) = tn_id u"
    and upd: "update_tenant i upd db = Inr (Some t, db')"
  shows "cache_ok db' (invalidate_tenant i cache)"
proof -
  have ok: "db_ok db'" using repo_step_ok [OF step_update_tenant [OF assms(3) upd] assms(1)] .
  have row: "row = get_tenant_by_key_hash h db'" if "dict_get (invalidate_tenant i cache) h = Some row" for h row
  proof -
    have c: "dict_get cache h = Some row" and keep: "\<not> (case row of None \<Rightarrow> True | Some t \<Rightarrow> tn_id t = i)"
      using that dict_get_filter [of cache "\<lambda>h row. \<not> (case row of None \<Rightarrow> True | Some t \<Rightarrow> tn_id t = i)" h] cache
      by (auto simp: invalidate_tenant_def cache_ok_def split: option.splits if_splits)
    then obtain u where u: "row = Some u" "tn_id u \<noteq> i" by (auto split: option.splits)
    then have "get_tenant_by_key_hash h db = Some u" using c cache by (auto simp: cache_ok_def)
    then have "u \<in> set (db_tenants db)" "tn_key_hash u = h" using by_hash_iff [OF assms(1)] by auto
    then have "u \<in> set (db_tenants db')"
      using upd u(2) by (force simp: update_tenant_def split: option.splits if_splits)
    then have "get_tenant_by_key_hash h db' = Some u" using by_hash_iff [OF ok] \<open>tn_key_hash u = h\<close> by blast
    then show ?thesis using u by simp
  qed
  then show ?thesis
    using cache by (auto simp: cache_ok_def invalidate_tenant_def intro: distinct_map_filter_key)
qed

text \<open>
  The application with requests handled one after the other: a key is resolved, a tenant is
  created (with a key whose digest was never presented), patched or rotated.
\<close>

inductive auth_run :: "(pystr \<Rightarrow> pystr) \<Rightarrow> database \<Rightarrow> auth_app \<Rightarrow> bool" for sha where
  start: "db_ok db \<Longrightarrow> ap_cache app = [] \<Longrightarrow> auth_run sha db app"
| request: "\<lbrakk>auth_run sha db app; require_tenant sha cfg rq db app = (r, app')\<rbrakk> \<Longrightarrow> auth_run sha db app'"
| create: "\<lbrakk>auth_run sha db app; admin_create_tenant sha cfg tokens now name quota db = Inr (r, db');
     dict_get (ap_cache app) (sha (fst (generate_api_key (fst tokens)))) = None\<rbrakk> \<Longrightarrow> auth_run sha db' app"
| patch: "\<lbrakk>auth_run sha db app; patch_tenant i enabled quota db app = Inr (r, db', app')\<rbrakk> \<Longrightarrow> auth_run sha db' app'"
| rotate: "\<lbrakk>auth_run sha db app; rotate_key sha token i db app = Inr (r, db', app')\<rbrakk> \<Longrightarrow> auth_run sha db' app'"

lemma require_tenant_cache:
  assumes "require_tenant sha cfg rq db app = (r, app')"
  shows "ap_cache app' = ap_cache app \<or> ap_cache app' = snd (resolve sha (extract_key rq) db (ap_cache app))"
  using assms
  by (auto simp: require_tenant_def resolve_tenant_by_key_def Let_def split: if_splits prod.splits option.splits)

lemma updated_cache:
  assumes "update_tenant i upd db = Inr (t, db')" and "\<And>u. tn_id (upd u) = tn_id u"
    and "db_ok db \<and> cache_ok db cache"
  shows "db_ok db' \<and> cache_ok db' (if t = None then cache else invalidate_tenant i cache)"
proof (cases t)
  case None
  then have "db' = db" using assms(1) by (auto simp: update_tenant_def split: option.splits if_splits)
  then show ?thesis using None assms(3) by simp
next
  case (Some x)
  then show ?thesis
    using repo_step_ok [OF step_update_tenant [OF assms(2,1)]] cache_after_update [of db cache upd i x db'] assms by simp
qed

lemma auth_run_ok: "auth_run sha db app \<Longrightarrow> db_ok db \<and> cache_ok db (ap_cache app)"
proof (induction rule: auth_run.induct)
  case (start db app)
  then show ?case by (simp add: cache_ok_def)
next
  case (request db app cfg rq r app')
  then show ?case using require_tenant_cache [OF request.hyps(2)] resolve_exact(2) by auto
next
  case (create db app cfg tokens now name quota r db')
  let ?h = "sha (fst (generate_api_key (fst tokens)))"
  obtain t where c: "create_tenant now (ascii ''t-'' @ snd tokens) name ?h (snd (generate_api_key (fst tokens)))
      (case quota of None \<Rightarrow> au_default_quota cfg | Some q \<Rightarrow> q) db = Inr (t, db')"
    using create.hyps(2) by (auto simp: admin_create_tenant_def Let_def map_sum_Inr_iff)
  have same: "get_tenant_by_key_hash h db' = get_tenant_by_key_hash h db" if "h \<noteq> ?h" for h
    using c that by (auto simp: create_tenant_def get_tenant_by_key_hash_def Let_def find_append split: if_splits option.splits)
  have "row = get_tenant_by_key_hash h db'" if "dict_get (ap_cache app) h = Some row" for h row
    using create.IH create.hyps(3) same [of h] that by (cases "h = ?h") (simp_all add: cache_ok_def)
  then have "cache_ok db' (ap_cache app)" using create.IH by (simp add: cache_ok_def)
  moreover have "db_ok db'" using repo_step_ok [OF step_create_tenant [OF c]] create.IH by simp
  ultimately show ?case by simp
next
  case (patch db app i enabled quota r db' app')
  let ?upd = "\<lambda>t. t\<lparr>tn_enabled := (case enabled of None \<Rightarrow> tn_enabled t | Some b \<Rightarrow> b),
    tn_quota := (case quota of None \<Rightarrow> tn_quota t | Some q \<Rightarrow> q)\<rparr>"
  have "db' = db \<and> ap_cache app' = ap_cache app \<or> (\<exists>t. update_tenant i ?upd db = Inr (t, db')
      \<and> ap_cache app' = (if t = None then ap_cache app else invalidate_tenant i (ap_cache app)))"
    using patch.hyps(2) by (auto simp: patch_tenant_def split: if_splits sum.splits prod.splits option.splits)
  then show ?case using updated_cache [of i ?upd db _ db' "ap_cache app"] patch.IH by fastforce
next
  case (rotate db app token i r db' app')
  let ?upd = "\<lambda>t. t\<lparr>tn_key_hash := sha (fst (generate_api_key token)), tn_key_prefix := snd (generate_api_key token)\<rparr>"
  have "\<exists>t. update_tenant i ?upd db = Inr (t, db')
      \<and> ap_cache app' = (if t = None then ap_cache app else invalidate_tenant i (ap_cache app))"
    using rotate.hyps(2) by (auto simp: rotate_key_def Let_def split: sum.splits prod.splits option.splits)
  then show ?case using updated_cache [of i ?upd db _ db' "ap_cache app"] rotate.IH by fastforce
qed

section \<open>Properties\<close>


definition demo_tenant :: tenant where
  "demo_tenant = \<lparr>tn_id = ascii ''t-1'', tn_name = default_tenant_name, tn_key_hash = ascii ''art-k'', tn_key_prefix = [],
     tn_enabled = True, tn_quota = 100, tn_created_at = 0\<rparr>"

definition demo_auth_db :: database where
  "demo_auth_db = empty_db\<lparr>db_tenants := [demo_tenant]\<rparr>"

definition demo_app :: auth_app where
  "demo_app = \<lparr>ap_cache = [], ap_admin_key = ascii ''adm'', ap_login_disabled = False\<rparr>"

definition demo_auth :: auth_settings where
  "demo_auth = \<lparr>au_enabled = True, au_localhost_bypass = True, au_trusted_proxy_hops = 0, au_admin_fail_per_min = 10,
     au_admin_api_key = [], au_default_quota = 100\<rparr>"

lemma demo_auth_run: "auth_run id demo_auth_db demo_app"
  by (rule auth_run.start)
     (simp_all add: demo_app_def demo_auth_db_def empty_db_def db_ok_def te_unique_def)

lemmas demo_auth_defs = demo_tenant_def demo_auth_db_def demo_app_def demo_auth_def demo_request_def empty_db_def
  default_tenant_name_def

lemma demo_login:
  "require_tenant id demo_auth (demo_request\<lparr>rq_headers := [(ascii ''x-api-key'', ascii ''art-k'')]\<rparr>) demo_auth_db demo_app
   = (Inr (context_of ViaApiKey demo_tenant), demo_app\<lparr>ap_cache := [(ascii ''art-k'', Some demo_tenant)]\<rparr>)"
  by (simp add: require_tenant_def extract_key_def header_def bearer_def str_strip_def is_space_def
      resolve_tenant_by_key_def resolve_def resolve_lookup_def resolve_store_def get_tenant_by_key_hash_def dict_get_def
      dict_set_def cache_max_def demo_auth_defs Let_def ascii_def)


lemma rotated_keys:
  assumes "db_ok db" and "db_ok db'" and "t \<in> set (db_tenants db)" and "tn_key_hash t = sha old"
    and "rotate_key sha token (tn_id t) db app = Inr (Inr (pub, key), db', app')" and "sha key \<noteq> sha old"
  shows "get_tenant_by_key_hash (sha old) db' = None"
    and "\<exists>t'. get_tenant_by_key_hash (sha key) db' = Some t' \<and> tn_id t' = tn_id t"
proof -
  let ?upd = "\<lambda>t. t\<lparr>tn_key_hash := sha key, tn_key_prefix := snd (generate_api_key token)\<rparr>"
  have rows: "db_tenants db' = map (\<lambda>u. if tn_id u = tn_id t then ?upd u else u) (db_tenants db)"
    using assms(5) by (auto simp: rotate_key_def update_tenant_def Let_def split: sum.splits option.splits if_splits)
  have only: "u = t" if "u \<in> set (db_tenants db)" "tn_key_hash u = sha old" for u
    using assms(1,3,4) that by (auto simp: db_ok_def distinct_map inj_on_def)
  show "get_tenant_by_key_hash (sha old) db' = None"
  proof (rule ccontr)
    assume "get_tenant_by_key_hash (sha old) db' \<noteq> None"
    then obtain u where "u \<in> set (db_tenants db')" "tn_key_hash u = sha old" using by_hash_iff [OF assms(2)] by fastforce
    then show False using only assms(6) by (auto simp: rows split: if_splits)
  qed
  have "get_tenant_by_key_hash (sha key) db' = Some (?upd t)"
    using by_hash_iff [OF assms(2)] assms(3) by (force simp: rows)
  then show "\<exists>t'. get_tenant_by_key_hash (sha key) db' = Some t' \<and> tn_id t' = tn_id t" by simp
qed

text \<open>
  Rotating a key takes effect at once: from the next request on the old key is unknown and the
  new one resolves to the same tenant, whatever the cache held before.
\<close>

theorem rotation_immediate:
  assumes "auth_run sha db app" and "t \<in> set (db_tenants db)" and "tn_key_hash t = sha old"
    and "rotate_key sha token (tn_id t) db app = Inr (Inr (pub, key), db', app')" and "sha key \<noteq> sha old"
  shows "fst (resolve sha old db' (ap_cache app')) = None
     \<and> (\<exists>t'. fst (resolve sha key db' (ap_cache app')) = Some t' \<and> tn_id t' = tn_id t)"
proof -
  have "db_ok db" "db_ok db'" "cache_ok db' (ap_cache app')"
    using auth_run_ok [OF assms(1)] auth_run_ok [OF auth_run.rotate [OF assms(1,4)]] by simp_all
  then show ?thesis using rotated_keys [OF _ _ assms(2-5)] resolve_exact(1) by simp
qed

lemma demo_rotate:
  "rotate_key id (ascii ''n'') (ascii ''t-1'') demo_auth_db demo_app
   = Inr (Inr (public_view (demo_tenant\<lparr>tn_key_hash := ascii ''art-n'', tn_key_prefix := ascii ''art-n''\<rparr>), ascii ''art-n''),
          demo_auth_db\<lparr>db_tenants := [demo_tenant\<lparr>tn_key_hash := ascii ''art-n'', tn_key_prefix := ascii ''art-n''\<rparr>]\<rparr>, demo_app)"
  by (simp add: rotate_key_def generate_api_key_def update_tenant_def get_tenant_def invalidate_tenant_def demo_auth_defs ascii_def Let_def)

theorem rotation_immediate_witness:
  "fst (resolve id (ascii ''art-k'')
     (demo_auth_db\<lparr>db_tenants := [demo_tenant\<lparr>tn_key_hash := ascii ''art-n'', tn_key_prefix := ascii ''art-n''\<rparr>]\<rparr>)
     (ap_cache demo_app)) = None"
  using rotation_immediate [OF demo_auth_run, of demo_tenant "ascii ''art-k''" "ascii ''n''"] demo_rotate
  by (simp add: demo_tenant_def demo_auth_db_def ascii_def)

text \<open>
  The promise of immediate effect fails when a request is under way: if a request has read the
  tenant's row for the old key from the database, the key is then rotated and its cache entries
  dropped, and only then the request stores its row in the cache, every later request with the
  old key is accepted, although no tenant of the database has it.
\<close>

theorem rotation_race:
  assumes "auth_run sha db app" and "resolve_lookup sha old db (ap_cache app) = Inr (Some t)"
    and "rotate_key sha token (tn_id t) db app = Inr (Inr (pub, key), db', app')" and "sha key \<noteq> sha old"
    and "cache = resolve_store (sha old) (Some t) (ap_cache app')"
  shows "resolve sha old db' cache = (Some t, cache) \<and> get_tenant_by_key_hash (sha old) db' = None"
proof -
  have ok: "db_ok db" "db_ok db'"
    using auth_run_ok [OF assms(1)] auth_run_ok [OF auth_run.rotate [OF assms(1,3)]] by simp_all
  have "get_tenant_by_key_hash (sha old) db = Some t"
    using assms(2) by (auto simp: resolve_lookup_def split: option.splits)
  then have "t \<in> set (db_tenants db)" "tn_key_hash t = sha old" using by_hash_iff [OF ok(1)] by blast+
  then show ?thesis
    using rotated_keys(1) [OF ok _ _ assms(3,4)] assms(5) by (simp add: resolve_def resolve_lookup_def resolve_store_def)
qed

theorem rotation_race_witness:
  "resolve id (ascii ''art-k'')
     (demo_auth_db\<lparr>db_tenants := [demo_tenant\<lparr>tn_key_hash := ascii ''art-n'', tn_key_prefix := ascii ''art-n''\<rparr>]\<rparr>)
     [(ascii ''art-k'', Some demo_tenant)] = (Some demo_tenant, [(ascii ''art-k'', Some demo_tenant)])"
  using rotation_race [OF demo_auth_run, of "ascii ''art-k''" demo_tenant "ascii ''n''"] demo_rotate
  by (simp add: resolve_lookup_def get_tenant_by_key_hash_def resolve_store_def dict_set_def cache_max_def
      demo_tenant_def demo_auth_db_def demo_app_def ascii_def)

lemma find_map_keep: "(\<And>x. P (f x) = P x) \<Longrightarrow> find P (map f xs) = map_option f (find P xs)"
  by (induction xs) auto

lemma ensure_default_found:
  assumes "db_ok db" and "ensure_default_tenant sha cfg tok1 tok2 now k0 db = Inr (k, db')"
  shows "db_ok db' \<and> k \<noteq> [] \<and> (\<exists>t. get_tenant_by_name default_tenant_name db' = Some t \<and> t \<in> set (db_tenants db')
     \<and> tn_name t = default_tenant_name \<and> tn_enabled t \<and> tn_key_hash t = sha k)"
proof -
  have key: "fst (generate_api_key tok1) \<noteq> []" by (simp add: generate_api_key_def ascii_def Let_def)
  have found: "t \<in> set (db_tenants d) \<and> tn_name t = default_tenant_name"
    if "get_tenant_by_name default_tenant_name d = Some t" for d t
    using that by (auto simp: get_tenant_by_name_def find_Some_iff)
  let ?upd = "\<lambda>t. t\<lparr>tn_key_hash := sha (fst (generate_api_key tok1)), tn_key_prefix := snd (generate_api_key tok1), tn_enabled := True\<rparr>"
  show ?thesis
  proof (cases "get_tenant_by_name default_tenant_name db")
    case None
    then obtain t where c: "create_tenant now (ascii ''t-'' @ tok2) default_tenant_name (sha (fst (generate_api_key tok1)))
        (snd (generate_api_key tok1)) (au_default_quota cfg) db = Inr (t, db')" "k = fst (generate_api_key tok1)"
      using assms(2) by (auto simp: ensure_default_tenant_def Let_def map_sum_Inr_iff)
    have "db_ok db'" using repo_step_ok [OF step_create_tenant [OF c(1)] assms(1)] .
    then show ?thesis using None c key
      by (auto simp: create_tenant_def get_tenant_by_name_def find_append Let_def split: if_splits)
  next
    case (Some row)
    show ?thesis
    proof (cases "k0 \<noteq> [] \<and> tn_enabled row \<and> tn_key_hash row = sha k0")
      case True
      then show ?thesis using Some assms found [OF Some] by (auto simp: ensure_default_tenant_def Let_def)
    next
      case False
      then obtain t where u: "update_tenant (tn_id row) ?upd db = Inr (t, db')" "k = fst (generate_api_key tok1)"
        using assms(2) Some by (auto simp: ensure_default_tenant_def Let_def map_sum_Inr_iff)
      have ok: "db_ok db'" using repo_step_ok [OF step_update_tenant [OF _ u(1)] assms(1)] by simp
      have "get_tenant (tn_id row) db \<noteq> None" using found [OF Some] by (auto simp: get_tenant_def find_None_iff)
      then have "db_tenants db' = map (\<lambda>v. if tn_id v = tn_id row then ?upd v else v) (db_tenants db)"
        using u(1) by (auto simp: update_tenant_def split: option.splits if_splits)
      then have "get_tenant_by_name default_tenant_name db' = Some (?upd row)"
        using Some by (simp add: get_tenant_by_name_def find_map_keep)
      then show ?thesis using ok u(2) key found by fastforce
    qed
  qed
qed

text \<open>
  The bootstrap leaves usable credentials and is idempotent: when it succeeds with
  authentication on, the administrator's key of the file is accepted and not empty, the tenant
  key of the file belongs to the enabled default tenant, and running it again with that file
  changes neither the file nor the database, whatever random tokens it draws.
\<close>

theorem bootstrap_usable:
  assumes "db_ok db" and "au_enabled cfg" and "bootstrap_auth sha cfg tokens now creds db app = Inr (creds', db', app')"
  shows "ap_admin_key app' = cr_admin creds' \<and> cr_admin creds' \<noteq> []
     \<and> (\<exists>t. get_tenant_by_key_hash (sha (cr_default creds')) db' = Some t
            \<and> tn_name t = default_tenant_name \<and> tn_enabled t)
     \<and> bootstrap_auth sha cfg tokens' now' creds' db' app = Inr (creds', db', app')"
proof -
  obtain tok1 tok2 tok3 where tok: "tokens = (tok1, tok2, tok3)" by (metis prod_cases3)
  obtain tok1' tok2' tok3' where tok': "tokens' = (tok1', tok2', tok3')" by (metis prod_cases3)
  obtain k where ens: "ensure_default_tenant sha cfg tok2 tok3 now (cr_default creds) db = Inr (k, db')"
    and k: "cr_default creds' = k" "ap_admin_key app' = cr_admin creds'"
      "cr_admin creds' = (if au_admin_api_key cfg \<noteq> [] then au_admin_api_key cfg
         else if cr_admin creds \<noteq> [] then cr_admin creds else ascii ''adm-'' @ tok1)"
      "app' = app\<lparr>ap_admin_key := cr_admin creds', ap_login_disabled := False\<rparr>"
    using assms(2,3) by (auto simp: bootstrap_auth_def tok Let_def map_sum_Inr_iff split: if_splits)
  have admin: "cr_admin creds' \<noteq> []" using k(3) by (auto simp: ascii_def)
  note t = ensure_default_found [OF assms(1) ens]
  have again: "ensure_default_tenant sha cfg tok2' tok3' now' k db' = Inr (k, db')"
    using t by (auto simp: ensure_default_tenant_def Let_def)
  have "bootstrap_auth sha cfg tokens' now' creds' db' app = Inr (creds', db', app')"
    using assms(2) admin k again by (cases creds') (simp add: bootstrap_auth_def tok' Let_def ascii_def)
  then show ?thesis using t k(1,2) admin by (auto simp: by_hash_iff)
qed

lemma demo_bootstrap:
  "bootstrap_auth id demo_auth (ascii ''a'', ascii ''b'', ascii ''c'') 0 \<lparr>cr_admin = [], cr_default = []\<rparr> empty_db demo_app
   = Inr (\<lparr>cr_admin = ascii ''adm-a'', cr_default = ascii ''art-b''\<rparr>,
          empty_db\<lparr>db_tenants := [\<lparr>tn_id = ascii ''t-c'', tn_name = ascii ''default'', tn_key_hash = ascii ''art-b'',
             tn_key_prefix = ascii ''art-b'', tn_enabled = True, tn_quota = 100, tn_created_at = 0\<rparr>]\<rparr>,
          demo_app\<lparr>ap_admin_key := ascii ''adm-a''\<rparr>)"
  by (simp add: bootstrap_auth_def ensure_default_tenant_def generate_api_key_def create_tenant_def get_tenant_by_name_def
      demo_auth_defs ascii_def Let_def)

theorem bootstrap_usable_witness:
  "bootstrap_auth id demo_auth (ascii ''x'', ascii ''y'', ascii ''z'') 9 \<lparr>cr_admin = ascii ''adm-a'', cr_default = ascii ''art-b''\<rparr>
     (empty_db\<lparr>db_tenants := [\<lparr>tn_id = ascii ''t-c'', tn_name = ascii ''default'', tn_key_hash = ascii ''art-b'',
        tn_key_prefix = ascii ''art-b'', tn_enabled = True, tn_quota = 100, tn_created_at = 0\<rparr>]\<rparr>) demo_app
   = Inr (\<lparr>cr_admin = ascii ''adm-a'', cr_default = ascii ''art-b''\<rparr>,
          empty_db\<lparr>db_tenants := [\<lparr>tn_id = ascii ''t-c'', tn_name = ascii ''default'', tn_key_hash = ascii ''art-b'',
             tn_key_prefix = ascii ''art-b'', tn_enabled = True, tn_quota = 100, tn_created_at = 0\<rparr>]\<rparr>,
          demo_app\<lparr>ap_admin_key := ascii ''adm-a''\<rparr>)"
  using bootstrap_usable [OF empty_db_ok _ demo_bootstrap] by (simp add: demo_auth_def)

text \<open>
  The administrator's endpoints are guarded: a request passes only with the expected key, which
  is never empty; without a key it is answered with 401, with a wrong one with 403 (with 500 when
  a character beyond ASCII is involved), and after too many attempts with 429 and a waiting time.
\<close>

theorem admin_guarded:
  assumes "au_enabled cfg" and "require_admin sliding_allow cfg now rq app st = (r, st')"
    and "expected = (if ap_admin_key app \<noteq> [] then ap_admin_key app else au_admin_api_key cfg)"
  shows "(r = Inr () \<longrightarrow> admin_key_from rq = expected \<and> expected \<noteq> [])
     \<and> (\<forall>e. r = Inl e \<longrightarrow>
          he_status e = 429 \<and> (\<exists>n \<ge> 1. he_retry e = Some n) \<or> he_status e = 401 \<and> admin_key_from rq = []
          \<or> he_status e = 403 \<and> (expected = [] \<or> admin_key_from rq \<noteq> expected)
          \<or> he_status e = 500 \<and> (\<exists>c \<in> set (admin_key_from rq @ expected). 128 \<le> c))"
proof -
  let ?g = "if 0 < au_admin_fail_per_min cfg
      then rate_guard sliding_allow now (ascii ''admin:'' @ (case rq_client rq of None \<Rightarrow> ascii ''unknown'' | Some c \<Rightarrow> c))
             (au_admin_fail_per_min cfg) st
      else (Inr (), st)"
  obtain x s1 where g: "?g = (x, s1)" by fastforce
  have err: "he_status e = 429 \<and> (\<exists>n \<ge> 1. he_retry e = Some n)" if "x = Inl e" for e
    using g that by (auto dest!: sw.guard_error split: if_splits)
  have "r = (case x of Inl e \<Rightarrow> Inl e
      | Inr _ \<Rightarrow> if admin_key_from rq = [] then Inl (http_exception 401)
                else if expected = [] then Inl (http_exception 403)
                else if (\<exists>c \<in> set (admin_key_from rq @ expected). 128 \<le> c) then Inl (http_exception 500)
                else if admin_key_from rq \<noteq> expected then Inl (http_exception 403) else Inr ())"
    using assms(2) unfolding require_admin_def Let_def assms(3) [symmetric] g using assms(1)
    by (cases x) auto
  then show ?thesis using err by (auto simp: http_exception_def split: sum.splits if_splits)
qed

theorem admin_guarded_witness:
  "fst (require_admin sliding_allow demo_auth 0 (demo_request\<lparr>rq_headers := [(ascii ''x-admin-key'', ascii ''adm'')]\<rparr>) demo_app [])
     = Inr () \<and> admin_key_from (demo_request\<lparr>rq_headers := [(ascii ''x-admin-key'', ascii ''adm'')]\<rparr>) = ascii ''adm''"
proof -
  let ?rq = "demo_request\<lparr>rq_headers := [(ascii ''x-admin-key'', ascii ''adm'')]\<rparr>"
  have pass: "require_admin sliding_allow demo_auth 0 ?rq demo_app [] = (Inr (), [(ascii ''admin:10.0.0.1'', [0])])"
    by (simp add: require_admin_def rate_guard_def sliding_allow_def hits_of_def dict_get_def dict_set_def max_keys_def
        admin_key_from_def header_def str_strip_def is_space_def demo_auth_defs ascii_def Let_def)
  show ?thesis
    using pass admin_guarded [OF _ pass, of "ascii ''adm''"] by (simp add: demo_auth_def demo_app_def)
qed

end
