(* ===== verification/Spans.thy ===== *)
theory Spans
  imports Repository
begin

text \<open>
  Traces and spans: the parsing of \<open>traceparent\<close> and the context variables of
  \<^verbatim>\<open>app/observability/context.py\<close>, the span sessions, the buffer of the process, the self times
  and the tree of \<^verbatim>\<open>app/observability/spans.py\<close>, and \<open>flush_spans\<close> of
  \<^verbatim>\<open>app/graph/engine.py\<close>. Random ids, the two clocks and the variable \<open>TRACE_ID\<close> of the environment are
  arguments. The context variables of one coroutine are a record; a token is the value it
  restores.
\<close>

section \<open>Trace context\<close>

record traceparent =
  tp_version :: pystr
  tp_trace :: pystr
  tp_parent :: pystr
  tp_flags :: pystr

record trace_ctx =
  cx_trace :: pystr
  cx_task :: pystr
  cx_span :: pystr

definition is_hex :: "nat \<Rightarrow> bool" where
  "is_hex c \<longleftrightarrow> 48 \<le> c \<and> c \<le> 57 \<or> 97 \<le> c \<and> c \<le> 102"

definition hex_field :: "nat \<Rightarrow> pystr \<Rightarrow> bool" where
  "hex_field n s \<longleftrightarrow> length s = n \<and> (\<forall>c \<in> set s. is_hex c)"

definition invalid_trace_id :: pystr where
  "invalid_trace_id = replicate 32 48"

definition root_parent_id :: pystr where
  "root_parent_id = replicate 16 48"

definition parse_traceparent_full :: "pystr option \<Rightarrow> traceparent option" where
  "parse_traceparent_full header =
     (case header of
        None \<Rightarrow> None
      | Some s \<Rightarrow>
          (if s = [] then None
           else case str_split 45 s of
             [version, trace_id, parent_id, flags] \<Rightarrow>
               (if \<not> hex_field 2 version then None
                else if \<not> hex_field 32 trace_id then None
                else if \<not> hex_field 16 parent_id then None
                else if \<not> hex_field 2 flags then None
                else if trace_id = invalid_trace_id \<or> parent_id = root_parent_id then None
                else Some \<lparr>tp_version = version, tp_trace = trace_id, tp_parent = parent_id, tp_flags = flags\<rparr>)
           | _ \<Rightarrow> None))"

definition parse_traceparent :: "pystr option \<Rightarrow> pystr" where
  "parse_traceparent header = (case parse_traceparent_full header of None \<Rightarrow> [] | Some tp \<Rightarrow> tp_trace tp)"

text \<open>Returns the trace id, the token and the new context; \<open>fresh\<close> is the generated id.\<close>

definition bind_trace :: "pystr \<Rightarrow> pystr option \<Rightarrow> trace_ctx \<Rightarrow> pystr \<times> pystr \<times> trace_ctx" where
  "bind_trace fresh header cx =
     (case parse_traceparent_full header of
        None \<Rightarrow> (fresh, cx_trace cx, cx\<lparr>cx_trace := fresh\<rparr>)
      | Some tp \<Rightarrow> (tp_trace tp, cx_trace cx, cx\<lparr>cx_trace := tp_trace tp, cx_span := tp_parent tp\<rparr>))"

definition current_trace_id :: "pystr \<Rightarrow> trace_ctx \<Rightarrow> pystr" where
  "current_trace_id env cx = (if cx_trace cx = [] then env else cx_trace cx)"

definition current_parent_span_id :: "trace_ctx \<Rightarrow> pystr" where
  "current_parent_span_id cx = (if cx_span cx = [] then root_parent_id else cx_span cx)"

section \<open>The buffer\<close>

record span_buffer =
  bf_pending :: "span_dict list"
  bf_max :: nat

text \<open>A full buffer loses its oldest span; \<open>pop(0)\<close> of an empty list, with a bound of zero, raises.\<close>

definition buffer_add :: "span_dict \<Rightarrow> span_buffer \<Rightarrow> span_buffer option" where
  "buffer_add s b =
     (if length (bf_pending b) \<ge> bf_max b
      then (case bf_pending b of [] \<Rightarrow> None | _ # rest \<Rightarrow> Some (b\<lparr>bf_pending := rest @ [s]\<rparr>))
      else Some (b\<lparr>bf_pending := bf_pending b @ [s]\<rparr>))"

definition drain :: "span_buffer \<Rightarrow> span_dict list \<times> span_buffer" where
  "drain b = (bf_pending b, b\<lparr>bf_pending := []\<rparr>)"

definition drain_for :: "pystr \<Rightarrow> span_buffer \<Rightarrow> span_dict list \<times> span_buffer" where
  "drain_for tid b =
     (let mine = filter (\<lambda>s. sp_task s = tid) (bf_pending b)
      in (mine, if mine = [] then b else b\<lparr>bf_pending := filter (\<lambda>s. sp_task s \<noteq> tid) (bf_pending b)\<rparr>))"

section \<open>Span sessions\<close>

text \<open>\<open>_start\<close> is the monotonic clock; \<open>sh_end = 0\<close> while the span is open.\<close>

record span_handle =
  sh_kind :: pystr
  sh_name :: pystr
  sh_trace :: pystr
  sh_id :: pystr
  sh_parent :: pystr
  sh_start :: seconds
  sh_end :: seconds
  sh_duration_ms :: real
  sh_status :: pystr
  sh_attributes :: "json dict"

record span_session =
  ss_handle :: span_handle
  ss_token :: pystr
  ss_trace_token :: pystr
  ss_task :: pystr
  ss_closed :: bool

definition new_handle :: "pystr \<Rightarrow> pystr \<Rightarrow> pystr \<Rightarrow> pystr \<Rightarrow> pystr \<Rightarrow> seconds \<Rightarrow> span_handle" where
  "new_handle kind name trace_id parent fresh perf =
     \<lparr>sh_kind = kind, sh_name = name, sh_trace = trace_id, sh_id = fresh,
      sh_parent = (if parent = [] then root_parent_id else parent), sh_start = perf, sh_end = 0,
      sh_duration_ms = 0, sh_status = ascii ''ok'', sh_attributes = []\<rparr>"

definition begin_span :: "pystr \<Rightarrow> pystr \<Rightarrow> seconds \<Rightarrow> pystr \<Rightarrow> pystr \<Rightarrow> pystr \<Rightarrow> json dict \<Rightarrow> trace_ctx
     \<Rightarrow> span_session \<times> trace_ctx" where
  "begin_span env fresh perf kind name trace_id attributes cx =
     (let trace = (if trace_id \<noteq> [] then trace_id
                   else if current_trace_id env cx \<noteq> [] then current_trace_id env cx else ascii ''-'');
          handle = new_handle kind name trace (current_parent_span_id cx) fresh perf;
          handle1 = handle\<lparr>sh_attributes := fold (\<lambda>(k, v). dict_set k v) attributes (sh_attributes handle)\<rparr>
      in (\<lparr>ss_handle = handle1, ss_token = cx_span cx, ss_trace_token = cx_trace cx, ss_task = cx_task cx,
           ss_closed = False\<rparr>,
          cx\<lparr>cx_trace := trace, cx_span := fresh\<rparr>))"

definition set_attribute :: "pystr \<Rightarrow> json \<Rightarrow> span_handle \<Rightarrow> span_handle" where
  "set_attribute k v h = h\<lparr>sh_attributes := dict_set k v (sh_attributes h)\<rparr>"

definition set_status :: "pystr \<Rightarrow> span_handle \<Rightarrow> span_handle" where
  "set_status st h = h\<lparr>sh_status := st\<rparr>"

definition close_handle :: "seconds \<Rightarrow> seconds \<Rightarrow> span_handle \<Rightarrow> span_handle" where
  "close_handle perf wall h =
     (if sh_end h \<noteq> 0 then h else h\<lparr>sh_duration_ms := (perf - sh_start h) * 1000, sh_end := wall\<rparr>)"

definition start_ts :: "seconds \<Rightarrow> span_handle \<Rightarrow> seconds" where
  "start_ts wall h = (if sh_end h \<noteq> 0 then sh_end h - sh_duration_ms h / 1000 else wall)"

text \<open>\<open>to_dict\<close>; the key \<open>task_id\<close>, which \<open>end\<close> adds, is an argument.\<close>

definition to_dict :: "seconds \<Rightarrow> pystr \<Rightarrow> span_handle \<Rightarrow> span_dict" where
  "to_dict wall tid h =
     \<lparr>sp_trace = sh_trace h, sp_id = sh_id h, sp_parent = sh_parent h, sp_kind = sh_kind h, sp_name = sh_name h,
      sp_task = tid, sp_start = start_ts wall h, sp_end = (if sh_end h \<noteq> 0 then sh_end h else wall),
      sp_duration_ms = sh_duration_ms h, sp_status = sh_status h, sp_attributes = JObj (sh_attributes h)\<rparr>"

text \<open>\<open>exc\<close> is the class name of the exception that ends the span.\<close>

definition end_span :: "seconds \<Rightarrow> seconds \<Rightarrow> pystr option \<Rightarrow> span_session \<Rightarrow> trace_ctx \<Rightarrow> span_buffer
     \<Rightarrow> (span_session \<times> trace_ctx \<times> span_buffer) option" where
  "end_span perf wall exc ss cx b =
     (if ss_closed ss then Some (ss, cx, b)
      else (let cx1 = cx\<lparr>cx_span := ss_token ss, cx_trace := ss_trace_token ss\<rparr>;
                h1 = (case exc of None \<Rightarrow> ss_handle ss
                      | Some c \<Rightarrow> set_attribute (ascii ''error'') (JStr c) (set_status (ascii ''error'') (ss_handle ss)));
                h2 = close_handle perf wall h1
            in map_option (\<lambda>b1. (ss\<lparr>ss_handle := h2, ss_closed := True\<rparr>, cx1, b1))
                 (buffer_add (to_dict wall (ss_task ss) h2) b)))"

section \<open>Self times and the tree\<close>

definition child_ms :: "span_dict list \<Rightarrow> pystr \<Rightarrow> real" where
  "child_ms spans i = (\<Sum>c\<leftarrow>filter (\<lambda>c. sp_parent c = i) spans. sp_duration_ms c)"

definition self_time_ms :: "span_dict list \<Rightarrow> real dict" where
  "self_time_ms spans =
     fold (\<lambda>s out. dict_set (sp_id s) (max 0 (sp_duration_ms s - child_ms spans (sp_id s))) out) spans []"

datatype span_tree = SpanTree (tree_span: span_dict) (tree_self_ms: real) (tree_children: "span_tree list")

text \<open>
  The dictionary \<open>nodes\<close> has the last span of an id. The nodes below a node are sorted by
  duration, longest first, and the sorting is stable. The tree is unfolded with fuel; a node
  that is its own descendant would make the recursive sorting of the code run for ever.
\<close>

definition node_of :: "span_dict list \<Rightarrow> pystr \<Rightarrow> span_dict option" where
  "node_of spans i = find (\<lambda>s. sp_id s = i) (rev spans)"

definition span_ids :: "span_dict list \<Rightarrow> pystr list" where
  "span_ids spans = map sp_id spans"

definition is_root :: "span_dict list \<Rightarrow> span_dict \<Rightarrow> bool" where
  "is_root spans s \<longleftrightarrow> sp_parent s \<notin> set (span_ids spans) \<or> sp_parent s = sp_id s"

definition by_duration :: "span_dict list \<Rightarrow> span_dict list \<Rightarrow> span_dict list" where
  "by_duration spans items =
     sort_key (\<lambda>s. - sp_duration_ms s) (List.map_filter (\<lambda>s. node_of spans (sp_id s)) items)"

definition children_of :: "span_dict list \<Rightarrow> pystr \<Rightarrow> span_dict list" where
  "children_of spans i = by_duration spans (filter (\<lambda>s. sp_parent s = i \<and> \<not> is_root spans s) spans)"

text \<open>\<open>round(x, 3)\<close>.\<close>

definition round_ms :: "real \<Rightarrow> real" where
  "round_ms x = of_int (round_half_even (x * 1000)) / 1000"

fun grow_tree :: "nat \<Rightarrow> span_dict list \<Rightarrow> span_dict \<Rightarrow> span_tree option" where
  "grow_tree 0 spans s = None"
| "grow_tree (Suc n) spans s =
     map_option (SpanTree s (round_ms (case dict_get (self_time_ms spans) (sp_id s) of None \<Rightarrow> 0 | Some x \<Rightarrow> x)))
       (those (map (grow_tree n spans) (children_of spans (sp_id s))))"

definition build_tree :: "span_dict list \<Rightarrow> span_tree list option" where
  "build_tree spans =
     those (map (grow_tree (length spans) spans) (by_duration spans (filter (is_root spans) spans)))"

section \<open>Flushing\<close>

text \<open>
  \<open>sink\<close> is \<open>None\<close> for an engine without a span sink; a write that raises is \<open>None\<close>.
\<close>

definition flush_spans :: "int \<Rightarrow> (span_dict list \<Rightarrow> 's \<Rightarrow> 's option) option \<Rightarrow> pystr \<Rightarrow> nat dict \<Rightarrow> span_buffer \<Rightarrow> 's
     \<Rightarrow> nat \<times> nat dict \<times> span_buffer \<times> 's" where
  "flush_spans max_per_task sink tid counts b st =
     (case sink of
        None \<Rightarrow> (0, counts, snd (drain b), st)
      | Some write \<Rightarrow>
          (let b1 = snd (drain_for tid b);
               pending = filter (\<lambda>s. sp_trace s \<noteq> ascii ''-'') (fst (drain_for tid b));
               used = (case dict_get counts tid of None \<Rightarrow> 0 | Some n \<Rightarrow> n);
               cap = nat (max 0 max_per_task);
               kept = (if 0 < cap \<and> cap < used + length pending then take (cap - used) pending else pending)
           in if kept = [] then (0, counts, b1, st)
              else case write kept st of
                     None \<Rightarrow> (0, counts, b1, st)
                   | Some st1 \<Rightarrow> (length kept, dict_set tid (used + length kept) counts, b1, st1)))"

section \<open>Parsing is exact\<close>

definition traceparent_text :: "traceparent \<Rightarrow> pystr" where
  "traceparent_text tp = str_join [45] [tp_version tp, tp_trace tp, tp_parent tp, tp_flags tp]"

definition valid_traceparent :: "traceparent \<Rightarrow> bool" where
  "valid_traceparent tp \<longleftrightarrow> hex_field 2 (tp_version tp) \<and> hex_field 32 (tp_trace tp) \<and> hex_field 16 (tp_parent tp)
     \<and> hex_field 2 (tp_flags tp) \<and> tp_trace tp \<noteq> invalid_trace_id \<and> tp_parent tp \<noteq> root_parent_id"

lemma hex_field_no_dash: "hex_field n s \<Longrightarrow> 45 \<notin> set s"
  by (auto simp: hex_field_def is_hex_def)

lemma split_traceparent_text:
  assumes "valid_traceparent tp"
  shows "str_split 45 (traceparent_text tp) = [tp_version tp, tp_trace tp, tp_parent tp, tp_flags tp]"
proof -
  have "45 \<notin> set (tp_version tp) \<and> 45 \<notin> set (tp_trace tp) \<and> 45 \<notin> set (tp_parent tp) \<and> 45 \<notin> set (tp_flags tp)"
    using assms hex_field_no_dash by (auto simp: valid_traceparent_def)
  then show ?thesis by (simp add: traceparent_text_def str_split_append str_split_plain)
qed

text \<open>
  Parsing of \<open>traceparent\<close> is exact and lossless: it accepts precisely the texts of valid
  headers (four dash-separated fields of lower-case hexadecimal digits with the lengths of the
  standard, neither id all zero) and returns the fields they were written from.
\<close>

theorem traceparent_exact:
  "parse_traceparent_full (Some s) = Some tp \<longleftrightarrow> valid_traceparent tp \<and> s = traceparent_text tp"
proof
  assume "parse_traceparent_full (Some s) = Some tp"
  then have "valid_traceparent tp \<and> str_split 45 s = [tp_version tp, tp_trace tp, tp_parent tp, tp_flags tp]"
    by (auto simp: parse_traceparent_full_def valid_traceparent_def split: if_splits list.splits)
  then show "valid_traceparent tp \<and> s = traceparent_text tp"
    by (metis str_join_split traceparent_text_def)
next
  assume tp: "valid_traceparent tp \<and> s = traceparent_text tp"
  then have "s \<noteq> []" by (auto simp: traceparent_text_def)
  then show "parse_traceparent_full (Some s) = Some tp"
    using tp split_traceparent_text [of tp] by (simp add: parse_traceparent_full_def valid_traceparent_def)
qed

section \<open>The tree has every span once\<close>

fun flat :: "span_tree \<Rightarrow> span_dict list" where
  "flat (SpanTree s x cs) = s # concat (map flat cs)"

definition ranked :: "(pystr \<Rightarrow> nat) \<Rightarrow> span_dict list \<Rightarrow> bool" where
  "ranked rank spans \<longleftrightarrow> distinct (span_ids spans)
     \<and> (\<forall>s \<in> set spans. sp_parent s \<in> set (span_ids spans) \<longrightarrow> rank (sp_parent s) < rank (sp_id s))"

lemma ranked_distinct: "ranked rank spans \<Longrightarrow> distinct spans"
  by (auto simp: ranked_def span_ids_def distinct_map)

lemma ranked_root: "ranked rank spans \<Longrightarrow> s \<in> set spans \<Longrightarrow> is_root spans s \<longleftrightarrow> sp_parent s \<notin> set (span_ids spans)"
  by (auto simp: ranked_def is_root_def)

lemma same_id: "ranked rank spans \<Longrightarrow> s \<in> set spans \<Longrightarrow> t \<in> set spans \<Longrightarrow> sp_id s = sp_id t \<Longrightarrow> s = t"
  by (auto simp: ranked_def span_ids_def distinct_map inj_on_def)

lemma node_of_self:
  assumes "ranked rank spans" and "s \<in> set spans"
  shows "node_of spans (sp_id s) = Some s"
proof -
  obtain t where t: "node_of spans (sp_id s) = Some t"
    using assms(2) by (cases "node_of spans (sp_id s)") (auto simp: node_of_def find_None_iff)
  then have "t \<in> set (rev spans) \<and> sp_id t = sp_id s"
    unfolding node_of_def find_Some_iff using nth_mem by blast
  then show ?thesis using t same_id [OF assms(1), of t s] assms(2) by auto
qed

lemma map_filter_self: "(\<And>x. x \<in> set xs \<Longrightarrow> f x = Some x) \<Longrightarrow> List.map_filter f xs = xs"
  by (induction xs) (simp_all add: map_filter_simps)

lemma mset_by_duration:
  assumes "ranked rank spans" and "set items \<subseteq> set spans"
  shows "mset (by_duration spans items) = mset items"
proof -
  have "List.map_filter (\<lambda>s. node_of spans (sp_id s)) items = items"
    using assms node_of_self by (intro map_filter_self) blast
  then show ?thesis by (simp add: by_duration_def)
qed

lemma children_of_facts:
  assumes "ranked rank spans"
  shows "set (children_of spans i) = {c \<in> set spans. sp_parent c = i \<and> i \<in> set (span_ids spans)}"
    and "distinct (children_of spans i)"
proof -
  let ?items = "filter (\<lambda>s. sp_parent s = i \<and> \<not> is_root spans s) spans"
  have ms: "mset (children_of spans i) = mset ?items"
    unfolding children_of_def by (rule mset_by_duration [OF assms]) auto
  have "set (children_of spans i) = set ?items" using ms by (metis set_mset_mset)
  then show "set (children_of spans i) = {c \<in> set spans. sp_parent c = i \<and> i \<in> set (span_ids spans)}"
    using ranked_root [OF assms] by auto
  show "distinct (children_of spans i)"
    using ms ranked_distinct [OF assms] by (metis distinct_filter mset_eq_imp_distinct_iff)
qed

text \<open>The spans below a span, itself included.\<close>

definition parent_rel :: "span_dict list \<Rightarrow> (span_dict \<times> span_dict) set" where
  "parent_rel spans = {(c, p). c \<in> set spans \<and> p \<in> set spans \<and> sp_parent c = sp_id p}"

definition below :: "span_dict list \<Rightarrow> span_dict \<Rightarrow> span_dict set" where
  "below spans s = {t. (t, s) \<in> (parent_rel spans)\<^sup>*}"

lemma below_subset: "s \<in> set spans \<Longrightarrow> below spans s \<subseteq> set spans"
proof
  fix t assume "s \<in> set spans" "t \<in> below spans s"
  then show "t \<in> set spans" by (auto simp: below_def parent_rel_def elim: converse_rtranclE)
qed

lemma below_unfold:
  assumes "ranked rank spans" and "s \<in> set spans"
  shows "below spans s = insert s (\<Union>c \<in> set (children_of spans (sp_id s)). below spans c)"
proof -
  have "(c, s) \<in> parent_rel spans \<longleftrightarrow> c \<in> set (children_of spans (sp_id s))" for c
    using assms(2) by (auto simp: parent_rel_def children_of_facts(1) [OF assms(1)] span_ids_def)
  then show ?thesis by (auto simp: below_def elim: rtranclE intro: rtrancl_into_rtrancl)
qed

lemma below_rank:
  assumes "ranked rank spans" and "(t, s) \<in> (parent_rel spans)\<^sup>*"
  shows "t = s \<or> rank (sp_id s) < rank (sp_id t)"
  using assms(2)
proof (induction rule: converse_rtrancl_induct)
  case (step t u)
  then have "rank (sp_id u) < rank (sp_id t)"
    using assms(1) by (auto simp: parent_rel_def ranked_def span_ids_def)
  then show ?case using step by auto
qed simp

lemma below_disjoint:
  assumes "ranked rank spans" and "sp_parent c = sp_parent d \<or> is_root spans c \<and> is_root spans d"
    and "c \<in> set spans" "d \<in> set spans" "c \<noteq> d"
  shows "below spans c \<inter> below spans d = {}"
proof (rule ccontr)
  assume "below spans c \<inter> below spans d \<noteq> {}"
  then obtain t where t: "(t, c) \<in> (parent_rel spans)\<^sup>*" "(t, d) \<in> (parent_rel spans)\<^sup>*" by (auto simp: below_def)
  have "single_valued (parent_rel spans)"
    using same_id [OF assms(1)] by (auto simp: single_valued_def parent_rel_def)
  then have "(c, d) \<in> (parent_rel spans)\<^sup>* \<or> (d, c) \<in> (parent_rel spans)\<^sup>*"
    using single_valued_confluent t by metis
  moreover have False if x: "x \<in> set spans" "y \<in> set spans" "x \<noteq> y" "(x, y) \<in> (parent_rel spans)\<^sup>*"
      "sp_parent x = sp_parent y \<or> is_root spans x \<and> is_root spans y" for x y
  proof -
    obtain p where p: "(x, p) \<in> parent_rel spans" "(p, y) \<in> (parent_rel spans)\<^sup>*" using x(3,4) by (meson converse_rtranclE)
    then have px: "p \<in> set spans" "sp_parent x = sp_id p" by (auto simp: parent_rel_def)
    then have "\<not> is_root spans x" using ranked_root [OF assms(1) x(1)] by (auto simp: span_ids_def)
    then have "sp_parent y = sp_id p" using x(5) px by simp
    then have "rank (sp_id p) < rank (sp_id y)" using assms(1) x(2) px(1) by (auto simp: ranked_def span_ids_def)
    then show False using below_rank [OF assms(1) p(2)] by auto
  qed
  ultimately show False using assms(2-5) by metis
qed

lemma those_map:
  "(\<And>x. x \<in> set xs \<Longrightarrow> \<exists>y. f x = Some y \<and> Q x y) \<Longrightarrow> \<exists>ys. those (map f xs) = Some ys \<and> list_all2 Q xs ys"
proof (induction xs)
  case (Cons x xs)
  obtain y where "f x = Some y" "Q x y" using Cons.prems [of x] by auto
  moreover obtain ys where "those (map f xs) = Some ys" "list_all2 Q xs ys" using Cons by auto
  ultimately show ?case by auto
qed simp

lemma mset_forest:
  "list_all2 (\<lambda>c t. mset (flat t) = mset_set (D c)) cs ts \<Longrightarrow> distinct cs \<Longrightarrow> (\<And>c. c \<in> set cs \<Longrightarrow> finite (D c))
     \<Longrightarrow> (\<And>c d. c \<in> set cs \<Longrightarrow> d \<in> set cs \<Longrightarrow> c \<noteq> d \<Longrightarrow> D c \<inter> D d = {})
     \<Longrightarrow> mset (concat (map flat ts)) = mset_set (\<Union>c \<in> set cs. D c)"
proof (induction rule: list_all2_induct)
  case (Cons c cs t ts)
  have "D c \<inter> (\<Union>d \<in> set cs. D d) = {}" using Cons.prems(1,3) by fastforce
  then show ?case using Cons by (simp add: mset_set_Union)
qed simp

lemma grow_tree_below:
  assumes "ranked rank spans" and "s \<in> set spans" and "card {t \<in> set spans. rank (sp_id s) < rank (sp_id t)} < n"
  shows "\<exists>t. grow_tree n spans s = Some t \<and> mset (flat t) = mset_set (below spans s)"
  using assms(2,3)
proof (induction n arbitrary: s)
  case (Suc n)
  let ?cs = "children_of spans (sp_id s)"
  have cs: "c \<in> set spans" "sp_parent c = sp_id s" "rank (sp_id s) < rank (sp_id c)" if "c \<in> set ?cs" for c
    using that assms(1) by (auto simp: children_of_facts(1) [OF assms(1)] ranked_def)
  have "\<exists>t. grow_tree n spans c = Some t \<and> mset (flat t) = mset_set (below spans c)" if c: "c \<in> set ?cs" for c
  proof (rule Suc.IH [OF cs(1) [OF c]])
    have "{t \<in> set spans. rank (sp_id c) < rank (sp_id t)} \<subset> {t \<in> set spans. rank (sp_id s) < rank (sp_id t)}"
      using cs [OF c] by auto
    then have "card {t \<in> set spans. rank (sp_id c) < rank (sp_id t)} < card {t \<in> set spans. rank (sp_id s) < rank (sp_id t)}"
      by (intro psubset_card_mono) auto
    then show "card {t \<in> set spans. rank (sp_id c) < rank (sp_id t)} < n" using Suc.prems(2) by simp
  qed
  then obtain ts where ts: "those (map (grow_tree n spans) ?cs) = Some ts"
      "list_all2 (\<lambda>c t. mset (flat t) = mset_set (below spans c)) ?cs ts"
    using those_map [of ?cs "grow_tree n spans" "\<lambda>c t. mset (flat t) = mset_set (below spans c)"] by auto
  have fin: "finite (below spans c)" if "c \<in> set spans" for c using below_subset [OF that] finite_subset by blast
  have "mset (concat (map flat ts)) = mset_set (\<Union>c \<in> set ?cs. below spans c)"
    using ts(2) children_of_facts(2) [OF assms(1)] fin cs below_disjoint [OF assms(1)]
    by (intro mset_forest) auto
  moreover have "s \<notin> (\<Union>c \<in> set ?cs. below spans c)" using cs below_rank [OF assms(1)] by (fastforce simp: below_def)
  ultimately show ?case using ts(1) fin cs by (simp add: below_unfold [OF assms(1) Suc.prems(1)])
qed simp

lemma below_some_root:
  assumes "ranked rank spans" and "s \<in> set spans"
  shows "\<exists>r \<in> set spans. is_root spans r \<and> s \<in> below spans r"
  using assms(2)
proof (induction "rank (sp_id s)" arbitrary: s rule: less_induct)
  case less
  show ?case
  proof (cases "is_root spans s")
    case False
    then obtain p where p: "p \<in> set spans" "sp_parent s = sp_id p"
      using ranked_root [OF assms(1) less.prems] by (auto simp: span_ids_def)
    then have "rank (sp_id p) < rank (sp_id s)" using assms(1) less.prems by (auto simp: ranked_def span_ids_def)
    then obtain r where "r \<in> set spans" "is_root spans r" "p \<in> below spans r" using less.hyps p(1) by blast
    moreover have "(s, p) \<in> parent_rel spans" using p less.prems by (simp add: parent_rel_def)
    ultimately show ?thesis by (auto simp: below_def intro: converse_rtrancl_into_rtrancl)
  qed (use less.prems in \<open>auto simp: below_def\<close>)
qed

lemma build_tree_complete:
  assumes "ranked rank spans"
  shows "\<exists>f. build_tree spans = Some f \<and> mset (concat (map flat f)) = mset spans"
proof -
  let ?rs = "by_duration spans (filter (is_root spans) spans)"
  have ms: "mset ?rs = mset (filter (is_root spans) spans)" by (rule mset_by_duration [OF assms]) auto
  then have rs: "set ?rs = {r \<in> set spans. is_root spans r}" by (metis set_mset_mset set_filter)
  have dist: "distinct ?rs" using ms ranked_distinct [OF assms] by (metis distinct_filter mset_eq_imp_distinct_iff)
  have "card {t \<in> set spans. rank (sp_id r) < rank (sp_id t)} < length spans" if "r \<in> set spans" for r
  proof -
    have "{t \<in> set spans. rank (sp_id r) < rank (sp_id t)} \<subset> set spans" using that by auto
    then have "card {t \<in> set spans. rank (sp_id r) < rank (sp_id t)} < card (set spans)" by (intro psubset_card_mono) auto
    then show ?thesis using card_length [of spans] by simp
  qed
  then obtain f where f: "those (map (grow_tree (length spans) spans) ?rs) = Some f"
      "list_all2 (\<lambda>c t. mset (flat t) = mset_set (below spans c)) ?rs f"
    using those_map [of ?rs "grow_tree (length spans) spans" "\<lambda>c t. mset (flat t) = mset_set (below spans c)"]
      grow_tree_below [OF assms] rs by auto
  have "mset (concat (map flat f)) = mset_set (\<Union>c \<in> set ?rs. below spans c)"
  proof (rule mset_forest [OF f(2) dist])
    show "finite (below spans c)" if "c \<in> set ?rs" for c
      using that rs below_subset [of c spans] finite_subset by auto
    show "below spans c \<inter> below spans d = {}" if "c \<in> set ?rs" "d \<in> set ?rs" "c \<noteq> d" for c d
      using that rs below_disjoint [OF assms, of c d] by auto
  qed
  also have "(\<Union>c \<in> set ?rs. below spans c) = set spans"
  proof
    show "(\<Union>c \<in> set ?rs. below spans c) \<subseteq> set spans" using rs below_subset by auto
    show "set spans \<subseteq> (\<Union>c \<in> set ?rs. below spans c)" using rs below_some_root [OF assms] by auto
  qed
  finally show ?thesis using f(1) mset_set_set [OF ranked_distinct [OF assms]] by (simp add: build_tree_def)
qed

section \<open>Self times\<close>

lemma dict_get_fold:
  assumes "distinct (map k xs)" and "x \<in> set xs"
  shows "dict_get (fold (\<lambda>s out. dict_set (k s) (v s) out) xs d) (k x) = Some (v x)"
  using assms
proof (induction xs arbitrary: d)
  case (Cons y ys)
  have skip: "i \<notin> k ` set zs \<Longrightarrow> dict_get (fold (\<lambda>s out. dict_set (k s) (v s) out) zs e) i = dict_get e i" for i zs e
    by (induction zs arbitrary: e) auto
  show ?case using Cons skip by (cases "x = y") auto
qed simp

lemma self_time_of:
  "ranked rank spans \<Longrightarrow> s \<in> set spans
     \<Longrightarrow> dict_get (self_time_ms spans) (sp_id s) = Some (max 0 (sp_duration_ms s - child_ms spans (sp_id s)))"
  unfolding self_time_ms_def
  by (rule dict_get_fold [where v = "\<lambda>s. max 0 (sp_duration_ms s - child_ms spans (sp_id s))"]) (auto simp: ranked_def span_ids_def)

lemma child_ms_sum:
  assumes "distinct spans"
  shows "child_ms spans i = (\<Sum>c \<in> set spans. if sp_parent c = i then sp_duration_ms c else 0)"
proof -
  have "child_ms spans i = (\<Sum>c \<in> set (filter (\<lambda>c. sp_parent c = i) spans). sp_duration_ms c)"
    using assms by (simp add: child_ms_def sum_list_distinct_conv_sum_set)
  then show ?thesis by (simp add: sum.If_cases Int_def)
qed

lemma self_times_add_up:
  assumes "ranked rank spans" and "\<forall>s \<in> set spans. child_ms spans (sp_id s) \<le> sp_duration_ms s"
  shows "(\<Sum>s\<leftarrow>spans. the (dict_get (self_time_ms spans) (sp_id s))) = (\<Sum>s\<leftarrow>filter (is_root spans) spans. sp_duration_ms s)"
proof -
  note dist = ranked_distinct [OF assms(1)]
  let ?d = sp_duration_ms and ?S = "set spans"
  have one: "(\<Sum>s \<in> ?S. if sp_parent c = sp_id s then ?d c else 0) = (if is_root spans c then 0 else ?d c)" if c: "c \<in> ?S" for c
  proof (cases "is_root spans c")
    case True
    then show ?thesis using ranked_root [OF assms(1) c] by (auto simp: span_ids_def intro!: sum.neutral)
  next
    case False
    then obtain p where p: "p \<in> ?S" "sp_parent c = sp_id p" using ranked_root [OF assms(1) c] by (auto simp: span_ids_def)
    have "(\<Sum>s \<in> ?S. if sp_parent c = sp_id s then ?d c else 0) = (\<Sum>s \<in> ?S. if s = p then ?d c else 0)"
      using p same_id [OF assms(1)] by (intro sum.cong) auto
    then show ?thesis using p False by simp
  qed
  have "(\<Sum>s\<leftarrow>spans. the (dict_get (self_time_ms spans) (sp_id s))) = (\<Sum>s \<in> ?S. ?d s - child_ms spans (sp_id s))"
    using self_time_of [OF assms(1)] assms(2) by (simp add: sum_list_distinct_conv_sum_set dist)
  also have "\<dots> = sum ?d ?S - (\<Sum>s \<in> ?S. \<Sum>c \<in> ?S. if sp_parent c = sp_id s then ?d c else 0)"
    by (simp add: sum_subtractf child_ms_sum [OF dist])
  also have "(\<Sum>s \<in> ?S. \<Sum>c \<in> ?S. if sp_parent c = sp_id s then ?d c else 0) = (\<Sum>c \<in> ?S. if is_root spans c then 0 else ?d c)"
    by (subst sum.swap) (simp add: one)
  also have "sum ?d ?S - \<dots> = (\<Sum>s \<in> ?S. if is_root spans s then ?d s else 0)"
    unfolding sum_subtractf [symmetric] by (intro sum.cong) auto
  finally show ?thesis by (simp add: sum_list_distinct_conv_sum_set dist sum.If_cases Int_def)
qed

section \<open>Spans of a process\<close>

text \<open>
  The spans that coroutines open and close in any interleaving. A coroutine opens a span in a
  context whose current span is none, the parent of an inbound header (\<open>I\<close>) or a span opened
  before; generated ids are new.
\<close>

inductive span_run :: "pystr set \<Rightarrow> pystr list \<Rightarrow> span_session list \<Rightarrow> span_dict list \<Rightarrow> bool" for I where
  start: "span_run I [] [] []"
| opened: "\<lbrakk>span_run I ids live recs; cx_span cx \<in> insert [] (I \<union> set ids);
     fresh \<notin> insert [] (insert root_parent_id (I \<union> set ids));
     begin_span env fresh perf kind name trace_id attributes cx = (ss, cx')\<rbrakk>
    \<Longrightarrow> span_run I (ids @ [fresh]) (live @ [ss]) recs"
| annotated: "\<lbrakk>span_run I ids (xs @ ss # ys) recs; h = set_attribute k v (ss_handle ss) \<or> h = set_status st (ss_handle ss)\<rbrakk>
    \<Longrightarrow> span_run I ids (xs @ ss\<lparr>ss_handle := h\<rparr> # ys) recs"
| closed: "\<lbrakk>span_run I ids (xs @ ss # ys) recs; end_span perf wall exc ss cx b = Some (ss', cx', b'); \<not> ss_closed ss\<rbrakk>
    \<Longrightarrow> span_run I ids (xs @ ys) (recs @ [last (bf_pending b')])"

definition session_key :: "span_session \<Rightarrow> pystr \<times> pystr" where
  "session_key ss = (sh_id (ss_handle ss), sh_parent (ss_handle ss))"

definition span_key :: "span_dict \<Rightarrow> pystr \<times> pystr" where
  "span_key s = (sp_id s, sp_parent s)"

text \<open>Every id was generated once, after the id of its parent.\<close>

definition keys_ok :: "pystr set \<Rightarrow> pystr list \<Rightarrow> (pystr \<times> pystr) list \<Rightarrow> bool" where
  "keys_ok I ids ks \<longleftrightarrow> distinct ids \<and> root_parent_id \<notin> set ids \<and> I \<inter> set ids = {} \<and> distinct (map fst ks)
     \<and> (\<forall>(i, p) \<in> set ks. \<exists>a b. ids = a @ i # b \<and> p \<in> insert root_parent_id (I \<union> set a))"

lemma keys_okE:
  assumes "keys_ok I ids ks" and "(i, p) \<in> set ks"
  obtains a b where "ids = a @ i # b" and "p \<in> insert root_parent_id (I \<union> set a)"
proof -
  have "\<forall>k \<in> set ks. case k of (i, p) \<Rightarrow> \<exists>a b. ids = a @ i # b \<and> p \<in> insert root_parent_id (I \<union> set a)"
    using assms(1) by (simp add: keys_ok_def)
  from bspec [OF this assms(2)] show thesis using that by auto
qed

lemma keys_ok_perm: "keys_ok I ids ks \<Longrightarrow> mset ks = mset ks' \<Longrightarrow> keys_ok I ids ks'"
  using mset_eq_setD [of ks ks'] mset_eq_imp_distinct_iff [of "map fst ks" "map fst ks'"] by (simp add: keys_ok_def)

lemma keys_ok_open:
  assumes "keys_ok I ids ks" and "fresh \<notin> insert root_parent_id (I \<union> set ids)" and "p \<in> insert root_parent_id (I \<union> set ids)"
  shows "keys_ok I (ids @ [fresh]) (ks @ [(fresh, p)])"
proof -
  have old: "\<exists>a b. ids @ [fresh] = a @ i # b \<and> q \<in> insert root_parent_id (I \<union> set a)" if iq: "(i, q) \<in> set ks" for i q
  proof -
    obtain a b where "ids = a @ i # b" "q \<in> insert root_parent_id (I \<union> set a)" using assms(1) iq by (auto simp: keys_ok_def)
    then show ?thesis by (intro exI [of _ a] exI [of _ "b @ [fresh]"]) auto
  qed
  have "fst ` set ks \<subseteq> set ids" using assms(1) by (fastforce simp: keys_ok_def)
  then show ?thesis using assms old by (auto simp: keys_ok_def)
qed

lemma end_span_key:
  assumes "end_span perf wall exc ss cx b = Some (ss', cx', b')" and "\<not> ss_closed ss"
  shows "span_key (last (bf_pending b')) = session_key ss"
proof -
  obtain h where b': "buffer_add (to_dict wall (ss_task ss) h) b = Some b'"
      and h: "sh_id h = sh_id (ss_handle ss)" "sh_parent h = sh_parent (ss_handle ss)"
  proof
    let ?h = "close_handle perf wall (case exc of None \<Rightarrow> ss_handle ss
      | Some c \<Rightarrow> set_attribute (ascii ''error'') (JStr c) (set_status (ascii ''error'') (ss_handle ss)))"
    show "buffer_add (to_dict wall (ss_task ss) ?h) b = Some b'" using assms by (auto simp: end_span_def Let_def)
    show "sh_id ?h = sh_id (ss_handle ss)" "sh_parent ?h = sh_parent (ss_handle ss)"
      by (simp_all add: close_handle_def set_attribute_def set_status_def split: option.splits)
  qed
  then have "last (bf_pending b') = to_dict wall (ss_task ss) h" by (auto simp: buffer_add_def split: if_splits list.splits)
  then show ?thesis using h by (simp add: span_key_def session_key_def to_dict_def)
qed

lemma span_run_keys: "span_run I ids live recs \<Longrightarrow> keys_ok I ids (map session_key live @ map span_key recs)"
proof (induction rule: span_run.induct)
  case start
  then show ?case by (simp add: keys_ok_def)
next
  case (opened ids live recs cx fresh env perf kind name trace_id attributes ss cx')
  have key: "session_key ss = (fresh, current_parent_span_id cx)" "current_parent_span_id cx \<noteq> []"
    using opened.hyps(4)
    by (auto simp: begin_span_def new_handle_def Let_def session_key_def current_parent_span_id_def root_parent_id_def)
  have "keys_ok I (ids @ [fresh]) ((map session_key live @ map span_key recs) @ [(fresh, current_parent_span_id cx)])"
    using opened.hyps(2,3) opened.IH by (intro keys_ok_open) (auto simp: current_parent_span_id_def)
  then show ?case by (rule keys_ok_perm) (simp add: key)
next
  case (annotated ids xs ss ys recs h k v st)
  have "session_key (ss\<lparr>ss_handle := h\<rparr>) = session_key ss"
    using annotated.hyps(2) by (auto simp: session_key_def set_attribute_def set_status_def)
  then show ?case using annotated.IH by simp
next
  case (closed ids xs ss ys recs perf wall exc cx b ss' cx' b')
  show ?case by (rule keys_ok_perm [OF closed.IH]) (simp add: end_span_key [OF closed.hyps(2,3)])
qed

lemma keys_ranked:
  assumes "keys_ok I ids (ks @ map span_key recs)" and "set spans \<subseteq> set recs" and "distinct spans"
  shows "ranked (\<lambda>i. length (takeWhile (\<lambda>j. j \<noteq> i) ids)) spans"
proof -
  have "inj_on sp_id (set recs)" using assms(1) by (auto simp: keys_ok_def distinct_map span_key_def o_def inj_on_def)
  then have dist: "distinct (span_ids spans)"
    using assms(2,3) by (simp add: span_ids_def distinct_map) (meson inj_on_subset)
  have "length (takeWhile (\<lambda>j. j \<noteq> sp_parent s) ids) < length (takeWhile (\<lambda>j. j \<noteq> sp_id s) ids)"
    if s: "s \<in> set spans" and p: "sp_parent s \<in> set (span_ids spans)" for s
  proof -
    obtain t where "t \<in> set spans" "sp_id t = sp_parent s" using p by (auto simp: span_ids_def)
    then have t: "t \<in> set recs" "span_key t = (sp_parent s, sp_parent t)" using assms(2) by (auto simp: span_key_def)
    then have "(sp_parent s, sp_parent t) \<in> set (ks @ map span_key recs)" by (simp, intro disjI2 image_eqI) simp_all
    then obtain a b where "ids = a @ sp_parent s # b" by (rule keys_okE [OF assms(1)])
    then have pin: "sp_parent s \<in> set ids" by simp
    have "(sp_id s, sp_parent s) \<in> set (ks @ map span_key recs)" using s assms(2) by (auto simp: span_key_def)
    then obtain a b where ab: "ids = a @ sp_id s # b" "sp_parent s \<in> insert root_parent_id (I \<union> set a)"
      by (rule keys_okE [OF assms(1)])
    have a: "sp_parent s \<in> set a" using pin ab assms(1) by (auto simp: keys_ok_def)
    have "sp_id s \<notin> set a" using ab assms(1) by (auto simp: keys_ok_def)
    then have "takeWhile (\<lambda>j. j \<noteq> sp_id s) ids = a" by (auto simp: ab(1) takeWhile_append)
    moreover have "takeWhile (\<lambda>j. j \<noteq> sp_parent s) ids = takeWhile (\<lambda>j. j \<noteq> sp_parent s) a"
      using a by (auto simp: ab(1) takeWhile_append)
    moreover have "length (takeWhile (\<lambda>j. j \<noteq> sp_parent s) a) < length a" using a by (induction a) auto
    ultimately show ?thesis by simp
  qed
  then show ?thesis using dist by (simp add: ranked_def)
qed


definition demo_ctx :: trace_ctx where
  "demo_ctx = \<lparr>cx_trace = [], cx_task = ascii ''t'', cx_span = []\<rparr>"

definition demo_span :: span_dict where
  "demo_span = \<lparr>sp_trace = ascii ''-'', sp_id = ascii ''s1'', sp_parent = root_parent_id, sp_kind = ascii ''task'',
     sp_name = ascii ''run_task'', sp_task = ascii ''t'', sp_start = 3, sp_end = 5, sp_duration_ms = 2000,
     sp_status = ascii ''ok'', sp_attributes = JObj []\<rparr>"

lemma demo_span_run: "span_run {} [ascii ''s1''] [] [demo_span]"
proof -
  let ?ss = "fst (begin_span [] (ascii ''s1'') 1 (ascii ''task'') (ascii ''run_task'') [] [] demo_ctx)"
  let ?b = "\<lparr>bf_pending = [], bf_max = 2000\<rparr>"
  have fresh: "ascii ''s1'' \<notin> {[], root_parent_id}"
  proof -
    have "length (ascii ''s1'') = 2" "length root_parent_id = 16" by (simp_all add: ascii_def root_parent_id_def)
    then show ?thesis by auto
  qed
  have "span_run {} ([] @ [ascii ''s1'']) ([] @ [?ss]) []"
    by (rule span_run.opened [OF span_run.start, of demo_ctx _ _ "[]" 1 "ascii ''task''" "ascii ''run_task''" "[]" "[]" _ _])
       (use fresh in \<open>simp_all add: demo_ctx_def prod_eq_iff\<close>)
  then have "span_run {} [ascii ''s1''] [?ss] []" by simp
  moreover have "end_span 3 5 None ?ss demo_ctx ?b = Some (the (end_span 3 5 None ?ss demo_ctx ?b))"
    and "\<not> ss_closed ?ss" and "bf_pending (snd (snd (the (end_span 3 5 None ?ss demo_ctx ?b)))) = [demo_span]"
    by (simp_all add: end_span_def begin_span_def new_handle_def buffer_add_def Let_def close_handle_def to_dict_def start_ts_def
        demo_span_def demo_ctx_def current_trace_id_def current_parent_span_id_def root_parent_id_def)
  ultimately show ?thesis
    using span_run.closed [of "{}" "[ascii ''s1'']" "[]" ?ss "[]" "[]" 3 5 None demo_ctx ?b]
    by (metis append_Nil last_ConsL prod.collapse)
qed


section \<open>Flushing\<close>

definition spans_of :: "pystr \<Rightarrow> span_buffer \<Rightarrow> span_dict list" where
  "spans_of tid b = filter (\<lambda>s. sp_task s = tid) (bf_pending b)"

lemma fst_drain_for: "fst (drain_for tid b) = spans_of tid b"
  by (simp add: drain_for_def spans_of_def Let_def)

text \<open>
  C24. An engine with a sink flushes only its own task: it stores a prefix of the closed spans of
  the task, all of them unless the limit per task cuts them off, never exceeds that limit over
  all flushes, leaves nothing of the task in the buffer, and leaves the pending spans of every
  other task in place and in order, also when the write fails.
\<close>

theorem flush_own_spans:
  assumes "flush_spans m (Some write) tid counts b st = (n, counts', b', st')"
    and "used = (case dict_get counts tid of None \<Rightarrow> 0 | Some k \<Rightarrow> k)" and "m \<le> 0 \<or> int used \<le> m"
  shows "spans_of tid b' = [] \<and> (\<forall>u. u \<noteq> tid \<longrightarrow> spans_of u b' = spans_of u b \<and> dict_get counts' u = dict_get counts u)
     \<and> (case dict_get counts' tid of None \<Rightarrow> 0 | Some k \<Rightarrow> k) = used + n \<and> (m \<le> 0 \<or> int (used + n) \<le> m)
     \<and> (let mine = filter (\<lambda>s. sp_trace s \<noteq> ascii ''-'') (spans_of tid b)
        in n = 0 \<and> st' = st \<or> write (take n mine) st = Some st' \<and> (m \<le> 0 \<or> int used + length mine \<le> m \<longrightarrow> n = length mine))"
proof -
  let ?mine = "filter (\<lambda>s. sp_trace s \<noteq> ascii ''-'') (spans_of tid b)"
  let ?cap = "nat (max 0 m)"
  let ?kept = "if 0 < ?cap \<and> ?cap < used + length ?mine then take (?cap - used) ?mine else ?mine"
  define kept where "kept = ?kept"
  have "(n, counts', b', st') = (if kept = [] then (0, counts, snd (drain_for tid b), st)
     else case write kept st of None \<Rightarrow> (0, counts, snd (drain_for tid b), st)
       | Some st1 \<Rightarrow> (length kept, dict_set tid (used + length kept) counts, snd (drain_for tid b), st1))"
    unfolding assms(1) [symmetric] flush_spans_def Let_def fst_drain_for option.case assms(2) [symmetric] kept_def ..
  then have b': "b' = snd (drain_for tid b)"
    and rest: "n = 0 \<and> counts' = counts \<and> st' = st
       \<or> n = length kept \<and> counts' = dict_set tid (used + n) counts \<and> write kept st = Some st'"
    by (auto split: if_splits option.splits)
  have buf: "spans_of tid b' = []" "\<And>u. u \<noteq> tid \<Longrightarrow> spans_of u b' = spans_of u b"
    unfolding b' by (auto simp: drain_for_def spans_of_def Let_def filter_empty_conv intro!: filter_cong)
  have kept: "kept = take (length kept) ?mine" by (auto simp: kept_def min_def)
  have cap: "m \<le> 0 \<or> int (used + length kept) \<le> m" using assms(3) by (auto simp: kept_def)
  have all: "m \<le> 0 \<or> int used + length ?mine \<le> m \<longrightarrow> kept = ?mine" by (auto simp: kept_def)
  from rest show ?thesis
  proof
    assume "n = 0 \<and> counts' = counts \<and> st' = st"
    then show ?thesis using buf assms(2,3) by simp
  next
    assume r: "n = length kept \<and> counts' = dict_set tid (used + n) counts \<and> write kept st = Some st'"
    then have "write (take n ?mine) st = Some st'" using kept by metis
    moreover have "m \<le> 0 \<or> int used + length ?mine \<le> m \<longrightarrow> n = length ?mine" using r all by metis
    moreover have "m \<le> 0 \<or> int (used + n) \<le> m" using r cap by metis
    ultimately show ?thesis using r buf by (simp add: Let_def)
  qed
qed

theorem flush_own_spans_witness:
  "fst (snd (snd (flush_spans 1 (Some (\<lambda>ss st. Some (st @ ss))) (ascii ''t'') []
      \<lparr>bf_pending = [demo_span\<lparr>sp_trace := ascii ''a''\<rparr>], bf_max = 10\<rparr> []))) = \<lparr>bf_pending = [], bf_max = 10\<rparr>
   \<and> spans_of (ascii ''t'') \<lparr>bf_pending = [], bf_max = 10\<rparr> = []"
proof -
  have run: "flush_spans 1 (Some (\<lambda>ss st. Some (st @ ss))) (ascii ''t'') []
      \<lparr>bf_pending = [demo_span\<lparr>sp_trace := ascii ''a''\<rparr>], bf_max = 10\<rparr> []
    = (1, dict_set (ascii ''t'') 1 [], \<lparr>bf_pending = [], bf_max = 10\<rparr>, [demo_span\<lparr>sp_trace := ascii ''a''\<rparr>])"
    by (simp add: flush_spans_def drain_for_def demo_span_def Let_def ascii_def)
  show ?thesis using flush_own_spans [OF run refl] by (simp add: run)
qed

text \<open>
  An engine without a sink, as every sub-agent has, empties the buffer of the whole process
  when it flushes: the spans that its parent task and all concurrent tasks have closed so far
  are lost, and their own flush then stores none of them.
\<close>

theorem sinkless_flush_drops_all:
  assumes "flush_spans m None child counts b st = (n, counts', b', st')"
  shows "st' = st \<and> n = 0 \<and> (\<forall>u. spans_of u b' = [])
     \<and> flush_spans m' (Some write) parent counts2 b' st2 = (0, counts2, b', st2)"
proof -
  have b': "st' = st" "n = 0" "b' = b\<lparr>bf_pending := []\<rparr>" using assms by (simp_all add: flush_spans_def drain_def)
  then have "drain_for parent b' = ([], b')" by (simp add: drain_for_def)
  then show ?thesis using b' by (simp add: flush_spans_def spans_of_def Let_def)
qed

theorem sinkless_flush_drops_all_witness:
  "spans_of (ascii ''t'') (fst (snd (snd (flush_spans 5 None (ascii ''sub-1'') [] \<lparr>bf_pending = [demo_span], bf_max = 10\<rparr> ())))) = []"
proof -
  obtain n c b s where run: "flush_spans 5 None (ascii ''sub-1'') [] \<lparr>bf_pending = [demo_span], bf_max = 10\<rparr> () = (n, c, b, s)"
    by (metis prod.exhaust)
  show ?thesis using sinkless_flush_drops_all [OF run, of 0 "\<lambda>_. Some" "[]" "[]" "()"] by (simp add: run)
qed

end
