(* ===== verification/Api.thy ===== *)
theory Api
  imports Queue Rate_Limit Security Spans
begin

text \<open>
  The task endpoints (\<^verbatim>\<open>app/api/routes_tasks.py\<close>): submission with its limits and quotas,
  the queries, the event stream, and the operations on a task. Every endpoint gets the tenant
  that \<open>require_tenant\<close> resolved. A handler returns an HTTP error or its response, with the new
  state of the application; a Python exception that no handler catches is the error 500.
\<close>

section \<open>Settings, state and responses\<close>

record api_settings =
  ac_submit_per_min :: int
  ac_tenant_daily_tasks :: int
  ac_global_daily_tasks :: int
  ac_default_max_tokens :: int
  ac_default_max_steps :: int
  ac_celery :: bool
  ac_auth_enabled :: bool

text \<open>The messages of a Celery broker.\<close>

datatype broker_msg =
    MsgRun pystr pystr agent_mode int int
  | MsgResume pystr "bool option"

text \<open>
  The state the endpoints share. \<open>ax_limiter\<close> is the state of the limiter: the recent hits,
  or the table of windows, which nothing else uses.
\<close>

record 'l api_state =
  ax_db :: database
  ax_limiter :: 'l
  ax_gate :: gate
  ax_queue :: local_queue
  ax_engine :: "engine option"
  ax_broker :: "broker_msg list"

record kind_stats =
  ks_count :: nat
  ks_total_ms :: real
  ks_errors :: nat

datatype action_status = Queued | Resuming | Canceling | CanceledNow | Deleted

datatype api_response =
    RAction pystr action_status
  | RTasks "task_row list"
  | RTask task_row "graph_node list"
  | RSpans pystr nat "kind_stats dict" "span_tree list"
  | RTrace "event list"
  | REvents "event list" int
  | RExport task_row "event list"
  | RMarkdown pystr
  | RMetrics metrics_view

definition terminal :: "task_status list" where
  "terminal = [StDone, StFailed, StCanceled, StBudgetExceeded]"

definition deletable :: "task_status list" where
  "deletable = [StQueued, StWaitingApproval] @ terminal"

definition owned_task :: "tenant_context \<Rightarrow> pystr \<Rightarrow> database \<Rightarrow> http_error + task_row" where
  "owned_task tx tid db =
     (case get_task_row tid (Some (tx_id tx)) db of None \<Rightarrow> Inl (http_exception 404) | Some t \<Rightarrow> Inr t)"

section \<open>Submission\<close>

text \<open>The body of a request and its validation (\<open>TaskCreate\<close>).\<close>

record task_create =
  tc_goal :: pystr
  tc_mode :: pystr
  tc_max_tokens :: "int option"
  tc_max_steps :: "int option"
  tc_require_approval :: bool

definition mode_of :: "pystr \<Rightarrow> agent_mode option" where
  "mode_of s = (if s = ascii ''react'' then Some ReactMode else if s = ascii ''plan_execute'' then Some PlanExecute else None)"

definition valid_task_create :: "task_create \<Rightarrow> bool" where
  "valid_task_create b \<longleftrightarrow> 2 \<le> length (tc_goal b) \<and> length (tc_goal b) \<le> 4000 \<and> mode_of (tc_mode b) \<noteq> None
     \<and> (case tc_max_tokens b of None \<Rightarrow> True | Some n \<Rightarrow> 500 \<le> n \<and> n \<le> 5000000)
     \<and> (case tc_max_steps b of None \<Rightarrow> True | Some n \<Rightarrow> 2 \<le> n \<and> n \<le> 200)"

text \<open>\<open>x or default\<close>.\<close>

definition or_default :: "int option \<Rightarrow> int \<Rightarrow> int" where
  "or_default x d = (case x of None \<Rightarrow> d | Some n \<Rightarrow> if n = 0 then d else n)"

definition enforce_submit_rate :: "(seconds \<Rightarrow> pystr \<Rightarrow> int \<Rightarrow> seconds \<Rightarrow> 'l \<Rightarrow> (bool \<times> int) \<times> 'l)
     \<Rightarrow> api_settings \<Rightarrow> seconds \<Rightarrow> tenant_context \<Rightarrow> 'l \<Rightarrow> (http_error + unit) \<times> 'l" where
  "enforce_submit_rate allow cfg now tx ls =
     rate_guard allow now (ascii ''submit:'' @ tx_id tx) (ac_submit_per_min cfg) ls"

definition enforce_daily_quotas :: "api_settings \<Rightarrow> seconds \<Rightarrow> seconds \<Rightarrow> tenant_context \<Rightarrow> database \<Rightarrow> http_error + unit" where
  "enforce_daily_quotas cfg offset now tx db =
     (let day_start = day_start_epoch offset now;
          until_midnight = seconds_until_midnight offset now;
          usage = tenant_token_usage (tx_id tx) day_start db
      in if 0 < ac_tenant_daily_tasks cfg \<and> int (count_tasks_since day_start (Some (tx_id tx)) db) > ac_tenant_daily_tasks cfg
         then Inl (rejected until_midnight)
         else if 0 < ac_global_daily_tasks cfg \<and> int (count_tasks_since day_start None db) > ac_global_daily_tasks cfg
         then Inl (rejected until_midnight)
         else if 0 < tx_quota tx \<and> tu_used usage + tu_reserved usage > tx_quota tx
         then Inl (rejected until_midnight)
         else Inr ())"

text \<open>
  \<open>create_task\<close> in its two transactions, between which other requests may run: the
  placeholder row is inserted, then the quotas are checked and the row is deleted again or the
  task is handed to the queue. \<open>tid\<close> is the generated id.
\<close>

definition submit_insert :: "(seconds \<Rightarrow> pystr \<Rightarrow> int \<Rightarrow> seconds \<Rightarrow> 'l \<Rightarrow> (bool \<times> int) \<times> 'l) \<Rightarrow> api_settings
     \<Rightarrow> seconds \<Rightarrow> pystr \<Rightarrow> task_create \<Rightarrow> tenant_context \<Rightarrow> 'l api_state \<Rightarrow> (http_error + unit) \<times> 'l api_state" where
  "submit_insert allow cfg now tid body tx st =
     (case mode_of (tc_mode body) of
        None \<Rightarrow> (Inl (http_exception 422), st)
      | Some mode \<Rightarrow>
          (if \<not> valid_task_create body then (Inl (http_exception 422), st)
           else case enforce_submit_rate allow cfg now tx (ax_limiter st) of
             (Inl e, ls) \<Rightarrow> (Inl e, st\<lparr>ax_limiter := ls\<rparr>)
           | (Inr _, ls) \<Rightarrow>
               (case create_task now tid (tc_goal body) mode (or_default (tc_max_tokens body) (ac_default_max_tokens cfg))
                       (or_default (tc_max_steps body) (ac_default_max_steps cfg)) (tx_id tx) (tc_require_approval body) (ax_db st) of
                  Inl _ \<Rightarrow> (Inl (http_exception 500), st\<lparr>ax_limiter := ls\<rparr>)
                | Inr (_, db) \<Rightarrow> (Inr (), st\<lparr>ax_limiter := ls, ax_db := db\<rparr>))))"

definition dispatch :: "api_settings \<Rightarrow> seconds \<Rightarrow> pystr \<Rightarrow> task_create \<Rightarrow> pystr option \<Rightarrow> 'l api_state \<Rightarrow> 'l api_state" where
  "dispatch cfg now tid body traceparent st =
     (if ac_celery cfg
      then (case mode_of (tc_mode body) of
              None \<Rightarrow> st
            | Some mode \<Rightarrow>
                st\<lparr>ax_broker := ax_broker st @ [MsgRun tid (tc_goal body) mode
                     (or_default (tc_max_tokens body) (ac_default_max_tokens cfg))
                     (or_default (tc_max_steps body) (ac_default_max_steps cfg))]\<rparr>)
      else (case queue_submit now tid traceparent (ax_db st) (ax_queue st) of
              (db, q) \<Rightarrow> st\<lparr>ax_db := db, ax_queue := q\<rparr>))"

definition submit_check :: "api_settings \<Rightarrow> seconds \<Rightarrow> seconds \<Rightarrow> pystr \<Rightarrow> task_create \<Rightarrow> pystr option \<Rightarrow> tenant_context
     \<Rightarrow> 'l api_state \<Rightarrow> (http_error + api_response) \<times> 'l api_state" where
  "submit_check cfg offset now tid body traceparent tx st =
     (case enforce_daily_quotas cfg offset now tx (ax_db st) of
        Inl e \<Rightarrow> (Inl e, st\<lparr>ax_db := snd (delete_task_rows tid (Some (tx_id tx)) (ax_db st))\<rparr>)
      | Inr _ \<Rightarrow> (Inr (RAction tid Queued), dispatch cfg now tid body traceparent st))"

definition create_task_route :: "(seconds \<Rightarrow> pystr \<Rightarrow> int \<Rightarrow> seconds \<Rightarrow> 'l \<Rightarrow> (bool \<times> int) \<times> 'l) \<Rightarrow> api_settings
     \<Rightarrow> seconds \<Rightarrow> seconds \<Rightarrow> pystr \<Rightarrow> task_create \<Rightarrow> pystr option \<Rightarrow> tenant_context \<Rightarrow> 'l api_state
     \<Rightarrow> (http_error + api_response) \<times> 'l api_state" where
  "create_task_route allow cfg offset now tid body traceparent tx st =
     (case submit_insert allow cfg now tid body tx st of
        (Inl e, st1) \<Rightarrow> (Inl e, st1)
      | (Inr _, st1) \<Rightarrow> submit_check cfg offset now tid body traceparent tx st1)"

section \<open>Queries\<close>

definition list_tasks_route :: "int \<Rightarrow> tenant_context \<Rightarrow> database \<Rightarrow> http_error + api_response" where
  "list_tasks_route limit tx db =
     (if limit < 1 \<or> 200 < limit then Inl (http_exception 422)
      else Inr (RTasks (list_task_rows (nat limit) (Some (tx_id tx)) db)))"

definition get_task_route :: "pystr \<Rightarrow> tenant_context \<Rightarrow> engine option \<Rightarrow> database \<Rightarrow> http_error + api_response" where
  "get_task_route tid tx eng db =
     (case owned_task tx tid db of
        Inl e \<Rightarrow> Inl e
      | Inr t \<Rightarrow> Inr (RTask t (case eng of None \<Rightarrow> [] | Some e \<Rightarrow> fst (get_snapshot e tid))))"

definition span_stats :: "span_dict list \<Rightarrow> kind_stats dict" where
  "span_stats spans =
     fold (\<lambda>s d.
       (let item = (case dict_get d (sp_kind s) of None \<Rightarrow> \<lparr>ks_count = 0, ks_total_ms = 0, ks_errors = 0\<rparr> | Some x \<Rightarrow> x)
        in dict_set (sp_kind s)
             \<lparr>ks_count = ks_count item + 1, ks_total_ms = round_ms (ks_total_ms item + sp_duration_ms s),
              ks_errors = ks_errors item + (if sp_status s = ascii ''error'' then 1 else 0)\<rparr> d)) spans []"

definition get_spans_route :: "pystr \<Rightarrow> pystr \<Rightarrow> tenant_context \<Rightarrow> database \<Rightarrow> http_error + api_response" where
  "get_spans_route tid kind tx db =
     (case owned_task tx tid db of
        Inl e \<Rightarrow> Inl e
      | Inr _ \<Rightarrow>
          (let spans = get_spans_by_task tid kind db
           in case build_tree spans of
                None \<Rightarrow> Inl (http_exception 500)
              | Some tree \<Rightarrow> Inr (RSpans tid (length spans) (span_stats spans) tree)))"

definition get_trace_route :: "pystr \<Rightarrow> tenant_context \<Rightarrow> database \<Rightarrow> http_error + api_response" where
  "get_trace_route tid tx db =
     (case owned_task tx tid db of
        Inl e \<Rightarrow> Inl e
      | Inr _ \<Rightarrow> (case get_events (\<lambda>_. []) tid (-1) db of Inl _ \<Rightarrow> Inl (http_exception 500) | Inr es \<Rightarrow> Inr (RTrace es)))"

definition last_seq :: "int \<Rightarrow> event list \<Rightarrow> int" where
  "last_seq after es = (case es of [] \<Rightarrow> after | e # rest \<Rightarrow> fold (\<lambda>e m. max m (int (ev_seq e))) rest (int (ev_seq e)))"

definition get_events_route :: "pystr \<Rightarrow> int \<Rightarrow> tenant_context \<Rightarrow> database \<Rightarrow> http_error + api_response" where
  "get_events_route tid after tx db =
     (case owned_task tx tid db of
        Inl e \<Rightarrow> Inl e
      | Inr _ \<Rightarrow> (case get_events (\<lambda>_. []) tid after db of
                    Inl _ \<Rightarrow> Inl (http_exception 500)
                  | Inr es \<Rightarrow> Inr (REvents es (last_seq after es))))"

definition metrics_route :: "tenant_context \<Rightarrow> database \<Rightarrow> http_error + api_response" where
  "metrics_route tx db = Inr (RMetrics (repo_metrics (Some (tx_id tx)) db))"

definition list_tools :: "'w tool_registry \<Rightarrow> json" where
  "list_tools registry = JObj [(ascii ''tools'', JArr (to_mcp_manifest registry))]"

record session_view =
  sn_tenant :: pystr
  sn_auth_enabled :: bool
  sn_via :: via
  sn_passwordless :: bool
  sn_mode :: pystr

definition get_session :: "api_settings \<Rightarrow> tenant_context \<Rightarrow> session_view" where
  "get_session cfg tx =
     \<lparr>sn_tenant = tx_name tx, sn_auth_enabled = ac_auth_enabled cfg, sn_via = tx_via tx,
      sn_passwordless = tx_via tx \<in> {ViaDisabled, ViaLocalhost},
      sn_mode = (case tx_via tx of ViaDisabled \<Rightarrow> ascii ''disabled'' | ViaLocalhost \<Rightarrow> ascii ''passwordless''
                 | ViaApiKey \<Rightarrow> ascii ''api_key'')\<rparr>"

section \<open>Export\<close>

text \<open>
  The summary of an event in the Markdown export: \<open>None\<close> when the payload is a list or a
  number, which has no \<open>get\<close>. A payload that is a text is decoded first.
\<close>

definition export_payload :: "json \<Rightarrow> json" where
  "export_payload p =
     (let q = (if truthy p then p else JObj [])
      in case q of
           JStr s \<Rightarrow> (case loads s of None \<Rightarrow> JObj [(ascii ''raw'', JStr s)] | Some v \<Rightarrow> v)
         | _ \<Rightarrow> q)"

fun first_truthy :: "json dict \<Rightarrow> pystr list \<Rightarrow> json" where
  "first_truthy kvs [] = JStr []"
| "first_truthy kvs (k # ks) =
     (case dict_get kvs k of Some v \<Rightarrow> if truthy v then v else first_truthy kvs ks | None \<Rightarrow> first_truthy kvs ks)"

definition export_summary :: "json \<Rightarrow> pystr option" where
  "export_summary p =
     (case export_payload p of
        JObj kvs \<Rightarrow>
          Some (take 120 (concat (map (\<lambda>c. if c = 124 then [92, 124] else [c])
            (py_str (first_truthy kvs [ascii ''summary'', ascii ''message'', ascii ''error'', ascii ''description''])))))
      | _ \<Rightarrow> None)"

fun export_rows :: "event list \<Rightarrow> pystr list option" where
  "export_rows [] = Some []"
| "export_rows (e # es) =
     (case (export_summary (ev_payload e), export_rows es) of
        (Some s, Some ls) \<Rightarrow>
          Some ((ascii ''| '' @ nat_str (ev_seq e) @ ascii '' | `'' @ ev_type e @ ascii ''` | '' @ s @ ascii '' |'') # ls)
      | _ \<Rightarrow> None)"

text \<open>\<open>status_str\<close> and \<open>mode_str\<close> are the texts of the columns, \<open>float_str\<close> the text of a float.\<close>

definition status_text :: "task_status \<Rightarrow> pystr" where
  "status_text st = (case st of StQueued \<Rightarrow> ascii ''queued'' | StRunning \<Rightarrow> ascii ''running'' | StResuming \<Rightarrow> ascii ''resuming''
     | StDone \<Rightarrow> ascii ''done'' | StFailed \<Rightarrow> ascii ''failed'' | StCanceled \<Rightarrow> ascii ''canceled''
     | StBudgetExceeded \<Rightarrow> ascii ''budget_exceeded'' | StWaitingApproval \<Rightarrow> ascii ''waiting_approval'')"

definition mode_text :: "agent_mode \<Rightarrow> pystr" where
  "mode_text m = (case m of ReactMode \<Rightarrow> ascii ''react'' | PlanExecute \<Rightarrow> ascii ''plan_execute'')"

definition export_markdown :: "(real \<Rightarrow> pystr) \<Rightarrow> pystr \<Rightarrow> task_row \<Rightarrow> event list \<Rightarrow> pystr option" where
  "export_markdown float_str tid t es =
     (let head = [[35, 32, 20219, 21153, 36712, 36857, 32] @ tid, [], [45, 32, 30446, 26631, 65306] @ tk_goal t, [45, 32, 27169, 24335, 65306] @ mode_text (tk_mode t),
                  [45, 32, 29366, 24577, 65306] @ status_text (tk_status t),
                  [45, 32, 27493, 25968, 65306] @ int_str (tk_steps_used t) @ [12288, 116, 111, 107, 101, 110, 65306] @ int_str (tk_tokens_used t)
                    @ [12288, 32791, 26102, 65306] @ float_str (of_int (round_half_even (tk_duration t * 100)) / 100) @ [115, 12288, 38477, 32423, 65306]
                    @ (if tk_downgraded t then [26159] else [21542])];
          res = (if tk_result t \<noteq> [] then [[], [35, 35, 32, 20132, 20184, 32467, 26524], [], tk_result t] else []);
          err = (if tk_error t \<noteq> [] then [[], [35, 35, 32, 38169, 35823], [], tk_error t] else []);
          table = [[], [35, 35, 32, 20107, 20214, 27969], [], [124, 32, 35, 32, 124, 32, 31867, 22411, 32, 124, 32, 25688, 35201, 32, 124], ascii ''|---|---|---|'']
      in map_option (\<lambda>rows. str_join [10] (head @ res @ err @ table @ rows)) (export_rows es))"

definition export_route :: "(real \<Rightarrow> pystr) \<Rightarrow> pystr \<Rightarrow> pystr \<Rightarrow> tenant_context \<Rightarrow> database \<Rightarrow> http_error + api_response" where
  "export_route float_str tid fmt tx db =
     (case owned_task tx tid db of
        Inl e \<Rightarrow> Inl e
      | Inr t \<Rightarrow>
          (case get_events (\<lambda>_. []) tid (-1) db of
             Inl _ \<Rightarrow> Inl (http_exception 500)
           | Inr es \<Rightarrow>
               (if fmt \<noteq> ascii ''json'' \<and> fmt \<noteq> ascii ''md'' then Inl (http_exception 400)
                else if fmt = ascii ''json'' then Inr (RExport t es)
                else case export_markdown float_str tid t es of
                       None \<Rightarrow> Inl (http_exception 500)
                     | Some md \<Rightarrow> Inr (RMarkdown md))))"

section \<open>Operations on a task\<close>

definition dispatch_resume :: "api_settings \<Rightarrow> pystr \<Rightarrow> bool option \<Rightarrow> 'l api_state \<Rightarrow> 'l api_state" where
  "dispatch_resume cfg tid resume_value st =
     (if ac_celery cfg then st\<lparr>ax_broker := ax_broker st @ [MsgResume tid resume_value]\<rparr>
      else st\<lparr>ax_queue := submit_resume tid resume_value (ax_queue st)\<rparr>)"

definition resume_route :: "api_settings \<Rightarrow> pystr \<Rightarrow> tenant_context \<Rightarrow> 'l api_state \<Rightarrow> (http_error + api_response) \<times> 'l api_state" where
  "resume_route cfg tid tx st =
     (case owned_task tx tid (ax_db st) of
        Inl e \<Rightarrow> (Inl e, st)
      | Inr t \<Rightarrow>
          (if tk_status t \<in> {StDone, StCanceled, StBudgetExceeded} then (Inl (http_exception 409), st)
           else if tk_status t = StWaitingApproval then (Inl (http_exception 409), st)
           else if tk_status t \<in> {StQueued, StRunning, StResuming} then (Inl (http_exception 409), st)
           else (Inr (RAction tid Resuming), dispatch_resume cfg tid None st)))"

definition require_waiting :: "task_row \<Rightarrow> http_error + unit" where
  "require_waiting t = (if tk_status t \<noteq> StWaitingApproval then Inl (http_exception 409) else Inr ())"

definition approve_route :: "api_settings \<Rightarrow> pystr \<Rightarrow> tenant_context \<Rightarrow> 'l api_state \<Rightarrow> (http_error + api_response) \<times> 'l api_state" where
  "approve_route cfg tid tx st =
     (case owned_task tx tid (ax_db st) of
        Inl e \<Rightarrow> (Inl e, st)
      | Inr t \<Rightarrow>
          (case require_waiting t of
             Inl e \<Rightarrow> (Inl e, st)
           | Inr _ \<Rightarrow> (Inr (RAction tid Resuming), dispatch_resume cfg tid (Some True) st)))"

definition reject_route :: "api_settings \<Rightarrow> pystr \<Rightarrow> tenant_context \<Rightarrow> 'l api_state \<Rightarrow> (http_error + api_response) \<times> 'l api_state" where
  "reject_route cfg tid tx st =
     (case owned_task tx tid (ax_db st) of
        Inl e \<Rightarrow> (Inl e, st)
      | Inr t \<Rightarrow>
          (case require_waiting t of
             Inl e \<Rightarrow> (Inl e, st)
           | Inr _ \<Rightarrow> (Inr (RAction tid Canceling), dispatch_resume cfg tid (Some False) st)))"

definition early_cancel_error :: pystr where
  "early_cancel_error = [20219, 21153, 23578, 26410, 24320, 22987, 25191, 34892, 21363, 34987, 21462, 28040]"

definition cancel_route :: "seconds \<Rightarrow> pystr \<Rightarrow> tenant_context \<Rightarrow> 'l api_state \<Rightarrow> (http_error + api_response) \<times> 'l api_state" where
  "cancel_route now tid tx st =
     (case owned_task tx tid (ax_db st) of
        Inl e \<Rightarrow> (Inl e, st)
      | Inr _ \<Rightarrow>
          (case queue_cancel tid (ax_engine st) (ax_queue st) of
             (True, eng) \<Rightarrow> (Inr (RAction tid Canceling), st\<lparr>ax_engine := eng\<rparr>)
           | (False, eng) \<Rightarrow>
               (Inr (RAction tid CanceledNow),
                st\<lparr>ax_engine := eng,
                   ax_db := snd (update_task now tid (\<lambda>u. u\<lparr>tk_status := StCanceled, tk_error := early_cancel_error\<rparr>) (ax_db st))\<rparr>)))"

definition delete_route :: "pystr \<Rightarrow> tenant_context \<Rightarrow> 'l api_state \<Rightarrow> (http_error + api_response) \<times> 'l api_state" where
  "delete_route tid tx st =
     (case owned_task tx tid (ax_db st) of
        Inl e \<Rightarrow> (Inl e, st)
      | Inr t \<Rightarrow>
          (if tk_status t \<notin> set deletable then (Inl (http_exception 409), st)
           else case delete_task_rows tid (Some (tx_id tx)) (ax_db st) of
                  (None, _) \<Rightarrow> (Inl (http_exception 404), st)
                | (Some _, db) \<Rightarrow> (Inr (RAction tid Deleted), st\<lparr>ax_db := db\<rparr>)))"

section \<open>The event stream\<close>

text \<open>
  One connection: what the generator yields, and its memory (the last number sent, the time
  waited, the last signature of the row). A poll reads the events and then, in another
  transaction, the row of the task, so it sees two snapshots of the database, or that the client
  is gone; a stored payload that cannot be decoded ends the stream.
\<close>

datatype frame = FEvent event | FTask task_row | FEnd "task_status option"

record row_sig =
  sg_status :: task_status
  sg_tokens :: int
  sg_steps :: int
  sg_duration :: real
  sg_result :: pystr
  sg_error :: pystr

definition sig_of :: "task_row \<Rightarrow> row_sig" where
  "sig_of t = \<lparr>sg_status = tk_status t, sg_tokens = tk_tokens_used t, sg_steps = tk_steps_used t,
     sg_duration = of_int (round_half_even (tk_duration t * 10)) / 10, sg_result = tk_result t, sg_error = tk_error t\<rparr>"

record stream_state =
  sm_last :: int
  sm_waited :: seconds
  sm_sig :: "row_sig option"

definition stream_poll_s :: seconds where "stream_poll_s = 2 / 5"

definition stream_max_s :: seconds where "stream_max_s = 300"

text \<open>The frames of one poll, and the memory for the next one if there is one.\<close>

definition stream_poll :: "pystr \<Rightarrow> bool \<Rightarrow> database \<Rightarrow> database \<Rightarrow> stream_state \<Rightarrow> frame list \<times> stream_state option" where
  "stream_poll tid gone db db2 m =
     (if gone then ([], None)
      else case get_events (\<lambda>_. []) tid (sm_last m) db of
        Inl _ \<Rightarrow> ([], None)
      | Inr es \<Rightarrow>
          (let last = fold (\<lambda>e l. max l (int (ev_seq e))) es (sm_last m);
               task = get_task_row tid None db2;
               new_sig = map_option sig_of task;
               changed = (new_sig \<noteq> None \<and> new_sig \<noteq> sm_sig m);
               sig = (if changed then new_sig else sm_sig m);
               frames = map FEvent es @ (if changed then [FTask (the task)] else [])
           in case task of
                Some t \<Rightarrow>
                  (if tk_status t \<in> set terminal then (frames @ [FEnd (Some (tk_status t))], None)
                   else if stream_max_s \<le> sm_waited m + stream_poll_s then (frames @ [FEnd None], None)
                   else (frames, Some \<lparr>sm_last = last, sm_waited = sm_waited m + stream_poll_s, sm_sig = sig\<rparr>))
              | None \<Rightarrow>
                  (if stream_max_s \<le> sm_waited m + stream_poll_s then (frames @ [FEnd None], None)
                   else (frames, Some \<lparr>sm_last = last, sm_waited = sm_waited m + stream_poll_s, sm_sig = sig\<rparr>))))"

fun stream_gen :: "pystr \<Rightarrow> (bool \<times> database \<times> database) list \<Rightarrow> stream_state \<Rightarrow> frame list" where
  "stream_gen tid [] m = []"
| "stream_gen tid ((gone, db, db2) # polls) m =
     (case stream_poll tid gone db db2 m of
        (frames, None) \<Rightarrow> frames
      | (frames, Some m1) \<Rightarrow> frames @ stream_gen tid polls m1)"

definition stream_start :: stream_state where
  "stream_start = \<lparr>sm_last = -1, sm_waited = 0, sm_sig = None\<rparr>"

text \<open>A request for a stream takes a place of the gate; the end of the generator gives it back.\<close>

definition stream_open :: "pystr \<Rightarrow> tenant_context \<Rightarrow> 'l api_state \<Rightarrow> (http_error + stream_state) \<times> 'l api_state" where
  "stream_open tid tx st =
     (case owned_task tx tid (ax_db st) of
        Inl e \<Rightarrow> (Inl e, st)
      | Inr _ \<Rightarrow>
          (case try_acquire (tx_id tx) (ax_gate st) of
             (False, g) \<Rightarrow> (Inl (rejected 5), st\<lparr>ax_gate := g\<rparr>)
           | (True, g) \<Rightarrow> (Inr stream_start, st\<lparr>ax_gate := g\<rparr>)))"

definition stream_close :: "tenant_context \<Rightarrow> 'l api_state \<Rightarrow> 'l api_state" where
  "stream_close tx st = st\<lparr>ax_gate := release (tx_id tx) (ax_gate st)\<rparr>"

section \<open>Tenants are isolated\<close>

datatype api_op =
    OpCreate pystr task_create "pystr option"
  | OpList int
  | OpGet pystr
  | OpSpans pystr pystr
  | OpTrace pystr
  | OpEvents pystr int
  | OpExport pystr pystr
  | OpMetrics
  | OpResume pystr
  | OpApprove pystr
  | OpReject pystr
  | OpCancel pystr
  | OpDelete pystr

definition handle :: "(seconds \<Rightarrow> pystr \<Rightarrow> int \<Rightarrow> seconds \<Rightarrow> 'l \<Rightarrow> (bool \<times> int) \<times> 'l) \<Rightarrow> api_settings \<Rightarrow> (real \<Rightarrow> pystr)
     \<Rightarrow> seconds \<Rightarrow> seconds \<Rightarrow> tenant_context \<Rightarrow> api_op \<Rightarrow> 'l api_state \<Rightarrow> (http_error + api_response) \<times> 'l api_state" where
  "handle allow cfg float_str offset now tx op st =
     (case op of
        OpCreate tid body tp \<Rightarrow> create_task_route allow cfg offset now tid body tp tx st
      | OpList n \<Rightarrow> (list_tasks_route n tx (ax_db st), st)
      | OpGet tid \<Rightarrow> (get_task_route tid tx (ax_engine st) (ax_db st), st)
      | OpSpans tid kind \<Rightarrow> (get_spans_route tid kind tx (ax_db st), st)
      | OpTrace tid \<Rightarrow> (get_trace_route tid tx (ax_db st), st)
      | OpEvents tid n \<Rightarrow> (get_events_route tid n tx (ax_db st), st)
      | OpExport tid fmt \<Rightarrow> (export_route float_str tid fmt tx (ax_db st), st)
      | OpMetrics \<Rightarrow> (metrics_route tx (ax_db st), st)
      | OpResume tid \<Rightarrow> resume_route cfg tid tx st
      | OpApprove tid \<Rightarrow> approve_route cfg tid tx st
      | OpReject tid \<Rightarrow> reject_route cfg tid tx st
      | OpCancel tid \<Rightarrow> cancel_route now tid tx st
      | OpDelete tid \<Rightarrow> delete_route tid tx st)"

fun op_task :: "api_op \<Rightarrow> pystr option" where
  "op_task (OpGet tid) = Some tid"
| "op_task (OpSpans tid kind) = Some tid"
| "op_task (OpTrace tid) = Some tid"
| "op_task (OpEvents tid n) = Some tid"
| "op_task (OpExport tid fmt) = Some tid"
| "op_task (OpResume tid) = Some tid"
| "op_task (OpApprove tid) = Some tid"
| "op_task (OpReject tid) = Some tid"
| "op_task (OpCancel tid) = Some tid"
| "op_task (OpDelete tid) = Some tid"
| "op_task op = None"

definition reads_only :: "api_op \<Rightarrow> bool" where
  "reads_only op \<longleftrightarrow> (case op of OpList _ \<Rightarrow> True | OpGet _ \<Rightarrow> True | OpSpans _ _ \<Rightarrow> True | OpTrace _ \<Rightarrow> True | OpEvents _ _ \<Rightarrow> True
     | OpExport _ _ \<Rightarrow> True | OpMetrics \<Rightarrow> True | _ \<Rightarrow> False)"

lemmas route_defs = create_task_route_def list_tasks_route_def get_task_route_def get_spans_route_def get_trace_route_def
  get_events_route_def export_route_def metrics_route_def resume_route_def approve_route_def reject_route_def
  cancel_route_def delete_route_def

lemma foreign_task:
  assumes "op_task op = Some tid" and "get_task_row tid (Some (tx_id tx)) (ax_db st) = None"
  shows "handle allow cfg float_str offset now tx op st = (Inl (http_exception 404), st)"
  using assms by (cases op) (simp_all add: handle_def route_defs owned_task_def)

lemma owned_task_InrD: "owned_task tx tid db = Inr t \<Longrightarrow> get_task_row tid (Some (tx_id tx)) db = Some t"
  by (simp add: owned_task_def split: option.splits)

lemma created_row:
  assumes "create_task now i g m mt ms n ra db = Inr (t, db')"
  shows "get_task_row i (Some n) db' = Some t" and "get_task_row i None db' = Some t" and "tk_status t = StQueued"
proof -
  have "find (\<lambda>t. tk_id t = i \<and> P t) (db_tasks db) = None" for P using assms by (auto simp: create_task_def find_None_iff Let_def split: if_splits)
  from this [of "\<lambda>t. tk_tenant t = n"] this [of "\<lambda>_. True"]
  show "get_task_row i (Some n) db' = Some t" "get_task_row i None db' = Some t" "tk_status t = StQueued"
    using assms by (auto simp: create_task_def get_task_row_def Let_def find_append split: if_splits)
qed

lemma submit_insert_cases:
  assumes "submit_insert allow cfg now tid body tx st = (r, st1)"
  obtains e lt where "r = Inl e" and "st1 = st\<lparr>ax_limiter := lt\<rparr>" and "he_status e \<in> {422, 429, 500}"
  | t db lt mode where "r = Inr ()" and "st1 = st\<lparr>ax_limiter := lt, ax_db := db\<rparr>"
      and "create_task now tid (tc_goal body) mode (or_default (tc_max_tokens body) (ac_default_max_tokens cfg))
          (or_default (tc_max_steps body) (ac_default_max_steps cfg)) (tx_id tx) (tc_require_approval body) (ax_db st) = Inr (t, db)"
      and "mode_of (tc_mode body) = Some mode"
proof (cases "mode_of (tc_mode body)")
  case None
  then show ?thesis using assms that(1) [of _ "ax_limiter st"] by (auto simp: submit_insert_def http_exception_def)
next
  case (Some mode)
  show ?thesis
  proof (cases "valid_task_create body")
    case False
    then show ?thesis using assms Some that(1) [of _ "ax_limiter st"] by (auto simp: submit_insert_def http_exception_def)
  next
    case True
    obtain x lt where rate: "enforce_submit_rate allow cfg now tx (ax_limiter st) = (x, lt)" by fastforce
    then have "x = Inl e \<Longrightarrow> he_status e = 429" for e
      by (auto simp: enforce_submit_rate_def rate_guard_def rejected_def split: prod.splits bool.splits)
    then show ?thesis
      using assms Some True rate that(1) [of _ lt] that(2) [where lt = lt and mode = mode]
      by (auto simp: submit_insert_def http_exception_def split: sum.splits)
  qed
qed

lemma isolated_create:
  assumes "db_ok (ax_db st)" and "n \<noteq> tx_id tx"
    and "create_task_route allow cfg offset now tid body tp tx st = (r, st')"
  shows "tenant_view n (ax_db st') = tenant_view n (ax_db st)"
proof -
  obtain x st1 where ins: "submit_insert allow cfg now tid body tx st = (x, st1)" by fastforce
  then show ?thesis
  proof (cases rule: submit_insert_cases)
    case (1 e lt)
    then show ?thesis using assms(3) ins by (auto simp: create_task_route_def)
  next
    case (2 t db lt mode)
    have ok: "db_ok db" by (rule repo_step_ok [OF step_create_task [OF 2(3)] assms(1)])
    have view: "tenant_view n db = tenant_view n (ax_db st)" by (rule view_create_task [OF 2(3)]) (use assms(2) in simp)
    have del: "tenant_view n (snd (delete_task_rows tid (Some (tx_id tx)) db)) = tenant_view n db"
      using view_delete_task [OF ok] assms(2) by simp
    have sub: "tenant_view n (snd (update_task now tid (\<lambda>u. u\<lparr>tk_status := StQueued\<rparr>) db)) = tenant_view n db"
      by (rule view_update_task [OF ok created_row(1) [OF 2(3)]]) (use assms(2) in simp_all)
    show ?thesis
      using assms(3) ins 2 view del sub
      by (auto simp: create_task_route_def submit_check_def dispatch_def queue_submit_def split: sum.splits if_splits option.splits)
  qed
qed

lemma isolated_ops:
  assumes "db_ok (ax_db st)" and "n \<noteq> tx_id tx" and "handle allow cfg float_str offset now tx op st = (r, st')"
  shows "tenant_view n (ax_db st') = tenant_view n (ax_db st)"
proof (cases op)
  case (OpCreate tid body tp)
  then show ?thesis using assms isolated_create by (simp add: handle_def)
next
  case (OpCancel tid)
  have "tenant_view n (snd (update_task now tid (\<lambda>u. u\<lparr>tk_status := StCanceled, tk_error := early_cancel_error\<rparr>) (ax_db st)))
      = tenant_view n (ax_db st)" if "get_task_row tid (Some (tx_id tx)) (ax_db st) = Some t" for t
    by (rule view_update_task [OF assms(1) that]) (use assms(2) in simp_all)
  then show ?thesis
    using assms(3) OpCancel by (auto simp: handle_def cancel_route_def dest!: owned_task_InrD split: sum.splits prod.splits bool.splits)
next
  case (OpDelete tid)
  have "tenant_view n (snd (delete_task_rows tid (Some (tx_id tx)) (ax_db st))) = tenant_view n (ax_db st)"
    using view_delete_task [OF assms(1)] assms(2) by simp
  then show ?thesis
    using assms(3) OpDelete by (auto simp: handle_def delete_route_def split: sum.splits prod.splits option.splits if_splits)
qed (use assms(3) in \<open>auto simp: handle_def resume_route_def approve_route_def reject_route_def dispatch_resume_def
      split: sum.splits if_splits\<close>)

lemma reads_own_view:
  assumes "reads_only op" and view: "tenant_view (tx_id tx) (ax_db st2) = tenant_view (tx_id tx) (ax_db st)"
    and "ax_engine st2 = ax_engine st"
  shows "fst (handle allow cfg float_str offset now tx op st2) = fst (handle allow cfg float_str offset now tx op st)"
proof -
  note q = tenant_queries_view [OF view]
  have own: "owned_task tx tid (ax_db st2) = owned_task tx tid (ax_db st)" for tid using q(1) by (simp add: owned_task_def)
  have ids: "tid \<in> set (owned_ids (tx_id tx) (ax_db st2))" if "owned_task tx tid (ax_db st) = Inr t" for tid t
    using that owned_row [OF owned_task_InrD] own by metis
  have ev: "get_events err tid m (ax_db st2) = get_events err tid m (ax_db st)"
    and sp: "get_spans_by_task tid kind (ax_db st2) = get_spans_by_task tid kind (ax_db st)"
    if "owned_task tx tid (ax_db st) = Inr t" for tid t m kind err
    using q(6,7) ids [OF that] by simp_all
  show ?thesis
    using assms(1,3) q(2,5) ev sp
    by (cases op) (auto simp: reads_only_def handle_def route_defs own Let_def split: sum.splits)
qed

text \<open>
  C18. Tenants are isolated: no request of one tenant changes anything another tenant can see
  of its tasks, their events and spans; a request for the task of another tenant is answered
  exactly as one for a task that does not exist, and changes nothing; and the answer to a query
  depends on nothing but the tenant's own data.
\<close>

theorem tenant_isolation:
  assumes "db_ok (ax_db st)" and "handle allow cfg float_str offset now tx op st = (r, st')"
  shows "(\<forall>n. n \<noteq> tx_id tx \<longrightarrow> tenant_view n (ax_db st') = tenant_view n (ax_db st))
     \<and> (\<forall>tid. op_task op = Some tid \<longrightarrow> get_task_row tid (Some (tx_id tx)) (ax_db st) = None
           \<longrightarrow> r = Inl (http_exception 404) \<and> st' = st)
     \<and> (\<forall>st2. reads_only op \<longrightarrow> tenant_view (tx_id tx) (ax_db st2) = tenant_view (tx_id tx) (ax_db st)
           \<longrightarrow> ax_engine st2 = ax_engine st \<longrightarrow> fst (handle allow cfg float_str offset now tx op st2) = r)"
proof (intro conjI allI impI)
  show "tenant_view n (ax_db st') = tenant_view n (ax_db st)" if "n \<noteq> tx_id tx" for n
    by (rule isolated_ops [OF assms(1) that assms(2)])
  fix tid assume "op_task op = Some tid" "get_task_row tid (Some (tx_id tx)) (ax_db st) = None"
  from foreign_task [OF this, of allow cfg float_str offset now]
  show "r = Inl (http_exception 404)" "st' = st" using assms(2) by simp_all
next
  fix st2 :: "'a api_state"
  assume "reads_only op" "tenant_view (tx_id tx) (ax_db st2) = tenant_view (tx_id tx) (ax_db st)" "ax_engine st2 = ax_engine st"
  then show "fst (handle allow cfg float_str offset now tx op st2) = r" using reads_own_view assms(2) by (metis fst_conv)
qed

definition demo_tenant_ctx :: tenant_context where
  "demo_tenant_ctx = \<lparr>tx_id = ascii ''other'', tx_name = ascii ''other'', tx_quota = 0, tx_via = ViaApiKey\<rparr>"

definition demo_cfg :: api_settings where
  "demo_cfg = \<lparr>ac_submit_per_min = 10, ac_tenant_daily_tasks = 1, ac_global_daily_tasks = 5, ac_default_max_tokens = 60000,
     ac_default_max_steps = 24, ac_celery = False, ac_auth_enabled = True\<rparr>"

definition demo_api :: "sliding api_state" where
  "demo_api = \<lparr>ax_db = demo_db, ax_limiter = [], ax_gate = demo_gate,
     ax_queue = \<lparr>lq_queue = [], lq_running = [], lq_live = [], lq_traces = [], lq_next = 0\<rparr>,
     ax_engine = Some demo_saver, ax_broker = []\<rparr>"

lemma demo_db_eq: "demo_db = \<lparr>db_tenants = [], db_tasks = [\<lparr>tk_id = ascii ''k'', tk_goal = ascii ''g'', tk_mode = ReactMode,
     tk_status = StQueued, tk_tenant = ascii ''t'', tk_require_approval = False, tk_max_tokens = 1000, tk_max_steps = 24,
     tk_tokens_used = 0, tk_steps_used = 0, tk_downgraded = False, tk_selfheal = 0, tk_result = [], tk_error = [],
     tk_duration = 0, tk_created_at = 5, tk_updated_at = 5\<rparr>], db_events = [], db_spans = [], db_tools = [], db_windows = []\<rparr>"
  by (simp add: demo_db_def create_task_def empty_db_def Let_def)

lemma demo_db_ok: "db_ok demo_db"
  by (simp add: demo_db_eq db_ok_def te_unique_def)

theorem tenant_isolation_witness:
  "fst (handle sliding_allow demo_cfg (\<lambda>_. []) 0 0 demo_tenant_ctx (OpDelete (ascii ''k'')) demo_api) = Inl (http_exception 404)
   \<and> tenant_view (ascii ''t'') (ax_db (snd (handle sliding_allow demo_cfg (\<lambda>_. []) 0 0 demo_tenant_ctx (OpDelete (ascii ''k'')) demo_api)))
     = tenant_view (ascii ''t'') demo_db"
proof -
  obtain r st' where h: "handle sliding_allow demo_cfg (\<lambda>_. []) 0 0 demo_tenant_ctx (OpDelete (ascii ''k'')) demo_api = (r, st')"
    by fastforce
  have ok: "db_ok (ax_db demo_api)" using demo_db_ok by (simp add: demo_api_def)
  have none: "get_task_row (ascii ''k'') (Some (tx_id demo_tenant_ctx)) (ax_db demo_api) = None"
    by (simp add: demo_api_def demo_db_eq get_task_row_def demo_tenant_ctx_def ascii_def)
  have other: "ascii ''t'' \<noteq> tx_id demo_tenant_ctx" by (simp add: demo_tenant_ctx_def ascii_def)
  have "r = Inl (http_exception 404)" using tenant_isolation [OF ok h] none by simp
  moreover have "tenant_view (ascii ''t'') (ax_db st') = tenant_view (ascii ''t'') (ax_db demo_api)"
    using tenant_isolation [OF ok h] other by blast
  moreover have "ax_db demo_api = demo_db" by (simp add: demo_api_def)
  ultimately show ?thesis by (simp add: h)
qed

section \<open>Daily quotas\<close>

text \<open>
  The requests of one day in any interleaving of their transactions: \<open>d\<close> is the start of the
  day and \<open>acc\<close> the accepted tasks with their tenants. Anything else may happen in between (workers,
  updates, events, other endpoints) that neither adds nor removes tasks.
\<close>

definition task_key :: "task_row \<Rightarrow> pystr \<times> pystr \<times> seconds" where
  "task_key t = (tk_id t, tk_tenant t, tk_created_at t)"

inductive submit_run :: "(seconds \<Rightarrow> pystr \<Rightarrow> int \<Rightarrow> seconds \<Rightarrow> 'l \<Rightarrow> (bool \<times> int) \<times> 'l) \<Rightarrow> api_settings \<Rightarrow> seconds \<Rightarrow> seconds
     \<Rightarrow> 'l api_state \<Rightarrow> (pystr \<times> pystr) list \<Rightarrow> bool" for allow cfg offset d where
  day_begins: "distinct (map tk_id (db_tasks (ax_db st))) \<Longrightarrow> submit_run allow cfg offset d st []"
| inserted: "\<lbrakk>submit_run allow cfg offset d st acc; submit_insert allow cfg now tid body tx st = (Inr (), st'); d \<le> now\<rbrakk>
    \<Longrightarrow> submit_run allow cfg offset d st' acc"
| refused: "\<lbrakk>submit_run allow cfg offset d st acc; tid \<notin> fst ` set acc;
     submit_check cfg offset now tid body tp tx st = (Inl e, st')\<rbrakk> \<Longrightarrow> submit_run allow cfg offset d st' acc"
| accepted: "\<lbrakk>submit_run allow cfg offset d st acc; tid \<notin> fst ` set acc;
     get_task_row tid (Some (tx_id tx)) (ax_db st) = Some t; d \<le> tk_created_at t; day_start_epoch offset now = d;
     submit_check cfg offset now tid body tp tx st = (Inr r, st')\<rbrakk>
    \<Longrightarrow> submit_run allow cfg offset d st' ((tid, tx_id tx) # acc)"
| others: "\<lbrakk>submit_run allow cfg offset d st acc; map task_key (db_tasks (ax_db st')) = map task_key (db_tasks (ax_db st))\<rbrakk>
    \<Longrightarrow> submit_run allow cfg offset d st' acc"

text \<open>The accepted tasks are rows of the day.\<close>

definition accepted_ok :: "seconds \<Rightarrow> database \<Rightarrow> (pystr \<times> pystr) list \<Rightarrow> bool" where
  "accepted_ok d db acc \<longleftrightarrow> distinct (map tk_id (db_tasks db)) \<and> distinct (map fst acc)
     \<and> (\<forall>(i, n) \<in> set acc. \<exists>x \<ge> d. (i, n, x) \<in> task_key ` set (db_tasks db))"

lemma accepted_ok_keys:
  assumes "accepted_ok d db acc" and "map task_key (db_tasks db') = map task_key (db_tasks db)"
  shows "accepted_ok d db' acc"
proof -
  have "map (fst \<circ> task_key) (db_tasks db') = map (fst \<circ> task_key) (db_tasks db)" using assms(2) by (metis map_map)
  then have "map tk_id (db_tasks db') = map tk_id (db_tasks db)" by (simp add: o_def task_key_def)
  moreover have "task_key ` set (db_tasks db') = task_key ` set (db_tasks db)" using assms(2) by (metis set_map)
  ultimately show ?thesis using assms(1) by (simp add: accepted_ok_def)
qed

lemma accepted_ok_delete:
  assumes "accepted_ok d db acc" and "i \<notin> fst ` set acc"
  shows "accepted_ok d (snd (delete_task_rows i n db)) acc"
proof -
  have "\<exists>x \<ge> d. (j, m, x) \<in> task_key ` set (filter (\<lambda>u. tk_id u \<noteq> i) (db_tasks db))" if jm: "(j, m) \<in> set acc" for j m
  proof -
    obtain x t where "d \<le> x" "t \<in> set (db_tasks db)" "task_key t = (j, m, x)" using assms(1) jm by (auto simp: accepted_ok_def)
    moreover have "j \<noteq> i" using assms(2) jm by force
    ultimately show ?thesis by (intro exI [of _ x]) (auto simp: task_key_def intro!: image_eqI [of _ _ t])
  qed
  then show ?thesis
    using assms(1) by (auto simp: accepted_ok_def delete_task_rows_def distinct_map_filter_key split: option.splits)
qed

lemma update_keys:
  "(\<And>u. task_key (upd u) = task_key u) \<Longrightarrow> map task_key (db_tasks (snd (update_task now i upd db))) = map task_key (db_tasks db)"
  by (auto simp: update_task_def Let_def task_key_def split: option.splits)

lemma dispatch_keys: "map task_key (db_tasks (ax_db (dispatch cfg now tid body tp st))) = map task_key (db_tasks (ax_db st))"
  using update_keys [of "\<lambda>u. u\<lparr>tk_status := StQueued\<rparr>" now tid "ax_db st"]
  by (auto simp: dispatch_def queue_submit_def task_key_def split: option.splits)

lemma submit_run_ok: "submit_run allow cfg offset d st acc \<Longrightarrow> accepted_ok d (ax_db st) acc"
proof (induction rule: submit_run.induct)
  case (inserted st acc now tid body tx st')
  from inserted.hyps(2) show ?case
  proof (cases rule: submit_insert_cases)
    case (2 t db lt mode)
    have "tk_id t = tid \<and> (\<forall>u \<in> set (db_tasks (ax_db st)). tk_id u \<noteq> tid) \<and> db_tasks db = db_tasks (ax_db st) @ [t]"
      using 2(3) by (auto simp: create_task_def Let_def split: if_splits)
    then show ?thesis using inserted.IH 2(2) by (fastforce simp: accepted_ok_def)
  qed simp
next
  case (refused st acc tid now body tp tx e st')
  then have "ax_db st' = snd (delete_task_rows tid (Some (tx_id tx)) (ax_db st))"
    by (auto simp: submit_check_def split: sum.splits)
  then show ?case using accepted_ok_delete [OF refused.IH refused.hyps(2)] by simp
next
  case (accepted st acc tid tx t now body tp r st')
  then have st': "st' = dispatch cfg now tid body tp st" by (auto simp: submit_check_def split: sum.splits)
  have "accepted_ok d (ax_db st) ((tid, tx_id tx) # acc)"
    using accepted.IH accepted.hyps(2,4) owned_row [OF accepted.hyps(3)]
    by (auto simp: accepted_ok_def task_key_def intro!: exI [of _ "tk_created_at t"] image_eqI [of _ _ t])
  then show ?case unfolding st' by (rule accepted_ok_keys) (rule dispatch_keys)
next
  case (others st acc st')
  then show ?case using accepted_ok_keys by blast
qed (simp add: accepted_ok_def)

lemma accepted_count:
  assumes "accepted_ok d db acc"
  shows "length (filter (\<lambda>a. snd a = n) acc) \<le> count_tasks_since d (Some n) db" and "length acc \<le> count_tasks_since d None db"
proof -
  have le: "length (filter P acc) \<le> length (filter Q (db_tasks db))"
    if PQ: "\<And>i m t. (i, m) \<in> set acc \<Longrightarrow> P (i, m) \<Longrightarrow> t \<in> set (db_tasks db) \<Longrightarrow> tk_id t = i \<Longrightarrow> tk_tenant t = m
      \<Longrightarrow> d \<le> tk_created_at t \<Longrightarrow> Q t" for P Q
  proof -
    have "fst ` set (filter P acc) \<subseteq> tk_id ` set (filter Q (db_tasks db))"
    proof
      fix i assume "i \<in> fst ` set (filter P acc)"
      then obtain m where im: "(i, m) \<in> set acc" "P (i, m)" by auto
      then obtain x t where "d \<le> x" "t \<in> set (db_tasks db)" "task_key t = (i, m, x)" using assms by (auto simp: accepted_ok_def)
      then show "i \<in> tk_id ` set (filter Q (db_tasks db))" using PQ [OF im] by (auto simp: task_key_def)
    qed
    then have "card (fst ` set (filter P acc)) \<le> card (tk_id ` set (filter Q (db_tasks db)))" by (intro card_mono) auto
    moreover have "distinct (map fst (filter P acc))" using assms by (simp add: accepted_ok_def distinct_map_filter_key)
    then have "card (fst ` set (filter P acc)) = length (filter P acc)" by (metis distinct_card length_map set_map)
    moreover have "card (tk_id ` set (filter Q (db_tasks db))) \<le> length (filter Q (db_tasks db))"
      using card_image_le [of "set (filter Q (db_tasks db))" tk_id] card_length [of "filter Q (db_tasks db)"] by simp
    ultimately show ?thesis by simp
  qed
  show "length (filter (\<lambda>a. snd a = n) acc) \<le> count_tasks_since d (Some n) db"
    unfolding count_tasks_since_def by (rule le) auto
  show "length acc \<le> count_tasks_since d None db"
    using le [of "\<lambda>_. True" "\<lambda>t. d \<le> tk_created_at t"] by (simp add: count_tasks_since_def)
qed


definition demo_body :: task_create where
  "demo_body = \<lparr>tc_goal = ascii ''go'', tc_mode = ascii ''react'', tc_max_tokens = None, tc_max_steps = None, tc_require_approval = False\<rparr>"


section \<open>Submission is all or nothing\<close>

lemma delete_created:
  assumes "create_task now i g m mt ms n ra db = Inr (t, db')"
    and "\<forall>e \<in> set (db_events db). er_task e \<noteq> i" and "\<forall>s \<in> set (db_spans db). sp_task s \<noteq> i"
    and "\<forall>r \<in> set (db_tools db). te_task r \<noteq> i"
  shows "snd (delete_task_rows i (Some n) db') = db"
proof -
  have "\<forall>u \<in> set (db_tasks db). tk_id u \<noteq> i" "tk_id t = i" "db' = db\<lparr>db_tasks := db_tasks db @ [t]\<rparr>"
    using assms(1) by (auto simp: create_task_def Let_def split: if_splits)
  then show ?thesis using assms(2-4) created_row(1) [OF assms(1)] by (simp add: delete_task_rows_def filter_id_conv)
qed



section \<open>Which operations a task admits\<close>

definition accepts :: "(http_error + api_response) \<times> 'l api_state \<Rightarrow> bool" where
  "accepts x = (case fst x of Inl _ \<Rightarrow> False | Inr _ \<Rightarrow> True)"

definition has_status :: "tenant_context \<Rightarrow> pystr \<Rightarrow> database \<Rightarrow> task_status set \<Rightarrow> bool" where
  "has_status tx tid db sts = (case get_task_row tid (Some (tx_id tx)) db of None \<Rightarrow> False | Some t \<Rightarrow> tk_status t \<in> sts)"

text \<open>
  C22. The operations on a task are admitted exactly in the states that allow them: resuming only
  a failed task, a decision only for a task that waits for approval, deleting any task that is
  not being executed, cancelling any task of the tenant; a refused operation is answered
  with 404 or 409 and changes nothing.
\<close>

theorem lifecycle_guards:
  "(accepts (resume_route cfg tid tx st) \<longleftrightarrow> has_status tx tid (ax_db st) {StFailed})
   \<and> (accepts (approve_route cfg tid tx st) \<longleftrightarrow> has_status tx tid (ax_db st) {StWaitingApproval})
   \<and> (accepts (reject_route cfg tid tx st) \<longleftrightarrow> has_status tx tid (ax_db st) {StWaitingApproval})
   \<and> (accepts (delete_route tid tx st) \<longleftrightarrow> has_status tx tid (ax_db st) (- {StRunning, StResuming}))
   \<and> (accepts (cancel_route now tid tx st) \<longleftrightarrow> has_status tx tid (ax_db st) UNIV)
   \<and> list_all (\<lambda>x. accepts x \<or> snd x = st \<and> (\<exists>e. fst x = Inl e \<and> he_status e \<in> {404, 409}))
       [resume_route cfg tid tx st, approve_route cfg tid tx st, reject_route cfg tid tx st, delete_route tid tx st,
        cancel_route now tid tx st]"
proof (cases "get_task_row tid (Some (tx_id tx)) (ax_db st)")
  case None
  then show ?thesis
    by (simp add: route_defs owned_task_def accepts_def has_status_def http_exception_def)
next
  case (Some t)
  then have own: "owned_task tx tid (ax_db st) = Inr t" by (simp add: owned_task_def)
  have hs: "has_status tx tid (ax_db st) sts \<longleftrightarrow> tk_status t \<in> sts" for sts using Some by (simp add: has_status_def)
  have del: "fst (delete_task_rows tid (Some (tx_id tx)) (ax_db st)) = Some t" using Some by (simp add: delete_task_rows_def)
  show ?thesis
    using del
    by (cases "tk_status t"; cases "fst (queue_cancel tid (ax_engine st) (ax_queue st))")
       (auto simp: hs own route_defs require_waiting_def deletable_def terminal_def accepts_def http_exception_def
         split: prod.splits bool.splits option.splits)
qed

text \<open>
  Approving the same pending round twice: with the local queue the second request starts
  nothing, since the execution of the task is alive; with Celery both requests are accepted
  and two messages are sent, so the second one approves the next round of tools, which nobody
  has seen.
\<close>

theorem double_approval:
  assumes "get_task_row tid (Some (tx_id tx)) (ax_db st) = Some t" and "tk_status t = StWaitingApproval"
    and "queue_run (ax_queue st)" and "st1 = snd (approve_route cfg tid tx st)" and "x = approve_route cfg tid tx st1"
  shows "accepts x \<and> (if ac_celery cfg
      then ax_broker (snd x) = ax_broker st @ [MsgResume tid (Some True), MsgResume tid (Some True)]
      else lq_live (ax_queue (snd x)) = lq_live (ax_queue st1) \<and> ax_broker (snd x) = ax_broker st)"
proof -
  have st1: "st1 = dispatch_resume cfg tid (Some True) st"
    using assms(1,2,4) by (simp add: approve_route_def owned_task_def require_waiting_def)
  then have "ax_db st1 = ax_db st" by (simp add: dispatch_resume_def)
  then have x: "x = (Inr (RAction tid Resuming), dispatch_resume cfg tid (Some True) st1)"
    using assms(1,2,5) by (simp add: approve_route_def owned_task_def require_waiting_def)
  have "lq_live (spawn tid True v (spawn tid True v q)) = lq_live (spawn tid True v q)" if "queue_inv q" for v q
  proof -
    have "\<exists>j \<in> set (lq_live (spawn tid True v q)). dict_get (lq_running (spawn tid True v q)) tid = Some (jb_handle j)"
      by (auto simp: spawn_def)
    then show ?thesis by (simp add: spawn_def [of tid True v "spawn tid True v q"])
  qed
  then show ?thesis
    using x st1 queue_run_inv [OF assms(3)] by (simp add: accepts_def dispatch_resume_def submit_resume_def)
qed

definition demo_waiting :: "sliding api_state" where
  "demo_waiting = demo_api\<lparr>ax_db := snd (update_task 6 (ascii ''k'') (\<lambda>u. u\<lparr>tk_status := StWaitingApproval\<rparr>) demo_db)\<rparr>"

theorem double_approval_witness:
  "ax_broker (snd (approve_route (demo_cfg\<lparr>ac_celery := True\<rparr>) (ascii ''k'') (demo_tenant_ctx\<lparr>tx_id := ascii ''t''\<rparr>)
     (snd (approve_route (demo_cfg\<lparr>ac_celery := True\<rparr>) (ascii ''k'') (demo_tenant_ctx\<lparr>tx_id := ascii ''t''\<rparr>) demo_waiting))))
   = [MsgResume (ascii ''k'') (Some True), MsgResume (ascii ''k'') (Some True)]"
proof -
  have row: "\<exists>t. get_task_row (ascii ''k'') (Some (tx_id (demo_tenant_ctx\<lparr>tx_id := ascii ''t''\<rparr>))) (ax_db demo_waiting) = Some t
      \<and> tk_status t = StWaitingApproval"
    by (simp add: demo_waiting_def demo_db_eq update_task_def get_task_row_def Let_def)
  have q: "queue_run (ax_queue demo_waiting)" using queue_run.start by (simp add: demo_waiting_def demo_api_def)
  have "ax_broker demo_waiting = []" by (simp add: demo_waiting_def demo_api_def)
  then show ?thesis using double_approval [OF _ _ q refl refl, of "ascii ''k''" "demo_tenant_ctx\<lparr>tx_id := ascii ''t''\<rparr>" _
      "demo_cfg\<lparr>ac_celery := True\<rparr>"] row by auto
qed

section \<open>What a stream delivers\<close>

definition seen :: "frame list \<Rightarrow> event list" where
  "seen fs = List.map_filter (\<lambda>f. case f of FEvent e \<Rightarrow> Some e | _ \<Rightarrow> None) fs"

lemma seen_simps [simp]:
  "seen [] = []" "seen (FEvent e # fs) = e # seen fs" "seen (FTask t # fs) = seen fs" "seen (FEnd x # fs) = seen fs"
  "seen (fs @ gs) = seen fs @ seen gs" "seen (map FEvent es) = es"
proof -
  show app: "seen (fs @ gs) = seen fs @ seen gs" by (simp add: seen_def map_filter_def)
  show "seen (map FEvent es) = es" by (induction es) (simp_all add: seen_def map_filter_simps)
qed (simp_all add: seen_def map_filter_simps)

text \<open>The client stays, and the events of the task only grow, with increasing numbers.\<close>

fun watched :: "pystr \<Rightarrow> event list \<Rightarrow> (bool \<times> database \<times> database) list \<Rightarrow> bool" where
  "watched tid es [] = True"
| "watched tid es ((gone, db, db2) # polls) \<longleftrightarrow>
     \<not> gone \<and> (\<exists>new. get_events (\<lambda>_. []) tid (-1) db = Inr (es @ new) \<and> sorted_wrt (<) (map ev_seq (es @ new))
       \<and> watched tid (es @ new) polls)"

lemma event_dicts_filter:
  "event_dicts err rs = Inr es \<Longrightarrow> event_dicts err (filter (\<lambda>r. P (er_seq r)) rs) = Inr (filter (\<lambda>e. P (ev_seq e)) es)"
proof (induction rs arbitrary: es)
  case (Cons r rs)
  then obtain e es1 where "event_dict err r = Inr e" "event_dicts err rs = Inr es1" "es = e # es1"
    by (auto simp: map_sum_Inr_iff split: sum.splits)
  moreover from this have "ev_seq e = er_seq r" by (auto simp: event_dict_def Let_def split: option.splits)
  ultimately show ?case using Cons.IH by simp
qed simp

lemma get_events_after:
  assumes "get_events err tid (-1) db = Inr es"
  shows "get_events err tid n db = Inr (filter (\<lambda>e. n < int (ev_seq e)) es)"
proof -
  let ?rows = "filter (\<lambda>r. er_task r = tid) (db_events db)"
  have "event_dicts err (sort_key er_seq ?rows) = Inr es" using assms by (simp add: get_events_def)
  from event_dicts_filter [OF this, of "\<lambda>k. n < int k"]
  have "event_dicts err (sort_key er_seq (filter (\<lambda>r. n < int (er_seq r)) ?rows)) = Inr (filter (\<lambda>e. n < int (ev_seq e)) es)"
    by (simp add: filter_sort)
  then show ?thesis by (simp add: get_events_def conj_commute)
qed

definition high_mark :: "event list \<Rightarrow> int" where
  "high_mark es = (if es = [] then -1 else int (ev_seq (last es)))"

lemma high_mark_filter:
  assumes "sorted_wrt (<) (map ev_seq (es @ new))"
  shows "filter (\<lambda>e. high_mark es < int (ev_seq e)) (es @ new) = new"
proof -
  have "\<forall>e \<in> set es. int (ev_seq e) \<le> high_mark es"
  proof (cases es rule: rev_cases)
    case (snoc ys y)
    then show ?thesis using assms by (auto simp: high_mark_def sorted_wrt_append)
  qed simp
  moreover have "\<forall>e \<in> set new. high_mark es < int (ev_seq e)"
    using assms by (cases es rule: rev_cases) (auto simp: high_mark_def sorted_wrt_append)
  ultimately show ?thesis by (auto simp: filter_id_conv filter_empty_conv)
qed

lemma fold_high_mark:
  assumes "sorted_wrt (<) (map ev_seq (es @ new))"
  shows "fold (\<lambda>e l. max l (int (ev_seq e))) new (high_mark es) = high_mark (es @ new)"
  using assms
proof (induction new arbitrary: es)
  case (Cons e new)
  have "max (high_mark es) (int (ev_seq e)) = high_mark (es @ [e])"
    using Cons.prems by (cases es rule: rev_cases) (auto simp: high_mark_def sorted_wrt_append)
  then show ?case using Cons.IH [of "es @ [e]"] Cons.prems by simp
qed simp

text \<open>One poll of a client that has the events \<open>es\<close>.\<close>

lemma stream_poll_watched:
  assumes "get_events (\<lambda>_. []) tid (-1) db = Inr (es @ new)" and "sorted_wrt (<) (map ev_seq (es @ new))" and "sm_last m = high_mark es"
  obtains fs x where "stream_poll tid False db db2 m = (fs @ [FEnd x], None)" and "seen fs = new"
  | fs m1 where "stream_poll tid False db db2 m = (fs, Some m1)" and "seen fs = new" and "sm_last m1 = high_mark (es @ new)"
      and "sm_waited m1 = sm_waited m + stream_poll_s" and "sm_waited m1 < stream_max_s"
proof -
  have ev: "get_events (\<lambda>_. []) tid (sm_last m) db = Inr new"
    using get_events_after [OF assms(1)] high_mark_filter [OF assms(2)] by (simp add: assms(3))
  note fm = fold_high_mark [OF assms(2)]
  obtain fs y where p: "stream_poll tid False db db2 m = (fs, y)" by fastforce
  show thesis
  proof (cases y)
    case None
    then show thesis using p ev that(1)
      by (auto simp: stream_poll_def Let_def split: option.splits if_splits)
  next
    case (Some m1)
    then show thesis using p ev fm assms(3) that(2) [of fs m1]
      by (auto simp: stream_poll_def Let_def split: option.splits if_splits)
  qed
qed

lemma stream_gen_watched:
  assumes "watched tid es polls" and "sm_last m = high_mark es" and "polls \<noteq> []" and "fs = stream_gen tid polls m"
  shows "(\<exists>p \<in> set polls. get_events (\<lambda>_. []) tid (-1) (fst (snd p)) = Inr (es @ seen fs))
     \<and> ((\<exists>x. FEnd x \<in> set fs) \<or> get_events (\<lambda>_. []) tid (-1) (fst (snd (last polls))) = Inr (es @ seen fs))
     \<and> (stream_max_s \<le> sm_waited m + real (length polls) * stream_poll_s \<longrightarrow> (\<exists>x. FEnd x \<in> set fs))"
  using assms
proof (induction tid es polls arbitrary: m fs rule: watched.induct)
  case (2 tid es gone db db2 polls)
  obtain new where ev: "get_events (\<lambda>_. []) tid (-1) db = Inr (es @ new)" "sorted_wrt (<) (map ev_seq (es @ new))"
      and rest: "watched tid (es @ new) polls" and here: "\<not> gone" using "2.prems"(1) by auto
  show ?case
  proof (rule stream_poll_watched [OF ev "2.prems"(2), of db2])
    fix gs x assume "stream_poll tid False db db2 m = (gs @ [FEnd x], None)" "seen gs = new"
    then show ?thesis using "2.prems"(4) ev here by auto
  next
    fix gs m1 assume p: "stream_poll tid False db db2 m = (gs, Some m1)" "seen gs = new" "sm_last m1 = high_mark (es @ new)"
      "sm_waited m1 = sm_waited m + stream_poll_s" "sm_waited m1 < stream_max_s"
    then have fs: "fs = gs @ stream_gen tid polls m1" using "2.prems"(4) here by simp
    show ?thesis
    proof (cases "polls = []")
      case True
      then show ?thesis using fs p ev by simp
    next
      case False
      have "stream_max_s \<le> sm_waited m + real (length ((gone, db, db2) # polls)) * stream_poll_s
          \<longleftrightarrow> stream_max_s \<le> sm_waited m1 + real (length polls) * stream_poll_s" using p(4) by (simp add: algebra_simps)
      then show ?thesis using "2.IH" [OF rest p(3) False refl] fs p(2) False by auto
    qed
  qed
qed simp



text \<open>
  The end of a stream can cut off events: when a task ends between the two reads of a poll, the
  stream closes without the events that were stored in between.
\<close>

theorem stream_loses_last_events:
  assumes "get_events (\<lambda>_. []) tid (-1) db = Inr es" and "get_task_row tid None db2 = Some t" and "tk_status t \<in> set terminal"
  shows "seen (stream_gen tid ((False, db, db2) # polls) stream_start) = es
     \<and> FEnd (Some (tk_status t)) \<in> set (stream_gen tid ((False, db, db2) # polls) stream_start)"
  using assms by (simp add: stream_poll_def stream_start_def Let_def)

end
