(* ===== verification/Metrics.thy ===== *)
theory Metrics
  imports Prelude "HOL-Library.List_Lexorder" "HOL-Library.Product_Lexorder"
begin

text \<open>
  The metrics of the process (\<^verbatim>\<open>app/observability/metrics.py\<close>): normalisation of bucket bounds,
  counters, gauges and histograms, the registry and the text format that a scraper reads.
  Floating-point values are real numbers, so rounding of sums is not modelled. The
  parsing and printing of floating-point literals are parameters; a literal that is not a number
  or not finite parses as \<open>None\<close>, which the code skips alike.
\<close>

section \<open>Bucket bounds\<close>

definition max_buckets :: nat where
  "max_buckets = 50"

definition default_buckets :: "real list" where
  "default_buckets = [5 / 1000, 1 / 100, 25 / 1000, 5 / 100, 1 / 10, 1 / 4, 1 / 2, 1, 5 / 2, 5, 10, 30, 60]"

datatype bucket_spec = SpecNone | SpecText pystr | SpecList "real list" | SpecOther

text \<open>The non-empty pieces between commas and white space.\<close>

definition bucket_items :: "pystr \<Rightarrow> pystr list" where
  "bucket_items s = filter (\<lambda>p. p \<noteq> []) (str_split 44 (map (\<lambda>c. if is_space c then 44 else c) (str_strip s)))"

definition normal_buckets :: "real list \<Rightarrow> real list \<Rightarrow> real list" where
  "normal_buckets fallback out =
     (let unique = sorted_list_of_set (set out)
      in if length unique < 2 \<or> max_buckets < length unique then sort fallback else unique)"

definition parse_buckets :: "(pystr \<Rightarrow> real option) \<Rightarrow> bucket_spec \<Rightarrow> real list \<Rightarrow> real list" where
  "parse_buckets parse_float spec fallback =
     (case spec of
        SpecNone \<Rightarrow> sort fallback
      | SpecOther \<Rightarrow> sort fallback
      | SpecText s \<Rightarrow> normal_buckets fallback (List.map_filter parse_float (bucket_items s))
      | SpecList xs \<Rightarrow> normal_buckets fallback xs)"

definition buckets_from_env :: "(pystr \<Rightarrow> real option) \<Rightarrow> pystr \<Rightarrow> real list \<Rightarrow> real list" where
  "buckets_from_env parse_float raw fallback = parse_buckets parse_float (if raw = [] then SpecNone else SpecText raw) fallback"

section \<open>The text format\<close>

definition replace_char :: "nat \<Rightarrow> pystr \<Rightarrow> pystr \<Rightarrow> pystr" where
  "replace_char c r s = concat (map (\<lambda>x. if x = c then r else [x]) s)"

text \<open>The three replacements in the order of the table: backslash, quote, newline.\<close>

definition escape_label :: "pystr \<Rightarrow> pystr" where
  "escape_label s = replace_char 10 [92, 110] (replace_char 34 [92, 34] (replace_char 92 [92, 92] s))"

definition fmt_num :: "(real \<Rightarrow> pystr) \<Rightarrow> real \<Rightarrow> pystr" where
  "fmt_num float_repr x = (if x = of_int \<lfloor>x\<rfloor> then int_str \<lfloor>x\<rfloor> else float_repr x)"

type_synonym labels = "(pystr \<times> pystr) list"

definition labels_repr :: "labels \<Rightarrow> pystr" where
  "labels_repr ls =
     (if ls = [] then []
      else ascii ''{'' @ str_join (ascii '','') (map (\<lambda>(k, v). k @ ascii ''='' @ [34] @ escape_label v @ [34]) (sort ls)) @ ascii ''}'')"

section \<open>Metrics\<close>

datatype metric_kind = CounterKind | GaugeKind | HistogramKind

record hist_cell =
  hc_counts :: "nat list"
  hc_total :: nat
  hc_sum :: real

text \<open>
  A metric: its declaration, and the samples per tuple of label values (for a histogram the
  cells). A key maps to at most one sample.
\<close>

record metric =
  mc_name :: pystr
  mc_help :: pystr
  mc_kind :: metric_kind
  mc_labelnames :: "pystr list"
  mc_buckets :: "real list"
  mc_samples :: "(pystr list \<times> real) list"
  mc_cells :: "(pystr list \<times> hist_cell) list"

datatype metric_error = UnknownLabel | NegativeIncrement

definition metric_key :: "metric \<Rightarrow> labels \<Rightarrow> metric_error + pystr list" where
  "metric_key m ls =
     (if \<not> fst ` set ls \<subseteq> set (mc_labelnames m) then Inl UnknownLabel
      else Inr (map (\<lambda>n. case map_of ls n of None \<Rightarrow> [] | Some v \<Rightarrow> v) (mc_labelnames m)))"

definition sample_of :: "metric \<Rightarrow> pystr list \<Rightarrow> real" where
  "sample_of m key = (case map_of (mc_samples m) key of None \<Rightarrow> 0 | Some x \<Rightarrow> x)"

definition counter_inc :: "labels \<Rightarrow> real \<Rightarrow> metric \<Rightarrow> metric_error + metric" where
  "counter_inc ls value m =
     (if value < 0 then Inl NegativeIncrement
      else map_sum id (\<lambda>key. m\<lparr>mc_samples := AList.update key (sample_of m key + value) (mc_samples m)\<rparr>) (metric_key m ls))"

definition metric_value :: "labels \<Rightarrow> metric \<Rightarrow> metric_error + real" where
  "metric_value ls m = map_sum id (sample_of m) (metric_key m ls)"

definition gauge_set :: "real \<Rightarrow> labels \<Rightarrow> metric \<Rightarrow> metric_error + metric" where
  "gauge_set value ls m = map_sum id (\<lambda>key. m\<lparr>mc_samples := AList.update key value (mc_samples m)\<rparr>) (metric_key m ls)"

definition gauge_inc :: "labels \<Rightarrow> real \<Rightarrow> metric \<Rightarrow> metric_error + metric" where
  "gauge_inc ls value m =
     map_sum id (\<lambda>key. m\<lparr>mc_samples := AList.update key (sample_of m key + value) (mc_samples m)\<rparr>) (metric_key m ls)"

definition gauge_dec :: "labels \<Rightarrow> real \<Rightarrow> metric \<Rightarrow> metric_error + metric" where
  "gauge_dec ls value m = gauge_inc ls (- value) m"

definition cell_of :: "metric \<Rightarrow> pystr list \<Rightarrow> hist_cell" where
  "cell_of m key = (case map_of (mc_cells m) key of
     None \<Rightarrow> \<lparr>hc_counts = replicate (length (mc_buckets m)) 0, hc_total = 0, hc_sum = 0\<rparr> | Some c \<Rightarrow> c)"

definition observe_cell :: "real list \<Rightarrow> real \<Rightarrow> hist_cell \<Rightarrow> hist_cell" where
  "observe_cell buckets value c =
     \<lparr>hc_counts = map (\<lambda>(bound, n). if value \<le> bound then n + 1 else n) (zip buckets (hc_counts c)),
      hc_total = hc_total c + 1, hc_sum = hc_sum c + value\<rparr>"

definition observe :: "real \<Rightarrow> labels \<Rightarrow> metric \<Rightarrow> metric_error + metric" where
  "observe value ls m =
     map_sum id (\<lambda>key. m\<lparr>mc_cells := AList.update key (observe_cell (mc_buckets m) value (cell_of m key)) (mc_cells m)\<rparr>) (metric_key m ls)"

definition hist_stats :: "labels \<Rightarrow> metric \<Rightarrow> metric_error + nat \<times> real" where
  "hist_stats ls m = map_sum id (\<lambda>key. (hc_total (cell_of m key), hc_sum (cell_of m key))) (metric_key m ls)"

definition new_histogram :: "(pystr \<Rightarrow> real option) \<Rightarrow> pystr \<Rightarrow> pystr \<Rightarrow> pystr list \<Rightarrow> real list \<Rightarrow> metric" where
  "new_histogram parse_float name help labelnames buckets =
     \<lparr>mc_name = name, mc_help = help, mc_kind = HistogramKind, mc_labelnames = labelnames,
      mc_buckets = parse_buckets parse_float (SpecList buckets) default_buckets, mc_samples = [], mc_cells = []\<rparr>"

section \<open>Rendering\<close>

definition sample_line :: "(real \<Rightarrow> pystr) \<Rightarrow> pystr \<Rightarrow> labels \<Rightarrow> real \<Rightarrow> pystr" where
  "sample_line float_repr name ls x = name @ labels_repr ls @ ascii '' '' @ fmt_num float_repr x"

definition cell_lines :: "(real \<Rightarrow> pystr) \<Rightarrow> metric \<Rightarrow> pystr list \<times> hist_cell \<Rightarrow> pystr list" where
  "cell_lines float_repr m kc =
     (case kc of (key, c) \<Rightarrow>
        (let ls = zip (mc_labelnames m) key
         in map (\<lambda>(bound, n). sample_line float_repr (mc_name m @ ascii ''_bucket'')
                   (AList.update (ascii ''le'') (fmt_num float_repr bound) ls) (of_nat n)) (zip (mc_buckets m) (hc_counts c))
            @ [sample_line float_repr (mc_name m @ ascii ''_bucket'') (AList.update (ascii ''le'') (ascii ''+Inf'') ls) (of_nat (hc_total c)),
               sample_line float_repr (mc_name m @ ascii ''_sum'') ls (hc_sum c),
               sample_line float_repr (mc_name m @ ascii ''_count'') ls (of_nat (hc_total c))]))"

definition metric_lines :: "(real \<Rightarrow> pystr) \<Rightarrow> metric \<Rightarrow> pystr list" where
  "metric_lines float_repr m =
     (if mc_kind m = HistogramKind then concat (map (cell_lines float_repr m) (sort_key fst (mc_cells m)))
      else map (\<lambda>(key, x). sample_line float_repr (mc_name m) (zip (mc_labelnames m) key) x) (sort_key fst (mc_samples m)))"

definition kind_text :: "metric_kind \<Rightarrow> pystr" where
  "kind_text k = (case k of CounterKind \<Rightarrow> ascii ''counter'' | GaugeKind \<Rightarrow> ascii ''gauge'' | HistogramKind \<Rightarrow> ascii ''histogram'')"

type_synonym metric_registry = "metric dict"

definition register_metric :: "metric \<Rightarrow> metric_registry \<Rightarrow> metric \<times> metric_registry" where
  "register_metric m reg =
     (case dict_get reg (mc_name m) of Some old \<Rightarrow> (old, reg) | None \<Rightarrow> (m, dict_set (mc_name m) m reg))"

definition metric_block :: "(real \<Rightarrow> pystr) \<Rightarrow> metric \<Rightarrow> pystr option" where
  "metric_block float_repr m =
     (let ls = metric_lines float_repr m
      in if ls = [] then None
         else Some (ascii ''# HELP '' @ mc_name m @ ascii '' '' @ mc_help m @ [10] @ ascii ''# TYPE '' @ mc_name m @ ascii '' ''
                @ kind_text (mc_kind m) @ [10] @ str_join [10] ls))"

definition render_metrics :: "(real \<Rightarrow> pystr) \<Rightarrow> metric_registry \<Rightarrow> pystr" where
  "render_metrics float_repr reg =
     (let blocks = List.map_filter (\<lambda>(_, m). metric_block float_repr m) (sort_key fst reg)
      in str_join [10] blocks @ (if blocks = [] then [] else [10]))"

text \<open>\<open>clear\<close> resets the samples of the base class; the cells of a histogram are kept elsewhere and stay.\<close>

definition clear_metric :: "metric \<Rightarrow> metric" where
  "clear_metric m = m\<lparr>mc_samples := []\<rparr>"

section \<open>Bounds are usable\<close>

lemma parse_buckets_sorted:
  assumes "sorted fallback"
  shows "sorted (parse_buckets pf spec fallback)"
  using assms by (auto simp: parse_buckets_def normal_buckets_def Let_def sorted_sort split: bucket_spec.splits)

lemma parse_buckets_ok:
  assumes "sorted_wrt (<) fallback" and "2 \<le> length fallback" and "length fallback \<le> max_buckets"
  shows "sorted_wrt (<) (parse_buckets pf spec fallback) \<and> 2 \<le> length (parse_buckets pf spec fallback)
     \<and> length (parse_buckets pf spec fallback) \<le> max_buckets"
proof -
  have fb: "sort fallback = fallback" using assms(1) by (simp add: sorted_sort_id strict_sorted_iff)
  have "sorted_wrt (<) (normal_buckets fallback out) \<and> 2 \<le> length (normal_buckets fallback out)
      \<and> length (normal_buckets fallback out) \<le> max_buckets" for out
    using assms by (simp add: normal_buckets_def fb Let_def)
  then show ?thesis using assms by (simp add: parse_buckets_def fb split: bucket_spec.splits)
qed

text \<open>A histogram passes its bounds through the normalisation again; nothing changes.\<close>

lemma parse_buckets_idem:
  assumes "sorted_wrt (<) bs" and "2 \<le> length bs" and "length bs \<le> max_buckets"
  shows "parse_buckets pf (SpecList bs) fallback = bs"
proof -
  have "sorted_list_of_set (set bs) = bs" using assms(1) by (simp add: strict_sorted_iff sorted_list_of_set.idem_if_sorted_distinct)
  then show ?thesis using assms(2,3) by (simp add: parse_buckets_def normal_buckets_def Let_def)
qed

section \<open>Histograms count exactly\<close>

text \<open>A history of observations and what a scraper may rely on for the cell of a key.\<close>

fun observe_all :: "(real \<times> labels) list \<Rightarrow> metric \<Rightarrow> metric" where
  "observe_all [] m = m"
| "observe_all ((x, ls) # obs) m = observe_all obs (case observe x ls m of Inl _ \<Rightarrow> m | Inr m1 \<Rightarrow> m1)"

definition values_of :: "metric \<Rightarrow> pystr list \<Rightarrow> (real \<times> labels) list \<Rightarrow> real list" where
  "values_of m key obs = map fst (filter (\<lambda>(x, ls). metric_key m ls = Inr key) obs)"

definition cell_for :: "real list \<Rightarrow> real list \<Rightarrow> hist_cell" where
  "cell_for buckets xs = \<lparr>hc_counts = map (\<lambda>b. length (filter (\<lambda>x. x \<le> b) xs)) buckets, hc_total = length xs, hc_sum = sum_list xs\<rparr>"

lemma observe_cell_for: "observe_cell bs x (cell_for bs xs) = cell_for bs (xs @ [x])"
  by (auto simp: observe_cell_def cell_for_def zip_map2 zip_same_conv_map o_def)

lemma observe_same:
  assumes "observe x ls m = Inr m1"
  shows "mc_buckets m1 = mc_buckets m" and "metric_key m1 = metric_key m" and "mc_labelnames m1 = mc_labelnames m"
    and "\<exists>key. metric_key m ls = Inr key
      \<and> cell_of m1 k = (if k = key then observe_cell (mc_buckets m) x (cell_of m key) else cell_of m k)"
proof -
  obtain key where key: "metric_key m ls = Inr key"
      and m1: "m1 = m\<lparr>mc_cells := AList.update key (observe_cell (mc_buckets m) x (cell_of m key)) (mc_cells m)\<rparr>"
    using assms by (auto simp: observe_def map_sum_Inr_iff)
  show "mc_buckets m1 = mc_buckets m" "metric_key m1 = metric_key m" "mc_labelnames m1 = mc_labelnames m"
    by (simp_all add: m1 metric_key_def fun_eq_iff)
  have "cell_of m1 k = (if k = key then observe_cell (mc_buckets m) x (cell_of m key) else cell_of m k)"
  proof -
    have "cell_of (m\<lparr>mc_cells := AList.update key c (mc_cells m)\<rparr>) k = (if k = key then c else cell_of m k)" for c
      by (simp add: cell_of_def update_conv split: option.splits)
    then show ?thesis by (simp add: m1)
  qed
  then show "\<exists>key. metric_key m ls = Inr key
      \<and> cell_of m1 k = (if k = key then observe_cell (mc_buckets m) x (cell_of m key) else cell_of m k)" using key by blast
qed

lemma observe_all_cells:
  "cell_of m key = cell_for (mc_buckets m) xs
     \<Longrightarrow> cell_of (observe_all obs m) key = cell_for (mc_buckets m) (xs @ values_of m key obs)
       \<and> mc_buckets (observe_all obs m) = mc_buckets m"
proof (induction obs arbitrary: m xs)
  case (Cons o1 obs)
  obtain x ls where o1: "o1 = (x, ls)" by fastforce
  show ?case
  proof (cases "observe x ls m")
    case (Inl e)
    then have "metric_key m ls = Inl e" by (cases "metric_key m ls") (auto simp: observe_def)
    then show ?thesis using Cons o1 Inl by (simp add: values_of_def)
  next
    case (Inr m1)
    note same = observe_same [OF Inr]
    have vals: "values_of m1 key obs = values_of m key obs" by (simp add: values_of_def same(2))
    obtain k where k: "metric_key m ls = Inr k" "cell_of m1 key = (if key = k then observe_cell (mc_buckets m) x (cell_of m k) else cell_of m key)"
      using same(4) by blast
    then have "cell_of m1 key = cell_for (mc_buckets m1) (xs @ (if key = k then [x] else []))"
      using Cons.prems same(1) by (auto simp: observe_cell_for)
    from Cons.IH [OF this] show ?thesis using o1 Inr k(1) vals same(1) by (auto simp: values_of_def)
  qed
qed (simp add: values_of_def)

text \<open>
  A histogram counts exactly: after any sequence of observations with any labels, the cell
  of a label tuple holds, for every bound, the number of observations up to it, the number of all
  observations and their sum; the cumulative counts never decrease from one bound to the
  next and never exceed the total, also for values beyond the last bound, as the format requires.
\<close>

theorem histogram_exact:
  assumes "m = new_histogram pf name help names bounds" and "c = cell_of (observe_all obs m) key" and "xs = values_of m key obs"
  shows "c = cell_for (mc_buckets m) xs \<and> sorted (hc_counts c) \<and> (\<forall>n \<in> set (hc_counts c). n \<le> hc_total c)"
proof -
  have bounds: "sorted (mc_buckets m)"
    using assms(1) by (simp add: new_histogram_def parse_buckets_sorted default_buckets_def)
  have "mc_cells m = []" using assms(1) by (simp add: new_histogram_def)
  then have "cell_of m key = cell_for (mc_buckets m) []" by (simp add: cell_of_def cell_for_def map_replicate_const)
  from observe_all_cells [OF this] have c: "c = cell_for (mc_buckets m) xs" using assms(2,3) by simp
  have mono: "length (filter (\<lambda>x. x \<le> a) xs) \<le> length (filter (\<lambda>x. x \<le> b) xs)" if "a \<le> b" for a b
    using that by (induction xs) auto
  have "sorted (map (\<lambda>b. length (filter (\<lambda>x. x \<le> b) xs)) (mc_buckets m))"
    using bounds mono by (auto simp: sorted_map intro: sorted_wrt_mono_rel)
  then show ?thesis using c by (auto simp: cell_for_def)
qed

theorem histogram_exact_witness:
  "cell_of (observe_all [(5, [(ascii ''tool'', [])]), (99, [])] (new_histogram (\<lambda>_. None) (ascii ''m'') [] [ascii ''tool''] [10, 1])) [[]]
     = cell_for [1, 10] [5, 99]"
proof -
  let ?m = "new_histogram (\<lambda>_. None) (ascii ''m'') [] [ascii ''tool''] [10, 1]"
  have "sorted_list_of_set {10, 1 :: real} = [1, 10]" by (simp add: insert_commute)
  then have "mc_buckets ?m = [1, 10]" by (simp add: new_histogram_def parse_buckets_def normal_buckets_def max_buckets_def)
  moreover have "values_of ?m [[]] [(5, [(ascii ''tool'', [])]), (99, [])] = [5, 99]"
    by (simp add: values_of_def metric_key_def new_histogram_def)
  ultimately show ?thesis
    using histogram_exact [where m = ?m and key = "[[]]" and obs = "[(5, [(ascii ''tool'', [])]), (99, [])]", OF refl refl refl] by simp
qed

section \<open>Escaping is reversible\<close>

fun unescape :: "pystr \<Rightarrow> pystr" where
  "unescape [] = []"
| "unescape [c] = [c]"
| "unescape (c # d # s) =
     (if c = 92 \<and> d = 92 then 92 # unescape s
      else if c = 92 \<and> d = 34 then 34 # unescape s
      else if c = 92 \<and> d = 110 then 10 # unescape s
      else c # unescape (d # s))"

lemma escape_label_Cons:
  "escape_label (c # s) = (if c = 92 then [92, 92] else if c = 34 then [92, 34] else if c = 10 then [92, 110] else [c]) @ escape_label s"
  by (simp add: escape_label_def replace_char_def)

lemma escape_label_Nil: "escape_label [] = []"
  by (simp add: escape_label_def replace_char_def)

lemma unescape_plain: "c \<noteq> 92 \<Longrightarrow> unescape (c # s) = c # unescape s"
  by (cases s) auto

lemma unescape_escape: "unescape (escape_label s) = s"
  by (induction s) (auto simp: escape_label_Cons escape_label_Nil unescape_plain)

lemma escape_one_line: "10 \<notin> set (escape_label s)"
  by (induction s) (auto simp: escape_label_Cons escape_label_Nil)

text \<open>Clearing the registry does not clear a histogram.\<close>

lemma clear_keeps_histogram: "cell_of (clear_metric m) key = cell_of m key"
  by (simp add: clear_metric_def cell_of_def split: option.splits)

end
