(* ===== verification/Builtin_Tools.thy ===== *)
theory Builtin_Tools
  imports Registry
begin

text \<open>
  The handlers of the built-in tools: read-only queries (\<^verbatim>\<open>app/tools/db_query.py\<close>), files of
  the workspace (\<^verbatim>\<open>app/tools/file_ops.py\<close>), code in the sandbox (\<^verbatim>\<open>app/tools/code_run.py\<close>) with the
  choice of its backend (\<^verbatim>\<open>app/executor/sandbox.py\<close>), and the registries (\<^verbatim>\<open>app/tools/factory.py\<close>).
  The database engine, the resolution of paths by the operating system, the text codec and the sandbox
  processes are parameters.
\<close>

section \<open>Queries\<close>

definition forbidden_words :: "pystr list" where
  "forbidden_words = map ascii [''insert'', ''update'', ''delete'', ''drop'', ''alter'', ''create'', ''attach'',
     ''detach'', ''pragma'', ''vacuum'', ''reindex'', ''replace'', ''grant'', ''revoke'']"

text \<open>The rest after the first \<open>*/\<close>, and after the quote that ends a literal as the regular expression finds it.\<close>

fun block_end :: "pystr \<Rightarrow> pystr option" where
  "block_end [] = None"
| "block_end [c] = None"
| "block_end (c # d # s) = (if c = 42 \<and> d = 47 then Some s else block_end (d # s))"

fun literal_end :: "pystr \<Rightarrow> pystr option" where
  "literal_end [] = None"
| "literal_end [c] = (if c = 39 then Some [] else None)"
| "literal_end (c # d # s) =
     (if c = 39 \<and> d = 39 then (case literal_end s of Some r \<Rightarrow> Some r | None \<Rightarrow> Some (d # s))
      else if c = 39 then Some (d # s)
      else literal_end (d # s))"

lemma block_end_shorter: "block_end s = Some r \<Longrightarrow> length r < length s"
  by (induction s rule: block_end.induct) (auto split: if_splits)

lemma literal_end_shorter: "literal_end s = Some r \<Longrightarrow> length r < length s"
  by (induction s rule: literal_end.induct) (auto split: if_splits option.splits)

lemma tl_shorter: "length (tl s) < Suc (length s)"
  by (cases s) auto

lemma dropWhile_tl_shorter: "length (dropWhile P (tl s)) < Suc (length s)"
  using length_dropWhile_le [of P "tl s"] tl_shorter [of s] by linarith

function strip_comments :: "pystr \<Rightarrow> pystr" where
  "strip_comments [] = []"
| "strip_comments (c # s) =
     (if c = 45 \<and> str_prefix [45] s then 32 # strip_comments (dropWhile (\<lambda>x. x \<noteq> 10) (tl s))
      else case (if c = 47 \<and> str_prefix [42] s then block_end (tl s) else None) of
             Some r \<Rightarrow> 32 # strip_comments r
           | None \<Rightarrow> c # strip_comments s)"
  by pat_completeness auto
termination
  by (relation "measure length")
     (auto simp: dropWhile_tl_shorter dest!: block_end_shorter dest: le_less_trans [OF _ tl_shorter] split: if_splits)

function strip_literals :: "pystr \<Rightarrow> pystr" where
  "strip_literals [] = []"
| "strip_literals (c # s) =
     (case (if c = 39 then literal_end s else None) of
        Some r \<Rightarrow> [39, 39] @ strip_literals r
      | None \<Rightarrow> c # strip_literals s)"
  by pat_completeness auto
termination
  by (relation "measure length") (auto dest!: literal_end_shorter split: if_splits)

definition sql_skeleton :: "pystr \<Rightarrow> pystr" where
  "sql_skeleton sql = str_lower (strip_literals (strip_comments sql))"

text \<open>\<open>\b\<close>\<open>kw\<close>\<open>\b\<close>; \<open>word\<close> says which characters belong to words, \<open>prev\<close> whether the one before does.\<close>

fun has_word :: "(nat \<Rightarrow> bool) \<Rightarrow> pystr \<Rightarrow> bool \<Rightarrow> pystr \<Rightarrow> bool" where
  "has_word word kw prev [] = False"
| "has_word word kw prev (c # s) =
     (\<not> prev \<and> str_prefix kw (c # s)
        \<and> (case drop (length kw) (c # s) of [] \<Rightarrow> True | d # _ \<Rightarrow> \<not> word d)
      \<or> has_word word kw (word c) s)"

datatype sql_error = SqlEmpty | SqlMultiple | SqlNotSelect | SqlForbidden pystr

definition rstrip_char :: "nat \<Rightarrow> pystr \<Rightarrow> pystr" where
  "rstrip_char c s = rev (dropWhile (\<lambda>x. x = c) (rev s))"

definition validate_readonly_sql :: "(nat \<Rightarrow> bool) \<Rightarrow> pystr \<Rightarrow> sql_error + pystr" where
  "validate_readonly_sql word sql =
     (let cleaned = str_strip (rstrip_char 59 (str_strip sql)); skeleton = sql_skeleton cleaned
      in if cleaned = [] then Inl SqlEmpty
         else if 59 \<in> set skeleton then Inl SqlMultiple
         else if \<not> (str_prefix (ascii ''select'') skeleton \<or> str_prefix (ascii ''with'') skeleton) then Inl SqlNotSelect
         else case find (\<lambda>kw. has_word word kw False skeleton) forbidden_words of
                Some kw \<Rightarrow> Inl (SqlForbidden kw)
              | None \<Rightarrow> Inr cleaned)"

definition cell_max_chars :: nat where
  "cell_max_chars = 2000"

definition cell_mark :: pystr where
  "cell_mark = [8230, 91, 21333, 20803, 26684, 36229, 38480, 25130, 26029, 93]"

text \<open>A cell: null, a number, a text, or another value with its text.\<close>

datatype cell = CellNull | CellNum real | CellText pystr | CellOther pystr

definition cap_text :: "pystr \<Rightarrow> pystr" where
  "cap_text s = (if cell_max_chars < length s then take (cell_max_chars - length cell_mark) s @ cell_mark else s)"

definition cap_cell :: "cell \<Rightarrow> cell" where
  "cap_cell v = (case v of CellNull \<Rightarrow> v | CellNum _ \<Rightarrow> v | CellText s \<Rightarrow> CellText (cap_text s) | CellOther s \<Rightarrow> CellText (cap_text s))"

record query_result =
  qr_columns :: "pystr list"
  qr_rows :: "cell dict list"
  qr_truncated :: bool
  qr_row_count :: nat

datatype query_error = QueryBad pystr | QueryRaised pystr

definition schema_markers :: "pystr list" where
  "schema_markers = map ascii [''no such table'', ''no such column'', ''no such function'', ''syntax error'', ''has no column named'']"

text \<open>
  \<open>run\<close> is the database: the message of an operational error, or the columns and all rows.
\<close>

definition run_query :: "(pystr \<Rightarrow> pystr + pystr list \<times> cell list list) \<Rightarrow> pystr \<Rightarrow> nat \<Rightarrow> query_error + query_result" where
  "run_query run sql max_rows =
     (case run sql of
        Inl msg \<Rightarrow> (if (\<exists>k \<in> set schema_markers. str_in k (str_lower msg)) then Inl (QueryBad msg) else Inl (QueryRaised msg))
      | Inr (cols, rows) \<Rightarrow>
          (let fetched = take (max_rows + 1) rows;
               kept = take max_rows fetched;
               data = map (\<lambda>row. fold (\<lambda>(c, v) d. dict_set c (cap_cell v) d) (zip cols row) []) kept
           in Inr \<lparr>qr_columns = cols, qr_rows = data, qr_truncated = max_rows < length fetched, qr_row_count = length data\<rparr>))"

definition db_query :: "(nat \<Rightarrow> bool) \<Rightarrow> (pystr \<Rightarrow> pystr + pystr list \<times> cell list list) \<Rightarrow> pystr \<Rightarrow> nat \<Rightarrow> (sql_error + query_error) + query_result" where
  "db_query word run sql max_rows =
     (case validate_readonly_sql word sql of
        Inl e \<Rightarrow> Inl (Inl e)
      | Inr cleaned \<Rightarrow> map_sum Inr id (run_query run cleaned max_rows))"

section \<open>Files of the workspace\<close>

type_synonym path = "pystr list"

datatype fs_node = FsDir | FsFile "nat list"

type_synonym file_system = "(path \<times> fs_node) list"

definition fs_at :: "file_system \<Rightarrow> path \<Rightarrow> fs_node option" where
  "fs_at fs p = map_of fs p"

definition max_file_bytes :: nat where
  "max_file_bytes = 2 * 1024 * 1024"

definition inside :: "path \<Rightarrow> path \<Rightarrow> bool" where
  "inside base p \<longleftrightarrow> take (length base) p = base"

datatype file_error = PathEscapes | FileMissing | FileTooLarge | BadAction | FsFailure

definition safe_resolve :: "(path \<Rightarrow> pystr \<Rightarrow> path) \<Rightarrow> path \<Rightarrow> pystr \<Rightarrow> file_error + path" where
  "safe_resolve resolve base rel = (let p = resolve base rel in if inside base p then Inr p else Inl PathEscapes)"

text \<open>\<open>mkdir(parents=True, exist_ok=True)\<close>: all prefixes become directories; a file among them raises.\<close>

fun make_dirs :: "path \<Rightarrow> path \<Rightarrow> file_system \<Rightarrow> file_error + file_system" where
  "make_dirs here [] fs =
     (case fs_at fs here of None \<Rightarrow> Inr (AList.update here FsDir fs) | Some FsDir \<Rightarrow> Inr fs | Some (FsFile _) \<Rightarrow> Inl FsFailure)"
| "make_dirs here (x # xs) fs =
     (case fs_at fs here of
        None \<Rightarrow> make_dirs (here @ [x]) xs (AList.update here FsDir fs)
      | Some FsDir \<Rightarrow> make_dirs (here @ [x]) xs fs
      | Some (FsFile _) \<Rightarrow> Inl FsFailure)"

record codec =
  cd_encode :: "pystr \<Rightarrow> nat list"
  cd_decode :: "nat list \<Rightarrow> pystr"

datatype file_result =
    FileText pystr
  | FileWritten nat
  | FileListing "(pystr \<times> bool \<times> nat) list"

definition file_read :: "codec \<Rightarrow> path \<Rightarrow> file_system \<Rightarrow> file_error + file_result" where
  "file_read cd p fs =
     (case fs_at fs p of
        Some (FsFile bytes) \<Rightarrow>
          Inr (FileText (cd_decode cd (take max_file_bytes bytes)
                 @ (if max_file_bytes < length bytes then [10] @ [8230, 91, 25991, 20214, 36229, 36807, 32, 50, 77, 66, 65292, 24050, 25130, 26029, 93] else [])))
      | _ \<Rightarrow> Inl FileMissing)"

definition file_write :: "codec \<Rightarrow> path \<Rightarrow> path \<Rightarrow> pystr \<Rightarrow> file_system \<Rightarrow> (file_error + file_result) \<times> file_system" where
  "file_write cd base p content fs =
     (let data = cd_encode cd content
      in if max_file_bytes < length data then (Inl FileTooLarge, fs)
         else if p = base then (Inl FsFailure, fs)
         else case make_dirs base (drop (length base) (butlast p)) fs of
                Inl e \<Rightarrow> (Inl e, fs)
              | Inr fs1 \<Rightarrow>
                  (case fs_at fs1 p of
                     Some FsDir \<Rightarrow> (Inl FsFailure, fs1)
                   | _ \<Rightarrow> (Inr (FileWritten (length data)), AList.update p (FsFile data) fs1)))"

definition file_list :: "path \<Rightarrow> path \<Rightarrow> file_system \<Rightarrow> file_result" where
  "file_list base p fs =
     (let target = (if fs_at fs p = Some FsDir then p else base);
          items = sort_key fst (filter (\<lambda>(q, _). q \<noteq> [] \<and> butlast q = target) fs)
      in FileListing (take 100 (map (\<lambda>(q, n). (last q, n = FsDir, case n of FsDir \<Rightarrow> 0 | FsFile b \<Rightarrow> length b)) items)))"

definition file_ops :: "(path \<Rightarrow> pystr \<Rightarrow> path) \<Rightarrow> codec \<Rightarrow> path \<Rightarrow> pystr \<Rightarrow> pystr \<Rightarrow> pystr \<Rightarrow> file_system
     \<Rightarrow> (file_error + file_result) \<times> file_system" where
  "file_ops resolve cd base action rel content fs =
     (case safe_resolve resolve base rel of
        Inl e \<Rightarrow> (Inl e, fs)
      | Inr p \<Rightarrow>
          (if action = ascii ''read'' then (file_read cd p fs, fs)
           else if action = ascii ''write'' then file_write cd base p content fs
           else if action = ascii ''list'' then (Inr (file_list base p fs), fs)
           else (Inl BadAction, fs)))"

section \<open>The sandbox\<close>

datatype sandbox_mode = SbAuto | SbDocker | SbLocal
datatype backend = DockerBackend | LocalBackend

record build_info =
  bi_mode :: sandbox_mode
  bi_backend :: backend
  bi_isolated :: bool
  bi_fallback :: pystr

text \<open>\<open>docker\<close> is the outcome of connecting to the daemon and providing the image.\<close>

definition build_sandbox :: "sandbox_mode \<Rightarrow> bool \<Rightarrow> pystr + unit \<Rightarrow> pystr + backend \<times> build_info" where
  "build_sandbox mode allow_unsafe docker =
     (let fallback = (case docker of Inl msg \<Rightarrow> if mode = SbLocal then [] else msg | Inr _ \<Rightarrow> []);
          go_local = (if mode = SbLocal \<or> allow_unsafe
            then Inr (LocalBackend, \<lparr>bi_mode = mode, bi_backend = LocalBackend, bi_isolated = False, bi_fallback = fallback\<rparr>)
            else Inl fallback)
      in if mode = SbLocal then go_local
         else case docker of
                Inr _ \<Rightarrow> Inr (DockerBackend, \<lparr>bi_mode = mode, bi_backend = DockerBackend, bi_isolated = True, bi_fallback = []\<rparr>)
              | Inl msg \<Rightarrow> if mode = SbDocker then Inl msg else go_local)"

record sandbox_result =
  sr_exit :: int
  sr_stdout :: pystr
  sr_stderr :: pystr
  sr_timed_out :: bool

record code_output =
  co_exit :: int
  co_stdout :: pystr
  co_stderr :: pystr
  co_timed_out :: bool

definition code_run :: "(pystr \<Rightarrow> 'w \<Rightarrow> sandbox_result \<times> 'w) \<Rightarrow> pystr \<Rightarrow> 'w \<Rightarrow> code_output \<times> 'w" where
  "code_run run_python code W =
     (case run_python code W of
        (r, W1) \<Rightarrow> (\<lparr>co_exit = sr_exit r, co_stdout = take_last 4000 (sr_stdout r), co_stderr = take_last 2000 (sr_stderr r),
                     co_timed_out = sr_timed_out r\<rparr>, W1))"

section \<open>The registries\<close>

fun register_all :: "'w tool_spec list \<Rightarrow> 'w tool_registry \<Rightarrow> pystr + 'w tool_registry" where
  "register_all [] reg = Inr reg"
| "register_all (s # ss) reg = (case register s reg of Inl e \<Rightarrow> Inl e | Inr reg1 \<Rightarrow> register_all ss reg1)"

text \<open>The registry of the agent and the one that its sub-agents get; \<open>subagent\<close> is given the latter.\<close>

definition build_default_registry :: "'w tool_spec list \<Rightarrow> ('w tool_registry \<Rightarrow> 'w tool_spec) option
     \<Rightarrow> pystr + 'w tool_registry \<times> 'w tool_registry" where
  "build_default_registry core subagent =
     (case register_all core [] of
        Inl e \<Rightarrow> Inl e
      | Inr reg \<Rightarrow>
          (case subagent of
             None \<Rightarrow> Inr (reg, reg)
           | Some mk \<Rightarrow> map_sum id (\<lambda>reg1. (reg1, reg)) (register (mk reg) reg)))"

section \<open>Query results are bounded\<close>

lemma cap_text_bound: "length (cap_text s) \<le> cell_max_chars"
  by (simp add: cap_text_def cell_max_chars_def cell_mark_def)

lemma fold_capped:
  "(\<forall>v \<in> snd ` set d. \<exists>u. v = cap_cell u) \<Longrightarrow> v \<in> snd ` set (fold (\<lambda>(c, v) d. dict_set c (cap_cell v) d) cvs d) \<Longrightarrow> \<exists>u. v = cap_cell u"
proof (induction cvs arbitrary: d)
  case (Cons cv cvs)
  have "snd ` set (AList.update c x d) \<subseteq> insert x (snd ` set d)" for c x and d :: "cell dict"
    by (induction d) auto
  then have "\<forall>v \<in> snd ` set (dict_set (fst cv) (cap_cell (snd cv)) d). \<exists>u. v = cap_cell u"
    using Cons.prems(1) by (fastforce simp: dict_set_def)
  then show ?case using Cons.IH Cons.prems(2) by (simp add: case_prod_beta)
qed auto

text \<open>
  A query result is bounded: at most the requested number of rows, marked as truncated exactly
  when there were more, and no cell with a text of more than 2000 characters, however large the
  data is; and the database only ever sees a statement that passed the validation.
\<close>

theorem db_query_bounded:
  assumes "db_query word run sql max_rows = Inr r"
  shows "\<exists>cleaned cols rows. validate_readonly_sql word sql = Inr cleaned \<and> run cleaned = Inr (cols, rows)
     \<and> length (qr_rows r) = min max_rows (length rows) \<and> qr_row_count r = length (qr_rows r)
     \<and> (qr_truncated r \<longleftrightarrow> max_rows < length rows)
     \<and> (\<forall>row \<in> set (qr_rows r). \<forall>(c, v) \<in> set row. \<forall>s. v = CellText s \<longrightarrow> length s \<le> cell_max_chars)"
proof -
  obtain cleaned cols rows where v: "validate_readonly_sql word sql = Inr cleaned" "run cleaned = Inr (cols, rows)"
      and r: "r = \<lparr>qr_columns = cols, qr_rows = map (\<lambda>row. fold (\<lambda>(c, v) d. dict_set c (cap_cell v) d) (zip cols row) []) (take max_rows rows),
        qr_truncated = max_rows < length (take (max_rows + 1) rows), qr_row_count = length (take max_rows rows)\<rparr>"
    using assms by (auto simp: db_query_def run_query_def Let_def map_sum_Inr_iff split: sum.splits if_splits)
  have "length s \<le> cell_max_chars" if row: "row \<in> set (qr_rows r)" and cell: "(c, CellText s) \<in> set row" for row c s
  proof -
    have "row \<in> (\<lambda>row. fold (\<lambda>(c, v) d. dict_set c (cap_cell v) d) (zip cols row) []) ` set (take max_rows rows)"
      using row by (simp add: r)
    then obtain cvs where "row = fold (\<lambda>(c, v) d. dict_set c (cap_cell v) d) cvs []" by blast
    then obtain u where "CellText s = cap_cell u" using fold_capped [of "[]" "CellText s" cvs] cell by force
    then show ?thesis using cap_text_bound by (cases u) (auto simp: cap_cell_def)
  qed
  then show ?thesis using v r by (intro exI [of _ cleaned] exI [of _ cols] exI [of _ rows]) fastforce
qed

definition ascii_word :: "nat \<Rightarrow> bool" where
  "ascii_word c \<longleftrightarrow> 48 \<le> c \<and> c \<le> 57 \<or> 65 \<le> c \<and> c \<le> 90 \<or> 97 \<le> c \<and> c \<le> 122 \<or> c = 95"

theorem db_query_bounded_witness:
  "case db_query ascii_word (\<lambda>_. Inr ([ascii ''a''], [[CellNum 1], [CellNum 2]])) (ascii ''select a'') 1 of
     Inl _ \<Rightarrow> False | Inr r \<Rightarrow> qr_row_count r = 1 \<and> qr_truncated r"
proof -
  have "validate_readonly_sql ascii_word (ascii ''select a'') = Inr (ascii ''select a'')"
    by (simp add: validate_readonly_sql_def sql_skeleton_def ascii_def str_strip_def is_space_def rstrip_char_def str_lower_def
        lower_char_def forbidden_words_def ascii_word_def Let_def)
  then obtain r where r: "db_query ascii_word (\<lambda>_. Inr ([ascii ''a''], [[CellNum 1], [CellNum 2]])) (ascii ''select a'') 1 = Inr r"
    by (auto simp: db_query_def run_query_def Let_def)
  have "qr_row_count r = 1 \<and> qr_truncated r" using db_query_bounded [OF r] by auto
  then show ?thesis by (simp only: r sum.case)
qed

section \<open>The validation can be evaded\<close>

text \<open>What a database reads as code: a single pass in which quotes shield comment signs.\<close>

datatype lex_mode = InCode | InLiteral | InLine | InBlock

fun code_chars :: "lex_mode \<Rightarrow> pystr \<Rightarrow> pystr" where
  "code_chars m [] = []"
| "code_chars InCode [c] = (if c = 39 then [] else [c])"
| "code_chars InCode (c # d # s) =
     (if c = 39 then code_chars InLiteral (d # s)
      else if c = 45 \<and> d = 45 then code_chars InLine s
      else if c = 47 \<and> d = 42 then code_chars InBlock s
      else c # code_chars InCode (d # s))"
| "code_chars InLiteral (c # s) = code_chars (if c = 39 then InCode else InLiteral) s"
| "code_chars InLine (c # s) = code_chars (if c = 10 then InCode else InLine) s"
| "code_chars InBlock [c] = []"
| "code_chars InBlock (c # d # s) = (if c = 42 \<and> d = 47 then code_chars InCode s else code_chars InBlock (d # s))"

definition evading_sql :: pystr where
  "evading_sql = ascii ''select '' @ [39] @ ascii ''--'' @ [39] @ ascii ''; delete from t''"

text \<open>
  The validation of queries can be evaded: comments are removed before literals, so a comment
  sign inside a literal hides the rest of the line. The statement below passes although what
  the database reads has a semicolon and the forbidden word.
\<close>

theorem sql_validation_evaded:
  "validate_readonly_sql ascii_word evading_sql = Inr evading_sql
   \<and> 59 \<in> set (code_chars InCode evading_sql) \<and> has_word ascii_word (ascii ''delete'') False (code_chars InCode evading_sql)"
  by (simp add: evading_sql_def validate_readonly_sql_def sql_skeleton_def ascii_def str_strip_def is_space_def rstrip_char_def
      str_lower_def lower_char_def forbidden_words_def ascii_word_def Let_def)

section \<open>File operations stay in the workspace\<close>

lemma inside_iff: "inside base p \<longleftrightarrow> (\<exists>t. p = base @ t)"
  unfolding inside_def by (metis append_eq_conv_conj)

lemma make_dirs_outside:
  "make_dirs here rest fs = Inr fs' \<Longrightarrow> inside base here \<Longrightarrow> \<not> inside base q \<Longrightarrow> fs_at fs' q = fs_at fs q"
proof (induction here rest fs rule: make_dirs.induct)
  case (2 here x xs fs)
  have "inside base (here @ [x])" using "2.prems"(2) by (auto simp: inside_iff)
  moreover have "q \<noteq> here" using "2.prems"(2,3) by auto
  ultimately show ?case using 2 by (auto simp: fs_at_def update_conv split: option.splits fs_node.splits)
qed (auto simp: fs_at_def update_conv split: option.splits fs_node.splits)



section \<open>The sandbox is never weakened silently\<close>

text \<open>
  Model-generated code runs outside a container only by an explicit decision: either local mode
  is configured or the unsafe fallback is allowed; a fallback is recorded with its reason, and what is
  reported as isolated is a container.
\<close>

theorem sandbox_never_silent:
  assumes "build_sandbox mode allow_unsafe docker = Inr (b, info)"
  shows "bi_backend info = b \<and> (bi_isolated info \<longleftrightarrow> b = DockerBackend)
     \<and> (b = LocalBackend \<longrightarrow> mode = SbLocal \<or> mode = SbAuto \<and> allow_unsafe \<and> docker = Inl (bi_fallback info))
     \<and> (b = DockerBackend \<longrightarrow> docker = Inr () \<and> mode \<noteq> SbLocal)"
  using assms by (cases mode; cases docker) (auto simp: build_sandbox_def Let_def split: if_splits)

theorem sandbox_never_silent_witness:
  "build_sandbox SbAuto True (Inl (ascii ''x'')) = Inr (LocalBackend, \<lparr>bi_mode = SbAuto, bi_backend = LocalBackend, bi_isolated = False,
     bi_fallback = ascii ''x''\<rparr>) \<and> \<not> bi_isolated \<lparr>bi_mode = SbAuto, bi_backend = LocalBackend, bi_isolated = False, bi_fallback = ascii ''x''\<rparr>"
proof -
  have b: "build_sandbox SbAuto True (Inl (ascii ''x'')) = Inr (LocalBackend, \<lparr>bi_mode = SbAuto, bi_backend = LocalBackend,
     bi_isolated = False, bi_fallback = ascii ''x''\<rparr>)" by (simp add: build_sandbox_def Let_def)
  show ?thesis using sandbox_never_silent [OF b] b by simp
qed

section \<open>Sub-agents cannot start sub-agents\<close>

lemma register_all_names:
  "register_all specs reg = Inr reg' \<Longrightarrow> dict_get reg' n \<noteq> None \<longleftrightarrow> dict_get reg n \<noteq> None \<or> n \<in> ts_name ` set specs"
  by (induction specs arbitrary: reg) (auto simp: register_def split: sum.splits if_splits)

lemma child_registry_depth:
  assumes "build_default_registry core (Some mk) = Inr (reg, child)" and "n \<notin> ts_name ` set core"
  shows "dict_get child n = None" and "ts_name (mk child) = n \<Longrightarrow> dict_get reg n = Some (mk child)"
proof -
  have c: "register_all core [] = Inr child" and r: "register (mk child) child = Inr reg"
    using assms(1) by (auto simp: build_default_registry_def map_sum_Inr_iff split: sum.splits)
  show "dict_get child n = None" using register_all_names [OF c, of n] assms(2) by auto
  show "dict_get reg n = Some (mk child)" if "ts_name (mk child) = n" using r that by (auto simp: register_def split: if_splits)
qed

end
