(* ===== verification/Subagent.thy ===== *)
theory Subagent
  imports Graph_Invariants Builtin_Tools
begin

text \<open>
  The sub-agent tool (\<^verbatim>\<open>app/tools/subagent.py\<close>): a second engine without a journal runs the
  delegated task under budgets of its own. The handler has the type of a tool handler, with the
  events of the child, which are forwarded to the trace of the parent, as a further result.
\<close>

section \<open>The handler\<close>

record sub_settings =
  sg_max_steps :: int
  sg_max_tokens :: int

text \<open>\<open>str(args.get(''task'') or '''').strip()\<close>, and \<open>int\<close> with the exception it raises.\<close>

definition sub_task :: "json dict \<Rightarrow> pystr" where
  "sub_task args = str_strip (case dict_get args (ascii ''task'') of Some v \<Rightarrow> if truthy v then py_str v else [] | None \<Rightarrow> [])"

definition sub_int :: "json \<Rightarrow> handler_exc + int" where
  "sub_int v =
     (case py_int v of
        Inr n \<Rightarrow> Inr n
      | Inl (ROther msg) \<Rightarrow>
          Inl (case v of JStr _ \<Rightarrow> HxOther (ascii ''ValueError'') msg {ValueError} | _ \<Rightarrow> HxOther (ascii ''TypeError'') msg {})
      | Inl _ \<Rightarrow> Inl (HxOther (ascii ''TypeError'') [] {}))"

definition sub_steps :: "sub_settings \<Rightarrow> json dict \<Rightarrow> handler_exc + int" where
  "sub_steps cfg args =
     map_sum id (\<lambda>n. min n (sg_max_steps cfg))
       (case dict_get args (ascii ''max_steps'') of None \<Rightarrow> Inr (sg_max_steps cfg) | Some v \<Rightarrow> sub_int v)"

definition status_name :: "task_status \<Rightarrow> pystr" where
  "status_name st = (case st of StQueued \<Rightarrow> ascii ''queued'' | StRunning \<Rightarrow> ascii ''running'' | StResuming \<Rightarrow> ascii ''resuming''
     | StDone \<Rightarrow> ascii ''done'' | StFailed \<Rightarrow> ascii ''failed'' | StCanceled \<Rightarrow> ascii ''canceled''
     | StBudgetExceeded \<Rightarrow> ascii ''budget_exceeded'' | StWaitingApproval \<Rightarrow> ascii ''waiting_approval'')"

definition sub_result :: "agent_state \<Rightarrow> handler_exc + json dict" where
  "sub_result final =
     (if as_status final \<in> {StDone, StBudgetExceeded} \<and> as_final_answer final \<noteq> []
      then Inr ([(ascii ''result'', JStr (as_final_answer final)), (ascii ''child_status'', JStr (status_name (as_status final))),
                 (ascii ''child_steps'', JInt (as_steps_used final)), (ascii ''_budget_tokens'', JInt (as_tokens_used final))]
                @ (if as_status final = StBudgetExceeded then [(ascii ''partial'', JBool True)] else []))
      else Inl (HxTool \<lparr>ee_message = [23376, 20219, 21153, 25191, 34892, 22833, 36133, 65288] @ status_name (as_status final) @ [65289, 65292, 23376, 20219, 21153, 38169, 35823, 24050, 38548, 31163], ee_code = Some UNKNOWN,
                        ee_retryable = Some False, ee_retry_after = None\<rparr>))"

text \<open>A fresh engine with checkpoints in memory.\<close>

definition child_engine :: engine where
  "child_engine = \<lparr>eg_saver = True, eg_checkpoints = [], eg_canceled = {}, eg_seqs = []\<rparr>"

definition empty_task_error :: pystr where
  "empty_task_error = [116, 97, 115, 107, 32, 19981, 33021, 20026, 31354, 65306, 23376, 20219, 21153, 30446, 26631, 24517, 39035, 23436, 25972, 33258, 21253, 21547]"

text \<open>
  \<open>E\<close> is the environment of the child: the registry without sub-agents and no journal.
  \<open>exc_of\<close> is the exception with which a run of the graph ends.
\<close>

definition subagent_handler :: "sub_settings \<Rightarrow> 'w env \<Rightarrow> (run_end \<Rightarrow> handler_exc) \<Rightarrow> pystr \<Rightarrow> json dict \<Rightarrow> 'w
     \<Rightarrow> (handler_exc + json dict) \<times> (nat \<times> agent_event) list \<times> 'w" where
  "subagent_handler cfg E exc_of child_id args w =
     (if sub_task args = [] then (Inl (HxOther (ascii ''ValueError'') empty_task_error {ValueError}), [], w)
      else case sub_steps cfg args of
        Inl e \<Rightarrow> (Inl e, [], w)
      | Inr max_steps \<Rightarrow>
          (case run_task (E\<lparr>en_journal := False\<rparr>) 0 child_id (sub_task args) ReactMode (sg_max_tokens cfg) max_steps False
                  child_engine \<lparr>wd_ext = w, wd_journal = [], wd_log = []\<rparr> of
             (Inl e, evs, _, W) \<Rightarrow> (Inl (exc_of e), evs, wd_ext W)
           | (Inr final, evs, _, W) \<Rightarrow> (sub_result final, evs, wd_ext W)))"

section \<open>Budgets\<close>

lemma finisher_steps: "finisher_node E s W = (Inr s', W') \<Longrightarrow> as_steps_used s' = as_steps_used s"
  by (auto simp: finisher_node_def split: task_status.splits if_splits prod.splits sum.splits)

lemma run_graph_last:
  assumes "run_graph n E decision node s W = (e, cp, W')" and "reachable E s0 node s" and "cp_next cp = None"
  shows "\<exists>s1. reachable E s0 Finisher s1 \<and> as_steps_used (cp_values cp) = as_steps_used s1"
  using assms
proof (induction n arbitrary: decision node s W)
  case (Suc n)
  obtain x W1 where st: "node_step E decision node s W = (x, W1)" by fastforce
  consider s1 m where "x = Inr (Some s1)" "next_node node s1 = Some m" | s1 where "x = Inr (Some s1)" "next_node node s1 = None"
    using Suc.prems(1,3) st by (cases x; cases "projr x") (auto split: option.splits)
  then show ?case
  proof cases
    case (1 s1 m)
    then show ?thesis using Suc.IH [of _ m s1 W1] Suc.prems st reachable.step [OF Suc.prems(2)] by auto
  next
    case (2 s1)
    then have node: "node = Finisher" by (cases node) (auto simp: next_node_def)
    have "finisher_node E s W = (Inr s1, W1)" using st 2(1) node by (simp add: node_step_def lift_node_Some del: map_prod_simp)
    from finisher_steps [OF this] have "as_steps_used (cp_values cp) = as_steps_used s"
      using Suc.prems(1) st 2 by auto
    then show ?thesis using Suc.prems(2) node by blast
  qed
qed auto

lemma run_task_steps:
  assumes "run_task E stored tid goal mode mt ms ap eng W = (Inr final, evs, eng', W')"
  shows "as_steps_used final \<le> max 0 ms"
proof -
  let ?s = "init_state tid goal mode mt ms ap"
  from assms show ?thesis
  proof (cases rule: run_task_end)
    case (1 e cp)
    have fin: "as_steps_used final = as_steps_used (cp_values cp)" using 1(2) by (cases e) (auto simp: run_status_def)
    have "as_steps_used t \<le> max 0 ms" if "reachable E ?s node t" for node t
      using reachable_ginv [OF that refl] by (simp add: ginv_defs init_state_def)
    then show ?thesis
      using run_graph_last [OF 1(1) reachable.start] run_graph_reachable [OF 1(1) reachable.start] fin
      by (cases "cp_next cp") auto
  qed
qed

lemma run_task_no_limit:
  assumes "0 < ms" and "ms \<le> 21" and "run_task E stored tid goal mode mt ms ap eng W = (r, evs, eng', W')"
  shows "r \<noteq> Inl RecursionLimit"
proof -
  let ?s = "init_state tid goal mode mt ms ap"
  have "superstep_bound (route_entry ?s) ?s \<le> recursion_limit (en_settings E) ms"
    using entry_bound [of ms tid goal mode mt ap] assms(1,2) by (simp add: recursion_limit_def nat_le_iff)
  note bound = run_graph_within_bound [OF this, of E None W]
  from assms(3) show ?thesis
  proof (cases rule: run_task_end)
    case (1 e cp)
    then show ?thesis using bound by (cases e) auto
  qed
qed

text \<open>
  A delegated task stays within its budgets and is charged to its parent: the child takes at
  most the configured number of steps whatever the model asks for and never dies of the
  recursion limit (for a limit of up to 21); a result has an answer and reports the tokens the child used, which
  the parent then adds to its own; a child that failed is an error that is not retried.
\<close>

theorem subagent_contract:
  assumes "subagent_handler cfg E exc_of child_id args w = (r, evs, w')" and "sg_max_steps cfg \<le> 21"
    and "sub_task args \<noteq> []" and "sub_steps cfg args = Inr steps" and "0 < steps"
  shows "(\<exists>e. r = Inl (exc_of e) \<and> e \<noteq> RecursionLimit)
     \<or> (\<exists>x. r = Inl (HxTool x) \<and> ee_retryable x = Some False)
     \<or> (\<exists>d answer used n. r = Inr d \<and> dict_get d (ascii ''result'') = Some (JStr answer) \<and> answer \<noteq> []
          \<and> dict_get d (ascii ''child_steps'') = Some (JInt used) \<and> used \<le> sg_max_steps cfg
          \<and> dict_get d (ascii ''_budget_tokens'') = Some (JInt n)
          \<and> (\<forall>call obs obs' acc acc' d'. ob_ok obs \<longrightarrow> ob_result obs = Some (JObj d')
               \<longrightarrow> dict_get d' (ascii ''_budget_tokens'') = Some (JInt n)
               \<longrightarrow> post_process E call obs acc = (Inr obs', acc') \<longrightarrow> ac_tokens acc' = ac_tokens acc + n))"
proof -
  have ms: "steps \<le> sg_max_steps cfg" "steps \<le> 21" using assms(2,4) by (auto simp: sub_steps_def map_sum_Inr_iff)
  obtain x evs1 eng W where run: "run_task (E\<lparr>en_journal := False\<rparr>) 0 child_id (sub_task args) ReactMode (sg_max_tokens cfg) steps False
      child_engine \<lparr>wd_ext = w, wd_journal = [], wd_log = []\<rparr> = (x, evs1, eng, W)" by (metis prod.exhaust)
  have charge: "ac_tokens acc' = ac_tokens acc + n"
    if "ob_ok obs" "ob_result obs = Some (JObj d')" "dict_get d' (ascii ''_budget_tokens'') = Some (JInt n)"
      "post_process E call obs acc = (Inr obs', acc')" for call obs obs' acc acc' d' n
    using that by (auto simp: post_process_def py_int_def Let_def split: sum.splits option.splits if_splits)
  show ?thesis
  proof (cases x)
    case (Inl e)
    then have "r = Inl (exc_of e)" using assms run by (simp add: subagent_handler_def)
    moreover have "e \<noteq> RecursionLimit" using run_task_no_limit [OF assms(5) ms(2) run] Inl by simp
    ultimately show ?thesis by blast
  next
    case (Inr final)
    then have r: "r = sub_result final" using assms run by (simp add: subagent_handler_def)
    have used: "as_steps_used final \<le> sg_max_steps cfg" using run_task_steps run Inr assms(5) ms(1) by fastforce
    show ?thesis
    proof (cases "as_status final \<in> {StDone, StBudgetExceeded} \<and> as_final_answer final \<noteq> []")
      case True
      then obtain d where d: "r = Inr d" "dict_get d (ascii ''result'') = Some (JStr (as_final_answer final))"
          "dict_get d (ascii ''child_steps'') = Some (JInt (as_steps_used final))"
          "dict_get d (ascii ''_budget_tokens'') = Some (JInt (as_tokens_used final))"
        using r by (auto simp: sub_result_def dict_get_def ascii_def)
      then show ?thesis using used charge True by blast
    next
      case False
      then show ?thesis using r by (auto simp: sub_result_def)
    qed
  qed
qed

theorem subagent_contract_witness:
  "\<not> (\<exists>d. fst (subagent_handler \<lparr>sg_max_steps = 8, sg_max_tokens = 20000\<rparr> demo_env (\<lambda>e. HxTimeout) (ascii ''sub-1'')
      [(ascii ''task'', JStr (ascii ''go''))] 0) = Inr d \<and> dict_get d (ascii ''result'') = None)"
proof -
  let ?cfg = "\<lparr>sg_max_steps = 8, sg_max_tokens = 20000\<rparr>" and ?args = "[(ascii ''task'', JStr (ascii ''go''))]"
  obtain r evs w' where run: "subagent_handler ?cfg demo_env (\<lambda>e. HxTimeout) (ascii ''sub-1'') ?args 0 = (r, evs, w')" by (metis prod.exhaust)
  have "sub_task ?args \<noteq> []" "sub_steps ?cfg ?args = Inr 8"
    by (simp_all add: sub_task_def sub_steps_def dict_get_def py_str_def str_strip_def is_space_def ascii_def)
  then show ?thesis using subagent_contract [OF run] by (auto simp: run)
qed

end
