(* ===== verification/Regex.thy ===== *)
theory Regex
  imports Prelude
begin

text \<open>
  The part of Python's \<open>re\<close> module that the program uses, as a backtracking matcher. A
  match attempt returns all ways to match in the order in which Python tries them, so
  that the first one is the match Python reports; greedy repetition tries the longest way
  first. Searching, substitution and \<open>findall\<close> go from left to right over the text. Which
  characters outside ASCII are letters or digits is a parameter, the Unicode database.
\<close>

section \<open>Characters\<close>

record unicode_db =
  uc_word :: "nat \<Rightarrow> bool"
  uc_digit :: "nat \<Rightarrow> bool"

definition is_ascii_digit :: "nat \<Rightarrow> bool" where
  "is_ascii_digit c = (48 \<le> c \<and> c \<le> 57)"

definition is_ascii_letter :: "nat \<Rightarrow> bool" where
  "is_ascii_letter c = (65 \<le> c \<and> c \<le> 90 \<or> 97 \<le> c \<and> c \<le> 122)"

definition is_ascii_alnum :: "nat \<Rightarrow> bool" where
  "is_ascii_alnum c = (is_ascii_letter c \<or> is_ascii_digit c)"

text \<open>What the proofs rely on: the database is right about ASCII.\<close>

definition ucd_ok :: "unicode_db \<Rightarrow> bool" where
  "ucd_ok u = (\<forall>c < 128. uc_word u c = (is_ascii_alnum c \<or> c = 95) \<and> uc_digit u c = is_ascii_digit c)"

definition ascii_db :: unicode_db where
  "ascii_db = \<lparr>uc_word = \<lambda>c. is_ascii_alnum c \<or> c = 95, uc_digit = is_ascii_digit\<rparr>"

text \<open>
  Case folding of the flag \<open>(?i)\<close>: besides the ASCII letters, the dotted and the dotless i, the
  long s and the Kelvin sign fold to ASCII letters.
\<close>

definition fold_char :: "nat \<Rightarrow> nat" where
  "fold_char c = (if c = 304 \<or> c = 305 then 105 else if c = 383 then 115 else if c = 8490 then 107 else lower_char c)"

section \<open>Expressions\<close>

datatype regex =
    Eps
  | Cls "nat \<Rightarrow> bool"
  | Seq regex regex
  | Alt regex regex
  | Star regex
  | Lazy regex
  | Grp nat regex
  | WordB
  | NotBehind "nat \<Rightarrow> bool"
  | Ahead regex
  | Eos

text \<open>
  The state of an attempt: the text before the position, reversed, the text after it, and the
  groups, each with the offsets at which it starts and ends.
\<close>

type_synonym groups = "(nat \<times> nat \<times> nat) list"
type_synonym attempt = "pystr \<times> pystr \<times> groups"

definition word_at :: "unicode_db \<Rightarrow> pystr \<Rightarrow> bool" where
  "word_at u s = (case s of [] \<Rightarrow> False | c # _ \<Rightarrow> uc_word u c)"

text \<open>
  \<open>Star\<close> is greedy and \<open>Lazy\<close> is not; an iteration that consumes nothing ends the loop. \<open>Eos\<close> is
  \<open>$\<close>: the end, or before a final newline.
\<close>

function matches :: "unicode_db \<Rightarrow> regex \<Rightarrow> attempt \<Rightarrow> attempt list" where
  "matches u Eps st = [st]"
| "matches u (Cls P) st =
     (case st of (b, [], g) \<Rightarrow> [] | (b, c # t, g) \<Rightarrow> if P c then [(c # b, t, g)] else [])"
| "matches u (Seq r s) st = concat (map (matches u s) (matches u r st))"
| "matches u (Alt r s) st = matches u r st @ matches u s st"
| "matches u (Star r) st =
     concat (map (\<lambda>st'. if length (fst (snd st')) < length (fst (snd st)) then matches u (Star r) st' else []) (matches u r st)) @ [st]"
| "matches u (Lazy r) st =
     st # concat (map (\<lambda>st'. if length (fst (snd st')) < length (fst (snd st)) then matches u (Lazy r) st' else []) (matches u r st))"
| "matches u (Grp n r) st = map (\<lambda>(b, t, g). (b, t, (n, length (fst st), length b) # g)) (matches u r st)"
| "matches u WordB st = (if word_at u (fst st) \<noteq> word_at u (fst (snd st)) then [st] else [])"
| "matches u (NotBehind P) st = (case fst st of [] \<Rightarrow> [st] | c # _ \<Rightarrow> if P c then [] else [st])"
| "matches u (Ahead r) st = (if matches u r st = [] then [] else [st])"
| "matches u Eos st = (if fst (snd st) = [] \<or> fst (snd st) = [10] then [st] else [])"
  by pat_completeness auto
termination
  by (relation "measures [\<lambda>(u, r, st). size r, \<lambda>(u, r, st). length (fst (snd st))]") auto

declare matches.simps(5,6) [simp del]

text \<open>Abbreviations of the notation: \<open>r{n,}\<close>, \<open>r{n}\<close>, \<open>r+\<close>, \<open>r?\<close>, literals with and without case.\<close>

fun reps :: "nat \<Rightarrow> regex \<Rightarrow> regex" where
  "reps 0 r = Eps"
| "reps (Suc n) r = Seq r (reps n r)"

definition at_least :: "nat \<Rightarrow> regex \<Rightarrow> regex" where "at_least n r = Seq (reps n r) (Star r)"
definition many1 :: "regex \<Rightarrow> regex" where "many1 r = at_least 1 r"
definition opt :: "regex \<Rightarrow> regex" where "opt r = Alt r Eps"

fun lit :: "pystr \<Rightarrow> regex" where
  "lit [] = Eps"
| "lit (c # s) = Seq (Cls (\<lambda>d. d = c)) (lit s)"

fun lit_i :: "pystr \<Rightarrow> regex" where
  "lit_i [] = Eps"
| "lit_i (c # s) = Seq (Cls (\<lambda>d. fold_char d = fold_char c)) (lit_i s)"

fun seqs :: "regex list \<Rightarrow> regex" where
  "seqs [] = Eps"
| "seqs [r] = r"
| "seqs (r # s # rs) = Seq r (seqs (s # rs))"

fun alts :: "regex list \<Rightarrow> regex" where
  "alts [] = Ahead (Cls (\<lambda>_. False))"
| "alts [r] = r"
| "alts (r # s # rs) = Alt r (alts (s # rs))"

section \<open>Searching and substitution\<close>

text \<open>A match: the reversed text before it, the text from its start on, the rest after it, the groups.\<close>

record match =
  ma_before :: pystr
  ma_from :: pystr
  ma_after :: pystr
  ma_groups :: groups

definition ma_text :: "match \<Rightarrow> pystr" where
  "ma_text m = take (length (ma_from m) - length (ma_after m)) (ma_from m)"

definition ma_group :: "match \<Rightarrow> nat \<Rightarrow> pystr option" where
  "ma_group m n = map_option (\<lambda>(i, j). take (j - i) (drop i (rev (ma_before m) @ ma_from m))) (map_of (ma_groups m) n)"

definition match_at :: "unicode_db \<Rightarrow> regex \<Rightarrow> pystr \<Rightarrow> pystr \<Rightarrow> match option" where
  "match_at u r b t =
     (case matches u r (b, t, []) of
        [] \<Rightarrow> None
      | (b', t', g) # _ \<Rightarrow> Some \<lparr>ma_before = b, ma_from = t, ma_after = t', ma_groups = g\<rparr>)"

fun search_from :: "unicode_db \<Rightarrow> regex \<Rightarrow> pystr \<Rightarrow> pystr \<Rightarrow> match option" where
  "search_from u r b [] = match_at u r b []"
| "search_from u r b (c # t) =
     (case match_at u r b (c # t) of Some m \<Rightarrow> Some m | None \<Rightarrow> search_from u r (c # b) t)"

definition re_search :: "unicode_db \<Rightarrow> regex \<Rightarrow> pystr \<Rightarrow> match option" where
  "re_search u r s = search_from u r [] s"

definition re_match :: "unicode_db \<Rightarrow> regex \<Rightarrow> pystr \<Rightarrow> match option" where
  "re_match u r s = match_at u r [] s"

text \<open>
  All matches from left to right, with the character before each position kept, as pieces: a
  character that is copied or a match. After an empty match the next character is copied.
\<close>

datatype piece = Copied nat | Matched match

function scan :: "unicode_db \<Rightarrow> regex \<Rightarrow> pystr \<Rightarrow> pystr \<Rightarrow> piece list" where
  "scan u r b t =
     (case match_at u r b t of
        Some m \<Rightarrow>
          if length (ma_after m) < length t then Matched m # scan u r (rev (ma_text m) @ b) (ma_after m)
          else Matched m # (case t of [] \<Rightarrow> [] | c # t' \<Rightarrow> Copied c # scan u r (c # b) t')
      | None \<Rightarrow> (case t of [] \<Rightarrow> [] | c # t' \<Rightarrow> Copied c # scan u r (c # b) t'))"
  by pat_completeness auto
termination
  by (relation "measure (\<lambda>(u, r, b, t). length t)") auto

declare scan.simps [simp del]

definition re_sub :: "unicode_db \<Rightarrow> regex \<Rightarrow> (match \<Rightarrow> pystr) \<Rightarrow> pystr \<Rightarrow> pystr" where
  "re_sub u r repl s = concat (map (\<lambda>p. case p of Copied c \<Rightarrow> [c] | Matched m \<Rightarrow> repl m) (scan u r [] s))"

definition re_findall :: "unicode_db \<Rightarrow> regex \<Rightarrow> pystr \<Rightarrow> match list" where
  "re_findall u r s = concat (map (\<lambda>p. case p of Copied c \<Rightarrow> [] | Matched m \<Rightarrow> [m]) (scan u r [] s))"

section \<open>Lemmas\<close>

text \<open>A way to match consumes a prefix of the text.\<close>

lemma matches_split:
  "st' \<in> set (matches u r st) \<Longrightarrow> \<exists>x. fst (snd st) = x @ fst (snd st') \<and> fst st' = rev x @ fst st"
proof (induction u r st arbitrary: st' rule: matches.induct)
  case (2 u P st)
  then show ?case by (auto split: prod.splits list.splits if_splits)
next
  case (3 u r s st)
  then obtain st1 where st1: "st1 \<in> set (matches u r st)" "st' \<in> set (matches u s st1)" by auto
  then show ?case using "3.IH"(1) [OF st1(1)] "3.IH"(2) [OF st1] by (metis append.assoc rev_append)
next
  case (5 u r st)
  show ?case
  proof (cases "st' = st")
    case False
    then obtain st1 where st1: "st1 \<in> set (matches u r st)" "length (fst (snd st1)) < length (fst (snd st))"
      "st' \<in> set (matches u (Star r) st1)" using "5.prems" by (auto simp: matches.simps(5) [of u r st] split: if_splits)
    then show ?thesis using "5.IH"(1) [OF st1(1)] "5.IH"(2) [OF st1] by (metis append.assoc rev_append)
  qed simp
next
  case (6 u r st)
  show ?case
  proof (cases "st' = st")
    case False
    then obtain st1 where st1: "st1 \<in> set (matches u r st)" "length (fst (snd st1)) < length (fst (snd st))"
      "st' \<in> set (matches u (Lazy r) st1)" using "6.prems" by (auto simp: matches.simps(6) [of u r st] split: if_splits)
    then show ?thesis using "6.IH"(1) [OF st1(1)] "6.IH"(2) [OF st1] by (metis append.assoc rev_append)
  qed simp
next
  case (7 u n r st)
  then show ?case by fastforce
qed (auto split: if_splits list.splits prod.splits)

lemmas matches_splitE = matches_split [of "(b', t', g')" u r "(b, t, g)" for b' t' g' u r b t g, simplified]

lemma match_at_text:
  assumes "match_at u r b t = Some m"
  shows "ma_before m = b" and "ma_from m = t" and "t = ma_text m @ ma_after m"
    and "(rev (ma_text m) @ b, ma_after m, ma_groups m) = hd (matches u r (b, t, []))" and "matches u r (b, t, []) \<noteq> []"
proof -
  obtain b' t' g ms where ms: "matches u r (b, t, []) = (b', t', g) # ms" and m: "m = \<lparr>ma_before = b, ma_from = t, ma_after = t', ma_groups = g\<rparr>"
    using assms by (auto simp: match_at_def split: list.splits)
  obtain x where x: "t = x @ t'" "b' = rev x @ b" using matches_split [of "(b', t', g)" u r "(b, t, [])"] ms by auto
  then have "ma_text m = x" by (simp add: m ma_text_def)
  then show "ma_before m = b" "ma_from m = t" "t = ma_text m @ ma_after m"
    "(rev (ma_text m) @ b, ma_after m, ma_groups m) = hd (matches u r (b, t, []))" "matches u r (b, t, []) \<noteq> []"
    using x ms m by auto
qed

lemma match_at_None: "match_at u r b t = None \<longleftrightarrow> matches u r (b, t, []) = []"
  by (auto simp: match_at_def split: list.splits)

text \<open>A scan loses nothing: copied characters and matches make up the text.\<close>

lemma scan_text:
  "concat (map (\<lambda>p. case p of Copied c \<Rightarrow> [c] | Matched m \<Rightarrow> ma_text m) (scan u r b t)) = t"
proof (induction u r b t rule: scan.induct)
  case (1 u r b t)
  show ?case
  proof (cases "match_at u r b t")
    case None
    then show ?thesis using 1 by (subst scan.simps) (auto split: list.splits)
  next
    case (Some m)
    note m = match_at_text [OF Some]
    show ?thesis
    proof (cases "length (ma_after m) < length t")
      case True
      then show ?thesis using 1 True Some m(3) by (subst scan.simps) simp
    next
      case False
      then have "ma_text m = []" using m(3) by (metis append_Nil append_eq_conv_conj length_append not_add_less2 add_diff_cancel_right'
            length_0_conv linorder_neqE_nat less_add_same_cancel2 length_greater_0_conv)
      then show ?thesis using 1 Some False by (subst scan.simps) (auto split: list.splits)
    qed
  qed
qed

text \<open>A text without a match is not changed.\<close>

lemma re_sub_none: "re_search u r s = None \<Longrightarrow> re_sub u r repl s = s"
proof -
  have "search_from u r b t = None \<Longrightarrow> concat (map (\<lambda>p. case p of Copied c \<Rightarrow> [c] | Matched m \<Rightarrow> repl m) (scan u r b t)) = t" for b t
  proof (induction t arbitrary: b)
    case Nil
    then show ?case by (subst scan.simps) simp
  next
    case (Cons c t)
    then show ?case by (subst scan.simps) (simp split: option.splits)
  qed
  then show "re_search u r s = None \<Longrightarrow> re_sub u r repl s = s" by (simp add: re_search_def re_sub_def)
qed

text \<open>Classes, literals and greedy repetition of a class match in one way or take the longest run first.\<close>

lemma matches_Cls [simp]: "matches u (Cls P) (b, c # t, g) = (if P c then [(c # b, t, g)] else [])" "matches u (Cls P) (b, [], g) = []"
  by simp_all

lemma matches_reps_Cls:
  "matches u (reps n (Cls P)) (b, t, g) = (if n \<le> length (takeWhile P t) then [(rev (take n t) @ b, drop n t, g)] else [])"
proof (induction n arbitrary: b t)
  case (Suc n)
  then show ?case by (cases t) auto
qed simp

lemma matches_lit:
  "matches u (lit w) (b, t, g) = (if str_prefix w t then [(rev w @ b, drop (length w) t, g)] else [])"
proof (induction w arbitrary: b t)
  case (Cons c w)
  then show ?case by (cases t) auto
qed simp

lemma Star_not_Nil [simp]: "matches u (Star r) st \<noteq> []"
  by (subst matches.simps(5)) simp

lemma Star_Cls_hd: "hd (matches u (Star (Cls P)) (b, t, g)) = (rev (takeWhile P t) @ b, dropWhile P t, g)"
proof (induction t arbitrary: b)
  case (Cons c t)
  show ?case using Cons by (cases "P c") (simp_all add: matches.simps(5) [of u "Cls P" "(b, c # t, g)"])
qed (simp add: matches.simps(5))

lemma at_least_Cls_Nil: "matches u (at_least n (Cls P)) (b, t, g) = [] \<longleftrightarrow> \<not> n \<le> length (takeWhile P t)"
  by (simp add: at_least_def matches_reps_Cls)

lemma at_least_Cls_hd:
  assumes "n \<le> length (takeWhile P t)"
  shows "hd (matches u (at_least n (Cls P)) (b, t, g)) = (rev (takeWhile P t) @ b, dropWhile P t, g)"
proof -
  have tw: "takeWhile P t = take n t @ takeWhile P (drop n t)" and dw: "dropWhile P (drop n t) = dropWhile P t"
  proof -
    have "\<forall>c \<in> set (take n t). P c" using assms by (metis set_takeWhileD takeWhile_eq_take take_take min.absorb1 set_take_subset subsetD)
    then show "takeWhile P t = take n t @ takeWhile P (drop n t)" "dropWhile P (drop n t) = dropWhile P t"
      by (metis append_take_drop_id takeWhile_append2, metis append_take_drop_id dropWhile_append2)
  qed
  show ?thesis using assms
    by (simp add: at_least_def matches_reps_Cls Star_Cls_hd tw dw flip: append_assoc rev_append)
qed

text \<open>When the second part cannot fail, the first way of a sequence goes on from the first way of the first part.\<close>

lemma Seq_hd:
  assumes "matches u r st \<noteq> []" and "matches u s (hd (matches u r st)) \<noteq> []"
  shows "hd (matches u (Seq r s) st) = hd (matches u s (hd (matches u r st)))"
  using assms by (cases "matches u r st") auto

lemma hd_concat_map: "concat (map f xs) \<noteq> [] \<Longrightarrow> \<exists>x \<in> set xs. f x \<noteq> [] \<and> hd (concat (map f xs)) = hd (f x)"
proof (induction xs)
  case (Cons x xs)
  then show ?case by (cases "f x = []") auto
qed simp

lemma Seq_hdE:
  assumes "matches u (Seq r s) st \<noteq> []"
  shows "\<exists>x \<in> set (matches u r st). matches u s x \<noteq> [] \<and> hd (matches u (Seq r s) st) = hd (matches u s x)"
  using hd_concat_map [of "matches u s" "matches u r st"] assms by simp

lemma concat_map_concat: "concat (map f (concat xss)) = concat (map (\<lambda>xs. concat (map f xs)) xss)"
  by (induction xss) auto

lemma matches_Seq_fun: "matches u (Seq r s) = (\<lambda>st. concat (map (matches u s) (matches u r st)))"
  by (rule ext) simp

lemmas Seq_assoc_facts = matches_Seq_fun concat_map_concat map_map o_def

lemma Seq_mem: "st' \<in> set (matches u (Seq r s) st) \<longleftrightarrow> (\<exists>st1 \<in> set (matches u r st). st' \<in> set (matches u s st1))"
  by auto

text \<open>The least number of characters a match takes.\<close>

fun min_len :: "regex \<Rightarrow> nat" where
  "min_len (Cls P) = 1"
| "min_len (Seq r s) = min_len r + min_len s"
| "min_len (Alt r s) = min (min_len r) (min_len s)"
| "min_len (Grp n r) = min_len r"
| "min_len r = 0"

lemma min_len_matches: "st' \<in> set (matches u r st) \<Longrightarrow> length (fst st) + min_len r \<le> length (fst st')"
proof (induction u r st arbitrary: st' rule: matches.induct)
  case (2 u P st)
  then show ?case by (auto split: prod.splits list.splits if_splits)
next
  case (3 u r s st)
  then obtain st1 where "st1 \<in> set (matches u r st)" "st' \<in> set (matches u s st1)" by auto
  then have "length (fst st) + min_len r \<le> length (fst st1)" "length (fst st1) + min_len s \<le> length (fst st')" using 3 by auto
  then show ?case by simp
next
  case (5 u r st)
  then show ?case using matches_split [OF "5.prems"] by auto
next
  case (6 u r st)
  then show ?case using matches_split [OF "6.prems"] by auto
qed (fastforce split: if_splits list.splits prod.splits)+

lemma min_len_lit [simp]: "min_len (lit w) = length w" "min_len (lit_i w) = length w"
  by (induction w) auto

lemma min_len_reps [simp]: "min_len (reps n r) = n * min_len r"
  by (induction n) auto

lemma min_len_defs [simp]: "min_len (at_least n r) = n * min_len r" "min_len (many1 r) = min_len r" "min_len (opt r) = 0"
  by (auto simp: at_least_def many1_def opt_def)

text \<open>Only \<open>Grp\<close> adds to the groups.\<close>

fun group_free :: "regex \<Rightarrow> bool" where
  "group_free (Seq r s) = (group_free r \<and> group_free s)"
| "group_free (Alt r s) = (group_free r \<and> group_free s)"
| "group_free (Star r) = group_free r"
| "group_free (Lazy r) = group_free r"
| "group_free (Grp n r) = False"
| "group_free r = True"

lemma group_free_matches: "st' \<in> set (matches u r st) \<Longrightarrow> group_free r \<Longrightarrow> snd (snd st') = snd (snd st)"
proof (induction u r st arbitrary: st' rule: matches.induct)
  case (2 u P st)
  then show ?case by (auto split: prod.splits list.splits if_splits)
next
  case (3 u r s st)
  then obtain st1 where "st1 \<in> set (matches u r st)" "st' \<in> set (matches u s st1)" by auto
  then show ?case using 3 by simp
next
  case (5 u r st)
  show ?case
  proof (cases "st' = st")
    case False
    then obtain st1 where "st1 \<in> set (matches u r st)" "length (fst (snd st1)) < length (fst (snd st))"
      "st' \<in> set (matches u (Star r) st1)" using "5.prems"(1) by (auto simp: matches.simps(5) [of u r st] split: if_splits)
    then show ?thesis using 5 by simp
  qed simp
next
  case (6 u r st)
  show ?case
  proof (cases "st' = st")
    case False
    then obtain st1 where "st1 \<in> set (matches u r st)" "length (fst (snd st1)) < length (fst (snd st))"
      "st' \<in> set (matches u (Lazy r) st1)" using "6.prems"(1) by (auto simp: matches.simps(6) [of u r st] split: if_splits)
    then show ?thesis using 6 by simp
  qed simp
qed (auto split: if_splits list.splits prod.splits)

lemma group_free_lit [simp]: "group_free (lit w)" "group_free (lit_i w)"
  by (induction w) auto

lemma group_free_reps [simp]: "group_free (reps n r) \<longleftrightarrow> n = 0 \<or> group_free r"
  by (induction n) auto

lemma group_free_defs [simp]:
  "group_free (at_least n r) \<longleftrightarrow> group_free r" "group_free (many1 r) \<longleftrightarrow> group_free r" "group_free (opt r) \<longleftrightarrow> group_free r"
  by (auto simp: at_least_def many1_def opt_def)

lemma opt_not_Nil [simp]: "matches u (opt r) st \<noteq> []"
  by (simp add: opt_def)

lemma ucd_word: "ucd_ok u \<Longrightarrow> c < 128 \<Longrightarrow> uc_word u c = (is_ascii_alnum c \<or> c = 95)"
  by (simp add: ucd_ok_def)

lemma ucd_digit: "ucd_ok u \<Longrightarrow> c < 128 \<Longrightarrow> uc_digit u c = is_ascii_digit c"
  by (simp add: ucd_ok_def)

lemma ascii_db_ok: "ucd_ok ascii_db"
  by (simp add: ucd_ok_def ascii_db_def)

end
