(* ===== verification/Logging.thy ===== *)
theory Logging
  imports Regex Json_Codec Spans
begin

text \<open>
  Structured logging (\<^verbatim>\<open>app/observability/logging.py\<close>): redaction of secrets by regular
  expressions, the three filters, the JSON formatter and the handler that
  \<open>setup_logging\<close> assembles from them. A pattern is its source text with its translation;
  the translation of a pattern that does not compile is \<open>None\<close>. The conversion of values other
  than by \<open>%s\<close> and the clock are parameters.
\<close>

section \<open>Redaction of text\<close>

definition redact_mask :: pystr where "redact_mask = ascii ''[REDACTED]''"

record pattern =
  pt_source :: pystr
  pt_regex :: "regex option"
  pt_groups :: nat

definition key_char :: "nat \<Rightarrow> bool" where
  "key_char c = (is_ascii_alnum c \<or> c = 95 \<or> c = 45)"

definition token_char :: "nat \<Rightarrow> bool" where
  "token_char c = (is_ascii_alnum (fold_char c) \<or> c = 46 \<or> c = 95 \<or> c = 45)"

definition value_char :: "nat \<Rightarrow> bool" where
  "value_char c = (token_char c \<or> c = 47 \<or> c = 43)"

definition quote_char :: "nat \<Rightarrow> bool" where
  "quote_char c = (c = 34 \<or> c = 39)"

definition api_key_re :: regex where
  "api_key_re = seqs [WordB, lit (ascii ''sk-''), at_least 16 (Cls key_char)]"

definition bearer_re :: regex where
  "bearer_re = seqs [WordB, lit_i (ascii ''bearer''), many1 (Cls is_space), at_least 12 (Cls token_char)]"

definition assign_sign :: regex where
  "assign_sign = seqs [Star (Cls is_space), Cls (\<lambda>c. c = 58 \<or> c = 61), Star (Cls is_space), opt (Cls quote_char)]"

definition header_re :: regex where
  "header_re = seqs [WordB, lit_i (ascii ''x-api-key''), WordB, assign_sign, Grp 1 (at_least 8 (Cls token_char)), opt (Cls quote_char)]"

definition conn_re :: regex where
  "conn_re = seqs [WordB,
     Grp 1 (alts [Seq (lit_i (ascii ''postgres'')) (opt (lit_i (ascii ''ql''))), lit_i (ascii ''mysql''), lit_i (ascii ''redis''), lit_i (ascii ''amqp'')]),
     lit (ascii ''://''), Grp 2 (many1 (Cls (\<lambda>c. \<not> (c = 58 \<or> c = 47 \<or> is_space c \<or> c = 64)))), lit (ascii '':''),
     Grp 3 (many1 (Cls (\<lambda>c. \<not> (c = 64 \<or> is_space c)))), lit (ascii ''@'')]"

definition assign_re :: regex where
  "assign_re = seqs [NotBehind (\<lambda>c. is_ascii_alnum (fold_char c)),
     Grp 1 (alts [seqs [lit_i (ascii ''api''), opt (Cls (\<lambda>c. c = 95 \<or> c = 45)), lit_i (ascii ''key'')], lit_i (ascii ''apikey''),
       lit_i (ascii ''secret''), lit_i (ascii ''token''), lit_i (ascii ''password''), lit_i (ascii ''passwd''), lit_i (ascii ''pwd'')]),
     WordB, assign_sign, Grp 2 (at_least 8 (Cls value_char)), opt (Cls quote_char)]"

definition phone_re :: "unicode_db \<Rightarrow> regex" where
  "phone_re u = seqs [WordB, lit (ascii ''1''), Cls (\<lambda>c. 51 \<le> c \<and> c \<le> 57), reps 9 (Cls (uc_digit u)), WordB]"

definition id_re :: "unicode_db \<Rightarrow> regex" where
  "id_re u = seqs [WordB, reps 17 (Cls (uc_digit u)), Cls (\<lambda>c. uc_digit u c \<or> c = 88 \<or> c = 120), WordB]"

definition email_re :: regex where
  "email_re = seqs [WordB, many1 (Cls (\<lambda>c. is_ascii_alnum c \<or> c \<in> {46, 95, 37, 43, 45})), lit (ascii ''@''),
     many1 (Cls (\<lambda>c. is_ascii_alnum c \<or> c = 46 \<or> c = 45)), lit (ascii ''.''), at_least 2 (Cls is_ascii_letter), WordB]"

definition header_source :: pystr where
  "header_source = [40, 63, 105, 41, 92, 98, 120, 45, 97, 112, 105, 45, 107, 101, 121, 92, 98, 92, 115, 42, 91, 58, 61, 93, 92, 115, 42, 91, 92, 34, 39, 93, 63, 40, 91, 65, 45, 90, 97, 45, 122, 48, 45, 57, 46, 95, 92, 45, 93, 123, 56, 44, 125, 41, 91, 92, 34, 39, 93, 63]"

definition conn_source :: pystr where
  "conn_source = [40, 63, 105, 41, 92, 98, 40, 112, 111, 115, 116, 103, 114, 101, 115, 40, 63, 58, 113, 108, 41, 63, 124, 109, 121, 115, 113, 108, 124, 114, 101, 100, 105, 115, 124, 97, 109, 113, 112, 41, 58, 47, 47, 40, 91, 94, 58, 47, 92, 115, 64, 93, 43, 41, 58, 40, 91, 94, 64, 92, 115, 93, 43, 41, 64]"

definition assign_source :: pystr where
  "assign_source = [40, 63, 105, 41, 40, 63, 60, 33, 91, 65, 45, 90, 97, 45, 122, 48, 45, 57, 93, 41, 40, 97, 112, 105, 91, 95, 45, 93, 63, 107, 101, 121, 124, 97, 112, 105, 107, 101, 121, 124, 115, 101, 99, 114, 101, 116, 124, 116, 111, 107, 101, 110, 124, 112, 97, 115, 115, 119, 111, 114, 100, 124, 112, 97, 115, 115, 119, 100, 124, 112, 119, 100, 41, 92, 98, 92, 115, 42, 91, 58, 61, 93, 92, 115, 42, 91, 92, 34, 39, 93, 63, 40, 91, 65, 45, 90, 97, 45, 122, 48, 45, 57, 46, 95, 92, 45, 47, 43, 93, 123, 56, 44, 125, 41, 91, 92, 34, 39, 93, 63]"

definition default_redact_patterns :: "unicode_db \<Rightarrow> pattern list" where
  "default_redact_patterns u =
     [\<lparr>pt_source = [92, 98, 115, 107, 45, 91, 65, 45, 90, 97, 45, 122, 48, 45, 57, 95, 92, 45, 93, 123, 49, 54, 44, 125], pt_regex = Some api_key_re, pt_groups = 0\<rparr>,
      \<lparr>pt_source = [40, 63, 105, 41, 92, 98, 98, 101, 97, 114, 101, 114, 92, 115, 43, 91, 65, 45, 90, 97, 45, 122, 48, 45, 57, 46, 95, 92, 45, 93, 123, 49, 50, 44, 125], pt_regex = Some bearer_re, pt_groups = 0\<rparr>,
      \<lparr>pt_source = header_source, pt_regex = Some header_re, pt_groups = 1\<rparr>,
      \<lparr>pt_source = conn_source, pt_regex = Some conn_re, pt_groups = 3\<rparr>,
      \<lparr>pt_source = assign_source, pt_regex = Some assign_re, pt_groups = 2\<rparr>,
      \<lparr>pt_source = [92, 98, 49, 91, 51, 45, 57, 93, 92, 100, 123, 57, 125, 92, 98], pt_regex = Some (phone_re u), pt_groups = 0\<rparr>,
      \<lparr>pt_source = [92, 98, 92, 100, 123, 49, 55, 125, 91, 92, 100, 88, 120, 93, 92, 98], pt_regex = Some (id_re u), pt_groups = 0\<rparr>,
      \<lparr>pt_source = [92, 98, 91, 65, 45, 90, 97, 45, 122, 48, 45, 57, 46, 95, 37, 43, 92, 45, 93, 43, 64, 91, 65, 45, 90, 97, 45, 122, 48, 45, 57, 46, 92, 45, 93, 43, 92, 46, 91, 65, 45, 90, 97, 45, 122, 93, 123, 50, 44, 125, 92, 98], pt_regex = Some email_re, pt_groups = 0\<rparr>]"

definition keep_groups :: "pystr \<Rightarrow> nat list" where
  "keep_groups src = (if src = assign_source then [1] else if src = header_source then [] else if src = conn_source then [1, 2] else [])"

definition slice :: "nat \<Rightarrow> nat \<Rightarrow> pystr \<Rightarrow> pystr" where
  "slice i j s = take (j - i) (drop i s)"

text \<open>The inner function of \<open>_make_replacement\<close>: \<open>last\<close> is where the part not yet copied begins.\<close>

fun replace_groups :: "nat list \<Rightarrow> pystr \<Rightarrow> groups \<Rightarrow> nat \<Rightarrow> nat \<Rightarrow> nat list \<Rightarrow> pystr" where
  "replace_groups keep s g stop from [] = slice from stop s"
| "replace_groups keep s g stop from (i # is) =
     (case map_of g i of
        None \<Rightarrow> replace_groups keep s g stop from is
      | Some (a, b) \<Rightarrow> slice from a s @ (if i \<in> set keep then slice a b s else redact_mask) @ replace_groups keep s g stop b is)"

definition make_replacement :: "pystr \<Rightarrow> nat \<Rightarrow> match \<Rightarrow> pystr" where
  "make_replacement src n m =
     (if n = 0 then redact_mask
      else replace_groups (keep_groups src) (rev (ma_before m) @ ma_from m) (ma_groups m)
             (length (ma_before m) + length (ma_text m)) (length (ma_before m)) [1..<n + 1])"

definition build_regexes :: "pattern list \<Rightarrow> (regex \<times> (match \<Rightarrow> pystr)) list" where
  "build_regexes patterns =
     List.map_filter (\<lambda>p. map_option (\<lambda>r. (r, make_replacement (pt_source p) (pt_groups p))) (pt_regex p)) patterns"

definition redact_text :: "unicode_db \<Rightarrow> pattern list option \<Rightarrow> pystr \<Rightarrow> pystr" where
  "redact_text u patterns s =
     (if s = [] then s
      else fold (\<lambda>(regex, repl) txt. re_sub u regex repl txt)
             (build_regexes (case patterns of Some ps \<Rightarrow> ps | None \<Rightarrow> default_redact_patterns u)) s)"

text \<open>
  The setting of \<^verbatim>\<open>app/main.py\<close>: patterns between commas, \<open>None\<close> for the default patterns when there is
  none. \<open>pattern_of\<close> stands for the compilation of a pattern.
\<close>

definition redact_patterns_from_settings :: "(pystr \<Rightarrow> pattern) \<Rightarrow> pystr \<Rightarrow> pattern list option" where
  "redact_patterns_from_settings pattern_of raw =
     (let items = filter (\<lambda>p. p \<noteq> []) (map str_strip (str_split 44 raw))
      in if items = [] then None else Some (map pattern_of items))"

section \<open>Values and records\<close>

text \<open>
  Values that are logged. An object of any other class, such as an exception, is known by its text.
\<close>

datatype log_value =
    LvNone
  | LvBool bool
  | LvInt int
  | LvFloat pystr
  | LvStr pystr
  | LvList "log_value list"
  | LvTuple "log_value list"
  | LvDict "(pystr \<times> log_value) list"
  | LvObj pystr

datatype log_args = LaTuple "log_value list" | LaDict "(pystr \<times> log_value) list" | LaStr pystr | LaOther log_value

fun redact_value :: "unicode_db \<Rightarrow> pattern list option \<Rightarrow> log_value \<Rightarrow> log_value" where
  "redact_value u ps (LvStr s) = LvStr (redact_text u ps s)"
| "redact_value u ps (LvDict kvs) = LvDict (map (\<lambda>kv. (fst kv, redact_value u ps (snd kv))) kvs)"
| "redact_value u ps (LvList xs) = LvList (map (redact_value u ps) xs)"
| "redact_value u ps (LvTuple xs) = LvTuple (map (redact_value u ps) xs)"
| "redact_value u ps v = v"

text \<open>
  A log record. \<open>lr_exc\<close> is the text that formatting \<open>exc_info\<close> gives, when there is an exception;
  \<open>lr_extra\<close> holds the attributes that are not reserved.
\<close>

record log_record =
  lr_name :: pystr
  lr_levelno :: int
  lr_levelname :: pystr
  lr_msg :: log_value
  lr_args :: log_args
  lr_extra :: "log_value dict"
  lr_exc :: "pystr option"
  lr_exc_text :: pystr
  lr_task_id :: pystr
  lr_trace_id :: pystr

section \<open>Filters\<close>

text \<open>The task and the trace of the context that logs; \<open>env_trace\<close> below is the trace from the environment.\<close>

definition trace_context_filter :: "pystr \<Rightarrow> pystr \<Rightarrow> log_record \<Rightarrow> log_record" where
  "trace_context_filter task_id trace_id rec = rec\<lparr>lr_task_id := task_id, lr_trace_id := trace_id\<rparr>"

definition redact_str_value :: "unicode_db \<Rightarrow> pattern list \<Rightarrow> log_value \<Rightarrow> log_value" where
  "redact_str_value u ps v = (case v of LvStr s \<Rightarrow> LvStr (redact_text u (Some ps) s) | _ \<Rightarrow> v)"

definition redact_args :: "unicode_db \<Rightarrow> pattern list \<Rightarrow> log_args \<Rightarrow> log_args" where
  "redact_args u ps args =
     (case args of
        LaDict kvs \<Rightarrow> LaDict (map (\<lambda>(k, v). (k, redact_str_value u ps v)) kvs)
      | LaTuple xs \<Rightarrow> LaTuple (map (redact_str_value u ps) xs)
      | LaStr s \<Rightarrow> LaStr (redact_text u (Some ps) s)
      | LaOther v \<Rightarrow> LaOther v)"

definition redaction_filter :: "unicode_db \<Rightarrow> pattern list option \<Rightarrow> log_record \<Rightarrow> log_record" where
  "redaction_filter u patterns rec =
     (let ps = (case patterns of Some ps \<Rightarrow> ps | None \<Rightarrow> default_redact_patterns u);
          rec1 = rec\<lparr>lr_msg := redact_str_value u ps (lr_msg rec), lr_args := redact_args u ps (lr_args rec),
                     lr_extra := map (\<lambda>(k, v). (k, redact_value u (Some ps) v)) (lr_extra rec)\<rparr>
      in case lr_exc rec of
           None \<Rightarrow> rec1
         | Some txt \<Rightarrow> rec1\<lparr>lr_exc_text := redact_text u (Some ps) txt, lr_exc := None\<rparr>)"

definition warning_level :: int where "warning_level = 30"

record sampler =
  sp_every :: int
  sp_seen :: "((pystr \<times> int) \<times> nat) list"

definition new_sampler :: "int \<Rightarrow> sampler" where
  "new_sampler rate = \<lparr>sp_every = max 1 rate, sp_seen = []\<rparr>"

definition seen_count :: "sampler \<Rightarrow> pystr \<times> int \<Rightarrow> nat" where
  "seen_count sp key = (case map_of (sp_seen sp) key of None \<Rightarrow> 0 | Some n \<Rightarrow> n)"

definition sampling_filter :: "log_record \<Rightarrow> sampler \<Rightarrow> bool \<times> sampler" where
  "sampling_filter rec sp =
     (if sp_every sp \<le> 1 then (True, sp)
      else if lr_levelno rec \<ge> warning_level then (True, sp)
      else
        (let key = (lr_name rec, lr_levelno rec); count = seen_count sp key
         in (int count mod sp_every sp = 0, sp\<lparr>sp_seen := AList.update key (count + 1) (sp_seen sp)\<rparr>)))"

section \<open>Formatting\<close>

text \<open>\<open>str(v)\<close>, and the value as JSON with \<open>default=str\<close>.\<close>

fun value_json :: "log_value \<Rightarrow> json" where
  "value_json LvNone = JNull"
| "value_json (LvBool b) = JBool b"
| "value_json (LvInt i) = JInt i"
| "value_json (LvFloat f) = JFloat f"
| "value_json (LvStr s) = JStr s"
| "value_json (LvList xs) = JArr (map value_json xs)"
| "value_json (LvTuple xs) = JArr (map value_json xs)"
| "value_json (LvDict kvs) = JObj (map (\<lambda>kv. (fst kv, value_json (snd kv))) kvs)"
| "value_json (LvObj s) = JStr s"

text \<open>The conversions of Python that the log calls use and that are not modelled here.\<close>

record py_format =
  pf_repr :: "log_value \<Rightarrow> pystr"
  pf_conv :: "pystr \<Rightarrow> log_value \<Rightarrow> pystr"
  pf_mapping :: "pystr \<Rightarrow> (pystr \<times> log_value) list \<Rightarrow> pystr option"

definition value_str :: "py_format \<Rightarrow> log_value \<Rightarrow> pystr" where
  "value_str pf v = (case v of LvStr s \<Rightarrow> s | LvObj s \<Rightarrow> s | _ \<Rightarrow> pf_repr pf v)"

text \<open>
  \<open>msg % args\<close> for the arguments of a tuple: \<open>%s\<close> and \<open>%%\<close> as Python has them, the other conversions by
  the parameter. \<open>None\<close> stands for the exception that a wrong number of arguments raises.
\<close>

function percent :: "py_format \<Rightarrow> pystr \<Rightarrow> log_value list \<Rightarrow> pystr option" where
  "percent pf [] args = (if args = [] then Some [] else None)"
| "percent pf (c # s) args =
     (if c \<noteq> 37 then map_option (Cons c) (percent pf s args)
      else
        (case dropWhile (\<lambda>d. \<not> is_ascii_letter d \<and> d \<noteq> 37) s of
           [] \<Rightarrow> None
         | d # rest \<Rightarrow>
             if d = 37 then map_option (Cons 37) (percent pf rest args)
             else
               (case args of
                  [] \<Rightarrow> None
                | v # vs \<Rightarrow>
                    map_option (append (if d = 115 \<and> hd s = 115 then value_str pf v
                                        else pf_conv pf (takeWhile (\<lambda>d. \<not> is_ascii_letter d) s @ [d]) v))
                      (percent pf rest vs))))"
  by pat_completeness auto
termination
proof (relation "measure (\<lambda>(pf, s, args). length s)")
  fix pf :: py_format and c d :: nat and s rest :: pystr and args :: "log_value list"
  assume "dropWhile (\<lambda>d. \<not> is_ascii_letter d \<and> d \<noteq> 37) s = d # rest"
  then have "length rest < length s" using length_dropWhile_le [of "\<lambda>d. \<not> is_ascii_letter d \<and> d \<noteq> 37" s] by simp
  then show "((pf, rest, args), pf, c # s, args) \<in> measure (\<lambda>(pf, s, args). length s)"
    and "((pf, rest, vs), pf, c # s, args) \<in> measure (\<lambda>(pf, s, args). length s)" for vs by simp_all
qed auto

definition get_message :: "py_format \<Rightarrow> log_record \<Rightarrow> pystr option" where
  "get_message pf rec =
     (let msg = value_str pf (lr_msg rec)
      in case lr_args rec of
           LaTuple xs \<Rightarrow> if xs = [] then Some msg else percent pf msg xs
         | LaDict kvs \<Rightarrow> if kvs = [] then Some msg else pf_mapping pf msg kvs
         | LaStr s \<Rightarrow> if s = [] then Some msg else percent pf msg [LvStr s]
         | LaOther v \<Rightarrow> percent pf msg [v])"

fun dumps_compact :: "json \<Rightarrow> pystr" where
  "dumps_compact (JArr xs) = [91] @ str_join [44] (map dumps_compact xs) @ [93]"
| "dumps_compact (JObj kvs) = [123] @ str_join [44] (map (\<lambda>kv. dumps_str (fst kv) @ [58] @ dumps_compact (snd kv)) kvs) @ [125]"
| "dumps_compact v = dumps v"

definition format_json :: "py_format \<Rightarrow> pystr \<Rightarrow> log_record \<Rightarrow> pystr option" where
  "format_json pf ts rec =
     map_option (\<lambda>message.
       let head = [(ascii ''ts'', JStr ts), (ascii ''level'', JStr (lr_levelname rec)), (ascii ''logger'', JStr (lr_name rec)),
                   (ascii ''message'', JStr message), (ascii ''task_id'', JStr (lr_task_id rec)), (ascii ''trace_id'', JStr (lr_trace_id rec))];
           payload = fold (\<lambda>(k, v) d. if str_prefix (ascii ''_'') k \<or> k = ascii ''task_id'' \<or> k = ascii ''trace_id'' then d
                                       else dict_set k (value_json v) d) (lr_extra rec) head
       in dumps_compact (JObj (case lr_exc rec of
            Some txt \<Rightarrow> dict_set (ascii ''exception'') (JStr txt) payload
          | None \<Rightarrow> if lr_exc_text rec = [] then payload else dict_set (ascii ''exception'') (JStr (lr_exc_text rec)) payload)))
     (get_message pf rec)"

definition format_plain :: "py_format \<Rightarrow> pystr \<Rightarrow> log_record \<Rightarrow> pystr option" where
  "format_plain pf ts rec =
     map_option (\<lambda>message.
       let line = ts @ ascii '' '' @ lr_name rec @ ascii '' '' @ lr_levelname rec @ ascii '' [task='' @ lr_task_id rec
                    @ ascii '' trace='' @ lr_trace_id rec @ ascii ''] '' @ message;
           exc = (if lr_exc_text rec \<noteq> [] then lr_exc_text rec else case lr_exc rec of Some txt \<Rightarrow> txt | None \<Rightarrow> [])
       in if exc = [] then line else line @ [10] @ exc)
     (get_message pf rec)"

section \<open>The handler that \<open>setup_logging\<close> installs\<close>

record log_config =
  lc_level :: int
  lc_json :: bool
  lc_redact :: bool
  lc_patterns :: "pattern list option"
  lc_sample_rate :: int

text \<open>
  One record through the handler: level, trace context, redaction, sampling, formatting. The result is
  the line that is written, if any; the second component says whether formatting raised.
\<close>

definition emit_record :: "unicode_db \<Rightarrow> py_format \<Rightarrow> log_config \<Rightarrow> pystr \<Rightarrow> trace_ctx \<Rightarrow> pystr \<Rightarrow> log_record \<Rightarrow> sampler
     \<Rightarrow> pystr option \<times> bool \<times> sampler" where
  "emit_record u pf cfg env_trace ctx ts rec sp =
     (if lr_levelno rec < lc_level cfg then (None, False, sp)
      else
        (let rec1 = trace_context_filter (cx_task ctx) (current_trace_id env_trace ctx) rec;
             rec2 = (if lc_redact cfg then redaction_filter u (lc_patterns cfg) rec1 else rec1);
             (keep, sp1) = (if lc_sample_rate cfg > 1 then sampling_filter rec2 sp else (True, sp))
         in if \<not> keep then (None, False, sp1)
            else case (if lc_json cfg then format_json pf ts rec2 else format_plain pf ts rec2) of
                   None \<Rightarrow> (None, True, sp1)
                 | Some line \<Rightarrow> (Some line, False, sp1)))"

section \<open>No key survives\<close>

text \<open>
  What redaction does to a text: parts of it are replaced by the mask and the rest is copied.
  \<open>prev\<close> says whether the character before is part of a word, \<open>K\<close> is what holds where a character
  is copied. A replaced part does not end in the middle of a word of ASCII letters and digits.
\<close>

inductive masks :: "unicode_db \<Rightarrow> (bool \<Rightarrow> pystr \<Rightarrow> bool) \<Rightarrow> bool \<Rightarrow> pystr \<Rightarrow> pystr \<Rightarrow> bool" for u K where
  stop: "masks u K prev [] []"
| copy: "K prev (c # t) \<Longrightarrow> masks u K (uc_word u c) t out \<Longrightarrow> masks u K prev (c # t) (c # out)"
| hide: "y \<noteq> [] \<Longrightarrow> t = [] \<or> \<not> is_ascii_alnum (hd t) \<or> \<not> uc_word u (last y)
     \<Longrightarrow> masks u K (uc_word u (last y)) t out \<Longrightarrow> masks u K prev (y @ t) (redact_mask @ out)"

text \<open>\<open>occurs W prev s\<close>: some text of \<open>W\<close> occurs in \<open>s\<close> at the start of a word.\<close>

definition starts :: "(pystr \<Rightarrow> bool) \<Rightarrow> bool \<Rightarrow> pystr \<Rightarrow> bool" where
  "starts W prev s = (\<not> prev \<and> (\<exists>w. W w \<and> str_prefix w s))"

fun occurs :: "unicode_db \<Rightarrow> (pystr \<Rightarrow> bool) \<Rightarrow> bool \<Rightarrow> pystr \<Rightarrow> bool" where
  "occurs u W prev [] = starts W prev []"
| "occurs u W prev (c # s) = (starts W prev (c # s) \<or> occurs u W (uc_word u c) s)"

text \<open>The secrets: they begin with a letter or digit, are longer than the word in the mask and have no brackets.\<close>

definition secrets :: "(pystr \<Rightarrow> bool) \<Rightarrow> bool" where
  "secrets W = (\<forall>w. W w \<longrightarrow> 8 < length w \<and> is_ascii_alnum (hd w) \<and> 91 \<notin> set w \<and> 93 \<notin> set w)"

definition api_key :: "pystr \<Rightarrow> bool" where
  "api_key w = (\<exists>k. w = ascii ''sk-'' @ k \<and> length k = 16 \<and> list_all key_char k)"

lemma masks_prefix: "masks u K prev t out \<Longrightarrow> str_prefix w out \<Longrightarrow> 91 \<notin> set w \<Longrightarrow> str_prefix w t"
proof (induction arbitrary: w rule: masks.induct)
  case (copy prev c t out)
  then show ?case by (cases w) auto
next
  case (hide y t out prev)
  then show ?case by (cases w) (auto simp: redact_mask_def ascii_def)
qed simp

lemma starts_mask:
  assumes "secrets W"
  shows "\<not> starts W prev (drop n redact_mask @ out) \<or> 10 \<le> n"
proof (rule ccontr)
  assume "\<not> ?thesis"
  then obtain w where w: "W w" "str_prefix w (drop n redact_mask @ out)" and n: "n < 10" by (auto simp: starts_def)
  have len: "8 < length w" "is_ascii_alnum (hd w)" "91 \<notin> set w" "93 \<notin> set w" using assms w(1) by (auto simp: secrets_def)
  obtain r where r: "drop n redact_mask @ out = w @ r" using w(2) by (auto simp: str_prefix_iff)
  have l: "length redact_mask = 10" by (simp add: redact_mask_def ascii_def)
  show False
  proof (cases n)
    case 0
    have "hd (redact_mask @ out) = 91" by (simp add: redact_mask_def ascii_def)
    then have "hd w = 91" using r len(1) 0 by (cases w) auto
    then show False using len(1,3) by (cases w) auto
  next
    case (Suc k)
    have "redact_mask ! 9 = 93" by (simp add: redact_mask_def ascii_def)
    then have "(drop n redact_mask @ out) ! (9 - n) = 93" using n l by (simp add: nth_append less_diff_conv2 Suc_leI)
    then have "(w @ r) ! (9 - n) = 93" using r by simp
    moreover have "9 - n < length w" using Suc len(1) by simp
    ultimately have "93 \<in> set w" by (metis nth_append nth_mem)
    then show False using len(4) by simp
  qed
qed

lemma occurs_mask:
  assumes "secrets W" and "ucd_ok u" and "occurs u W prev (redact_mask @ out)"
  shows "occurs u W False out"
proof -
  have "occurs u W p (drop n redact_mask @ out) \<Longrightarrow> occurs u W False out" if "n \<le> 10" "n = 10 \<Longrightarrow> \<not> p" for n p
    using that
  proof (induction "10 - n" arbitrary: n p)
    case 0
    then show ?case by (simp add: redact_mask_def ascii_def)
  next
    case (Suc k)
    then have n: "n < 10" by simp
    have l: "length redact_mask = 10" by (simp add: redact_mask_def ascii_def)
    have d: "drop n redact_mask = (redact_mask ! n) # drop (Suc n) redact_mask" using n l by (simp add: Cons_nth_drop_Suc)
    have "\<not> starts W p (drop n redact_mask @ out)" using starts_mask [OF assms(1), of p n out] n by simp
    then have "occurs u W (uc_word u (redact_mask ! n)) (drop (Suc n) redact_mask @ out)" using Suc.prems(1) by (simp add: d)
    moreover have "\<not> uc_word u (redact_mask ! n)" if "Suc n = 10"
    proof -
      have "redact_mask ! n = 93" using that by (simp add: redact_mask_def ascii_def)
      then show ?thesis using assms(2) by (simp add: ucd_word is_ascii_alnum_def is_ascii_letter_def is_ascii_digit_def)
    qed
    ultimately show ?case using Suc.hyps(1) [of "Suc n"] Suc.hyps(2) n by auto
  qed
  from this [of 0 prev] show ?thesis using assms(3) by simp
qed

lemma masks_clean:
  assumes "secrets W" and "ucd_ok u"
  shows "masks u (\<lambda>p t. \<not> starts W p t) prev t out \<Longrightarrow> \<not> occurs u W prev out"
proof (induction rule: masks.induct)
  case (stop prev)
  then show ?case using assms(1) by (fastforce simp: starts_def secrets_def str_prefix_iff)
next
  case (copy prev c t out)
  have "\<not> starts W prev (c # out)"
  proof
    assume "starts W prev (c # out)"
    then obtain w where w: "W w" "str_prefix w (c # out)" "\<not> prev" by (auto simp: starts_def)
    then have "91 \<notin> set w" using assms(1) by (auto simp: secrets_def)
    then have "str_prefix w (c # t)" using w(2) masks_prefix [OF copy(2), of "tl w"] by (cases w) auto
    then show False using copy(1) w by (auto simp: starts_def)
  qed
  then show ?case using copy by simp
next
  case (hide y t out prev)
  have "\<not> occurs u W False out" if "\<not> occurs u W (uc_word u (last y)) out"
  proof (cases "uc_word u (last y)")
    case True
    have "\<not> starts W False out"
    proof
      assume "starts W False out"
      then obtain w where w: "W w" "str_prefix w out" by (auto simp: starts_def)
      then have ok: "91 \<notin> set w" "is_ascii_alnum (hd w)" "w \<noteq> []" using assms(1) by (auto simp: secrets_def)
      then have "str_prefix w t" using masks_prefix [OF hide(3) w(2)] by simp
      then have "t \<noteq> [] \<and> hd t = hd w" using ok(3) by (cases w; cases t) auto
      then show False using hide(2) True ok(2) by auto
    qed
    then show ?thesis using that by (cases out) auto
  qed (use that in simp)
  then show ?case using hide occurs_mask [OF assms] by blast
qed

lemma occurs_append: "y \<noteq> [] \<Longrightarrow> occurs u W (uc_word u (last y)) t \<Longrightarrow> occurs u W prev (y @ t)"
proof (induction y arbitrary: prev)
  case (Cons c y)
  then show ?case by (cases "y = []") auto
qed simp

lemma masks_strengthen:
  "masks u (\<lambda>_ _. True) prev t out \<Longrightarrow> \<not> occurs u W prev t \<Longrightarrow> masks u (\<lambda>p t. \<not> starts W p t) prev t out"
proof (induction rule: masks.induct)
  case (hide y t out prev)
  then show ?case using occurs_append by (blast intro: masks.hide)
qed (auto intro: masks.intros)

lemma masks_keep_clean:
  assumes "secrets W" "ucd_ok u" "masks u (\<lambda>_ _. True) prev t out" "\<not> occurs u W prev t"
  shows "\<not> occurs u W prev out"
  using masks_clean [OF assms(1,2)] masks_strengthen [OF assms(3,4)] by blast

text \<open>A substitution masks when every match does, in its place in the text.\<close>

definition masks_match :: "unicode_db \<Rightarrow> (bool \<Rightarrow> pystr \<Rightarrow> bool) \<Rightarrow> regex \<Rightarrow> (match \<Rightarrow> pystr) \<Rightarrow> bool" where
  "masks_match u K r repl =
     (\<forall>b t m out. match_at u r b t = Some m \<longrightarrow> ma_text m \<noteq> []
        \<and> (masks u K (word_at u (rev (ma_text m) @ b)) (ma_after m) out \<longrightarrow> masks u K (word_at u b) t (repl m @ out)))"

lemma re_sub_masks:
  assumes "masks_match u K r repl" and "\<And>b t. match_at u r b t = None \<Longrightarrow> t \<noteq> [] \<Longrightarrow> K (word_at u b) t"
  shows "masks u K False s (re_sub u r repl s)"
proof -
  have "masks u K (word_at u b) t (concat (map (\<lambda>p. case p of Copied c \<Rightarrow> [c] | Matched m \<Rightarrow> repl m) (scan u r b t)))" for b t
    using assms
  proof (induction u r b t rule: scan.induct)
    case (1 u r b t)
    show ?case
    proof (cases "match_at u r b t")
      case None
      show ?thesis
      proof (cases t)
        case (Cons c t')
        have "masks u K (word_at u (c # b)) t' (concat (map (\<lambda>p. case p of Copied c \<Rightarrow> [c] | Matched m \<Rightarrow> repl m) (scan u r (c # b) t')))"
          using 1 None Cons by blast
        then show ?thesis using None Cons 1 by (subst scan.simps) (auto simp: word_at_def intro: masks.copy)
      qed (use None in \<open>subst scan.simps, auto intro: masks.stop\<close>)
    next
      case (Some m)
      have ne: "ma_text m \<noteq> []" using 1 Some by (auto simp: masks_match_def)
      then have less: "length (ma_after m) < length t" using match_at_text(3) [OF Some] by (metis length_append less_add_same_cancel2 length_greater_0_conv)
      then have "masks u K (word_at u (rev (ma_text m) @ b)) (ma_after m)
          (concat (map (\<lambda>p. case p of Copied c \<Rightarrow> [c] | Matched m \<Rightarrow> repl m) (scan u r (rev (ma_text m) @ b) (ma_after m))))"
        using 1 Some by blast
      then show ?thesis using 1 Some less by (subst scan.simps) (auto simp: masks_match_def)
    qed
  qed
  from this [of "[]" s] show ?thesis by (simp add: re_sub_def word_at_def)
qed

text \<open>A pattern without groups masks its whole match.\<close>

lemma masks_whole:
  assumes "\<And>b t m. match_at u r b t = Some m \<Longrightarrow> ma_text m \<noteq> []
     \<and> (ma_after m = [] \<or> \<not> is_ascii_alnum (hd (ma_after m)) \<or> \<not> uc_word u (last (ma_text m)))"
  shows "masks_match u K r (\<lambda>_. redact_mask)"
  unfolding masks_match_def
proof (intro allI impI)
  fix b t m out
  assume m: "match_at u r b t = Some m"
  note a = assms [OF m]
  have "word_at u (rev (ma_text m) @ b) = uc_word u (last (ma_text m))" using a by (cases "ma_text m" rule: rev_cases) (auto simp: word_at_def)
  then show "ma_text m \<noteq> [] \<and> (masks u K (word_at u (rev (ma_text m) @ b)) (ma_after m) out \<longrightarrow> masks u K (word_at u b) t (redact_mask @ out))"
    using a masks.hide [of "ma_text m" "ma_after m" u K out "word_at u b"] match_at_text(3) [OF m, symmetric] by auto
qed

text \<open>A pattern that ends with a greedy run of a class, or at a word boundary, does not end within a word.\<close>

lemma alnum_classes: "is_ascii_alnum c \<Longrightarrow> key_char c" "is_ascii_alnum c \<Longrightarrow> token_char c" "is_ascii_alnum c \<Longrightarrow> value_char c"
  by (auto simp: key_char_def token_char_def value_char_def fold_char_def lower_char_def is_ascii_alnum_def
      is_ascii_letter_def is_ascii_digit_def)

definition clean_end :: "unicode_db \<Rightarrow> regex \<Rightarrow> bool" where
  "clean_end u r = (\<forall>st. matches u r st \<noteq> [] \<longrightarrow>
     (let (b, t, g) = hd (matches u r st) in t = [] \<or> \<not> is_ascii_alnum (hd t) \<or> \<not> word_at u b))"

lemma clean_end_Seq: "clean_end u s \<Longrightarrow> clean_end u (Seq r s)"
  unfolding clean_end_def
proof (intro allI impI)
  fix st
  assume s: "\<forall>st. matches u s st \<noteq> [] \<longrightarrow> (let (b, t, g) = hd (matches u s st) in t = [] \<or> \<not> is_ascii_alnum (hd t) \<or> \<not> word_at u b)"
    and "matches u (Seq r s) st \<noteq> []"
  from Seq_hdE [OF this(2)] obtain x where "matches u s x \<noteq> []" and eq: "hd (matches u (Seq r s) st) = hd (matches u s x)" by blast
  then show "let (b, t, g) = hd (matches u (Seq r s) st) in t = [] \<or> \<not> is_ascii_alnum (hd t) \<or> \<not> word_at u b"
    unfolding eq using s by blast
qed

lemma clean_end_run:
  assumes "\<And>c. is_ascii_alnum c \<Longrightarrow> P c"
  shows "clean_end u (at_least n (Cls P))"
proof -
  have "dropWhile P t = [] \<or> \<not> is_ascii_alnum (hd (dropWhile P t))" for t
    using assms hd_dropWhile by blast
  then show ?thesis by (auto simp: clean_end_def at_least_Cls_Nil at_least_Cls_hd)
qed

lemma clean_end_WordB: "ucd_ok u \<Longrightarrow> clean_end u WordB"
proof -
  assume u: "ucd_ok u"
  have "is_ascii_alnum c \<Longrightarrow> uc_word u c" for c
    using ucd_word [OF u, of c] by (auto simp: is_ascii_alnum_def is_ascii_letter_def is_ascii_digit_def)
  then show ?thesis by (auto simp: clean_end_def word_at_def split: list.splits)
qed

lemma masks_whole_clean:
  assumes "clean_end u r" and "0 < min_len r"
  shows "masks_match u K r (\<lambda>_. redact_mask)"
proof (rule masks_whole)
  fix b t m
  assume m: "match_at u r b t = Some m"
  note x = match_at_text(3-5) [OF m]
  have "length b + min_len r \<le> length (rev (ma_text m) @ b)"
    using min_len_matches [OF hd_in_set [OF x(3)]] unfolding x(2) [symmetric] by simp
  then have ne: "ma_text m \<noteq> []" using assms(2) by auto
  then have "word_at u (rev (ma_text m) @ b) = uc_word u (last (ma_text m))"
    by (cases "ma_text m" rule: rev_cases) (auto simp: word_at_def)
  then show "ma_text m \<noteq> [] \<and> (ma_after m = [] \<or> \<not> is_ascii_alnum (hd (ma_after m)) \<or> \<not> uc_word u (last (ma_text m)))"
    using assms(1) [unfolded clean_end_def, rule_format, OF x(3)] ne unfolding x(2) [symmetric] by simp
qed

lemmas clean_ends = clean_end_Seq clean_end_run clean_end_WordB alnum_classes

lemma masks_api_key: "masks_match u K api_key_re (\<lambda>_. redact_mask)"
  by (rule masks_whole_clean) (auto simp: api_key_re_def ascii_def intro!: clean_ends)

lemma masks_bearer: "masks_match u K bearer_re (\<lambda>_. redact_mask)"
  by (rule masks_whole_clean) (auto simp: bearer_re_def ascii_def intro!: clean_ends)

lemma masks_phone: "ucd_ok u \<Longrightarrow> masks_match u K (phone_re u) (\<lambda>_. redact_mask)"
  by (rule masks_whole_clean) (auto simp: phone_re_def ascii_def intro!: clean_ends)

lemma masks_id: "ucd_ok u \<Longrightarrow> masks_match u K (id_re u) (\<lambda>_. redact_mask)"
  by (rule masks_whole_clean) (auto simp: id_re_def intro!: clean_ends)

lemma masks_email: "ucd_ok u \<Longrightarrow> masks_match u K email_re (\<lambda>_. redact_mask)"
  by (rule masks_whole_clean) (auto simp: email_re_def ascii_def intro!: clean_ends)

text \<open>Where no key is matched, none starts.\<close>

lemma no_api_key:
  assumes "ucd_ok u" and "match_at u api_key_re b t = None"
  shows "\<not> starts api_key (word_at u b) t"
proof
  assume "starts api_key (word_at u b) t"
  then obtain k t' where k: "length k = 16" "list_all key_char k" and t: "t = ascii ''sk-'' @ k @ t'" and b: "\<not> word_at u b"
    by (auto simp: starts_def api_key_def str_prefix_iff)
  have "word_at u t" using assms(1) by (simp add: t word_at_def ascii_def ucd_word is_ascii_alnum_def is_ascii_letter_def)
  moreover have "16 \<le> length (takeWhile key_char (k @ t'))" using k by (simp add: takeWhile_append2 list_all_iff)
  ultimately have "matches u api_key_re (b, t, []) \<noteq> []"
    using b by (simp add: api_key_re_def matches_lit t at_least_Cls_Nil ascii_def)
  then show False using assms(2) by (simp add: match_at_None)
qed

text \<open>
  A pattern with groups: the groups follow one another, and a group that is masked is not empty
  and does not end within a word.
\<close>

definition word_before :: "unicode_db \<Rightarrow> pystr \<Rightarrow> nat \<Rightarrow> bool" where
  "word_before u s i = (0 < i \<and> uc_word u (s ! (i - 1)))"

fun groups_fine :: "unicode_db \<Rightarrow> nat list \<Rightarrow> pystr \<Rightarrow> groups \<Rightarrow> nat \<Rightarrow> nat \<Rightarrow> nat list \<Rightarrow> bool" where
  "groups_fine u keep s g stop from [] = (from \<le> stop \<and> stop \<le> length s)"
| "groups_fine u keep s g stop from (i # is) =
     (case map_of g i of
        None \<Rightarrow> groups_fine u keep s g stop from is
      | Some (a, b) \<Rightarrow> from \<le> a \<and> a \<le> b \<and> b \<le> length s
          \<and> (i \<in> set keep \<or> a < b \<and> (b = length s \<or> \<not> is_ascii_alnum (s ! b) \<or> \<not> word_before u s b))
          \<and> groups_fine u keep s g stop b is)"

lemma masks_copy_slice:
  assumes "i \<le> j" and "j \<le> length s" and "masks u (\<lambda>_ _. True) (word_before u s j) (drop j s) out"
  shows "masks u (\<lambda>_ _. True) (word_before u s i) (drop i s) (slice i j s @ out)"
  using assms
proof (induction "j - i" arbitrary: i)
  case (Suc k)
  then have i: "i < j" "i < length s" by auto
  have "masks u (\<lambda>_ _. True) (word_before u s (Suc i)) (drop (Suc i) s) (slice (Suc i) j s @ out)"
    using Suc.hyps(1) [of "Suc i"] Suc.hyps(2) Suc.prems i by simp
  moreover have "drop i s = s ! i # drop (Suc i) s" using i by (simp add: Cons_nth_drop_Suc)
  moreover have "slice i j s = s ! i # slice (Suc i) j s"
    using i by (simp add: slice_def Cons_nth_drop_Suc [symmetric] Suc_diff_Suc [symmetric])
  moreover have "word_before u s (Suc i) = uc_word u (s ! i)" by (simp add: word_before_def)
  ultimately show ?case by (auto intro: masks.copy)
qed (simp add: slice_def)

lemma masks_hide_slice:
  assumes "a < b" and "b \<le> length s" and "b = length s \<or> \<not> is_ascii_alnum (s ! b) \<or> \<not> word_before u s b"
    and "masks u K (word_before u s b) (drop b s) out"
  shows "masks u K (word_before u s a) (drop a s) (redact_mask @ out)"
proof -
  have y: "drop a s = slice a b s @ drop b s"
    using assms(1,2) unfolding slice_def by (metis append_take_drop_id drop_drop le_add_diff_inverse2 less_or_eq_imp_le)
  have ne: "slice a b s \<noteq> []" using assms(1,2) by (auto simp: slice_def)
  have "length (slice a b s) = b - a" using assms(2) by (simp add: slice_def)
  then have "last (slice a b s) = s ! (b - 1)"
    using assms(1,2) ne by (simp add: last_conv_nth) (simp add: slice_def)
  then have w: "word_before u s b = uc_word u (last (slice a b s))" using assms(1) by (simp add: word_before_def)
  have "drop b s = [] \<or> \<not> is_ascii_alnum (hd (drop b s)) \<or> \<not> uc_word u (last (slice a b s))"
    using assms(2,3) w by (cases "b = length s") (auto simp: hd_drop_conv_nth)
  then show ?thesis using masks.hide [OF ne] assms(4) w y by auto
qed

lemma masks_replace_groups:
  "groups_fine u keep s g stop from is \<Longrightarrow> masks u (\<lambda>_ _. True) (word_before u s stop) (drop stop s) out
    \<Longrightarrow> masks u (\<lambda>_ _. True) (word_before u s from) (drop from s) (replace_groups keep s g stop from is @ out)"
proof (induction u keep s g stop "from" "is" rule: groups_fine.induct)
  case (1 u keep s g stop "from")
  then show ?case by (simp add: masks_copy_slice)
next
  case (2 u keep s g stop "from" i "is")
  show ?case
  proof (cases "map_of g i")
    case (Some ab)
    obtain a b where ab: "ab = (a, b)" by fastforce
    have rest: "masks u (\<lambda>_ _. True) (word_before u s b) (drop b s) (replace_groups keep s g stop b is @ out)"
      using 2 Some ab by auto
    have "masks u (\<lambda>_ _. True) (word_before u s a) (drop a s)
        ((if i \<in> set keep then slice a b s else redact_mask) @ replace_groups keep s g stop b is @ out)"
      using 2 Some ab rest by (auto intro: masks_copy_slice masks_hide_slice)
    then show ?thesis using 2 Some ab by (auto intro: masks_copy_slice)
  qed (use 2 in simp)
qed

lemma masks_match_groups:
  assumes "0 < n" and "0 < min_len r"
    and "\<And>b t b' t' g. matches u r (b, t, []) \<noteq> [] \<Longrightarrow> hd (matches u r (b, t, [])) = (b', t', g)
      \<Longrightarrow> groups_fine u (keep_groups src) (rev b @ t) g (length b') (length b) [1..<n + 1]"
  shows "masks_match u (\<lambda>_ _. True) r (make_replacement src n)"
  unfolding masks_match_def
proof (intro allI impI conjI)
  fix b t m out
  assume m: "match_at u r b t = Some m"
  note x = match_at_text [OF m]
  let ?s = "rev b @ t" and ?stop = "length b + length (ma_text m)"
  have "length b + min_len r \<le> length (rev (ma_text m) @ b)"
    using min_len_matches [OF hd_in_set [OF x(5)]] unfolding x(4) [symmetric] by simp
  then show "ma_text m \<noteq> []" using assms(2) by auto
  assume o: "masks u (\<lambda>_ _. True) (word_at u (rev (ma_text m) @ b)) (ma_after m) out"
  have wb: "word_at u (rev y @ b) = word_before u (rev b @ y @ z) (length b + length y)" for y z
    by (cases y rule: rev_cases; cases b) (auto simp: word_at_def word_before_def nth_append)
  have after: "drop (length b + length y) (rev b @ y @ z) = z" for y z :: pystr by simp
  have "groups_fine u (keep_groups src) ?s (ma_groups m) ?stop (length b) [1..<n + 1]"
    using assms(3) [OF x(5) x(4) [symmetric]] by (simp add: add.commute)
  moreover have "masks u (\<lambda>_ _. True) (word_before u ?s ?stop) (drop ?stop ?s) out"
    using o wb [of "ma_text m" "ma_after m"] after [of "ma_text m" "ma_after m"] by (simp flip: x(3))
  ultimately have "masks u (\<lambda>_ _. True) (word_before u ?s (length b)) (drop (length b) ?s)
      (replace_groups (keep_groups src) ?s (ma_groups m) ?stop (length b) [1..<n + 1] @ out)"
    by (rule masks_replace_groups)
  then show "masks u (\<lambda>_ _. True) (word_at u b) t (make_replacement src n m @ out)"
    using assms(1) x(1,2) wb [of "[]" t] by (simp add: make_replacement_def)
qed

lemma matches_whole:
  assumes "(b', t', g') \<in> set (matches u r (b, t, g))"
  shows "rev b' @ t' = rev b @ t" and "length b \<le> length b'"
  using matches_split [OF assms] by auto

lemma run_then_quote:
  assumes "matches u (Seq (Grp n (at_least k (Cls P))) (opt r)) (b, t, g) \<noteq> []" and "group_free r" and "\<And>c. is_ascii_alnum c \<Longrightarrow> P c"
  shows "\<exists>b' t' j. hd (matches u (Seq (Grp n (at_least k (Cls P))) (opt r)) (b, t, g)) = (b', t', (n, length b, j) # g)
     \<and> length b + k \<le> j \<and> j \<le> length b' \<and> length b' \<le> length (rev b @ t)
     \<and> (j = length (rev b @ t) \<or> \<not> is_ascii_alnum ((rev b @ t) ! j))"
proof -
  let ?w = "takeWhile P t" and ?st = "(b, t, g)"
  let ?j = "length b + length ?w"
  have k: "k \<le> length ?w" using assms(1) at_least_Cls_Nil [of u k P b t g] by auto
  then have m1: "matches u (Grp n (at_least k (Cls P))) ?st \<noteq> []"
    and h1: "hd (matches u (Grp n (at_least k (Cls P))) ?st) = (rev ?w @ b, dropWhile P t, (n, length b, ?j) # g)"
    using at_least_Cls_Nil [of u k P b t g] at_least_Cls_hd [OF k, of u b g] by (auto simp: hd_map add.commute)
  have h2: "hd (matches u (Seq (Grp n (at_least k (Cls P))) (opt r)) ?st) = hd (matches u (opt r) (rev ?w @ b, dropWhile P t, (n, length b, ?j) # g))"
    using Seq_hd [OF m1] h1 by simp
  obtain b' t' g' where st: "hd (matches u (opt r) (rev ?w @ b, dropWhile P t, (n, length b, ?j) # g)) = (b', t', g')" by (metis prod_cases3)
  then have mem: "(b', t', g') \<in> set (matches u (opt r) (rev ?w @ b, dropWhile P t, (n, length b, ?j) # g))" by (metis hd_in_set opt_not_Nil)
  have "g' = (n, length b, ?j) # g" using group_free_matches [OF mem] assms(2) by simp
  moreover have "?j = length (rev b @ t) \<or> \<not> is_ascii_alnum ((rev b @ t) ! ?j)"
  proof (cases "dropWhile P t")
    case Nil
    then have "length ?w = length t" by (metis append_Nil2 takeWhile_dropWhile_id)
    then show ?thesis by simp
  next
    case (Cons c t1)
    then have "t = ?w @ c # t1" by (metis takeWhile_dropWhile_id)
    then have "(rev b @ t) ! ?j = c" by (metis append_assoc length_append length_rev nth_append_length)
    then show ?thesis using Cons assms(3) by (metis hd_dropWhile list.distinct(1) list.sel(1))
  qed
  moreover have "length b' \<le> length (rev b @ t)"
    using arg_cong [OF matches_whole(1) [OF mem], of length] arg_cong [OF takeWhile_dropWhile_id [of P t], of length] by simp
  ultimately show ?thesis using h2 st k matches_whole [OF mem]
    by (intro exI [of _ b'] exI [of _ t'] exI [of _ ?j]) auto
qed

lemma masks_header: "masks_match u (\<lambda>_ _. True) header_re (make_replacement header_source 1)"
proof (rule masks_match_groups)
  fix b t b' t' g
  assume ne: "matches u header_re (b, t, []) \<noteq> []" and h: "hd (matches u header_re (b, t, [])) = (b', t', g)"
  let ?pre = "seqs [WordB, lit_i (ascii ''x-api-key''), WordB, assign_sign]"
  let ?post = "Seq (Grp 1 (at_least 8 (Cls token_char))) (opt (Cls quote_char))"
  have eq: "matches u header_re st = matches u (Seq ?pre ?post) st" for st
    unfolding header_re_def seqs.simps by (simp only: Seq_assoc_facts)
  obtain b1 t1 g1 where st1: "(b1, t1, g1) \<in> set (matches u ?pre (b, t, []))" "matches u ?post (b1, t1, g1) \<noteq> []"
      "hd (matches u header_re (b, t, [])) = hd (matches u ?post (b1, t1, g1))"
    using Seq_hdE [of u ?pre ?post "(b, t, [])"] ne unfolding eq by (metis prod_cases3)
  have "g1 = []" using group_free_matches [OF st1(1)] by (simp add: assign_sign_def)
  then obtain j where g: "g = [(1, length b1, j)]" and j: "length b1 + 8 \<le> j" "j \<le> length b'" "length b' \<le> length (rev b @ t)"
      "j = length (rev b @ t) \<or> \<not> is_ascii_alnum ((rev b @ t) ! j)"
    using run_then_quote [OF st1(2) _ alnum_classes(2)] st1(3) h unfolding matches_whole(1) [OF st1(1)] by auto
  show "groups_fine u (keep_groups header_source) (rev b @ t) g (length b') (length b) [1..<1 + 1]"
    using matches_whole(2) [OF st1(1)] j by (auto simp: g)
qed (simp_all add: header_re_def assign_sign_def ascii_def)

lemma not_behind_mem: "st' \<in> set (matches u (NotBehind P) st) \<Longrightarrow> st' = st"
  by (auto split: list.splits if_splits)

lemma grp_groups: "(b', t', g') \<in> set (matches u (Grp n r) (b, t, g)) \<Longrightarrow> group_free r \<Longrightarrow> g' = (n, length b, length b') # g"
  using group_free_matches [of _ u r "(b, t, g)"] by fastforce

lemma grp_mem:
  assumes "(b2, t2, g2) \<in> set (matches u (Seq r (Grp n s)) st)"
  shows "\<exists>st1 b3 t3 g3. st1 \<in> set (matches u r st) \<and> (b3, t3, g3) \<in> set (matches u s st1) \<and> (b2, t2, g2) = (b3, t3, (n, length (fst st1), length b3) # g3)"
  using assms by fastforce

lemma named_value:
  assumes "matches u (Seq (Seq (Seq a (Grp 1 names)) sep) (Seq (Grp 2 (at_least 8 (Cls P))) (opt r))) (b, t, []) \<noteq> []"
    and "hd (matches u (Seq (Seq (Seq a (Grp 1 names)) sep) (Seq (Grp 2 (at_least 8 (Cls P))) (opt r))) (b, t, [])) = (b', t', g)"
    and "\<And>st st'. st' \<in> set (matches u a st) \<Longrightarrow> st' = st" and "group_free names" "group_free sep" "group_free r"
    and "\<And>c. is_ascii_alnum c \<Longrightarrow> P c" and "1 \<in> set keep"
  shows "groups_fine u keep (rev b @ t) g (length b') (length b) [1, 2]"
proof -
  let ?pre = "Seq (Seq a (Grp 1 names)) sep" and ?post = "Seq (Grp 2 (at_least 8 (Cls P))) (opt r)"
  obtain b1 t1 g1 where st1: "(b1, t1, g1) \<in> set (matches u ?pre (b, t, []))" "matches u ?post (b1, t1, g1) \<noteq> []"
      "(b', t', g) = hd (matches u ?post (b1, t1, g1))"
    using Seq_hdE [OF assms(1)] assms(2) by (metis prod_cases3)
  obtain b2 t2 g2 where st2: "(b2, t2, g2) \<in> set (matches u (Seq a (Grp 1 names)) (b, t, []))" "(b1, t1, g1) \<in> set (matches u sep (b2, t2, g2))"
    using st1(1) unfolding Seq_mem [of _ u _ sep] by (metis prod_cases3)
  obtain b3 t3 g3 where st3: "(b3, t3, g3) \<in> set (matches u names (b, t, []))" "(b2, t2, g2) = (b3, t3, (1, length b, length b3) # g3)"
    using grp_mem [OF st2(1)] assms(3) by (metis fst_conv)
  have "g3 = []" "g1 = g2" using group_free_matches [OF st3(1)] group_free_matches [OF st2(2)] assms(4,5) by auto
  then have g1: "g1 = [(1, length b, length b2)]" using st3(2) by simp
  obtain j where g: "g = [(2, length b1, j), (1, length b, length b2)]" and j: "length b1 + 8 \<le> j" "j \<le> length b'"
      "length b' \<le> length (rev b @ t)" "j = length (rev b @ t) \<or> \<not> is_ascii_alnum ((rev b @ t) ! j)"
    using run_then_quote [OF st1(2) assms(6,7)] st1(3) g1 unfolding matches_whole(1) [OF st1(1)] by auto
  then show ?thesis using matches_whole(2) [OF st2(2)] matches_whole(2) [OF st3(1)] st3(2) assms(8) by auto
qed

lemma masks_assign: "masks_match u (\<lambda>_ _. True) assign_re (make_replacement assign_source 2)"
proof (rule masks_match_groups)
  fix b t b' t' g
  assume st: "matches u assign_re (b, t, []) \<noteq> []" "hd (matches u assign_re (b, t, [])) = (b', t', g)"
  let ?names = "alts [seqs [lit_i (ascii ''api''), opt (Cls (\<lambda>c. c = 95 \<or> c = 45)), lit_i (ascii ''key'')], lit_i (ascii ''apikey''),
       lit_i (ascii ''secret''), lit_i (ascii ''token''), lit_i (ascii ''password''), lit_i (ascii ''passwd''), lit_i (ascii ''pwd'')]"
  have eq: "matches u assign_re st = matches u (Seq (Seq (Seq (NotBehind (\<lambda>c. is_ascii_alnum (fold_char c))) (Grp 1 ?names)) (Seq WordB assign_sign))
      (Seq (Grp 2 (at_least 8 (Cls value_char))) (opt (Cls quote_char)))) st" for st
    unfolding assign_re_def seqs.simps by (simp only: Seq_assoc_facts)
  have "[1..<2 + 1] = [1, 2 :: nat]" by (simp add: upt_rec)
  moreover have "groups_fine u (keep_groups assign_source) (rev b @ t) g (length b') (length b) [1, 2]"
    by (rule named_value [OF st [unfolded eq] not_behind_mem _ _ _ alnum_classes(3)]) (simp_all add: assign_sign_def keep_groups_def)
  ultimately show "groups_fine u (keep_groups assign_source) (rev b @ t) g (length b') (length b) [1..<2 + 1]" by simp
qed (simp_all add: assign_re_def assign_sign_def ascii_def)

lemma masks_conn: "masks_match u (\<lambda>_ _. True) conn_re (make_replacement conn_source 3)"
proof (rule masks_match_groups)
  fix b t b' t' g
  assume st: "matches u conn_re (b, t, []) \<noteq> []" "hd (matches u conn_re (b, t, [])) = (b', t', g)"
  let ?names = "alts [Seq (lit_i (ascii ''postgres'')) (opt (lit_i (ascii ''ql''))), lit_i (ascii ''mysql''), lit_i (ascii ''redis''), lit_i (ascii ''amqp'')]"
  let ?user = "many1 (Cls (\<lambda>c. \<not> (c = 58 \<or> c = 47 \<or> is_space c \<or> c = 64)))" and ?pw = "many1 (Cls (\<lambda>c. \<not> (c = 64 \<or> is_space c)))"
  have "(b', t', g) \<in> set (matches u conn_re (b, t, []))" using hd_in_set [OF st(1)] st(2) by simp
  then obtain b1 t1 g1 b2 t2 g2 b3 t3 g3 b4 t4 g4 b5 t5 g5 where
      m1: "(b1, t1, g1) \<in> set (matches u (Grp 1 ?names) (b, t, []))" and m2: "(b2, t2, g2) \<in> set (matches u (lit (ascii ''://'')) (b1, t1, g1))"
      and m3: "(b3, t3, g3) \<in> set (matches u (Grp 2 ?user) (b2, t2, g2))" and m4: "(b4, t4, g4) \<in> set (matches u (lit (ascii '':'')) (b3, t3, g3))"
      and m5: "(b5, t5, g5) \<in> set (matches u (Grp 3 ?pw) (b4, t4, g4))" and m6: "(b', t', g) \<in> set (matches u (lit (ascii ''@'')) (b5, t5, g5))"
    unfolding conn_re_def seqs.simps Seq_mem by (auto simp del: matches.simps(3,4,7) alts.simps lit.simps split: if_splits)
  have g: "g = [(3, length b4, length b5), (2, length b2, length b3), (1, length b, length b1)]"
    using group_free_matches [OF m2] group_free_matches [OF m4] group_free_matches [OF m6] grp_groups [OF m1] grp_groups [OF m3] grp_groups [OF m5] by simp
  have le: "length b \<le> length b1" "length b1 \<le> length b2" "length b2 \<le> length b3" "length b3 \<le> length b4" "length b5 \<le> length b'"
    using matches_whole(2) [OF m1] matches_whole(2) [OF m2] matches_whole(2) [OF m3] matches_whole(2) [OF m4] matches_whole(2) [OF m6] by auto
  have whole: "rev b5 @ t5 = rev b @ t"
    using matches_whole(1) [OF m1] matches_whole(1) [OF m2] matches_whole(1) [OF m3] matches_whole(1) [OF m4] matches_whole(1) [OF m5] by simp
  have at5: "hd t5 = 64" "t5 \<noteq> []" and b': "length b' = Suc (length b5)"
    using m6 by (auto simp: ascii_def split: list.splits if_splits)
  then have at: "(rev b @ t) ! length b5 = 64" and len: "length b' \<le> length (rev b @ t)"
    by (simp_all flip: whole add: nth_append hd_conv_nth Suc_leI)
  show "groups_fine u (keep_groups conn_source) (rev b @ t) g (length b') (length b) [1..<3 + 1]"
    using le whole at len min_len_matches [OF m5] by (simp add: g keep_groups_def upt_rec conn_source_def assign_source_def header_source_def is_ascii_alnum_def
        is_ascii_letter_def is_ascii_digit_def)
qed (simp_all add: conn_re_def ascii_def)


text \<open>Every default pattern masks, so that no key is left and none comes into being.\<close>

lemma default_regexes:
  "build_regexes (default_redact_patterns u) =
     [(api_key_re, \<lambda>_. redact_mask), (bearer_re, \<lambda>_. redact_mask), (header_re, make_replacement header_source 1), (conn_re, make_replacement conn_source 3),
      (assign_re, make_replacement assign_source 2), (phone_re u, \<lambda>_. redact_mask), (id_re u, \<lambda>_. redact_mask), (email_re, \<lambda>_. redact_mask)]"
  by (simp add: build_regexes_def default_redact_patterns_def map_filter_def make_replacement_def fun_eq_iff)

lemma re_sub_keeps_clean:
  assumes "ucd_ok u" and "secrets W" and "masks_match u (\<lambda>_ _. True) r repl" and "\<not> occurs u W False s"
  shows "\<not> occurs u W False (re_sub u r repl s)"
  using masks_keep_clean [OF assms(2,1) re_sub_masks [OF assms(3)]] assms(4) by simp

lemma no_brackets: "list_all P k \<Longrightarrow> \<not> P 91 \<Longrightarrow> \<not> P 93 \<Longrightarrow> 91 \<notin> set k \<and> 93 \<notin> set k"
  by (auto simp: list_all_iff)

lemma secrets_api_key: "secrets api_key"
proof -
  have "91 \<notin> set k \<and> 93 \<notin> set k" if "list_all key_char k" for k
    using no_brackets [OF that] by (simp add: key_char_def is_ascii_alnum_def is_ascii_letter_def is_ascii_digit_def)
  then show ?thesis by (auto simp: secrets_def api_key_def ascii_def is_ascii_alnum_def is_ascii_letter_def)
qed

text \<open>Bearer tokens, likewise.\<close>

definition bearer_token :: "pystr \<Rightarrow> bool" where
  "bearer_token w = (\<exists>p sp k. w = p @ sp @ k \<and> str_lower p = ascii ''bearer'' \<and> sp \<noteq> [] \<and> list_all is_space sp
     \<and> length k = 12 \<and> list_all token_char k)"

lemma lower_bearer: "str_lower p = ascii ''bearer'' \<Longrightarrow> \<exists>c p'. p = c # p' \<and> (c = 66 \<or> c = 98) \<and> length p' = 5 \<and> 91 \<notin> set p \<and> 93 \<notin> set p"
proof -
  assume p: "str_lower p = ascii ''bearer''"
  have "length p = 6" using arg_cong [OF p, of length] by (simp add: str_lower_def ascii_def)
  then obtain c p' where cp: "p = c # p'" "length p' = 5" by (cases p) auto
  then have "lower_char c = 98" using p by (simp add: str_lower_def ascii_def)
  then have "c = 66 \<or> c = 98" by (auto simp: lower_char_def split: if_splits)
  moreover have "x \<notin> set p" if "lower_char x = x" "x \<notin> set (ascii ''bearer'')" for x
    using that p by (metis image_eqI list.set_map str_lower_def)
  then have "91 \<notin> set p \<and> 93 \<notin> set p" by (simp add: lower_char_def ascii_def)
  ultimately show ?thesis using cp by blast
qed

lemma fold_lower: "lower_char c = 98 \<or> lower_char c = 101 \<or> lower_char c = 97 \<or> lower_char c = 114 \<Longrightarrow> fold_char c = lower_char c"
  by (auto simp: fold_char_def lower_char_def split: if_splits)

lemma secrets_bearer: "secrets bearer_token"
proof -
  have "91 \<notin> set sp \<and> 93 \<notin> set sp" if "list_all is_space sp" for sp using no_brackets [OF that] by (simp add: is_space_def)
  moreover have "91 \<notin> set k \<and> 93 \<notin> set k" if "list_all token_char k" for k
    using no_brackets [OF that] by (simp add: token_char_def fold_char_def lower_char_def is_ascii_alnum_def is_ascii_letter_def is_ascii_digit_def)
  ultimately show ?thesis
    by (fastforce simp: secrets_def bearer_token_def is_ascii_alnum_def is_ascii_letter_def dest!: lower_bearer)
qed

lemma lit_i_ok: "map fold_char p = map fold_char w \<Longrightarrow> matches u (lit_i w) (b, p @ t, g) = [(rev p @ b, t, g)]"
  by (induction w arbitrary: p b) (auto simp: map_eq_Cons_conv)

lemma no_bearer:
  assumes "ucd_ok u" and "match_at u bearer_re b t = None"
  shows "\<not> starts bearer_token (word_at u b) t"
proof
  assume "starts bearer_token (word_at u b) t"
  then obtain p sp k t' where p: "str_lower p = ascii ''bearer''" and sp: "sp \<noteq> []" "list_all is_space sp" and k: "length k = 12" "list_all token_char k"
      and t: "t = p @ sp @ k @ t'" and b: "\<not> word_at u b"
    by (auto simp: starts_def bearer_token_def str_prefix_iff)
  have "word_at u t" using lower_bearer [OF p] assms(1) by (auto simp: t word_at_def ucd_word is_ascii_alnum_def is_ascii_letter_def)
  then have st1: "matches u WordB (b, t, []) = [(b, t, [])]" using b by simp
  have "map fold_char p = map fold_char (ascii ''bearer'')"
    using p by (auto simp: str_lower_def ascii_def map_eq_Cons_conv fold_lower) (auto simp: fold_char_def lower_char_def)
  then have st2: "matches u (lit_i (ascii ''bearer'')) (b, t, []) = [(rev p @ b, sp @ k @ t', [])]" by (simp add: t lit_i_ok)
  have nsp: "\<not> is_space c" if "token_char c" for c
    using that by (auto simp: token_char_def fold_char_def lower_char_def is_ascii_alnum_def is_ascii_letter_def is_ascii_digit_def is_space_def split: if_splits)
  obtain c k' where "k = c # k'" "\<not> is_space c" using k nsp by (cases k) auto
  then have tw: "takeWhile is_space (sp @ k @ t') = sp" "dropWhile is_space (sp @ k @ t') = k @ t'"
    using sp by (simp_all add: takeWhile_append2 dropWhile_append2 list_all_iff)
  have "1 \<le> length (takeWhile is_space (sp @ k @ t'))" using sp by (simp add: tw Suc_leI)
  from at_least_Cls_hd [OF this, of u "rev p @ b" "[]"] at_least_Cls_Nil [of u 1 is_space "rev p @ b" "sp @ k @ t'" "[]"]
  have st3: "(rev sp @ rev p @ b, k @ t', []) \<in> set (matches u (many1 (Cls is_space)) (rev p @ b, sp @ k @ t', []))"
    using sp unfolding many1_def tw by (metis hd_in_set length_greater_0_conv less_eq_Suc_le One_nat_def)
  have "12 \<le> length (takeWhile token_char (k @ t'))" using k by (simp add: takeWhile_append2 list_all_iff)
  then have "matches u (at_least 12 (Cls token_char)) (rev sp @ rev p @ b, k @ t', []) \<noteq> []" by (simp add: at_least_Cls_Nil)
  then have "matches u bearer_re (b, t, []) \<noteq> []"
    using st3 by (auto simp add: bearer_re_def st1 st2 simp del: matches.simps(8) lit_i.simps)
  then show False using assms(2) by (simp add: match_at_None)
qed

lemma redact_no_api_key:
  assumes "ucd_ok u"
  shows "\<not> occurs u api_key False (redact_text u None s)"
proof (cases "s = []")
  case False
  have "\<not> occurs u api_key False (re_sub u api_key_re (\<lambda>_. redact_mask) s)"
    using masks_clean [OF secrets_api_key assms re_sub_masks [OF masks_api_key]] no_api_key [OF assms] by blast
  then show ?thesis
    using False assms masks_bearer masks_header masks_conn masks_assign masks_phone masks_id masks_email
    by (simp add: redact_text_def default_regexes re_sub_keeps_clean secrets_api_key)
next
  case True
  then show ?thesis using secrets_api_key by (auto simp: redact_text_def starts_def secrets_def str_prefix_iff)
qed

lemma redact_no_bearer:
  assumes "ucd_ok u"
  shows "\<not> occurs u bearer_token False (redact_text u None s)"
proof (cases "s = []")
  case False
  have "\<not> occurs u bearer_token False (re_sub u bearer_re (\<lambda>_. redact_mask) (re_sub u api_key_re (\<lambda>_. redact_mask) s))"
    using masks_clean [OF secrets_bearer assms re_sub_masks [OF masks_bearer]] no_bearer [OF assms] by blast
  then show ?thesis
    using False assms masks_header masks_conn masks_assign masks_phone masks_id masks_email
    by (simp add: redact_text_def default_regexes re_sub_keeps_clean secrets_bearer)
next
  case True
  then show ?thesis using secrets_bearer by (auto simp: redact_text_def starts_def secrets_def str_prefix_iff)
qed

text \<open>
  C32. No credential of a model provider reaches the log: whatever a text contains, after redaction with
  the default patterns it has, at the start of a word, neither \<open>sk-\<close> with sixteen characters of a key nor a
  bearer token; in particular no later rule uncovers one.
\<close>

theorem redact_no_secret:
  assumes "ucd_ok u"
  shows "\<not> occurs u api_key False (redact_text u None s) \<and> \<not> occurs u bearer_token False (redact_text u None s)"
  using redact_no_api_key [OF assms] redact_no_bearer [OF assms] by blast

theorem redact_no_secret_witness: "\<not> occurs ascii_db api_key False (redact_text ascii_db None (ascii ''key sk-abcdefghijklmnop''))"
  using redact_no_secret [OF ascii_db_ok] by blast


section \<open>What redaction misses\<close>

text \<open>
  The filter redacts the format and its arguments apart, before they are put together. A secret that only
  the two together show, as in \<open>log.info("password=%s", pw)\<close>, stays; and an argument that is no text, such as
  an exception, is not redacted at all.
\<close>

definition plain_record :: "pystr \<Rightarrow> log_value list \<Rightarrow> log_record" where
  "plain_record msg args = \<lparr>lr_name = ascii ''agent'', lr_levelno = 20, lr_levelname = ascii ''INFO'', lr_msg = LvStr msg, lr_args = LaTuple args,
     lr_extra = [], lr_exc = None, lr_exc_text = [], lr_task_id = [], lr_trace_id = []\<rparr>"

lemmas regex_eval = re_search_def match_at_def word_at_def ascii_db_def is_ascii_alnum_def is_ascii_letter_def is_ascii_digit_def
  fold_char_def lower_char_def ascii_def at_least_def many1_def opt_def matches.simps(5) is_space_def matches_reps_Cls

lemmas default_eval = api_key_re_def bearer_re_def header_re_def conn_re_def assign_re_def assign_sign_def phone_re_def id_re_def email_re_def
  key_char_def token_char_def value_char_def quote_char_def

lemma redact_unchanged:
  assumes "s \<noteq> []" and "re_search u api_key_re s = None" "re_search u bearer_re s = None" "re_search u header_re s = None" "re_search u conn_re s = None"
    "re_search u assign_re s = None" "re_search u (phone_re u) s = None" "re_search u (id_re u) s = None" "re_search u email_re s = None"
  shows "redact_text u None s = s"
  using assms by (simp add: redact_text_def default_regexes re_sub_none)

lemma redact_format: "redact_text ascii_db None (ascii ''password=%s'') = ascii ''password=%s''"
  by (rule redact_unchanged) (simp_all add: regex_eval default_eval)

lemma redact_argument: "redact_text ascii_db None (ascii ''hunter2secret'') = ascii ''hunter2secret''"
  by (rule redact_unchanged) (simp_all add: regex_eval default_eval)

lemma redact_percent_s: "redact_text ascii_db None (ascii ''%s'') = ascii ''%s''"
  by (rule redact_unchanged) (simp_all add: regex_eval default_eval)

lemma redact_default: "redact_text u (Some (default_redact_patterns u)) s = redact_text u None s"
  by (simp add: redact_text_def)

lemma split_secret_leaks:
  "get_message pf (redaction_filter ascii_db None (plain_record (ascii ''password=%s'') [LvStr (ascii ''hunter2secret'')]))
     = Some (ascii ''password=hunter2secret'')"
proof -
  have "percent pf (ascii ''password=%s'') [LvStr (ascii ''hunter2secret'')] = Some (ascii ''password=hunter2secret'')"
    by (simp add: ascii_def is_ascii_letter_def value_str_def)
  then show ?thesis
    by (simp add: get_message_def redaction_filter_def plain_record_def redact_str_value_def redact_args_def redact_default redact_format
        redact_argument value_str_def Let_def)
qed

lemma object_argument_leaks:
  "get_message pf (redaction_filter ascii_db None (plain_record (ascii ''%s'') [LvObj secret])) = Some secret"
proof -
  have "percent pf (ascii ''%s'') [LvObj secret] = Some secret" by (simp add: ascii_def is_ascii_letter_def value_str_def)
  then show ?thesis
    by (simp add: get_message_def redaction_filter_def plain_record_def redact_str_value_def redact_args_def redact_default redact_percent_s
        value_str_def Let_def)
qed

text \<open>
  The setting never switches redaction off by itself; but a pattern with a comma, as in an open
  repetition, is cut into two other patterns.
\<close>

lemma settings_never_empty: "redact_patterns_from_settings pattern_of raw \<noteq> Some []"
  by (simp add: redact_patterns_from_settings_def Let_def)

lemma settings_blank: "list_all (\<lambda>c. is_space c \<or> c = 44) raw \<Longrightarrow> redact_patterns_from_settings pattern_of raw = None"
proof -
  assume raw: "list_all (\<lambda>c. is_space c \<or> c = 44) raw"
  have "\<forall>p \<in> set (str_split 44 raw). list_all is_space p"
    using raw by (induction raw) (auto split: list.splits)
  moreover have "str_strip p = []" if "list_all is_space p" for p
  proof -
    have "dropWhile is_space p = []" using that by (simp add: list_all_iff dropWhile_eq_Nil_conv)
    then show ?thesis by (simp only: str_strip_def rev.simps dropWhile.simps)
  qed
  ultimately show ?thesis by (auto simp: redact_patterns_from_settings_def Let_def filter_empty_conv)
qed

lemma settings_cut_repetition:
  "redact_patterns_from_settings pattern_of (ascii ''sk-[a-z]{16,}'') = Some [pattern_of (ascii ''sk-[a-z]{16''), pattern_of (ascii ''}'')]"
  by (simp add: redact_patterns_from_settings_def Let_def ascii_def str_strip_def is_space_def)

section \<open>Shape, sampling and lines\<close>

text \<open>The text leaves of a value, from left to right, and the value with every text replaced by the empty one.\<close>

fun texts :: "log_value \<Rightarrow> pystr list" where
  "texts (LvStr s) = [s]"
| "texts (LvList xs) = concat (map texts xs)"
| "texts (LvTuple xs) = concat (map texts xs)"
| "texts (LvDict kvs) = concat (map (\<lambda>kv. texts (snd kv)) kvs)"
| "texts v = []"

fun shape :: "log_value \<Rightarrow> log_value" where
  "shape (LvStr s) = LvStr []"
| "shape (LvList xs) = LvList (map shape xs)"
| "shape (LvTuple xs) = LvTuple (map shape xs)"
| "shape (LvDict kvs) = LvDict (map (\<lambda>kv. (fst kv, shape (snd kv))) kvs)"
| "shape v = v"

lemma redact_value_shape: "shape (redact_value u ps v) = shape v"
  by (induction u ps v rule: redact_value.induct) auto

lemma redact_value_texts: "texts (redact_value u ps v) = map (redact_text u ps) (texts v)"
  by (induction u ps v rule: redact_value.induct) (auto simp: map_concat o_def intro!: arg_cong [of _ _ concat])

text \<open>
  C33. Redaction of a structured value keeps its type: containers, keys, numbers and other objects
  stay as they are, and every text at any depth, and nothing else, is replaced by its redaction,
  so that none of them contains a key.
\<close>

theorem redact_value_typed:
  assumes "ucd_ok u"
  shows "shape (redact_value u None v) = shape v \<and> texts (redact_value u None v) = map (redact_text u None) (texts v)
     \<and> list_all (\<lambda>s. \<not> occurs u api_key False s) (texts (redact_value u None v))"
proof -
  have "\<not> occurs u api_key False (redact_text u None s)" for s
    using redact_no_api_key [OF assms] .
  then show ?thesis by (simp add: redact_value_shape redact_value_texts list_all_iff)
qed

theorem redact_value_typed_witness:
  "shape (redact_value ascii_db None (LvDict [(ascii ''a'', LvList [LvStr (ascii ''x''), LvInt 3])])) = LvDict [(ascii ''a'', LvList [LvStr [], LvInt 3])]"
  using redact_value_typed [OF ascii_db_ok, of "LvDict [(ascii ''a'', LvList [LvStr (ascii ''x''), LvInt 3])]"] by simp

fun sample_all :: "log_record list \<Rightarrow> sampler \<Rightarrow> bool list" where
  "sample_all [] sp = []"
| "sample_all (r # rs) sp = (let (keep, sp') = sampling_filter r sp in keep # sample_all rs sp')"

definition sample_key :: "log_record \<Rightarrow> pystr \<times> int" where
  "sample_key r = (lr_name r, lr_levelno r)"

lemma sample_all_nth:
  "i < length rs \<Longrightarrow> sample_all rs sp ! i =
     (sp_every sp \<le> 1 \<or> warning_level \<le> lr_levelno (rs ! i)
      \<or> sp_every sp dvd int (seen_count sp (sample_key (rs ! i)) + length (filter (\<lambda>r. sample_key r = sample_key (rs ! i)) (take i rs))))"
proof (induction rs arbitrary: i sp)
  case (Cons r rs)
  obtain keep sp' where f: "sampling_filter r sp = (keep, sp')" by fastforce
  show ?case
  proof (cases i)
    case 0
    then show ?thesis using f by (auto simp: sampling_filter_def Let_def sample_key_def dvd_eq_mod_eq_0 split: if_splits)
  next
    case (Suc j)
    have every: "sp_every sp' = sp_every sp" using f by (auto simp: sampling_filter_def Let_def split: if_splits)
    have "seen_count sp' (sample_key (rs ! j)) = seen_count sp (sample_key (rs ! j)) + (if sample_key r = sample_key (rs ! j) then 1 else 0)"
      if "\<not> sp_every sp \<le> 1" "\<not> warning_level \<le> lr_levelno (rs ! j)"
      using f that by (auto simp: sampling_filter_def Let_def seen_count_def sample_key_def update_conv split: if_splits)
    then show ?thesis using Cons.IH [of j sp'] Cons.prems Suc f every
      by (cases "sp_every sp \<le> 1 \<or> warning_level \<le> lr_levelno (rs ! j)") (auto simp: algebra_simps)
  qed
qed simp

text \<open>
  Sampling is exact and never loses a warning: of a sequence of records, a record is kept if and only if
  sampling is off, its level is at least a warning, or the number of records of its logger and level before it
  is divisible by the rate; so the first of every kind is kept.
\<close>

theorem sampling_exact:
  assumes "i < length rs"
  shows "sample_all rs (new_sampler rate) ! i \<longleftrightarrow>
     rate \<le> 1 \<or> warning_level \<le> lr_levelno (rs ! i)
     \<or> rate dvd int (length (filter (\<lambda>r. sample_key r = sample_key (rs ! i)) (take i rs)))"
  using sample_all_nth [OF assms, of "new_sampler rate"] by (auto simp: new_sampler_def seen_count_def max_def)

theorem sampling_exact_witness:
  "sample_all [plain_record [] [], plain_record [] []] (new_sampler 2) ! 1 = False"
proof -
  have "1 < length [plain_record [] [], plain_record [] []]" by simp
  from sampling_exact [OF this, of 2] show ?thesis by (simp add: plain_record_def warning_level_def sample_key_def)
qed

text \<open>The encoder escapes every control character; a float is logged as its literal.\<close>

fun floats_ok :: "json \<Rightarrow> bool" where
  "floats_ok (JFloat f) = list_all (\<lambda>c. 32 \<le> c) f"
| "floats_ok (JArr xs) = list_all floats_ok xs"
| "floats_ok (JObj kvs) = list_all (\<lambda>kv. floats_ok (snd kv)) kvs"
| "floats_ok v = True"

lemma str_join_chars: "c \<in> set (str_join sep xs) \<Longrightarrow> c \<in> set sep \<or> (\<exists>x \<in> set xs. c \<in> set x)"
  by (induction sep xs rule: str_join.induct) auto

lemma esc_char_printable: "list_all (\<lambda>x. 32 \<le> x) (esc_char c)"
  by (simp add: esc_char_def hex_digit_def)

lemma dumps_str_printable: "c \<in> set (dumps_str s) \<Longrightarrow> 32 \<le> c"
  using esc_char_printable by (auto simp: dumps_str_def list_all_iff)

lemma int_str_printable: "c \<in> set (int_str i) \<Longrightarrow> 32 \<le> c"
  using nat_str_digits [of c] by (fastforce simp: int_str_def split: if_splits)

lemma dumps_compact_printable: "floats_ok v \<Longrightarrow> c \<in> set (dumps_compact v) \<Longrightarrow> 32 \<le> c"
proof (induction v rule: dumps_compact.induct)
  case (1 xs)
  then show ?case using str_join_chars [of c "[44]" "map dumps_compact xs"] by (auto simp: list_all_iff)
next
  case (2 kvs)
  then have "c \<in> {123, 125, 44} \<or> (\<exists>kv \<in> set kvs. c \<in> set (dumps_str (fst kv)) \<or> c = 58 \<or> c \<in> set (dumps_compact (snd kv)))"
    using str_join_chars [of c "[44]" "map (\<lambda>kv. dumps_str (fst kv) @ [58] @ dumps_compact (snd kv)) kvs"] by auto
  then show ?case using 2 dumps_str_printable by (fastforce simp: list_all_iff)
qed (auto simp: ascii_def list_all_iff dumps_str_printable int_str_printable split: if_splits)

lemma floats_ok_dict_set: "floats_ok (JObj d) \<Longrightarrow> floats_ok v \<Longrightarrow> floats_ok (JObj (dict_set k v d))"
  by (induction d) (auto simp: dict_set_def)

lemma floats_ok_extras:
  "floats_ok (JObj d) \<Longrightarrow> list_all (\<lambda>kv. floats_ok (value_json (snd kv))) ex
    \<Longrightarrow> floats_ok (JObj (fold (\<lambda>(k, v) d. if P k then d else dict_set k (value_json v) d) ex d))"
  by (induction ex arbitrary: d) (auto simp: floats_ok_dict_set simp del: floats_ok.simps(3))

lemma redact_floats: "floats_ok (value_json (redact_value u ps v)) = floats_ok (value_json v)"
  by (induction u ps v rule: redact_value.induct) (auto simp: list_all_iff)

text \<open>
  In JSON format every record is one line: whatever its message, its arguments, its extra fields or
  its traceback contain, the text written has no line break or other control character, so that no
  logged value can forge a record.
\<close>

theorem json_one_line:
  assumes "emit_record u pf cfg env_trace ctx ts rec sp = (Some line, raised, sp')" and "lc_json cfg"
    and "list_all (\<lambda>kv. floats_ok (value_json (snd kv))) (lr_extra rec)"
  shows "list_all (\<lambda>c. 32 \<le> c) line"
proof -
  obtain rec2 where fj: "format_json pf ts rec2 = Some line" and ex: "list_all (\<lambda>kv. floats_ok (value_json (snd kv))) (lr_extra rec2)"
  proof -
    let ?rec1 = "trace_context_filter (cx_task ctx) (current_trace_id env_trace ctx) rec"
    let ?rec2 = "if lc_redact cfg then redaction_filter u (lc_patterns cfg) ?rec1 else ?rec1"
    have "format_json pf ts ?rec2 = Some line"
      using assms(1,2) by (auto simp: emit_record_def Let_def split: if_splits prod.splits option.splits)
    moreover have "list_all (\<lambda>kv. floats_ok (value_json (snd kv))) (lr_extra ?rec2)"
      using assms(3) by (auto simp: trace_context_filter_def redaction_filter_def Let_def list_all_iff redact_floats split: option.splits)
    ultimately show ?thesis using that by blast
  qed
  obtain payload where line: "line = dumps_compact (JObj payload)" and ok: "floats_ok (JObj payload)"
    using fj floats_ok_extras [OF _ ex] floats_ok_dict_set
    by (auto simp: format_json_def Let_def simp del: floats_ok.simps(3) split: option.splits) force+
  then show ?thesis using dumps_compact_printable [OF ok] by (auto simp: list_all_iff)
qed

definition demo_format :: py_format where
  "demo_format = \<lparr>pf_repr = \<lambda>_. [], pf_conv = \<lambda>_ _. [], pf_mapping = \<lambda>_ _. None\<rparr>"

definition demo_log_config :: log_config where
  "demo_log_config = \<lparr>lc_level = 20, lc_json = True, lc_redact = True, lc_patterns = Some [], lc_sample_rate = 1\<rparr>"

theorem json_one_line_witness:
  "\<exists>line. fst (emit_record ascii_db demo_format demo_log_config [] demo_ctx [] (plain_record [97, 10, 98] []) (new_sampler 1)) = Some line
     \<and> list_all (\<lambda>c. 32 \<le> c) line"
proof -
  let ?out = "emit_record ascii_db demo_format demo_log_config [] demo_ctx [] (plain_record [97, 10, 98] []) (new_sampler 1)"
  obtain line sp' where e: "?out = (Some line, False, sp')"
    by (simp add: emit_record_def demo_log_config_def plain_record_def format_json_def get_message_def value_str_def Let_def trace_context_filter_def
        redaction_filter_def redact_str_value_def redact_args_def)
  have "list_all (\<lambda>c. 32 \<le> c) line"
    using json_one_line [OF e] by (simp add: demo_log_config_def plain_record_def)
  then show ?thesis by (simp add: e)
qed

end
