(* ===== verification/Search_Results.thy ===== *)
theory Search_Results
  imports Regex Registry
begin

text \<open>
  What the search tool does with the results of a search: relevance to the query
  (\<^verbatim>\<open>app/tools/web_search/relevance.py\<close>), credibility of the sources (\<^verbatim>\<open>credibility.py\<close>) and
  the summary for the model with the agreement of independent sources (\<^verbatim>\<open>summary.py\<close>).
\<close>

section \<open>Relevance\<close>

text \<open>A hit; the built-in corpus has no addresses.\<close>

record hit =
  ht_title :: pystr
  ht_url :: "pystr option"
  ht_snippet :: pystr

definition hit_text :: "'a hit_scheme \<Rightarrow> pystr" where
  "hit_text h = ht_title h @ [32] @ ht_snippet h"

definition hit_url :: "'a hit_scheme \<Rightarrow> pystr" where
  "hit_url h = (case ht_url h of None \<Rightarrow> [] | Some url \<Rightarrow> url)"

definition is_cjk_char :: "nat \<Rightarrow> bool" where
  "is_cjk_char c = (19968 \<le> c \<and> c \<le> 40959)"

definition has_cjk :: "pystr \<Rightarrow> bool" where
  "has_cjk s = (\<exists>c \<in> set s. is_cjk_char c)"

definition token_re :: regex where
  "token_re = Alt (Seq (Cls is_ascii_letter) (Star (Cls (\<lambda>c. is_ascii_alnum c \<or> c = 45 \<or> c = 39)))) (many1 (Cls is_cjk_char))"

definition tokens_of :: "pystr \<Rightarrow> pystr list" where
  "tokens_of s = map ma_text (re_findall ascii_db token_re s)"

definition stop_words :: "pystr list" where
  "stop_words =
     [ascii ''the'', ascii ''a'', ascii ''an'', ascii ''of'', ascii ''and'', ascii ''or'', ascii ''to'', ascii ''in'', ascii ''on'',
      ascii ''for'', ascii ''is'', ascii ''are'', ascii ''was'', ascii ''were'', ascii ''what'', ascii ''which'', ascii ''who'',
      ascii ''whom'', ascii ''when'', ascii ''where'', ascii ''how'', [23448, 26041]]"

definition generic_words :: "pystr list" where
  "generic_words =
     [ascii ''report'', ascii ''change'', ascii ''settings'', ascii ''click'', ascii ''page'', ascii ''site'', ascii ''website'',
      ascii ''home'', ascii ''search'', ascii ''result'', ascii ''results'', ascii ''info'', ascii ''information'', ascii ''news'',
      ascii ''update'', ascii ''updates'', ascii ''guide'', ascii ''help'', ascii ''login'', ascii ''sign'', ascii ''download'',
      ascii ''free'', ascii ''online'', [25991, 26723], [39318, 39029], [30331, 24405], [19979, 36733], [20813, 36153], [20449, 24687], [26032, 38395], [26356, 26032], [25351, 21335]]"

definition relevance_min :: real where "relevance_min = 1 / 2"

definition entity_re :: regex where
  "entity_re = seqs [lit (ascii ''&''), many1 (Cls (\<lambda>c. is_ascii_alnum (fold_char c) \<or> c = 35)), lit (ascii '';'')]"

definition clean_text :: "pystr \<Rightarrow> pystr" where
  "clean_text s = str_strip (re_sub ascii_db (many1 (Cls is_space)) (\<lambda>_. [32]) (re_sub ascii_db entity_re (\<lambda>_. [32]) s))"

definition query_tokens :: "pystr \<Rightarrow> pystr list" where
  "query_tokens query =
     map str_lower (filter (\<lambda>t. str_lower t \<notin> set stop_words \<and> 1 < length t) (tokens_of query))"

fun cjk_grams :: "pystr \<Rightarrow> pystr list" where
  "cjk_grams (a # b # s) = (if s = [] then [[a, b]] else [a, b] # cjk_grams (b # s))"
| "cjk_grams token = [token]"

definition en_hit :: "unicode_db \<Rightarrow> pystr \<Rightarrow> pystr \<Rightarrow> bool" where
  "en_hit u token txt = (re_search u (Seq WordB (lit token)) txt \<noteq> None)"

definition token_hit :: "unicode_db \<Rightarrow> pystr \<Rightarrow> pystr \<Rightarrow> bool" where
  "token_hit u txt t =
     (if has_cjk t
      then real (length (filter (\<lambda>g. str_in g txt) (cjk_grams t))) / real (length (cjk_grams t)) \<ge> 1 / 2
      else en_hit u t txt)"

definition relevance :: "unicode_db \<Rightarrow> 'a hit_scheme \<Rightarrow> pystr list \<Rightarrow> real" where
  "relevance u h tokens =
     (let txt = str_lower (hit_text h); meaningful = filter (\<lambda>t. t \<notin> set generic_words) tokens
      in if meaningful = [] then (if tokens \<noteq> [] then 1 else 0)
         else real (length (filter (token_hit u txt) meaningful)) / real (length meaningful))"

definition is_relevant_result :: "unicode_db \<Rightarrow> hit list \<Rightarrow> pystr \<Rightarrow> bool" where
  "is_relevant_result u hits query =
     (let tokens = query_tokens query
      in tokens = [] \<or> (\<exists>h \<in> set hits. relevance u h tokens \<ge> relevance_min))"

definition is_mostly_english :: "pystr \<Rightarrow> bool" where
  "is_mostly_english query = (4 \<le> length (filter is_ascii_letter query) \<and> \<not> has_cjk query)"

definition english_hint :: pystr where
  "english_hint = [9888, 65039, 32, 26412, 27425, 26597, 35810, 20197, 33521, 25991, 20026, 20027, 65292, 32780, 24403, 21069, 25628, 32034, 28304, 26159, 20013, 25991, 28304, 65306, 33521, 25991, 38271, 21477, 20250, 36864, 21270, 25104, 26080, 20851, 30340, 20445, 24213, 32467, 26524, 12290, 35831, 25226, 26597, 35810, 25913, 20889, 25104, 42, 42, 20013, 25991, 20851, 38190, 35789, 42, 42, 21518, 37325, 35797, 32, 8212, 8212, 32, 21435, 25481, 32, 111, 102, 102, 105, 99, 105, 97, 108, 32, 47, 32, 97, 110, 110, 111, 117, 110, 99, 101, 100, 32, 47, 32, 102, 105, 110, 97, 108, 32, 114, 101, 115, 117, 108, 116, 32, 36825, 31867, 20462, 39280, 35789, 65292, 21482, 30041, 23454, 20307, 26412, 36523, 65292, 20363, 22914, 25226, 32, 12300, 50, 48, 50, 54, 32, 70, 73, 70, 65, 32, 87, 111, 114, 108, 100, 32, 67, 117, 112, 32, 119, 105, 110, 110, 101, 114, 32, 97, 110, 110, 111, 117, 110, 99, 101, 100, 32, 111, 102, 102, 105, 99, 105, 97, 108, 12301, 25913, 25104, 12300, 50, 48, 50, 54, 24180, 19990, 30028, 26479, 20896, 20891, 12301, 12290]"

text \<open>\<open>_ensure_relevant\<close>; its errors are not to be retried.\<close>

definition final_error :: "pystr \<Rightarrow> tool_error_code \<Rightarrow> exec_error" where
  "final_error msg code = (tool_error msg (Some code))\<lparr>ee_retryable := Some False\<rparr>"

definition ensure_relevant :: "unicode_db \<Rightarrow> hit list \<Rightarrow> pystr \<Rightarrow> pystr \<Rightarrow> pystr \<Rightarrow> exec_error + hit list" where
  "ensure_relevant u hits query source empty_hint =
     (if hits = [] then Inl (final_error (source @ [26410, 35299, 26512, 21040, 32467, 26524, 65288] @ empty_hint @ [65289]) UNKNOWN)
      else if \<not> is_relevant_result u hits query then
        Inl (final_error (source @ [26410, 36820, 22238, 30456, 20851, 32467, 26524, 65288, 21629, 20013, 26465, 30446, 20026, 65306] @ str_join [12289] (map (\<lambda>h. take 40 (ht_title h)) (take 3 hits))
          @ [65289, 12290] @ (if is_mostly_english query then english_hint else [35831, 25442, 29992, 26356, 20855, 20307, 30340, 20851, 38190, 35789, 65292, 25110, 25913, 29992, 20854, 20182, 24037, 20855, 33719, 21462, 35813, 20449, 24687, 12290])) UNKNOWN)
      else Inr hits)"

section \<open>Credibility\<close>

datatype credibility = Authoritative | Media | UnknownSource | Ugc

definition authoritative_domains :: "pystr list" where
  "authoritative_domains =
     [ascii ''nba.com'', ascii ''fiba.com'', ascii ''olympics.com'', ascii ''fifa.com'', ascii ''reuters.com'', ascii ''apnews.com'',
      ascii ''bbc.com'', ascii ''bbc.co.uk'', ascii ''xinhuanet.com'', ascii ''news.cn'', ascii ''cctv.com'', ascii ''people.com.cn'',
      ascii ''chinanews.com.cn'', ascii ''thepaper.cn'', ascii ''espn.com'', ascii ''espn.cn'', ascii ''si.com'',
      ascii ''theathletic.com'', ascii ''bleacherreport.com'', ascii ''skysports.com'', ascii ''eurosport.com'']"

definition media_domains :: "pystr list" where
  "media_domains =
     [ascii ''sports.sina.com.cn'', ascii ''sports.qq.com'', ascii ''sports.163.com'', ascii ''sports.sohu.com'', ascii ''hupu.com'',
      ascii ''zhibo8.com'', ascii ''dongqiudi.com'', ascii ''sina.com.cn'', ascii ''ifeng.com'']"

definition ugc_domains :: "pystr list" where
  "ugc_domains =
     [ascii ''bilibili.com'', ascii ''toutiao.com'', ascii ''baijiahao.baidu.com'', ascii ''zhihu.com'', ascii ''weibo.com'',
      ascii ''douyin.com'', ascii ''xiaohongshu.com'', ascii ''kuaishou.com'', ascii ''tieba.baidu.com'', ascii ''douban.com'',
      ascii ''jianshu.com'', ascii ''csdn.net'', ascii ''sohu.com/a/'', ascii ''163.com/dy/'', ascii ''baike.baidu.com'']"

definition cred_rank :: "credibility \<Rightarrow> nat" where
  "cred_rank c = (case c of Authoritative \<Rightarrow> 0 | Media \<Rightarrow> 1 | UnknownSource \<Rightarrow> 2 | Ugc \<Rightarrow> 3)"

definition cred_label :: "credibility \<Rightarrow> pystr" where
  "cred_label c = (case c of Authoritative \<Rightarrow> [26435, 23041] | Media \<Rightarrow> [38376, 25143, 23186, 20307] | Ugc \<Rightarrow> ascii ''UGC'' | UnknownSource \<Rightarrow> [26410, 30693, 26469, 28304])"

definition search_engine_hosts :: "pystr list" where
  "search_engine_hosts =
     [ascii ''sogou.com'', ascii ''bing.com'', ascii ''baidu.com'', ascii ''so.com'', ascii ''google.com'']"

definition title_source_hints :: "(pystr \<times> pystr \<times> credibility) list" where
  "title_source_hints =
     [([21716, 21737, 21716, 21737], ascii ''bilibili.com'', Ugc),
      (ascii ''bilibili'', ascii ''bilibili.com'', Ugc),
      ([20170, 26085, 22836, 26465], ascii ''toutiao.com'', Ugc),
      ([32593, 26131], ascii ''163.com'', Ugc),
      ([25628, 29392], ascii ''sohu.com'', Ugc),
      ([30334, 23478, 21495], ascii ''baijiahao.baidu.com'', Ugc),
      ([30693, 20046], ascii ''zhihu.com'', Ugc),
      ([24494, 21338], ascii ''weibo.com'', Ugc),
      ([23567, 32418, 20070], ascii ''xiaohongshu.com'', Ugc),
      ([34382, 25169], ascii ''hupu.com'', Media),
      ([25026, 29699, 24093], ascii ''dongqiudi.com'', Media),
      ([30452, 25773, 21543], ascii ''zhibo8.com'', Media),
      ([26032, 28010, 20307, 32946], ascii ''sports.sina.com.cn'', Media),
      ([33150, 35759, 20307, 32946], ascii ''sports.qq.com'', Media),
      ([78, 66, 65, 23448, 32593], ascii ''nba.com'', Authoritative),
      (ascii ''ESPN'', ascii ''espn.com'', Authoritative),
      ([26032, 21326, 31038], ascii ''xinhuanet.com'', Authoritative),
      ([22830, 35270], ascii ''cctv.com'', Authoritative),
      (ascii ''nba.com'', ascii ''nba.com'', Authoritative),
      (ascii ''espn'', ascii ''espn.com'', Authoritative),
      (ascii ''theathletic'', ascii ''theathletic.com'', Authoritative),
      (ascii ''the athletic'', ascii ''theathletic.com'', Authoritative),
      (ascii ''si.com'', ascii ''si.com'', Authoritative),
      (ascii ''bleacherreport'', ascii ''bleacherreport.com'', Authoritative),
      (ascii ''reuters'', ascii ''reuters.com'', Authoritative),
      (ascii ''apnews'', ascii ''apnews.com'', Authoritative),
      (ascii ''olympics.com'', ascii ''olympics.com'', Authoritative),
      (ascii ''fiba'', ascii ''fiba.com'', Authoritative),
      (ascii ''basketball-reference'', ascii ''basketball-reference.com'', Media),
      (ascii ''statmuse'', ascii ''statmuse.com'', Media),
      (ascii ''sports.yahoo'', ascii ''sports.yahoo.com'', Media)]"

definition speculative_words :: "pystr list" where
  "speculative_words =
     [[22914, 26524], [33509], [23558, 20250], [23558, 20110], [21363, 23558], [26126, 26085], [39044, 27979], [21069, 30651], [24320, 25112], [26377, 26395], [23637, 26395], [35841, 33021], [33457, 33853, 35841, 23478], [24748, 24565]]"

definition ad_signs :: "pystr list" where
  "ad_signs =
     [[113, 113, 32676], [31881, 19997, 32676], [21830, 21153, 21512, 20316], [21152, 24494], [25195, 30721], [20851, 27880, 20844, 20247, 21495]]"

definition hype_words :: "pystr list" where
  "hype_words =
     [[29190, 20102], [38663, 24778], [24778, 22825], [20869, 24149], [29420, 23478, 29190, 26009], [31455, 28982], [28856, 20102], [22826, 29408], [20840, 32593, 27832, 33150]]"

definition domain_re :: regex where
  "domain_re = seqs [lit (ascii ''http''), opt (lit (ascii ''s'')), lit (ascii ''://''), Grp 1 (many1 (Cls (\<lambda>c. c \<noteq> 47)))]"

definition domain_of :: "pystr \<Rightarrow> pystr" where
  "domain_of url =
     str_removeprefix (ascii ''www.'')
       (case re_match ascii_db domain_re url of
          None \<Rightarrow> []
        | Some m \<Rightarrow> str_lower (case ma_group m 1 of None \<Rightarrow> [] | Some h \<Rightarrow> h))"

definition under_domain :: "pystr \<Rightarrow> pystr \<Rightarrow> bool" where
  "under_domain host d = (host = d \<or> str_suffix (ascii ''.'' @ d) host)"

definition credibility_of_host :: "pystr \<Rightarrow> pystr \<Rightarrow> credibility" where
  "credibility_of_host host full_url =
     (if host = [] then UnknownSource
      else if (\<exists>d \<in> set authoritative_domains. under_domain host d) then Authoritative
      else if (\<exists>d \<in> set ugc_domains. if 47 \<in> set d then str_in d (str_lower full_url) else under_domain host d) then Ugc
      else if (\<exists>d \<in> set media_domains. under_domain host d) then Media
      else UnknownSource)"

text \<open>\<open>rfind\<close>: the last position of a text in another, -1 if there is none.\<close>

fun rfind_from :: "int \<Rightarrow> pystr \<Rightarrow> pystr \<Rightarrow> int" where
  "rfind_from i sub [] = (if sub = [] then i else -1)"
| "rfind_from i sub (c # s) =
     (let later = rfind_from (i + 1) sub s in if later \<ge> 0 then later else if str_prefix sub (c # s) then i else -1)"

definition infer_from_title :: "pystr \<Rightarrow> (pystr \<times> credibility) option" where
  "infer_from_title title =
     snd (fold (\<lambda>(hint, host, level) (best_pos, best).
            let pos = rfind_from 0 (str_lower hint) (str_lower title)
            in if pos > best_pos then (pos, Some (host, level)) else (best_pos, best)) title_source_hints (-1, None))"

definition no_source :: pystr where "no_source = [40, 26080, 26469, 28304, 41]"

definition source_of :: "pystr \<Rightarrow> pystr \<Rightarrow> pystr \<times> credibility" where
  "source_of url title =
     (let host = domain_of url
      in if host \<in> set search_engine_hosts \<or> host = [] then
           (case infer_from_title title of
              Some r \<Rightarrow> r
            | None \<Rightarrow> (if host = [] then no_source else host, UnknownSource))
         else (host, credibility_of_host host url))"

definition credibility_of :: "pystr \<Rightarrow> pystr \<Rightarrow> credibility" where
  "credibility_of url title = snd (source_of url title)"

definition content_flags :: "pystr \<Rightarrow> pystr \<Rightarrow> pystr list" where
  "content_flags title snippet =
     (let txt = title @ [32] @ snippet
      in (if (\<exists>w \<in> set speculative_words. str_in w txt) then [[25512, 27979, 24615]] else [])
         @ (if (\<exists>w \<in> set ad_signs. str_in w txt) then [[24341, 27969, 47, 24191, 21578]] else [])
         @ (if (\<exists>w \<in> set hype_words. str_in w txt) then [[26631, 39064, 20826]] else []))"

record annotated = hit +
  an_source :: pystr
  an_credibility :: credibility
  an_flags :: "pystr list"

definition annotate_hit :: "hit \<Rightarrow> annotated" where
  "annotate_hit h =
     (let (src, level) = source_of (hit_url h) (ht_title h)
      in \<lparr>ht_title = ht_title h, ht_url = ht_url h, ht_snippet = ht_snippet h, an_source = src, an_credibility = level,
          an_flags = content_flags (ht_title h) (ht_snippet h)\<rparr>)"

definition annotate :: "hit list \<Rightarrow> annotated list" where
  "annotate hits = sort_key (\<lambda>x. cred_rank (an_credibility x)) (map annotate_hit hits)"

section \<open>Agreement of sources and summary\<close>

definition virt_edge :: pystr where
  "virt_edge = [20174, 30340, 21450, 21644, 19982, 22312, 26159, 20026, 23545, 25226, 34987, 23601, 37117, 20063, 32780, 25110, 32773, 20102, 20010, 20204, 36825, 37027, 19981, 26080, 26410, 20197, 20043, 20854, 24182, 20110]"

definition significant_units :: "pystr \<Rightarrow> pystr list \<Rightarrow> pystr list" where
  "significant_units txt exclude =
     concat (map (\<lambda>tok.
       if has_cjk tok then filter (\<lambda>g. 2 \<le> length g \<and> g \<notin> set exclude \<and> g \<notin> set generic_words) (cjk_grams tok)
       else if tok \<notin> set exclude \<and> tok \<notin> set stop_words \<and> tok \<notin> set generic_words \<and> 1 < length tok then [tok]
       else []) (tokens_of (str_lower txt)))"

text \<open>The rows of \<open>_consensus\<close>: for every hit its domain, its units and its runs of Chinese characters.\<close>

record source_row =
  sr_domain :: pystr
  sr_units :: "pystr list"
  sr_runs :: "pystr list"

definition row_of :: "pystr list \<Rightarrow> annotated \<Rightarrow> source_row" where
  "row_of q_units h =
     \<lparr>sr_domain = (if an_source h \<noteq> [] then an_source h
                   else if domain_of (hit_url h) \<noteq> [] then domain_of (hit_url h) else no_source),
      sr_units = significant_units (hit_text h) q_units,
      sr_runs = filter (\<lambda>t. has_cjk t \<and> 2 \<le> length t) (tokens_of (hit_text h))\<rparr>"

definition domains_with :: "source_row list \<Rightarrow> pystr \<Rightarrow> pystr list" where
  "domains_with rows unit = remdups (map sr_domain (filter (\<lambda>r. unit \<in> set (sr_units r)) rows))"

definition shared_units :: "source_row list \<Rightarrow> pystr list" where
  "shared_units rows = filter (\<lambda>un. 2 \<le> length (domains_with rows un)) (remdups (concat (map sr_units rows)))"

definition phrase_ok :: "pystr list \<Rightarrow> pystr \<Rightarrow> bool" where
  "phrase_ok shared r =
     (length r \<le> 8 \<and> hd r \<notin> set virt_edge \<and> last r \<notin> set virt_edge \<and> (\<exists>g \<in> set (cjk_grams (str_lower r)). g \<in> set shared))"

definition consensus :: "annotated list \<Rightarrow> pystr \<Rightarrow> pystr list \<times> pystr list" where
  "consensus hits query =
     (let q_units = significant_units query [];
          rows = map (row_of q_units) hits;
          shared = shared_units rows;
          domains = sort (filter (\<lambda>d. d \<noteq> no_source \<and> d \<noteq> []) (remdups (concat (map (domains_with rows) shared))))
      in if shared = [] \<or> length domains < 2 then ([], [])
         else
           (let phrases = foldl (\<lambda>ps r. if phrase_ok shared r \<and> r \<notin> set ps then ps @ [r] else ps) [] (concat (map sr_runs rows));
                phrases1 = (if phrases = [] then take 4 (sort shared) else phrases);
                en = sort (filter (\<lambda>un. \<not> has_cjk un) shared)
            in (take 4 phrases1 @ take 3 en, domains)))"

definition result_hint_trigger :: "pystr list" where
  "result_hint_trigger =
     [ascii ''MVP'', [20896, 20891], [24471, 20027], [33719, 22870], [37329, 29699], [37329, 38772], ascii ''FMVP'', ascii ''winner'', ascii ''mvp'', ascii ''champion'',
      ascii ''award'']"

definition result_verbs :: "pystr list" where
  "result_verbs =
     [[20844, 24067], [24403, 36873], [33635, 33719], [25480, 20104], [23459, 24067], [34633, 32852], [25688, 24471], ascii ''won'', ascii ''named'', ascii ''crowned'', ascii ''awarded'',
      ascii ''elected'']"

text \<open>\<open>s.replace(old, new)\<close> for a text \<open>old\<close> that is not empty.\<close>

function str_replace :: "pystr \<Rightarrow> pystr \<Rightarrow> pystr \<Rightarrow> pystr" where
  "str_replace old new [] = []"
| "str_replace old new (c # s) =
     (if old \<noteq> [] \<and> str_prefix old (c # s) then new @ str_replace old new (drop (length old) (c # s))
      else c # str_replace old new s)"
  by pat_completeness auto
termination
  by (relation "measure (\<lambda>(old, new, s). length s)") (auto simp: neq_Nil_conv)

definition result_query_hint :: "pystr \<Rightarrow> annotated list \<Rightarrow> pystr" where
  "result_query_hint query hits =
     (let q = str_lower query
      in if \<not> (\<exists>w \<in> set result_hint_trigger. str_in (str_lower w) q) then []
         else
           (let txt = str_replace q [32] (str_lower (str_join [32] (map hit_text hits)))
            in if (\<exists>v \<in> set result_verbs. str_in v txt) then []
               else [10, 9888, 65039, 32, 20320, 22312, 26597, 12300, 32467, 26524, 47, 22870, 39033, 12301, 31867, 20449, 24687, 65292, 20294, 36820, 22238, 30340, 20840, 26159, 39044, 27979, 12289, 31454, 29468, 25110, 21517, 21333, 31867, 20869, 23481, 65288, 27809, 26377, 20219, 20309, 19968, 26465, 20889, 26126, 33719, 22870, 32773, 47, 33719, 32988, 32773, 65289, 12290, 35831, 25226, 26597, 35810, 35789, 25913, 20889, 20026, 12300, 123, 23436, 25972, 36187, 23395, 25110, 24180, 20221, 125, 32, 43, 32, 22870, 39033, 21517, 31216, 32, 43, 32, 24471, 20027, 12301, 20877, 25628, 19968, 27425, 32, 8212, 8212, 32, 20363, 65306, 25226, 12300, 78, 66, 65, 32, 50, 48, 50, 54, 32, 77, 86, 80, 12301, 25913, 25104, 12300, 50, 48, 50, 53, 45, 50, 54, 36187, 23395, 32, 78, 66, 65, 24120, 35268, 36187, 32, 77, 86, 80, 32, 24471, 20027, 12301, 65307, 33509, 21487, 29992, 35831, 37197, 21512, 32, 96, 102, 114, 101, 115, 104, 110, 101, 115, 115, 96, 65288, 22914, 32, 111, 110, 101, 89, 101, 97, 114, 65289, 25226, 31383, 21475, 38480, 23450, 21040, 22870, 39033, 20844, 24067, 20043, 21518, 12290, 20505, 36873, 20154, 21517, 21333, 19981, 26159, 31572, 26696, 65292, 19981, 35201, 24403, 20316, 37096, 20998, 32467, 35770, 20132, 20184, 12290]))"

definition count_cred :: "credibility \<Rightarrow> annotated list \<Rightarrow> nat" where
  "count_cred c hits = length (filter (\<lambda>h. an_credibility h = c) hits)"

definition summary_line :: "annotated \<Rightarrow> pystr" where
  "summary_line h =
     [12308] @ an_source h @ [65372] @ cred_label (an_credibility h)
       @ (if an_flags h \<noteq> [] then ascii ''/'' @ str_join (ascii ''/'') (an_flags h) else []) @ [12309]
       @ ht_title h @ [65306] @ take 160 (ht_snippet h)"

definition build_summary :: "pystr \<Rightarrow> pystr \<Rightarrow> annotated list \<Rightarrow> pystr" where
  "build_summary source query hits =
     (let head = ascii ''['' @ source @ [93, 32, 25628, 32034, 12300] @ query @ [12301, 21629, 20013, 32] @ nat_str (length hits) @ [32, 26465, 65288, 26435, 23041, 32]
            @ nat_str (count_cred Authoritative hits) @ [65292, 38376, 25143, 23186, 20307, 32] @ nat_str (count_cred Media hits) @ [65292, 85, 71, 67, 32]
            @ nat_str (count_cred Ugc hits) @ [65292, 26410, 30693, 32] @ nat_str (count_cred UnknownSource hits) @ [65289, 65306];
          warn = (if count_cred Authoritative hits \<noteq> 0 then []
                  else
                    (let (agreed, domains) = consensus hits query
                     in if agreed \<noteq> [] then
                          [10, 9888, 65039, 32, 26412, 27425, 32467, 26524, 20013, 27809, 26377, 26435, 23041, 26469, 28304, 65288, 23448, 26041, 26426, 26500, 47, 36890, 35759, 31038, 47, 19987, 19994, 20307, 32946, 23186, 20307, 65289, 65292, 20294, 26377, 32] @ nat_str (length domains) @ [32, 20010, 42, 42, 29420, 31435, 26469, 28304, 42, 42, 19968, 33268, 25552, 21040, 65306] @ str_join [12289] agreed
                            @ [65288, 26469, 28304, 65306] @ str_join [12289] (take 4 domains) @ [65289, 12290, 10, 8594, 32, 21028, 23450, 35268, 21017, 65306, 42, 42, 21482, 26377, 24403, 19978, 36848, 19968, 33268, 20449, 24687, 30452, 25509, 22238, 31572, 20102, 26597, 35810, 25152, 38382, 42, 42, 65288, 20363, 65306, 38382, 12300, 35841, 22842, 20896, 12301, 32780, 26469, 28304, 26126, 30830, 20889, 20986, 26576, 38431, 22842, 20896, 65289, 65292, 25165, 21487, 32473, 20986, 42, 42, 21442, 32771, 24615, 31572, 26696, 42, 42, 65292, 19988, 24517, 39035, 21516, 26102, 28385, 36275, 65306, 9312, 32, 22312, 31572, 26696, 39318, 21477, 26631, 27880, 12300, 26410, 32463, 26435, 23041, 20449, 28304, 35777, 23454, 12301, 65307, 9313, 32, 20889, 26126, 20381, 25454, 26469, 33258, 21738, 20123, 26469, 28304, 65307, 9314, 32, 19981, 24471, 25226, 12300, 22810, 26469, 28304, 37325, 22797, 12301, 24403, 20316, 12300, 24050, 35777, 23454, 12301, 65292, 20063, 19981, 24471, 34917, 20805, 32467, 26524, 20013, 26410, 20986, 29616, 30340, 32454, 33410, 65288, 27604, 20998, 47, 26102, 38388, 47, 20154, 21517, 21482, 33021, 24341, 29992, 21407, 25991, 24050, 26377, 30340, 34920, 36848, 65289, 12290, 10, 8594, 32, 33509, 19968, 33268, 30340, 21482, 26159, 35805, 39064, 35789, 65288, 38431, 21517, 47, 20154, 21517, 47, 36187, 20107, 21517, 31561, 65289, 32780, 42, 42, 27809, 26377, 20219, 20309, 26469, 28304, 20889, 20986, 32467, 35770, 42, 42, 65292, 21363, 35270, 20026, 27809, 26377, 35813, 35777, 25454, 65292, 24212, 22238, 31572, 12300, 26410, 33021, 30830, 35748, 12301, 24182, 32487, 32493, 26816, 32034, 26435, 23041, 26469, 28304, 12290]
                        else [10, 9888, 65039, 32, 26412, 27425, 32467, 26524, 20013, 27809, 26377, 26435, 23041, 26469, 28304, 65288, 23448, 26041, 26426, 26500, 47, 36890, 35759, 31038, 47, 19987, 19994, 20307, 32946, 23186, 20307, 65289, 65292, 19988, 21508, 26469, 28304, 20043, 38388, 27809, 26377, 19968, 33268, 30340, 20851, 38190, 20449, 24687, 65288, 21333, 19968, 26469, 28304, 19981, 36275, 20197, 20304, 35777, 20107, 23454, 65289, 12290, 85, 71, 67, 65288, 33258, 23186, 20307, 47, 35270, 39057, 31449, 47, 38382, 31572, 47, 22836, 26465, 21495, 65289, 21482, 33021, 24403, 32447, 32034, 65292, 19981, 24471, 20316, 20026, 20107, 23454, 20381, 25454, 65307, 33509, 26576, 20010, 20154, 21517, 12289, 27604, 20998, 12289, 32467, 26524, 22312, 32467, 26524, 20013, 20174, 26410, 34987, 26126, 30830, 20889, 20986, 65292, 21363, 35270, 20026, 27809, 26377, 35813, 35777, 25454, 65292, 19981, 24471, 25454, 20854, 20182, 26465, 30446, 25340, 20945, 25110, 25512, 26029, 32, 8212, 8212, 32, 24212, 22238, 31572, 12300, 26410, 33021, 30830, 35748, 12301, 24182, 32487, 32493, 26816, 32034, 26435, 23041, 26469, 28304, 12290]))
      in head @ concat (map summary_line hits) @ warn @ result_query_hint query hits)"

section \<open>Ranking\<close>

lemma cred_rank_inj [simp]: "cred_rank a = cred_rank b \<longleftrightarrow> a = b"
  by (cases a; cases b) (simp_all add: cred_rank_def)

text \<open>
  Annotating ranks and loses nothing: the results are those of the search, each with its source, credibility
  and flags, ordered from authoritative sources to user content, and in the order of the search engine within
  each level.
\<close>

theorem annotate_ranked:
  "mset (annotate hits) = mset (map annotate_hit hits)
   \<and> sorted (map (\<lambda>x. cred_rank (an_credibility x)) (annotate hits))
   \<and> filter (\<lambda>x. an_credibility x = c) (annotate hits) = filter (\<lambda>x. an_credibility x = c) (map annotate_hit hits)"
proof -
  have "filter (\<lambda>x. an_credibility x = c) (annotate hits) = filter (\<lambda>x. an_credibility x = c) (map annotate_hit hits)"
    using sort_key_stable [of "\<lambda>x. cred_rank (an_credibility x)" "cred_rank c" "map annotate_hit hits"] by (simp add: annotate_def)
  then show ?thesis by (simp add: annotate_def)
qed

section \<open>Tokens\<close>

lemma tokens_in: "t \<in> set (tokens_of s) \<Longrightarrow> str_in t s"
proof -
  assume "t \<in> set (tokens_of s)"
  then obtain m where m: "Matched m \<in> set (scan ascii_db token_re [] s)" "t = ma_text m"
    by (auto simp: tokens_of_def re_findall_def split: piece.splits)
  then obtain xs ys where "scan ascii_db token_re [] s = xs @ Matched m # ys" by (meson split_list)
  then have "concat (map (\<lambda>p. case p of Copied c \<Rightarrow> [c] | Matched m \<Rightarrow> ma_text m) xs) @ ma_text m
      @ concat (map (\<lambda>p. case p of Copied c \<Rightarrow> [c] | Matched m \<Rightarrow> ma_text m) ys) = s"
    using scan_text [of ascii_db token_re "[]" s] by simp
  then have "\<exists>a b. s = a @ ma_text m @ b" by blast
  then show "str_in t s" using m by (simp add: str_in_iff)
qed

lemma grams_in: "g \<in> set (cjk_grams t) \<Longrightarrow> str_in g t"
proof (induction t rule: cjk_grams.induct)
  case (1 a b s)
  then show ?case by (auto simp: str_in_iff split: if_splits) (metis append_Cons append_Nil)+
qed (auto simp: str_in_iff)

lemma str_in_trans: "str_in a b \<Longrightarrow> str_in b c \<Longrightarrow> str_in a c"
  by (metis append.assoc str_in_iff)

lemma str_lower_in: "str_in a b \<Longrightarrow> str_in (str_lower a) (str_lower b)"
  by (auto simp: str_in_iff str_lower_def) blast

lemma cjk_grams_not_Nil [simp]: "cjk_grams t \<noteq> []"
  by (cases t rule: cjk_grams.cases) auto

text \<open>
  A Chinese query is never lost: when the query occurs in the title or the snippet of a result and its
  tokens are Chinese, the result has full relevance, so that the check lets it pass.
\<close>

theorem chinese_query_found:
  assumes "h \<in> set hits" and "str_in (str_lower query) (str_lower (hit_text h))" and "list_all has_cjk (query_tokens query)" and "query_tokens query \<noteq> []"
  shows "relevance u h (query_tokens query) = 1 \<and> ensure_relevant u hits query source hint = Inr hits"
proof -
  let ?txt = "str_lower (hit_text h)"
  have hit: "token_hit u ?txt t" if t: "t \<in> set (query_tokens query)" for t
  proof -
    obtain t0 where t0: "t = str_lower t0" "t0 \<in> set (tokens_of query)" using t by (auto simp: query_tokens_def)
    then have "str_in t ?txt" using str_lower_in [OF tokens_in] assms(2) str_in_trans by blast
    then have "\<forall>g \<in> set (cjk_grams t). str_in g ?txt" using grams_in str_in_trans by blast
    moreover have "has_cjk t" using assms(3) t by (simp add: list_all_iff)
    ultimately show ?thesis by (simp add: token_hit_def)
  qed
  let ?m = "filter (\<lambda>t. t \<notin> set generic_words) (query_tokens query)"
  have "filter (token_hit u ?txt) ?m = ?m" using hit by (simp only: filter_id_conv set_filter) blast
  then have rel: "relevance u h (query_tokens query) = 1" using assms(4) by (simp add: relevance_def Let_def)
  moreover have "relevance_min \<le> relevance u h (query_tokens query)" by (simp add: rel relevance_min_def)
  then have "is_relevant_result u hits query" using assms(1) by (auto simp: is_relevant_result_def Let_def)
  moreover have "hits \<noteq> []" using assms(1) by auto
  ultimately show ?thesis by (simp add: ensure_relevant_def)
qed

lemmas search_eval = tokens_of_def re_findall_def scan.simps match_at_def token_re_def many1_def at_least_def matches.simps(5) ma_text_def
  is_ascii_alnum_def is_ascii_letter_def is_ascii_digit_def is_cjk_char_def

lemma tokens_beijing: "tokens_of [21271, 20140, 22825, 27668] = [[21271, 20140, 22825, 27668]]"
  by (simp add: search_eval)

theorem chinese_query_found_witness:
  "ensure_relevant ascii_db [\<lparr>ht_title = [30475, 21271, 20140, 22825, 27668], ht_url = None, ht_snippet = []\<rparr>] [21271, 20140, 22825, 27668] [] [] = Inr [\<lparr>ht_title = [30475, 21271, 20140, 22825, 27668], ht_url = None, ht_snippet = []\<rparr>]"
proof -
  let ?h = "\<lparr>ht_title = [30475, 21271, 20140, 22825, 27668], ht_url = None, ht_snippet = []\<rparr>"
  have "query_tokens [21271, 20140, 22825, 27668] = [[21271, 20140, 22825, 27668]]"
    by (simp add: query_tokens_def tokens_beijing stop_words_def str_lower_def lower_char_def ascii_def)
  then show ?thesis
    using chinese_query_found [of ?h "[?h]" "[21271, 20140, 22825, 27668]" ascii_db "[]" "[]"]
    by (simp add: hit_text_def str_lower_def lower_char_def has_cjk_def is_cjk_char_def)
qed

lemma tokens_nba: "tokens_of [78, 66, 65] = [[78, 66, 65]]"
  by (simp add: search_eval)

text \<open>
  Chinese characters belong to words, so an English word that follows one without a space does not
  start at a word boundary: the query \<open>NBA\<close> has no relevance to a title that contains it. The same holds
  for a name that begins with a digit.
\<close>

lemma english_word_in_chinese_title_missed:
  assumes "uc_word u 24180" and "uc_word u 110"
  shows "relevance u \<lparr>ht_title = [24180, 78, 66, 65], ht_url = None, ht_snippet = []\<rparr> (query_tokens [78, 66, 65]) = 0"
  using assms
  by (simp add: relevance_def query_tokens_def tokens_nba stop_words_def generic_words_def hit_text_def str_lower_def lower_char_def ascii_def
      token_hit_def has_cjk_def is_cjk_char_def en_hit_def re_search_def match_at_def word_at_def Let_def)

section \<open>Agreement\<close>

lemma units_outside_query: "un \<in> set (significant_units txt q) \<Longrightarrow> un \<notin> set q"
  by (auto simp: significant_units_def split: if_splits)

lemma two_domains:
  assumes "d \<in> set (domains_with rows un)" and "2 \<le> length (domains_with rows un)"
  shows "\<exists>d' \<in> set (domains_with rows un). d' \<noteq> d"
proof (rule ccontr)
  assume "\<not> ?thesis"
  then have "set (domains_with rows un) \<subseteq> {d}" by auto
  moreover have "distinct (domains_with rows un)" by (simp add: domains_with_def)
  ultimately have "length (domains_with rows un) \<le> 1" by (metis card_mono distinct_card finite.emptyI finite_insert card.empty card_insert_disjoint empty_iff One_nat_def)
  then show False using assms(2) by simp
qed

text \<open>
  What is reported as agreement is shared by at least two sources: the domains are at least two, distinct, known
  and in order, and each of them has a result that shares with a result of another source some unit of text
  that does not come from the query.
\<close>

theorem consensus_shared:
  assumes "consensus hits query = (agreed, domains)" and "agreed \<noteq> []" and "q = significant_units query []" and "d \<in> set domains"
  shows "2 \<le> length domains \<and> distinct domains \<and> sorted domains \<and> no_source \<notin> set domains
     \<and> (\<exists>h \<in> set hits. \<exists>h' \<in> set hits. \<exists>un. sr_domain (row_of q h) = d \<and> sr_domain (row_of q h') \<noteq> d
          \<and> un \<in> set (sr_units (row_of q h)) \<and> un \<in> set (sr_units (row_of q h')) \<and> un \<notin> set q)"
proof -
  let ?rows = "map (row_of q) hits"
  let ?ds = "filter (\<lambda>d. d \<noteq> no_source \<and> d \<noteq> []) (remdups (concat (map (domains_with ?rows) (shared_units ?rows))))"
  have dom: "domains = sort ?ds" and len: "2 \<le> length domains"
    using assms(1,2,3) by (auto simp: consensus_def Let_def split: if_splits)
  obtain un where un: "un \<in> set (shared_units ?rows)" "d \<in> set (domains_with ?rows un)" using assms(4) dom by auto
  then obtain d' where d': "d' \<in> set (domains_with ?rows un)" "d' \<noteq> d" using two_domains [OF un(2)] by (auto simp: shared_units_def)
  obtain h where h: "h \<in> set hits" "sr_domain (row_of q h) = d" "un \<in> set (sr_units (row_of q h))" using un(2) by (auto simp: domains_with_def)
  obtain h' where h': "h' \<in> set hits" "sr_domain (row_of q h') = d'" "un \<in> set (sr_units (row_of q h'))" using d'(1) by (auto simp: domains_with_def)
  have "un \<notin> set q" using h(3) by (simp add: row_of_def units_outside_query)
  then show ?thesis using h h' d'(2) len dom by auto
qed

text \<open>
  But a source that is not known counts for the sharing of a unit, against the intention: below, no unit
  is shared by two known sources, and two independent sources are reported to agree on both units.
\<close>

definition source_hit :: "string \<Rightarrow> pystr \<Rightarrow> annotated" where
  "source_hit txt src = \<lparr>ht_title = ascii txt, ht_url = None, ht_snippet = [], an_source = src, an_credibility = UnknownSource, an_flags = []\<rparr>"

lemma tokens_ab: "tokens_of [97, 98, 32, 99, 100, 32] = [[97, 98], [99, 100]]" "tokens_of [97, 98, 32] = [[97, 98]]" "tokens_of [99, 100, 32] = [[99, 100]]"
    "tokens_of [] = []"
  by (simp_all add: search_eval)

lemma unknown_source_counted:
  "consensus [source_hit ''ab cd'' no_source, source_hit ''ab'' (ascii ''a.cn''), source_hit ''cd'' (ascii ''b.cn'')] []
     = ([[97, 98], [99, 100], [97, 98], [99, 100]], [ascii ''a.cn'', ascii ''b.cn''])"
proof -
  have units: "significant_units [97, 98, 32, 99, 100, 32] [] = [[97, 98], [99, 100]]" "significant_units [97, 98, 32] [] = [[97, 98]]"
      "significant_units [99, 100, 32] [] = [[99, 100]]" "significant_units [] [] = []"
    by (simp_all add: significant_units_def str_lower_def lower_char_def tokens_ab has_cjk_def is_cjk_char_def stop_words_def generic_words_def ascii_def)
  show ?thesis
    by (simp add: consensus_def units row_of_def source_hit_def hit_text_def tokens_ab has_cjk_def is_cjk_char_def shared_units_def domains_with_def
        no_source_def ascii_def Let_def list_le_def list_less_def)
qed

theorem consensus_shared_witness:
  "\<exists>h \<in> {source_hit ''ab cd'' no_source, source_hit ''ab'' (ascii ''a.cn''), source_hit ''cd'' (ascii ''b.cn'')}. sr_domain (row_of [] h) \<noteq> ascii ''a.cn''"
proof -
  have q: "[] = significant_units [] []" by (simp add: significant_units_def str_lower_def tokens_ab)
  show ?thesis
    using consensus_shared [OF unknown_source_counted _ q, of "ascii ''a.cn''"] by auto
qed

text \<open>
  The host of an address ends at the first slash only, so that a query or a fragment can pass for a domain.
\<close>

lemma authoritative_spoofed: "credibility_of (ascii ''http://e.cn?.nba.com'') [] = Authoritative"
  by (simp add: credibility_of_def source_of_def domain_of_def re_match_def match_at_def domain_re_def many1_def at_least_def matches.simps(5) opt_def
      ascii_def ma_group_def str_lower_def lower_char_def str_removeprefix_def search_engine_hosts_def credibility_of_host_def
      authoritative_domains_def under_domain_def str_suffix_def Let_def)

end
