(* ===== verification/Web_Search.thy ===== *)
theory Web_Search
  imports Search_Results
begin

text \<open>
  The search tool (\<^verbatim>\<open>app/tools/web_search\<close>): throttling and cool-down of the sources
  (\<^verbatim>\<open>throttle.py\<close>), the sources (\<^verbatim>\<open>providers/\<close>) and the routing between them (\<^verbatim>\<open>__init__.py\<close>).
  Requests, the clock and sleeping are parameters on an abstract world; pages are parsed with the
  model of regular expressions. The pool of HTTP clients is left out.
\<close>

section \<open>Environment\<close>

datatype http_result =
    HttpTimeout pystr
  | HttpTransport pystr
  | HttpRaise handler_exc
  | HttpReply int pystr "pystr option"

text \<open>An entry that the DuckDuckGo library returns.\<close>

record raw_entry =
  re_title :: pystr
  re_href :: pystr
  re_url :: pystr
  re_body :: pystr

record 'w search_env =
  se_ucd :: unicode_db
  se_clock :: "'w \<Rightarrow> seconds"
  se_sleep :: "seconds \<Rightarrow> 'w \<Rightarrow> 'w"
  se_get :: "pystr \<Rightarrow> pystr \<Rightarrow> int \<Rightarrow> 'w \<Rightarrow> http_result \<times> 'w"
  se_post :: "pystr \<Rightarrow> json \<Rightarrow> 'w \<Rightarrow> http_result \<times> 'w"
  se_ddgs :: "(pystr \<Rightarrow> int \<Rightarrow> 'w \<Rightarrow> ((pystr \<times> pystr) + raw_entry list) \<times> 'w) option"
  se_bocha_key :: pystr
  se_float :: "pystr \<Rightarrow> seconds option"
  se_json_error :: "pystr \<Rightarrow> pystr"

section \<open>Throttling\<close>

record throttle =
  th_last :: "seconds dict"
  th_cooldown :: "seconds dict"

definition block_signs :: "pystr list" where
  "block_signs =
     [ascii ''antispider'', [39564, 35777, 30721], [35775, 38382, 36807, 20110, 39057, 32321], [23433, 20840, 39564, 35777], [35831, 36755, 20837, 39564, 35777, 30721], ascii ''captcha'', ascii ''unusual traffic'',
      [25298, 32477, 35775, 38382], [24744, 30340, 35775, 38382, 20986, 38169, 20102]]"

definition block_max_bytes :: nat where "block_max_bytes = 20000"
definition min_interval_s :: seconds where "min_interval_s = 3 / 2"
definition cooldown_s :: seconds where "cooldown_s = 300"
definition net_cooldown_s :: seconds where "net_cooldown_s = 60"

definition cooldown_remaining :: "seconds \<Rightarrow> pystr \<Rightarrow> throttle \<Rightarrow> seconds" where
  "cooldown_remaining now source th =
     max 0 ((case dict_get (th_cooldown th) source of None \<Rightarrow> 0 | Some until \<Rightarrow> until) - now)"

definition mark_failed :: "seconds \<Rightarrow> pystr \<Rightarrow> seconds \<Rightarrow> throttle \<Rightarrow> throttle" where
  "mark_failed now source secs th = th\<lparr>th_cooldown := dict_set source (now + secs) (th_cooldown th)\<rparr>"

definition mark_ok :: "pystr \<Rightarrow> throttle \<Rightarrow> throttle" where
  "mark_ok source th = th\<lparr>th_cooldown := dict_pop source (th_cooldown th)\<rparr>"

text \<open>
  \<open>_gate\<close>, with the part before its pause: refusal, or the time to sleep.
\<close>

definition gate_check :: "seconds \<Rightarrow> pystr \<Rightarrow> pystr \<Rightarrow> throttle \<Rightarrow> exec_error + seconds" where
  "gate_check now source label th =
     (let left = cooldown_remaining now source th
      in if left > 0 then
           Inl (final_error (label @ [27491, 22788, 20110, 39118, 25511, 20919, 21364, 26399, 65288, 32422, 32] @ int_str \<lfloor>left\<rfloor>
             @ [115, 32, 21518, 33258, 21160, 24674, 22797, 65289, 12290, 26412, 27425, 26410, 21457, 36215, 35831, 27714, 65292, 20197, 20813, 21152, 21095, 23553, 31105, 32, 8212, 8212, 32, 35831, 25913, 29992, 20854, 20182, 20851, 38190, 35789, 25110, 31245, 21518, 37325, 35797, 12290]) RATE_LIMITED)
         else Inr (case dict_get (th_last th) source of
                     None \<Rightarrow> 0
                   | Some before \<Rightarrow> max 0 (min_interval_s - (now - before))))"

definition gate_pass :: "seconds \<Rightarrow> pystr \<Rightarrow> throttle \<Rightarrow> throttle" where
  "gate_pass now source th = th\<lparr>th_last := dict_set source now (th_last th)\<rparr>"

definition search_gate :: "'w search_env \<Rightarrow> pystr \<Rightarrow> pystr \<Rightarrow> throttle \<Rightarrow> 'w \<Rightarrow> (exec_error + unit) \<times> throttle \<times> 'w" where
  "search_gate E source label th w =
     (case gate_check (se_clock E w) source label th of
        Inl e \<Rightarrow> (Inl e, th, w)
      | Inr wait \<Rightarrow>
          (let w1 = (if wait > 0 then se_sleep E wait w else w)
           in (Inr (), gate_pass (se_clock E w1) source th, w1)))"

definition is_block_page :: "pystr \<Rightarrow> bool" where
  "is_block_page html = (length html < block_max_bytes \<and> (\<exists>k \<in> set block_signs. str_in k html))"

definition check_blocked :: "seconds \<Rightarrow> pystr \<Rightarrow> pystr \<Rightarrow> pystr \<Rightarrow> throttle \<Rightarrow> (exec_error + unit) \<times> throttle" where
  "check_blocked now html source label th =
     (if is_block_page html then
        (Inl (final_error (label @ [36820, 22238, 20102, 21453, 29228, 25318, 25130, 39029, 65306, 35813, 28304, 24050, 34987, 39118, 25511, 38480, 27969, 65292, 36890, 24120, 38656, 35201, 25968, 20998, 38047, 21040, 25968, 23567, 26102, 25165, 24674, 22797, 12290, 26412, 27425, 24050, 36339, 36807, 24182, 36827, 20837, 32] @ int_str \<lfloor>cooldown_s\<rfloor>
           @ [115, 32, 20919, 21364, 65288, 26399, 38388, 19981, 20877, 35831, 27714, 35813, 28304, 65289, 65292, 35831, 25913, 29992, 20854, 20182, 20851, 38190, 35789, 65292, 25110, 20381, 36182, 20854, 20182, 25628, 32034, 28304, 23436, 25104, 26412, 27425, 26816, 32034, 12290]) RATE_LIMITED),
         mark_failed now source cooldown_s th)
      else (Inr (), th))"

section \<open>Parsing pages\<close>

definition any_char :: regex where "any_char = Cls (\<lambda>_. True)"

definition not_char :: "nat \<Rightarrow> regex" where "not_char d = Cls (\<lambda>c. c \<noteq> d)"

definition tag_re :: regex where
  "tag_re = seqs [lit (ascii ''<''), many1 (not_char 62), lit (ascii ''>'')]"

definition strip_tags :: "pystr \<Rightarrow> pystr \<Rightarrow> pystr" where
  "strip_tags repl s = re_sub ascii_db tag_re (\<lambda>_. repl) s"

definition group_text :: "match \<Rightarrow> nat \<Rightarrow> pystr" where
  "group_text m n = (case ma_group m n of None \<Rightarrow> [] | Some s \<Rightarrow> s)"

text \<open>The loops over result blocks: hits are appended until there are \<open>top_k\<close>.\<close>

fun collect_hits :: "(pystr \<Rightarrow> hit option) \<Rightarrow> int \<Rightarrow> pystr list \<Rightarrow> hit list \<Rightarrow> hit list" where
  "collect_hits hit_of top_k [] hits = hits"
| "collect_hits hit_of top_k (block # blocks) hits =
     (case hit_of block of
        None \<Rightarrow> collect_hits hit_of top_k blocks hits
      | Some h \<Rightarrow>
          if int (length (hits @ [h])) \<ge> top_k then hits @ [h] else collect_hits hit_of top_k blocks (hits @ [h]))"

definition bing_block_re :: regex where
  "bing_block_re = seqs [lit (ascii ''<li class='' @ [34] @ ascii ''b_algo'' @ [34]), Lazy any_char, lit (ascii ''</li>'')]"

definition bing_link_re :: regex where
  "bing_link_re = seqs [lit (ascii ''<h2''), Star (not_char 62), lit (ascii ''>''), Star (Cls is_space), lit (ascii ''<a''), Star (not_char 62),
     lit (ascii ''href='' @ [34]), Grp 1 (many1 (not_char 34)), lit [34], Star (not_char 62), lit (ascii ''>''), Grp 2 (Lazy any_char), lit (ascii ''</a>'')]"

definition bing_snippet_re :: regex where
  "bing_snippet_re = seqs [lit (ascii ''<p''), Star (not_char 62), lit (ascii ''>''), Grp 1 (Lazy any_char), lit (ascii ''</p>'')]"

definition bing_hit :: "pystr \<Rightarrow> hit option" where
  "bing_hit block =
     map_option (\<lambda>m.
       \<lparr>ht_title = clean_text (strip_tags [] (group_text m 2)), ht_url = Some (group_text m 1),
        ht_snippet = take 300 (case re_search ascii_db bing_snippet_re block of
          None \<Rightarrow> [] | Some sm \<Rightarrow> clean_text (strip_tags [] (group_text sm 1)))\<rparr>)
     (re_search ascii_db bing_link_re block)"

definition parse_bing :: "pystr \<Rightarrow> int \<Rightarrow> hit list" where
  "parse_bing html top_k = collect_hits bing_hit top_k (map ma_text (re_findall ascii_db bing_block_re html)) []"

definition sogou_block_re :: regex where
  "sogou_block_re = seqs [lit (ascii ''<div class='' @ [34] @ ascii ''vrwrap'' @ [34] @ ascii ''>''), Grp 1 (Lazy any_char),
     Ahead (alts [lit (ascii ''<div class='' @ [34] @ ascii ''vrwrap'' @ [34] @ ascii ''>''), lit (ascii ''<div id='' @ [34] @ ascii ''pagebar_container'' @ [34]), Eos])]"

definition sogou_link_re :: regex where
  "sogou_link_re = seqs [lit (ascii ''<h3''), Star (not_char 62), lit (ascii ''class='' @ [34]), Star (not_char 34), lit (ascii ''vr-title''), Star (not_char 34),
     lit [34], Star (not_char 62), lit (ascii ''>''), Star (Cls is_space), lit (ascii ''<a''), Star (not_char 62), lit (ascii ''href='' @ [34]),
     Grp 1 (Star (not_char 34)), lit [34], Star (not_char 62), lit (ascii ''>''), Grp 2 (Lazy any_char), lit (ascii ''</a>'')]"

definition style_re :: regex where
  "style_re = seqs [lit (ascii ''<style''), Lazy any_char, lit (ascii ''</style>'')]"

definition link_re :: regex where
  "link_re = seqs [lit (ascii ''http''), opt (lit (ascii ''s'')), lit (ascii ''://''), many1 (Cls (\<lambda>c. \<not> is_space c))]"

text \<open>\<open>body_ns.index(title_ns)\<close>, for a title that occurs.\<close>

fun str_index :: "pystr \<Rightarrow> pystr \<Rightarrow> nat" where
  "str_index sub [] = 0"
| "str_index sub (c # s) = (if str_prefix sub (c # s) then 0 else Suc (str_index sub s))"

definition sogou_hit :: "pystr \<Rightarrow> hit option" where
  "sogou_hit block =
     map_option (\<lambda>m.
       let title = clean_text (strip_tags [] (group_text m 2));
           body0 = clean_text (strip_tags [32] (re_sub ascii_db style_re (\<lambda>_. [32]) block));
           body = clean_text (re_sub ascii_db link_re (\<lambda>_. [32]) body0);
           body_ns = filter (\<lambda>c. c \<noteq> 32) body;
           title_ns = filter (\<lambda>c. c \<noteq> 32) title;
           body1 = (if title_ns \<noteq> [] \<and> str_in title_ns body_ns
                    then let i = str_index title_ns body_ns in take i body_ns @ [32] @ drop (i + length title_ns) body_ns
                    else body);
           url = group_text m 1
       in \<lparr>ht_title = title, ht_url = Some (if str_prefix (ascii ''/link?'') url then ascii ''https://www.sogou.com'' @ url else url),
           ht_snippet = take 300 (clean_text body1)\<rparr>)
     (re_search ascii_db sogou_link_re block)"

definition parse_sogou :: "pystr \<Rightarrow> int \<Rightarrow> hit list" where
  "parse_sogou html top_k = collect_hits sogou_hit top_k (map (\<lambda>m. group_text m 1) (re_findall ascii_db sogou_block_re html)) []"

definition json_pages :: "json option \<Rightarrow> json list" where
  "json_pages node =
     (case node of
        Some (JObj d) \<Rightarrow>
          (let other = (case dict_get d (ascii ''value'') of Some (JArr xs) \<Rightarrow> xs
                        | _ \<Rightarrow> case dict_get d (ascii ''results'') of Some (JArr xs) \<Rightarrow> xs | _ \<Rightarrow> [])
           in case dict_get d (ascii ''webPages'') of
                Some (JObj wp) \<Rightarrow> (case dict_get wp (ascii ''value'') of Some (JArr xs) \<Rightarrow> xs | _ \<Rightarrow> other)
              | Some (JArr xs) \<Rightarrow> xs
              | _ \<Rightarrow> other)
      | _ \<Rightarrow> [])"

definition first_str :: "json dict \<Rightarrow> string list \<Rightarrow> pystr" where
  "first_str d keys =
     (case find (\<lambda>k. case dict_get d (ascii k) of None \<Rightarrow> False | Some v \<Rightarrow> truthy v) keys of
        None \<Rightarrow> []
      | Some k \<Rightarrow> (case dict_get d (ascii k) of None \<Rightarrow> [] | Some v \<Rightarrow> py_str v))"

definition bocha_hit :: "json \<Rightarrow> hit option" where
  "bocha_hit it =
     (case it of
        JObj d \<Rightarrow> Some \<lparr>ht_title = first_str d [''name'', ''title''], ht_url = Some (first_str d [''url'']),
                       ht_snippet = first_str d [''snippet'', ''summary'']\<rparr>
      | _ \<Rightarrow> None)"

text \<open>Python's \<open>xs[:k]\<close>.\<close>

definition take_int :: "int \<Rightarrow> 'a list \<Rightarrow> 'a list" where
  "take_int k xs = (if k \<ge> 0 then take (nat k) xs else take (length xs - nat (- k)) xs)"

definition parse_bocha :: "json dict \<Rightarrow> int \<Rightarrow> hit list" where
  "parse_bocha payload top_k =
     (let pages = (case dict_get payload (ascii ''data'') of
                     Some (JArr xs) \<Rightarrow> xs
                   | data \<Rightarrow> if json_pages data \<noteq> [] then json_pages data else json_pages (Some (JObj payload)))
      in List.map_filter bocha_hit (take_int top_k pages))"

section \<open>Sources\<close>

record search_result =
  sr_hits :: "annotated list"
  sr_summary :: pystr

definition default_empty_hint :: pystr where "default_empty_hint = [39029, 38754, 32467, 26500, 21487, 33021, 24050, 21464, 26356]"

definition freshness_re :: "unicode_db \<Rightarrow> regex" where
  "freshness_re u =
     (let day = seqs [reps 4 (Cls (uc_digit u)), lit (ascii ''-''), reps 2 (Cls (uc_digit u)), lit (ascii ''-''), reps 2 (Cls (uc_digit u))]
      in seqs [alts [lit (ascii ''noLimit''), lit (ascii ''oneDay''), lit (ascii ''oneWeek''), lit (ascii ''oneMonth''), lit (ascii ''oneYear''),
                     seqs [day, lit (ascii ''..''), day], day], Eos])"

definition validate_freshness :: "unicode_db \<Rightarrow> pystr option \<Rightarrow> exec_error + pystr" where
  "validate_freshness u val =
     (let v = str_strip (case val of None \<Rightarrow> [] | Some x \<Rightarrow> x)
      in if v = [] then Inr []
         else if re_match u (freshness_re u) v = None then
           Inl (final_error ([102, 114, 101, 115, 104, 110, 101, 115, 115, 32, 21462, 20540, 38750, 27861, 65306] @ repr_str (case val of None \<Rightarrow> [] | Some x \<Rightarrow> x)
             @ [12290, 21512, 27861, 20540, 65306, 110, 111, 76, 105, 109, 105, 116, 12289, 111, 110, 101, 68, 97, 121, 12289, 111, 110, 101, 87, 101, 101, 107, 12289, 111, 110, 101, 77, 111, 110, 116, 104, 12289, 111, 110, 101, 89, 101, 97, 114, 12289, 89, 89, 89, 89, 45, 77, 77, 45, 68, 68, 46, 46, 89, 89, 89, 89, 45, 77, 77, 45, 68, 68, 12289, 89, 89, 89, 89, 45, 77, 77, 45, 68, 68, 65288, 26085, 26399, 33539, 22260, 20889, 20316, 32, 50, 48, 50, 54, 45, 48, 54, 45, 48, 49, 46, 46, 50, 48, 50, 54, 45, 48, 55, 45, 51, 49, 65289]) INVALID_ARGS)
         else Inr v)"

text \<open>The end that all sources share: relevance, annotation, release of the cool-down, summary.\<close>

definition finish_search :: "'w search_env \<Rightarrow> pystr \<Rightarrow> pystr \<Rightarrow> pystr \<Rightarrow> pystr \<Rightarrow> hit list \<Rightarrow> throttle \<Rightarrow> (handler_exc + search_result) \<times> throttle" where
  "finish_search E source label short query hits th =
     (case ensure_relevant (se_ucd E) hits query label default_empty_hint of
        Inl e \<Rightarrow> (Inl (HxTool e), th)
      | Inr hs \<Rightarrow> (Inr \<lparr>sr_hits = annotate hs, sr_summary = build_summary short query (annotate hs)\<rparr>, mark_ok source th))"

text \<open>\<open>_bing_search\<close> and \<open>_sogou_search\<close>, which differ in their names, their address and their parser.\<close>

definition html_search :: "'w search_env \<Rightarrow> pystr \<Rightarrow> pystr \<Rightarrow> pystr \<Rightarrow> (pystr \<Rightarrow> int \<Rightarrow> hit list) \<Rightarrow> pystr \<Rightarrow> int \<Rightarrow> throttle \<Rightarrow> 'w
     \<Rightarrow> (handler_exc + search_result) \<times> throttle \<times> 'w" where
  "html_search E source label short parse query top_k th w =
     (case search_gate E source label th w of
        (Inl e, th1, w1) \<Rightarrow> (Inl (HxTool e), th1, w1)
      | (Inr _, th1, w1) \<Rightarrow>
          (case se_get E source query top_k w1 of
             (HttpTimeout e, w2) \<Rightarrow>
               (Inl (HxTool (tool_error (label @ [35831, 27714, 36229, 26102, 58, 32] @ e) (Some TIMEOUT))), mark_failed (se_clock E w2) source net_cooldown_s th1, w2)
           | (HttpTransport e, w2) \<Rightarrow>
               (Inl (HxTool (tool_error (label @ [36830, 25509, 22833, 36133, 58, 32] @ e) (Some NETWORK))), mark_failed (se_clock E w2) source net_cooldown_s th1, w2)
           | (HttpRaise x, w2) \<Rightarrow> (Inl x, th1, w2)
           | (HttpReply status html after, w2) \<Rightarrow>
               if status \<noteq> 200 then
                 (Inl (HxUpstream status (label @ [36820, 22238, 32, 72, 84, 84, 80, 32] @ int_str status) (parse_retry_after (se_float E) after)),
                  if status = 403 \<or> status = 429 then mark_failed (se_clock E w2) source cooldown_s th1 else th1, w2)
               else
                 (case check_blocked (se_clock E w2) html source label th1 of
                    (Inl e, th2) \<Rightarrow> (Inl (HxTool e), th2, w2)
                  | (Inr _, th2) \<Rightarrow>
                      (case finish_search E source label short query (parse html top_k) th2 of (r, th3) \<Rightarrow> (r, th3, w2)))))"

definition bing_search :: "'w search_env \<Rightarrow> pystr \<Rightarrow> int \<Rightarrow> throttle \<Rightarrow> 'w \<Rightarrow> (handler_exc + search_result) \<times> throttle \<times> 'w" where
  "bing_search E = html_search E (ascii ''bing'') [24517, 24212, 25628, 32034] [24517, 24212] parse_bing"

definition sogou_search :: "'w search_env \<Rightarrow> pystr \<Rightarrow> int \<Rightarrow> throttle \<Rightarrow> 'w \<Rightarrow> (handler_exc + search_result) \<times> throttle \<times> 'w" where
  "sogou_search E = html_search E (ascii ''sogou'') [25628, 29399, 25628, 32034] [25628, 29399] parse_sogou"

definition bocha_reply :: "'w search_env \<Rightarrow> pystr \<Rightarrow> int \<Rightarrow> seconds \<Rightarrow> int \<Rightarrow> pystr \<Rightarrow> pystr option \<Rightarrow> throttle \<Rightarrow> (handler_exc + search_result) \<times> throttle" where
  "bocha_reply E query top_k now status body after th =
     (let src = ascii ''bocha''; hint = parse_retry_after (se_float E) after
      in if status = 401 \<or> status = 403 then
           (Inl (HxTool (final_error ([21338, 26597, 25628, 32034, 37492, 26435, 22833, 36133, 65288, 72, 84, 84, 80, 32] @ int_str status
              @ [65289, 65306, 65, 80, 73, 32, 75, 69, 89, 32, 26080, 25928, 25110, 26435, 38480, 19981, 36275, 65292, 35831, 21040, 32, 104, 116, 116, 112, 115, 58, 47, 47, 111, 112, 101, 110, 46, 98, 111, 99, 104, 97, 46, 99, 110, 32, 8594, 32, 65, 80, 73, 32, 75, 69, 89, 32, 31649, 29702, 32, 26816, 26597, 25110, 37325, 26032, 29983, 25104]) AUTH)), th)
         else if status = 429 then (Inl (HxUpstream 429 [21338, 26597, 25628, 32034, 35302, 21457, 38480, 27969] hint), mark_failed now src cooldown_s th)
         else if status \<noteq> 200 then
           (Inl (HxUpstream status ([21338, 26597, 25628, 32034, 36820, 22238, 32, 72, 84, 84, 80, 32] @ int_str status) hint), if status \<ge> 500 then mark_failed now src net_cooldown_s th else th)
         else
           (case loads body of
              None \<Rightarrow> (Inl (HxTool (final_error ([21338, 26597, 25628, 32034, 36820, 22238, 38750, 32, 74, 83, 79, 78, 32, 21709, 24212, 58, 32] @ take 80 (se_json_error E body)) UPSTREAM_4XX)), th)
            | Some (JObj payload) \<Rightarrow> finish_search E src [21338, 26597, 25628, 32034] [21338, 26597] query (parse_bocha payload top_k) th
            | Some v \<Rightarrow> (Inl (HxOther (ascii ''AttributeError'') (repr_str (type_name v) @ ascii '' object has no attribute '' @ repr_str (ascii ''get'')) {}), th)))"

definition bocha_search :: "'w search_env \<Rightarrow> pystr \<Rightarrow> int \<Rightarrow> pystr option \<Rightarrow> throttle \<Rightarrow> 'w \<Rightarrow> (handler_exc + search_result) \<times> throttle \<times> 'w" where
  "bocha_search E query top_k freshness th w =
     (if se_bocha_key E = [] then
        (Inl (HxTool (final_error [26410, 37197, 32622, 32, 66, 79, 67, 72, 65, 95, 65, 80, 73, 95, 75, 69, 89, 65306, 22312, 32, 46, 101, 110, 118, 32, 22635, 20837, 21338, 26597, 32, 65, 80, 73, 32, 75, 69, 89, 32, 21518, 21487, 29992, 65288, 33719, 21462, 65306, 104, 116, 116, 112, 115, 58, 47, 47, 111, 112, 101, 110, 46, 98, 111, 99, 104, 97, 46, 99, 110, 32, 8594, 32, 65, 80, 73, 32, 75, 69, 89, 32, 31649, 29702, 65289] AUTH)), th, w)
      else case validate_freshness (se_ucd E) freshness of
        Inl e \<Rightarrow> (Inl (HxTool e), th, w)
      | Inr fresh \<Rightarrow>
          (case search_gate E (ascii ''bocha'') [21338, 26597, 25628, 32034] th w of
             (Inl e, th1, w1) \<Rightarrow> (Inl (HxTool e), th1, w1)
           | (Inr _, th1, w1) \<Rightarrow>
               (let body = JObj ([(ascii ''query'', JStr query), (ascii ''count'', JInt top_k)]
                                 @ (if fresh = [] then [] else [(ascii ''freshness'', JStr fresh)]))
                in case se_post E (se_bocha_key E) body w1 of
                     (HttpTimeout e, w2) \<Rightarrow>
                       (Inl (HxTool (tool_error ([21338, 26597, 25628, 32034, 35831, 27714, 36229, 26102, 58, 32] @ e) (Some TIMEOUT))), mark_failed (se_clock E w2) (ascii ''bocha'') net_cooldown_s th1, w2)
                   | (HttpTransport e, w2) \<Rightarrow>
                       (Inl (HxTool (tool_error ([21338, 26597, 25628, 32034, 36830, 25509, 22833, 36133, 58, 32] @ e) (Some NETWORK))), mark_failed (se_clock E w2) (ascii ''bocha'') net_cooldown_s th1, w2)
                   | (HttpRaise x, w2) \<Rightarrow> (Inl x, th1, w2)
                   | (HttpReply status txt after, w2) \<Rightarrow>
                       (case bocha_reply E query top_k (se_clock E w2) status txt after th1 of (r, th2) \<Rightarrow> (r, th2, w2)))))"

definition ddgs_hit :: "raw_entry \<Rightarrow> hit" where
  "ddgs_hit r = \<lparr>ht_title = re_title r, ht_url = Some (if re_href r \<noteq> [] then re_href r else re_url r), ht_snippet = re_body r\<rparr>"

definition ddgs_search :: "'w search_env \<Rightarrow> pystr \<Rightarrow> int \<Rightarrow> throttle \<Rightarrow> 'w \<Rightarrow> (handler_exc + search_result) \<times> throttle \<times> 'w" where
  "ddgs_search E query top_k th w =
     (case search_gate E (ascii ''ddgs'') [68, 117, 99, 107, 68, 117, 99, 107, 71, 111, 32, 25628, 32034] th w of
        (Inl e, th1, w1) \<Rightarrow> (Inl (HxTool e), th1, w1)
      | (Inr _, th1, w1) \<Rightarrow>
          (case se_ddgs E of
             None \<Rightarrow> (Inl (HxTool (final_error [100, 100, 103, 115, 32, 26410, 23433, 35013, 65288, 21487, 36873, 20381, 36182, 65289, 65306, 112, 105, 112, 32, 105, 110, 115, 116, 97, 108, 108, 32, 100, 100, 103, 115, 32, 21518, 21487, 29992] UNKNOWN)), th1, w1)
           | Some run \<Rightarrow>
               (case run query top_k w1 of
                  (Inl (cls, msg), w2) \<Rightarrow>
                    (Inl (HxTool (tool_error ([68, 117, 99, 107, 68, 117, 99, 107, 71, 111, 32, 25628, 32034, 22833, 36133, 65288, 22810, 20026, 22269, 38469, 32593, 32476, 19981, 21487, 36798, 65289, 58, 32] @ cls @ ascii '': '' @ take 160 msg) (Some NETWORK))),
                     mark_failed (se_clock E w2) (ascii ''ddgs'') net_cooldown_s th1, w2)
                | (Inr raw, w2) \<Rightarrow>
                    (case finish_search E (ascii ''ddgs'') [68, 117, 99, 107, 68, 117, 99, 107, 71, 111, 32, 25628, 32034] (ascii ''ddgs'') query (take_int top_k (map ddgs_hit raw)) th1 of
                       (r, th2) \<Rightarrow> (r, th2, w2)))))"

definition mock_corpus :: "(pystr \<times> hit list) list" where
  "mock_corpus =
     [([21271, 20140], [\<lparr>ht_title = [21271, 20140, 20170, 26085, 22825, 27668], ht_url = None, ht_snippet = [26228, 65292, 26368, 39640, 27668, 28201, 32, 51, 49, 8451, 65292, 26368, 20302, 27668, 28201, 32, 50, 50, 8451, 65292, 19996, 21335, 39118, 32, 50, 32, 32423, 12290]\<rparr>,
        \<lparr>ht_title = [21271, 20140, 29983, 27963, 25351, 25968], ht_url = None, ht_snippet = [32043, 22806, 32447, 20013, 31561, 65292, 36866, 23452, 25143, 22806, 27963, 21160, 12290]\<rparr>]),
      ([19978, 28023], [\<lparr>ht_title = [19978, 28023, 20170, 26085, 22825, 27668], ht_url = None, ht_snippet = [22810, 20113, 36716, 23567, 38632, 65292, 26368, 39640, 27668, 28201, 32, 50, 56, 8451, 65292, 26368, 20302, 27668, 28201, 32, 50, 53, 8451, 65292, 28287, 24230, 32, 56, 48, 37, 12290]\<rparr>,
        \<lparr>ht_title = [19978, 28023, 20986, 34892, 25552, 31034], ht_url = None, ht_snippet = [21320, 21518, 26377, 20998, 25955, 24615, 38453, 38632, 65292, 20986, 34892, 35831, 25658, 24102, 38632, 20855, 12290]\<rparr>]),
      ([25307, 29983], [\<lparr>ht_title = [50, 48, 50, 54, 32, 24180, 39640, 26657, 25307, 29983, 31456, 31243, 27719, 24635], ht_url = None, ht_snippet = [21508, 26657, 23545, 20307, 26816, 12289, 21333, 31185, 25104, 32489, 30340, 35201, 27714, 24046, 24322, 36739, 22823, 65292, 38656, 36880, 26657, 26680, 23545, 12290]\<rparr>,
        \<lparr>ht_title = [32508, 21512, 35780, 20215, 25307, 29983, 25919, 31574, 35299, 35835], ht_url = None, ht_snippet = [25253, 21517, 31383, 21475, 38598, 20013, 22312, 32, 52, 45, 53, 32, 26376, 65292, 22810, 25968, 23398, 26657, 35201, 27714, 25552, 20132, 20010, 20154, 38472, 36848, 12290]\<rparr>]),
      (ascii ''agent'', [\<lparr>ht_title = ascii ''ReAct: Synergizing Reasoning and Acting'', ht_url = None, ht_snippet = [24605, 32771, 19982, 34892, 21160, 20132, 26367, 30340, 24490, 29615, 21487, 26174, 33879, 38477, 20302, 24187, 35273, 32047, 31215, 12290]\<rparr>,
        \<lparr>ht_title = ascii ''Anthropic: Building effective agents'', ht_url = None, ht_snippet = [119, 111, 114, 107, 102, 108, 111, 119, 32, 21487, 25511, 12289, 97, 103, 101, 110, 116, 32, 28789, 27963, 65292, 25353, 20219, 21153, 30830, 23450, 24615, 36873, 25321, 24418, 24577, 12290]\<rparr>])]"

definition mock_search :: "'w search_env \<Rightarrow> pystr \<Rightarrow> int \<Rightarrow> handler_exc + search_result" where
  "mock_search E query top_k =
     (let hits = concat (map (\<lambda>(keyword, items). if str_in keyword query then items else []) mock_corpus)
      in if hits = [] then
           Inr \<lparr>sr_hits = [], sr_summary = [91, 109, 111, 99, 107, 93, 32, 25628, 32034, 12300] @ query
             @ [12301, 26410, 21629, 20013, 20219, 20309, 20869, 32622, 35821, 26009, 65288, 48, 32, 26465, 65289, 12290, 9888, 65039, 32, 26412, 27425, 27809, 26377, 26816, 32034, 21040, 20219, 20309, 35777, 25454, 65306, 19981, 24471, 25454, 27492, 25512, 26029, 25110, 32534, 36896, 32467, 35770, 65292, 24212, 22238, 31572, 12300, 26410, 26816, 32034, 21040, 30456, 20851, 20449, 24687, 12301, 65292, 25110, 25913, 29992, 26356, 36148, 21512, 35821, 26009, 30340, 20851, 38190, 35789, 65288, 20869, 32622, 35821, 26009, 35206, 30422, 65306, 21271, 20140, 47, 19978, 28023, 22825, 27668, 12289, 25307, 29983, 12289, 97, 103, 101, 110, 116, 32, 26694, 26550, 65289, 12290]\<rparr>
         else
           (case ensure_relevant (se_ucd E) (take_int top_k hits) query [20869, 32622, 26816, 32034]
                   [20869, 32622, 35821, 26009, 26410, 35206, 30422, 35813, 26597, 35810, 65288, 25442, 20851, 38190, 35789, 65292, 25110, 25226, 32, 83, 69, 65, 82, 67, 72, 95, 80, 82, 79, 86, 73, 68, 69, 82, 32, 25913, 20026, 30495, 23454, 25628, 32034, 28304, 65289] of
              Inl e \<Rightarrow> Inl (HxTool e)
            | Inr hs \<Rightarrow> Inr \<lparr>sr_hits = annotate hs, sr_summary = build_summary (ascii ''mock'') query (annotate hs)\<rparr>))"

section \<open>Routing\<close>

definition auto_order :: "pystr list" where
  "auto_order = [ascii ''bocha'', ascii ''sogou'', ascii ''bing'', ascii ''ddgs'']"

definition search_providers :: "pystr list" where
  "search_providers = [ascii ''auto'', ascii ''bocha'', ascii ''sogou'', ascii ''bing'', ascii ''ddgs'', ascii ''mock'']"

definition unknown_provider_error :: "pystr \<Rightarrow> exec_error" where
  "unknown_provider_error provider =
     final_error ([26410, 30693, 25628, 32034, 28304, 32] @ repr_str provider @ [65288, 26816, 26597, 32, 83, 69, 65, 82, 67, 72, 95, 80, 82, 79, 86, 73, 68, 69, 82, 32, 37197, 32622, 25110, 32, 115, 111, 117, 114, 99, 101, 32, 21442, 25968, 65289, 65292, 21487, 36873, 65306] @ str_join [12289] search_providers) INVALID_ARGS"

definition search_with :: "'w search_env \<Rightarrow> pystr \<Rightarrow> pystr \<Rightarrow> int \<Rightarrow> pystr option \<Rightarrow> throttle \<Rightarrow> 'w \<Rightarrow> (handler_exc + search_result) \<times> throttle \<times> 'w" where
  "search_with E provider query top_k freshness th w =
     (if provider = ascii ''bocha'' then bocha_search E query top_k freshness th w
      else if provider = ascii ''sogou'' then sogou_search E query top_k th w
      else if provider = ascii ''bing'' then bing_search E query top_k th w
      else if provider = ascii ''ddgs'' then ddgs_search E query top_k th w
      else if provider = ascii ''mock'' then (mock_search E query top_k, th, w)
      else (Inl (HxTool (unknown_provider_error provider)), th, w))"

text \<open>The text that the combined error has for an exception; \<open>None\<close> for one that is not caught.\<close>

definition failure_text :: "handler_exc \<Rightarrow> pystr option" where
  "failure_text x =
     (case x of
        HxTool e \<Rightarrow> Some (ee_message e)
      | HxUpstream status msg after \<Rightarrow> Some (ascii ''UpstreamHTTPError: '' @ take 120 msg)
      | HxOther cls msg _ \<Rightarrow> Some (cls @ ascii '': '' @ take 120 msg)
      | HxTimeout \<Rightarrow> Some (ascii ''TimeoutError: '')
      | HxBase _ \<Rightarrow> None)"

fun try_sources :: "'w search_env \<Rightarrow> pystr \<Rightarrow> int \<Rightarrow> pystr option \<Rightarrow> pystr list \<Rightarrow> pystr list \<Rightarrow> throttle \<Rightarrow> 'w
     \<Rightarrow> (handler_exc + search_result) \<times> throttle \<times> 'w" where
  "try_sources E query top_k freshness failures [] th w =
     (Inl (HxTool (final_error ([25152, 26377, 25628, 32034, 28304, 22343, 26410, 36820, 22238, 30456, 20851, 32467, 26524, 12290] @ str_join (ascii '' | '') failures
        @ [65288, 25552, 31034, 65306, 20813, 32, 107, 101, 121, 32, 30340, 32593, 39029, 25235, 21462, 28304, 23384, 22312, 21453, 29228, 38480, 27969, 19982, 21484, 22238, 36136, 37327, 27874, 21160, 65307, 33509, 26597, 35810, 26159, 33521, 25991, 38271, 21477, 65292, 35831, 20808, 25913, 20889, 25104, 20013, 25991, 20851, 38190, 35789, 20877, 35797, 65307, 29983, 20135, 29615, 22659, 24314, 35758, 25913, 25509, 27491, 24335, 25628, 32034, 32, 65, 80, 73, 65289]) UNKNOWN)), th, w)"
| "try_sources E query top_k freshness failures (p # ps) th w =
     (if p = ascii ''bocha'' \<and> se_bocha_key E = [] then try_sources E query top_k freshness failures ps th w
      else case search_with E p query top_k freshness th w of
        (Inr r, th1, w1) \<Rightarrow> (Inr r, th1, w1)
      | (Inl x, th1, w1) \<Rightarrow>
          (case failure_text x of
             None \<Rightarrow> (Inl x, th1, w1)
           | Some msg \<Rightarrow> try_sources E query top_k freshness (failures @ [p @ ascii '': '' @ msg]) ps th1 w1))"

definition search_auto :: "'w search_env \<Rightarrow> pystr \<Rightarrow> int \<Rightarrow> pystr option \<Rightarrow> throttle \<Rightarrow> 'w \<Rightarrow> (handler_exc + search_result) \<times> throttle \<times> 'w" where
  "search_auto E query top_k freshness = try_sources E query top_k freshness [] auto_order"

definition search_named :: "'w search_env \<Rightarrow> pystr \<Rightarrow> pystr \<Rightarrow> int \<Rightarrow> pystr option \<Rightarrow> throttle \<Rightarrow> 'w \<Rightarrow> (handler_exc + search_result) \<times> throttle \<times> 'w" where
  "search_named E source query top_k freshness th w =
     (if source \<notin> set search_providers - {ascii ''auto''} then (Inl (HxTool (unknown_provider_error source)), th, w)
      else search_with E source query top_k freshness th w)"

text \<open>The arguments, whose types the input schema guarantees.\<close>

record search_args =
  sa_query :: pystr
  sa_top_k :: "int option"
  sa_source :: "pystr option"
  sa_freshness :: "pystr option"

definition search_handler :: "'w search_env \<Rightarrow> pystr \<Rightarrow> search_args \<Rightarrow> throttle \<Rightarrow> 'w \<Rightarrow> (handler_exc + search_result) \<times> throttle \<times> 'w" where
  "search_handler E provider args th w =
     (let query = str_strip (sa_query args)
      in if query = [] then (Inl (HxOther (ascii ''ValueError'') [113, 117, 101, 114, 121, 32, 19981, 33021, 20026, 31354] {ValueError}), th, w)
         else case validate_freshness (se_ucd E) (sa_freshness args) of
           Inl e \<Rightarrow> (Inl (HxTool e), th, w)
         | Inr fresh \<Rightarrow>
             (let top_k = (case sa_top_k args of None \<Rightarrow> 3 | Some k \<Rightarrow> k);
                  named = str_lower (str_strip (case sa_source args of None \<Rightarrow> [] | Some x \<Rightarrow> x))
              in if named \<noteq> [] \<and> named \<noteq> ascii ''auto'' then search_named E named query top_k (Some fresh) th w
                 else if provider \<noteq> ascii ''auto'' then search_with E provider query top_k (Some fresh) th w
                 else search_auto E query top_k (Some fresh) th w))"

definition make_search_handler :: "'w search_env \<Rightarrow> pystr
     \<Rightarrow> pystr + (search_args \<Rightarrow> throttle \<Rightarrow> 'w \<Rightarrow> (handler_exc + search_result) \<times> throttle \<times> 'w)" where
  "make_search_handler E provider =
     (if provider \<notin> set search_providers
      then Inl ([38750, 27861, 32, 83, 69, 65, 82, 67, 72, 95, 80, 82, 79, 86, 73, 68, 69, 82, 61] @ repr_str provider @ [65292, 21487, 36873, 65306] @ str_join [12289] search_providers)
      else Inr (search_handler E provider))"

section \<open>Cool-down and minimum interval\<close>

lemma cooldown_mark_failed: "0 < secs \<Longrightarrow> cooldown_remaining now source (mark_failed now source secs th) = secs"
  by (simp add: cooldown_remaining_def mark_failed_def)

lemma cooldown_later:
  assumes "0 < cooldown_remaining now source th" "later < now + cooldown_remaining now source th"
  shows "0 < cooldown_remaining later source th"
  using assms by (simp add: cooldown_remaining_def max_def split: if_splits)

lemma gate_cooldown:
  "0 < cooldown_remaining now source th \<Longrightarrow>
   \<exists>e. gate_check now source label th = Inl e \<and> ee_retryable e = Some False \<and> ee_code e = Some RATE_LIMITED"
  by (simp add: gate_check_def final_error_def tool_error_def Let_def)

lemma gate_open: "gate_check now source label th = Inr wait \<Longrightarrow> cooldown_remaining now source th \<le> 0 \<and> 0 \<le> wait"
  by (auto simp: gate_check_def Let_def split: if_splits option.splits)

lemma search_gate_cooldown:
  "0 < cooldown_remaining (se_clock E w) source th \<Longrightarrow>
   \<exists>e. search_gate E source label th w = (Inl e, th, w) \<and> ee_retryable e = Some False"
  by (metis (no_types, lifting) gate_cooldown search_gate_def sum.simps(5))

lemma search_gate_Inl: "search_gate E source label th w = (Inl e, th1, w1) \<Longrightarrow>
   th1 = th \<and> w1 = w \<and> 0 < cooldown_remaining (se_clock E w) source th"
  by (auto simp: search_gate_def gate_check_def Let_def split: if_splits option.splits)

text \<open>\<open>asyncio.sleep\<close> takes at least the time that it is asked for.\<close>

definition sleep_ok :: "'w search_env \<Rightarrow> bool" where
  "sleep_ok E \<longleftrightarrow> (\<forall>d w. se_clock E w + d \<le> se_clock E (se_sleep E d w))"

text \<open>
  One after another, two requests to a source are at least 1.5 seconds apart: when the gate lets a call
  pass, the clock is at least the minimum interval after the time noted for the source before, and the new time is
  noted; the notes of other sources and all cool-downs stay.
\<close>

theorem gate_spacing:
  assumes "sleep_ok E" and "search_gate E source label th w = (Inr u, th1, w1)" and "dict_get (th_last th) source = Some before"
  shows "before + min_interval_s \<le> se_clock E w1 \<and> dict_get (th_last th1) source = Some (se_clock E w1)
         \<and> th_cooldown th1 = th_cooldown th \<and> (\<forall>other. other \<noteq> source \<longrightarrow> dict_get (th_last th1) other = dict_get (th_last th) other)"
proof -
  from assms(2) obtain wait where wait: "gate_check (se_clock E w) source label th = Inr wait"
    and w1: "w1 = (if wait > 0 then se_sleep E wait w else w)" and th1: "th1 = gate_pass (se_clock E w1) source th"
    by (auto simp: search_gate_def Let_def split: sum.splits)
  from wait assms(3) have "wait = max 0 (min_interval_s - (se_clock E w - before))"
    by (auto simp: gate_check_def Let_def split: if_splits)
  moreover have "se_clock E w + wait \<le> se_clock E w1"
    using assms(1) gate_open [OF wait] by (auto simp: w1 sleep_ok_def)
  ultimately have "before + min_interval_s \<le> se_clock E w1" by (simp add: max_def split: if_splits)
  then show ?thesis by (simp add: th1 gate_pass_def)
qed

text \<open>
  An environment for the witnesses: the world is the clock, the web pages time out after two seconds, and the
  search API answers with one result.
\<close>

definition sample_env :: "real search_env" where
  "sample_env = \<lparr>se_ucd = ascii_db, se_clock = (\<lambda>w. w), se_sleep = (\<lambda>d w. w + d),
     se_get = (\<lambda>_ _ _ w. (HttpTimeout [], w + 2)),
     se_post = (\<lambda>_ _ w. (HttpReply 429 [] None, w + 1)),
     se_ddgs = None, se_bocha_key = ascii ''k'', se_float = (\<lambda>_. None), se_json_error = (\<lambda>_. [])\<rparr>"

definition fresh_throttle :: throttle where
  "fresh_throttle = \<lparr>th_last = [], th_cooldown = []\<rparr>"

theorem gate_spacing_witness:
  "search_gate sample_env (ascii ''bing'') [] (gate_pass 10 (ascii ''bing'') fresh_throttle) 11
     = (Inr (), gate_pass (23 / 2) (ascii ''bing'') (gate_pass 10 (ascii ''bing'') fresh_throttle), 23 / 2)
   \<and> 10 + min_interval_s \<le> se_clock sample_env (23 / 2)"
proof
  have env: "sleep_ok sample_env" by (simp add: sleep_ok_def sample_env_def)
  show run: "search_gate sample_env (ascii ''bing'') [] (gate_pass 10 (ascii ''bing'') fresh_throttle) 11
     = (Inr (), gate_pass (23 / 2) (ascii ''bing'') (gate_pass 10 (ascii ''bing'') fresh_throttle), 23 / 2)"
    by (simp add: search_gate_def gate_check_def cooldown_remaining_def gate_pass_def fresh_throttle_def sample_env_def min_interval_s_def Let_def)
  show "10 + min_interval_s \<le> se_clock sample_env (23 / 2)"
    using gate_spacing [OF env run, of 10] by (simp add: gate_pass_def fresh_throttle_def)
qed

text \<open>
  Two calls that run at the same time (\<open>asyncio.gather\<close> over a step's tools): the second reads the note before the
  first has written it, so that both get the pause \<open>wait\<close> and both pass at \<open>now + wait\<close>. Had the second
  asked after the first had passed, it would have been told to wait the whole interval more.
\<close>

lemma concurrent_gates_coincide:
  assumes "gate_check now source label th = Inr wait"
  shows "gate_check (now + wait) source label (gate_pass (now + wait) source th) = Inr min_interval_s"
proof -
  have "cooldown_remaining (now + wait) source (gate_pass (now + wait) source th) \<le> 0"
    using gate_open [OF assms] by (simp add: cooldown_remaining_def gate_pass_def)
  then show ?thesis by (simp add: gate_check_def Let_def gate_pass_def min_interval_s_def)
qed

section \<open>The contract of a source\<close>

text \<open>The HTTP client raises no exception of the tool registry.\<close>

fun foreign :: "http_result \<Rightarrow> bool" where
  "foreign (HttpRaise (HxTool _)) = False"
| "foreign (HttpRaise (HxUpstream _ _ _)) = False"
| "foreign _ = True"

definition client_ok :: "'w search_env \<Rightarrow> bool" where
  "client_ok E \<longleftrightarrow> (\<forall>a q k w. foreign (fst (se_get E a q k w))) \<and> (\<forall>key body w. foreign (fst (se_post E key body w)))"

text \<open>The failures after which a request more only makes the ban longer.\<close>

fun ban_failure :: "handler_exc \<Rightarrow> bool" where
  "ban_failure (HxTool e) \<longleftrightarrow> ee_code e = Some TIMEOUT \<or> ee_code e = Some NETWORK \<or> ee_code e = Some RATE_LIMITED"
| "ban_failure (HxUpstream status _ _) \<longleftrightarrow> status = 403 \<or> status = 429"
| "ban_failure _ \<longleftrightarrow> False"

text \<open>The hits of a successful answer: found, relevant, ranked, and no more than asked for.\<close>

definition proper_result :: "unicode_db \<Rightarrow> pystr \<Rightarrow> int \<Rightarrow> search_result \<Rightarrow> bool" where
  "proper_result u query top_k r \<longleftrightarrow>
     (\<exists>hits. sr_hits r = annotate hits \<and> hits \<noteq> [] \<and> int (length hits) \<le> top_k \<and> is_relevant_result u hits query)"

locale search_source =
  fixes E :: "'w search_env" and source :: pystr
    and run :: "pystr \<Rightarrow> int \<Rightarrow> throttle \<Rightarrow> 'w \<Rightarrow> (handler_exc + search_result) \<times> throttle \<times> 'w"
  assumes silent: "0 < cooldown_remaining (se_clock E w) source th \<Longrightarrow>
      \<exists>y. run query top_k th w = (Inl (HxTool y), th, w) \<and> ee_retryable y = Some False"
    and cools: "client_ok E \<Longrightarrow> run query top_k th w = (Inl x, th1, w1) \<Longrightarrow> ban_failure x \<Longrightarrow>
      (th1 = th \<and> w1 = w \<and> 0 < cooldown_remaining (se_clock E w) source th) \<or>
      net_cooldown_s \<le> cooldown_remaining (se_clock E w1) source th1"
    and answers: "run query top_k th w = (Inr r, th1, w1) \<Longrightarrow> 1 \<le> top_k \<Longrightarrow>
      proper_result (se_ucd E) query top_k r \<and> cooldown_remaining (se_clock E w) source th \<le> 0"
begin

lemma positive_after_ban:
  "client_ok E \<Longrightarrow> run query top_k th w = (Inl x, th1, w1) \<Longrightarrow> ban_failure x \<Longrightarrow> 0 < cooldown_remaining (se_clock E w1) source th1"
  using cools [of query top_k th w x th1 w1] by (auto simp: net_cooldown_s_def)

lemma no_request_while_banned:
  assumes "client_ok E" "run query top_k th w = (Inl x, th1, w1)" "ban_failure x"
    and "se_clock E w2 < se_clock E w1 + cooldown_remaining (se_clock E w1) source th1"
  shows "\<exists>y. run query2 top_k2 th1 w2 = (Inl (HxTool y), th1, w2) \<and> ee_retryable y = Some False"
  by (rule silent) (use assms cooldown_later positive_after_ban in blast)

lemma fresh_ban:
  assumes "client_ok E" "run query top_k th w = (Inl x, th1, w1)" "ban_failure x" "cooldown_remaining (se_clock E w) source th \<le> 0"
  shows "net_cooldown_s \<le> cooldown_remaining (se_clock E w1) source th1"
  using cools [OF assms(1-3)] assms(4) by linarith

end

subsection \<open>The four sources\<close>

lemma ensure_relevant_Inr:
  "ensure_relevant u hits query label hint = Inr hs \<Longrightarrow> hs = hits \<and> hits \<noteq> [] \<and> is_relevant_result u hits query"
  by (simp add: ensure_relevant_def split: if_splits)

lemma ensure_relevant_Inl: "ensure_relevant u hits query label hint = Inl e \<Longrightarrow> ee_code e = Some UNKNOWN \<and> ee_retryable e = Some False"
  by (auto simp: ensure_relevant_def final_error_def tool_error_def split: if_splits)

lemma finish_search_Inr:
  "finish_search E source label short query hits th = (Inr r, th1) \<Longrightarrow> int (length hits) \<le> top_k \<Longrightarrow> proper_result (se_ucd E) query top_k r"
  using ensure_relevant_Inr by (fastforce simp: finish_search_def proper_result_def split: sum.splits)

lemma finish_search_Inl:
  "finish_search E source label short query hits th = (Inl x, th1) \<Longrightarrow> \<not> ban_failure x"
  using ensure_relevant_Inl by (fastforce simp: finish_search_def split: sum.splits)

lemma collect_hits_length:
  "int (length hits) < top_k \<Longrightarrow> int (length (collect_hits hit_of top_k blocks hits)) \<le> top_k"
  by (induction hit_of top_k blocks hits rule: collect_hits.induct) (auto split: option.splits)

lemma take_int_length: "0 \<le> k \<Longrightarrow> int (length (take_int k xs)) \<le> k"
  by (auto simp: take_int_def)

lemma parse_bing_length: "1 \<le> k \<Longrightarrow> int (length (parse_bing html k)) \<le> k"
  by (simp add: parse_bing_def collect_hits_length)

lemma parse_sogou_length: "1 \<le> k \<Longrightarrow> int (length (parse_sogou html k)) \<le> k"
  by (simp add: parse_sogou_def collect_hits_length)

lemma map_filter_length: "length (List.map_filter f xs) \<le> length xs"
  by (simp add: map_filter_def)

lemma filtered_take_length: "0 \<le> k \<Longrightarrow> int (length (List.map_filter f (take_int k xs))) \<le> k"
  using map_filter_length [of f "take_int k xs"] take_int_length [of k xs] by linarith

lemma parse_bocha_length: "1 \<le> k \<Longrightarrow> int (length (parse_bocha payload k)) \<le> k"
  unfolding parse_bocha_def Let_def by (rule filtered_take_length) simp

lemma cooldown_clear:
  "search_gate E source label th w = (Inr u, th1, w1) \<Longrightarrow> cooldown_remaining (se_clock E w) source th \<le> 0"
  using gate_open by (fastforce simp: search_gate_def Let_def split: sum.splits)

lemma mark_cools: "net_cooldown_s \<le> cooldown_remaining now source (mark_failed now source cooldown_s th)"
  "net_cooldown_s \<le> cooldown_remaining now source (mark_failed now source net_cooldown_s th)"
  by (simp_all add: cooldown_mark_failed cooldown_s_def net_cooldown_s_def)

lemma check_blocked_Inl:
  "check_blocked now html source label th = (Inl e, th1) \<Longrightarrow> th1 = mark_failed now source cooldown_s th"
  by (simp add: check_blocked_def split: if_splits)

lemma html_search_refuses:
  assumes "0 < cooldown_remaining (se_clock E w) source th"
  shows "\<exists>y. html_search E source label short parse query top_k th w = (Inl (HxTool y), th, w) \<and> ee_retryable y = Some False"
  using search_gate_cooldown [OF assms, of label] by (auto simp: html_search_def)

lemma html_search_gate:
  assumes "html_search E source label short parse query top_k th w = (r, th3, w3)"
  shows "(\<exists>e. r = Inl (HxTool e) \<and> th3 = th \<and> w3 = w \<and> 0 < cooldown_remaining (se_clock E w) source th)
    \<or> (\<exists>u th1 w1 res w2. search_gate E source label th w = (Inr u, th1, w1) \<and> se_get E source query top_k w1 = (res, w2))"
proof (cases "search_gate E source label th w")
  case (fields g th1 w1)
  show ?thesis
  proof (cases g)
    case (Inl e)
    then show ?thesis using assms fields search_gate_Inl [of E source label th w e th1 w1] by (auto simp: html_search_def)
  next
    case (Inr u)
    then show ?thesis using fields by (metis surj_pair)
  qed
qed

lemma html_search_cools:
  assumes "client_ok E" "html_search E source label short parse query top_k th w = (Inl x, th3, w3)" "ban_failure x"
  shows "(th3 = th \<and> w3 = w \<and> 0 < cooldown_remaining (se_clock E w) source th) \<or> net_cooldown_s \<le> cooldown_remaining (se_clock E w3) source th3"
  using html_search_gate [OF assms(2)]
proof (elim disjE exE conjE)
  fix u th1 w1 res w2
  assume gate: "search_gate E source label th w = (Inr u, th1, w1)" and get: "se_get E source query top_k w1 = (res, w2)"
  have "foreign res" using assms(1) get unfolding client_ok_def by (metis fst_conv)
  then show ?thesis
    using assms(2,3) gate get mark_cools
    by (auto simp: html_search_def Let_def split: http_result.splits if_splits sum.splits prod.splits
        dest: finish_search_Inl check_blocked_Inl elim!: foreign.elims)
qed simp

lemma html_search_answers:
  assumes "html_search E source label short parse query top_k th w = (Inr r, th3, w3)" "\<And>html. int (length (parse html top_k)) \<le> top_k"
  shows "proper_result (se_ucd E) query top_k r \<and> cooldown_remaining (se_clock E w) source th \<le> 0"
  using html_search_gate [OF assms(1)]
proof (elim disjE exE conjE)
  fix u th1 w1 res w2
  assume gate: "search_gate E source label th w = (Inr u, th1, w1)" and get: "se_get E source query top_k w1 = (res, w2)"
  show ?thesis
    using assms(1) gate get cooldown_clear [OF gate] finish_search_Inr [OF _ assms(2)]
    by (auto simp: html_search_def split: http_result.splits if_splits sum.splits prod.splits)
qed simp

interpretation bing: search_source E "ascii ''bing''" "bing_search E" for E :: "'w search_env"
  by unfold_locales
    (auto simp: bing_search_def html_search_refuses parse_bing_length dest: html_search_answers html_search_cools)

interpretation sogou: search_source E "ascii ''sogou''" "sogou_search E" for E :: "'w search_env"
  by unfold_locales
    (auto simp: sogou_search_def html_search_refuses parse_sogou_length dest: html_search_answers html_search_cools)

lemma bocha_reply_cools:
  "bocha_reply E query top_k now status body after th = (Inl x, th1) \<Longrightarrow> ban_failure x \<Longrightarrow>
   net_cooldown_s \<le> cooldown_remaining now (ascii ''bocha'') th1"
  by (auto simp: bocha_reply_def Let_def final_error_def tool_error_def mark_cools dest: finish_search_Inl
      split: if_splits option.splits json.splits)

lemma bocha_reply_answers:
  "bocha_reply E query top_k now status body after th = (Inr r, th1) \<Longrightarrow> 1 \<le> top_k \<Longrightarrow> proper_result (se_ucd E) query top_k r"
  using finish_search_Inr [OF _ parse_bocha_length]
  by (auto simp: bocha_reply_def Let_def split: if_splits option.splits json.splits)

lemma validate_freshness_Inl: "validate_freshness u f = Inl e \<Longrightarrow> ee_code e = Some INVALID_ARGS \<and> ee_retryable e = Some False"
  by (auto simp: validate_freshness_def Let_def final_error_def tool_error_def split: if_splits)

lemma bocha_search_refuses:
  assumes "0 < cooldown_remaining (se_clock E w) (ascii ''bocha'') th"
  shows "\<exists>y. bocha_search E query top_k f th w = (Inl (HxTool y), th, w) \<and> ee_retryable y = Some False"
  using search_gate_cooldown [OF assms, of "[21338, 26597, 25628, 32034]"]
  by (auto simp: bocha_search_def final_error_def tool_error_def dest: validate_freshness_Inl split: sum.splits)

lemma bocha_search_cases:
  assumes "bocha_search E query top_k f th w = (r, th3, w3)"
  obtains (refused) e where "r = Inl (HxTool e)" "ee_code e = Some AUTH \<or> ee_code e = Some INVALID_ARGS"
  | (cooling) e where "r = Inl (HxTool e)" "th3 = th" "w3 = w" "0 < cooldown_remaining (se_clock E w) (ascii ''bocha'') th"
  | (asked) fresh th1 w1 body res w2 where "validate_freshness (se_ucd E) f = Inr fresh"
      "search_gate E (ascii ''bocha'') [21338, 26597, 25628, 32034] th w = (Inr (), th1, w1)"
      "se_post E (se_bocha_key E) body w1 = (res, w2)"
      "body = JObj ([(ascii ''query'', JStr query), (ascii ''count'', JInt top_k)] @ (if fresh = [] then [] else [(ascii ''freshness'', JStr fresh)]))"
      "se_bocha_key E \<noteq> []"
proof (cases "se_bocha_key E = []")
  case True
  then show ?thesis using assms by (intro refused) (auto simp: bocha_search_def final_error_def tool_error_def)
next
  case key: False
  show ?thesis
  proof (cases "validate_freshness (se_ucd E) f")
    case (Inl e)
    then show ?thesis using assms key validate_freshness_Inl [OF Inl] by (intro refused) (auto simp: bocha_search_def)
  next
    case (Inr fresh)
    obtain g th1 w1 where gate: "search_gate E (ascii ''bocha'') [21338, 26597, 25628, 32034] th w = (g, th1, w1)" by (metis prod_cases3)
    show ?thesis
    proof (cases g)
      case (Inl e)
      then show ?thesis
        using assms key Inr gate search_gate_Inl [OF gate [unfolded Inl]] by (intro cooling [of e]) (auto simp: bocha_search_def)
    next
      case gr: (Inr u)
      obtain res w2 where "se_post E (se_bocha_key E)
          (JObj ([(ascii ''query'', JStr query), (ascii ''count'', JInt top_k)] @ (if fresh = [] then [] else [(ascii ''freshness'', JStr fresh)]))) w1 = (res, w2)"
        by (metis surj_pair)
      with gr show ?thesis using asked [OF Inr _ _ refl key] gate by simp
    qed
  qed
qed

lemma bocha_search_cools:
  assumes "client_ok E" "bocha_search E query top_k f th w = (Inl x, th3, w3)" "ban_failure x"
  shows "(th3 = th \<and> w3 = w \<and> 0 < cooldown_remaining (se_clock E w) (ascii ''bocha'') th)
         \<or> net_cooldown_s \<le> cooldown_remaining (se_clock E w3) (ascii ''bocha'') th3"
  using assms(2)
proof (cases rule: bocha_search_cases)
  case (asked fresh th1 w1 body res w2)
  have "foreign res" using assms(1) asked(3) unfolding client_ok_def by (metis fst_conv)
  then show ?thesis
    using assms(2,3) asked mark_cools
    by (auto simp: bocha_search_def Let_def split: http_result.splits if_splits prod.splits
        dest: bocha_reply_cools elim!: foreign.elims)
qed (use assms(3) in auto)

lemma bocha_search_answers:
  assumes "bocha_search E query top_k f th w = (Inr r, th3, w3)" "1 \<le> top_k"
  shows "proper_result (se_ucd E) query top_k r \<and> cooldown_remaining (se_clock E w) (ascii ''bocha'') th \<le> 0"
  using assms(1)
proof (cases rule: bocha_search_cases)
  case (asked fresh th1 w1 body res w2)
  then show ?thesis
    using assms cooldown_clear [OF asked(2)]
    by (auto simp: bocha_search_def Let_def split: http_result.splits if_splits prod.splits dest: bocha_reply_answers)
qed auto

lemma ddgs_search_refuses:
  assumes "0 < cooldown_remaining (se_clock E w) (ascii ''ddgs'') th"
  shows "\<exists>y. ddgs_search E query top_k th w = (Inl (HxTool y), th, w) \<and> ee_retryable y = Some False"
  using search_gate_cooldown [OF assms, of "[68, 117, 99, 107, 68, 117, 99, 107, 71, 111, 32, 25628, 32034]"]
  by (auto simp: ddgs_search_def)

lemma ddgs_search_cools:
  assumes "ddgs_search E query top_k th w = (Inl x, th3, w3)" "ban_failure x"
  shows "(th3 = th \<and> w3 = w \<and> 0 < cooldown_remaining (se_clock E w) (ascii ''ddgs'') th)
         \<or> net_cooldown_s \<le> cooldown_remaining (se_clock E w3) (ascii ''ddgs'') th3"
  using assms mark_cools
  by (auto simp: ddgs_search_def final_error_def tool_error_def split: prod.splits sum.splits option.splits
      dest: search_gate_Inl finish_search_Inl)

lemma ddgs_search_answers:
  assumes "ddgs_search E query top_k th w = (Inr r, th3, w3)" "1 \<le> top_k"
  shows "proper_result (se_ucd E) query top_k r \<and> cooldown_remaining (se_clock E w) (ascii ''ddgs'') th \<le> 0"
  using assms finish_search_Inr [OF _ take_int_length, of _ _ _ _ _ top_k]
  by (auto simp: ddgs_search_def split: prod.splits sum.splits option.splits dest: cooldown_clear)

interpretation bocha: search_source E "ascii ''bocha''" "\<lambda>query top_k. bocha_search E query top_k f"
  for E :: "'w search_env" and f
  by unfold_locales (auto simp: bocha_search_refuses dest: bocha_search_answers bocha_search_cools)

interpretation ddgs: search_source E "ascii ''ddgs''" "ddgs_search E" for E :: "'w search_env"
  by unfold_locales (auto simp: ddgs_search_refuses dest: ddgs_search_answers ddgs_search_cools)

section \<open>Routing\<close>

lemma auto_orderE:
  assumes "p \<in> set auto_order"
  obtains "p = ascii ''bocha''" | "p = ascii ''sogou''" | "p = ascii ''bing''" | "p = ascii ''ddgs''"
  using assms by (auto simp: auto_order_def)

lemma search_with_simps [simp]:
  "search_with E (ascii ''bocha'') query top_k f = bocha_search E query top_k f"
  "search_with E (ascii ''sogou'') query top_k f = sogou_search E query top_k"
  "search_with E (ascii ''bing'') query top_k f = bing_search E query top_k"
  "search_with E (ascii ''ddgs'') query top_k f = ddgs_search E query top_k"
  by (intro ext; simp add: search_with_def ascii_def)+


lemma sample_timeout:
  "search_with sample_env (ascii ''bing'') query 3 None fresh_throttle 0
     = (Inl (HxTool (tool_error ([24517, 24212, 25628, 32034] @ [35831, 27714, 36229, 26102, 58, 32]) (Some TIMEOUT))),
        mark_failed 2 (ascii ''bing'') net_cooldown_s (gate_pass 0 (ascii ''bing'') fresh_throttle), 2)"
  by (simp add: bing_search_def html_search_def search_gate_def gate_check_def cooldown_remaining_def fresh_throttle_def sample_env_def Let_def)


lemma source_answers:
  assumes "p \<in> set auto_order" and "search_with E p query top_k f th w = (Inr r, th1, w1)" and "1 \<le> top_k"
  shows "proper_result (se_ucd E) query top_k r"
  using assms(1)
proof (cases rule: auto_orderE)
  case 1
  with assms show ?thesis using bocha.answers by (metis search_with_simps(1))
next
  case 2
  with assms show ?thesis using sogou.answers by (metis search_with_simps(2))
next
  case 3
  with assms show ?thesis using bing.answers by (metis search_with_simps(3))
next
  case 4
  with assms show ?thesis using ddgs.answers by (metis search_with_simps(4))
qed

lemma try_sources_outcome:
  assumes "try_sources E query top_k f failures ps th w = (r, th1, w1)" and "set ps \<subseteq> set auto_order" and "1 \<le> top_k"
  shows "(\<exists>a. r = Inr a \<and> proper_result (se_ucd E) query top_k a)
    \<or> (\<exists>y. r = Inl (HxTool y) \<and> ee_code y = Some UNKNOWN \<and> ee_retryable y = Some False) \<or> (\<exists>m. r = Inl (HxBase m))"
  using assms
proof (induction E query top_k f failures ps th w rule: try_sources.induct)
  case (2 E query top_k f failures p ps th w)
  show ?case
  proof (cases "p = ascii ''bocha'' \<and> se_bocha_key E = []")
    case True
    with 2 show ?thesis by simp
  next
    case tried: False
    obtain x th2 w2 where run: "search_with E p query top_k f th w = (x, th2, w2)" by (metis prod_cases3)
    show ?thesis
    proof (cases x)
      case (Inl e)
      with 2 tried run show ?thesis
        by (cases "failure_text e") (auto simp: failure_text_def split: handler_exc.splits if_splits)
    next
      case (Inr a)
      with 2 tried run show ?thesis using source_answers [of p E query top_k f th w a th2 w2] by (auto split: if_splits)
    qed
  qed
qed (auto simp: final_error_def tool_error_def)

text \<open>
  C31. No invented evidence: unless the mock source is configured or named in the call, a search that succeeds returns
  at least one and at most \<open>top_k\<close> hits of a web source in ranked order, one of them relevant to the query whenever
  the query has a token. A search over all sources that fails does so with an error that the executor does not
  retry, or with an interruption that is no ordinary exception.
\<close>

theorem no_fake_results:
  assumes "search_handler E provider args th w = (r, th1, w1)"
    and "provider \<noteq> ascii ''mock''" and "\<forall>s. sa_source args = Some s \<longrightarrow> str_lower (str_strip s) \<noteq> ascii ''mock''"
    and "\<forall>k. sa_top_k args = Some k \<longrightarrow> 1 \<le> k"
  shows "(\<forall>a. r = Inr a \<longrightarrow> proper_result (se_ucd E) (str_strip (sa_query args)) (case sa_top_k args of None \<Rightarrow> 3 | Some k \<Rightarrow> k) a)
    \<and> (\<forall>x. r = Inl x \<longrightarrow> provider = ascii ''auto'' \<longrightarrow> sa_source args = None \<longrightarrow> str_strip (sa_query args) \<noteq> [] \<longrightarrow>
         (\<exists>y. x = HxTool y \<and> ee_retryable y = Some False) \<or> (\<exists>m. x = HxBase m))"
proof -
  let ?query = "str_strip (sa_query args)" and ?k = "case sa_top_k args of None \<Rightarrow> 3 | Some k \<Rightarrow> k"
  let ?named = "str_lower (str_strip (case sa_source args of None \<Rightarrow> [] | Some x \<Rightarrow> x))"
  have k: "1 \<le> ?k" using assms(4) by (simp split: option.splits)
  have named: "?named \<noteq> ascii ''mock''" using assms(3) by (simp add: str_strip_def str_lower_def ascii_def split: option.splits)
  have direct: "proper_result (se_ucd E) ?query ?k a"
    if "search_with E p ?query ?k g th w = (Inr a, th1, w1)" "p \<noteq> ascii ''mock''" for p g a
  proof (cases "p \<in> set auto_order")
    case True
    then show ?thesis using source_answers that(1) k by metis
  next
    case False
    with that show ?thesis by (simp add: auto_order_def search_with_def split: if_splits)
  qed
  show ?thesis
  proof (cases "?query = [] \<or> (\<exists>e. validate_freshness (se_ucd E) (sa_freshness args) = Inl e)")
    case True
    with assms(1) show ?thesis by (auto simp: search_handler_def Let_def dest: validate_freshness_Inl split: if_splits)
  next
    case False
    then obtain fresh where go: "?query \<noteq> []" "validate_freshness (se_ucd E) (sa_freshness args) = Inr fresh"
      by (metis sum.exhaust)
    consider (named) "search_named E ?named ?query ?k (Some fresh) th w = (r, th1, w1)" "?named \<noteq> []"
      | (configured) "search_with E provider ?query ?k (Some fresh) th w = (r, th1, w1)" "provider \<noteq> ascii ''auto''"
      | (auto) "search_auto E ?query ?k (Some fresh) th w = (r, th1, w1)"
      using assms(1) go by (auto simp: search_handler_def Let_def split: if_splits)
    then show ?thesis
    proof cases
      case named
      then have "sa_source args \<noteq> None" by (cases "sa_source args") (auto simp: str_strip_def str_lower_def)
      then show ?thesis using named direct \<open>?named \<noteq> ascii ''mock''\<close> by (auto simp: search_named_def split: if_splits)
    next
      case configured
      then show ?thesis using direct assms(2) by auto
    next
      case auto
      then show ?thesis using try_sources_outcome [OF _ order_refl k, of E ?query "Some fresh" "[]" th w r th1 w1] by (auto simp: search_auto_def)
    qed
  qed
qed

lemmas sample_eval = bocha_search_def bing_search_def sogou_search_def html_search_def ddgs_search_def bocha_reply_def validate_freshness_def
  search_gate_def gate_check_def cooldown_remaining_def fresh_throttle_def sample_env_def

lemma sample_auto: "\<exists>y th1 w1. search_handler sample_env (ascii ''auto'') \<lparr>sa_query = ascii ''a'', sa_top_k = None, sa_source = None, sa_freshness = None\<rparr> fresh_throttle 0
     = (Inl (HxTool y), th1, w1)"
  by (simp add: search_handler_def search_auto_def auto_order_def failure_text_def sample_eval str_strip_def str_lower_def ascii_def is_space_def
      Let_def gate_pass_def mark_failed_def search_with_def)

theorem no_fake_results_witness:
  "\<exists>y. fst (search_handler sample_env (ascii ''auto'') \<lparr>sa_query = ascii ''a'', sa_top_k = None, sa_source = None, sa_freshness = None\<rparr> fresh_throttle 0)
       = Inl (HxTool y) \<and> ee_retryable y = Some False"
proof -
  obtain y th1 w1 where run: "search_handler sample_env (ascii ''auto'') \<lparr>sa_query = ascii ''a'', sa_top_k = None, sa_source = None, sa_freshness = None\<rparr> fresh_throttle 0
     = (Inl (HxTool y), th1, w1)"
    using sample_auto by blast
  show ?thesis
    using no_fake_results [OF run] by (simp add: run) (simp add: ascii_def str_strip_def is_space_def)
qed

end
