(* ===== verification/Weather.thy ===== *)
theory Weather
  imports Web_Search
begin

text \<open>
  The weather tool (\<^verbatim>\<open>app/tools/weather.py\<close>) and the pool of HTTP clients that the search sources share
  (\<^verbatim>\<open>app/tools/web_search/providers/__init__.py\<close>).
\<close>

section \<open>Reading the answer of the weather service\<close>

text \<open>
  \<open>v[key]\<close> and \<open>v[0]\<close> on a decoded JSON value, with the text of the exception (\<open>KeyError\<close>, \<open>IndexError\<close> or
  \<open>TypeError\<close>) that a value of the wrong form raises.
\<close>

definition not_subscriptable :: "json \<Rightarrow> pystr" where
  "not_subscriptable v = repr_str (type_name v) @ ascii '' object is not subscriptable''"

definition sub_key :: "json \<Rightarrow> pystr \<Rightarrow> pystr + json" where
  "sub_key v k =
     (case v of
        JObj d \<Rightarrow> (case dict_get d k of None \<Rightarrow> Inl (repr_str k) | Some x \<Rightarrow> Inr x)
      | JArr _ \<Rightarrow> Inl (ascii ''list indices must be integers or slices, not str'')
      | JStr _ \<Rightarrow> Inl (ascii ''string indices must be integers, not '' @ repr_str (ascii ''str''))
      | _ \<Rightarrow> Inl (not_subscriptable v))"

definition sub_first :: "json \<Rightarrow> pystr + json" where
  "sub_first v =
     (case v of
        JArr [] \<Rightarrow> Inl (ascii ''list index out of range'')
      | JArr (x # _) \<Rightarrow> Inr x
      | JStr [] \<Rightarrow> Inl (ascii ''string index out of range'')
      | JStr (c # _) \<Rightarrow> Inr (JStr [c])
      | JObj _ \<Rightarrow> Inl (ascii ''0'')
      | _ \<Rightarrow> Inl (not_subscriptable v))"

definition get_or :: "json dict \<Rightarrow> pystr \<Rightarrow> json \<Rightarrow> json" where
  "get_or d k other = (case dict_get d k of None \<Rightarrow> other | Some v \<Rightarrow> v)"

text \<open>The guarded part: the current conditions and the forecast of the day.\<close>

definition weather_parts :: "(pystr \<Rightarrow> pystr) \<Rightarrow> pystr \<Rightarrow> pystr + json \<times> json" where
  "weather_parts json_error body =
     (case loads body of
        None \<Rightarrow> Inl (json_error body)
      | Some d \<Rightarrow>
          (case sub_key d (ascii ''current_condition'') of
             Inl e \<Rightarrow> Inl e
           | Inr cc \<Rightarrow>
               (case sub_first cc of
                  Inl e \<Rightarrow> Inl e
                | Inr cur \<Rightarrow>
                    (case d of
                       JObj kv \<Rightarrow> map_sum id (\<lambda>today. (cur, today)) (sub_first (get_or kv (ascii ''weather'') (JArr [JObj []])))
                     | _ \<Rightarrow> Inl []))))"

definition no_attribute :: "json \<Rightarrow> handler_exc" where
  "no_attribute v = HxOther (ascii ''AttributeError'') (repr_str (type_name v) @ ascii '' object has no attribute '' @ repr_str (ascii ''get'')) {}"

text \<open>The rest, which no handler guards: \<open>desc\<close> and the summary.\<close>

definition weather_report :: "pystr \<Rightarrow> json \<Rightarrow> json \<Rightarrow> handler_exc + json dict" where
  "weather_report city cur today =
     (case cur of
        JObj c \<Rightarrow>
          (let described = get_or c (ascii ''weatherDesc'') JNull
           in case sub_first (if truthy described then described else JArr [JObj []]) of
                Inl e \<Rightarrow> Inl (HxOther (case described of JObj _ \<Rightarrow> ascii ''KeyError'' | _ \<Rightarrow> ascii ''TypeError'') e {})
              | Inr (JObj dd) \<Rightarrow>
                  (let desc = get_or dd (ascii ''value'') (JStr [])
                   in case today of
                        JObj t \<Rightarrow>
                          (let temp = get_or c (ascii ''temp_C'') JNull; feels = get_or c (ascii ''FeelsLikeC'') JNull;
                               humidity = get_or c (ascii ''humidity'') JNull; wind = get_or c (ascii ''windspeedKmph'') JNull;
                               high = get_or t (ascii ''maxtempC'') JNull; low = get_or t (ascii ''mintempC'') JNull
                           in Inr [(ascii ''result'', JObj [(ascii ''city'', JStr city), (ascii ''temp_c'', temp), (ascii ''feels_like_c'', feels),
                                     (ascii ''humidity_percent'', humidity), (ascii ''wind_kmph'', wind), (ascii ''desc'', desc),
                                     (ascii ''today_max_c'', high), (ascii ''today_min_c'', low)]),
                                   (ascii ''summary'', JStr (city @ [32, 23454, 26102, 22825, 27668, 65306] @ py_str desc @ [65292, 27668, 28201, 32] @ py_str temp @ [8451, 65288, 20307, 24863, 32] @ py_str feels
                                     @ [8451, 65289, 65292, 28287, 24230, 32] @ py_str humidity @ [37, 65292, 39118, 36895, 32] @ py_str wind @ [107, 109, 47, 104, 65307, 20170, 26085, 32] @ py_str low @ [126] @ py_str high @ [8451]))])
                      | v \<Rightarrow> Inl (no_attribute v))
              | Inr v \<Rightarrow> Inl (no_attribute v))
      | v \<Rightarrow> Inl (no_attribute v))"

definition weather_handler :: "(pystr \<Rightarrow> 'w \<Rightarrow> http_result \<times> 'w) \<Rightarrow> (pystr \<Rightarrow> seconds option) \<Rightarrow> (pystr \<Rightarrow> pystr) \<Rightarrow> pystr \<Rightarrow> 'w
     \<Rightarrow> (handler_exc + json dict) \<times> 'w" where
  "weather_handler get to_float json_error city_arg w =
     (let city = str_strip city_arg
      in if city = [] then (Inl (HxOther (ascii ''ValueError'') [99, 105, 116, 121, 32, 19981, 33021, 20026, 31354] {ValueError}), w)
         else case get city w of
           (HttpTimeout e, w1) \<Rightarrow> (Inl (HxTool (tool_error ([22825, 27668, 26381, 21153, 35831, 27714, 36229, 26102, 58, 32] @ e) (Some TIMEOUT))), w1)
         | (HttpTransport e, w1) \<Rightarrow> (Inl (HxTool (tool_error ([22825, 27668, 26381, 21153, 36830, 25509, 22833, 36133, 58, 32] @ e) (Some NETWORK))), w1)
         | (HttpRaise x, w1) \<Rightarrow> (Inl x, w1)
         | (HttpReply status body after, w1) \<Rightarrow>
             (if status \<noteq> 200 then
                (Inl (HxUpstream status ([22825, 27668, 26597, 35810, 22833, 36133, 65288, 72, 84, 84, 80, 32] @ int_str status @ [65289, 65292, 35831, 26816, 26597, 22478, 24066, 21517, 65288, 24314, 35758, 29992, 25340, 38899, 47, 33521, 25991, 21517, 65289]) (parse_retry_after to_float after)), w1)
              else case weather_parts json_error body of
                Inl e \<Rightarrow> (Inl (HxTool (tool_error ([22825, 27668, 26381, 21153, 36820, 22238, 30072, 24418, 25968, 25454, 65288, 72, 84, 84, 80, 32, 50, 48, 48, 32, 20294, 19981, 26159, 21487, 35299, 26512, 30340, 22825, 27668, 32, 74, 83, 79, 78, 65289, 58, 32] @ e) (Some UPSTREAM_5XX))), w1)
              | Inr (cur, today) \<Rightarrow> (weather_report city cur today, w1)))"

text \<open>
  A malformed answer that passes the guarded part is no error of the service: where the conditions are no object, the
  exception is an \<open>AttributeError\<close>, which has no code.
\<close>

lemma weather_malformed_uncoded:
  "weather_handler (\<lambda>_ w. (HttpReply 200 body None, w)) to_float json_error (ascii ''x'') w = (Inl x, w) \<Longrightarrow>
   weather_parts json_error body = Inr (JNull, today) \<Longrightarrow> x = no_attribute JNull"
  by (simp add: weather_handler_def weather_report_def ascii_def str_strip_def is_space_def Let_def)

text \<open>The summary of a successful call names the city of the call, and the result has it too.\<close>

lemma weather_summary_city:
  "weather_report city cur today = Inr r \<Longrightarrow>
   \<exists>s. dict_get r (ascii ''summary'') = Some (JStr (city @ s)) \<and>
       (\<exists>d. dict_get r (ascii ''result'') = Some (JObj d) \<and> dict_get d (ascii ''city'') = Some (JStr city))"
  by (auto simp: weather_report_def Let_def dict_get_def ascii_def split: json.splits sum.splits)

section \<open>The pool of HTTP clients\<close>

text \<open>An event loop: which object it is, and its \<open>id\<close>, which another loop may have once it is gone.\<close>

record event_loop =
  lp_object :: nat
  lp_id :: nat

record http_client =
  hc_loop :: nat
  hc_timeout :: seconds
  hc_follow :: bool

type_synonym client_pool = "(nat \<times> nat \<times> ((seconds \<times> bool) \<times> http_client) list) list"

definition shared_client :: "(nat \<Rightarrow> bool) \<Rightarrow> event_loop \<Rightarrow> seconds \<Rightarrow> bool \<Rightarrow> client_pool \<Rightarrow> http_client \<times> client_pool" where
  "shared_client gone lp timeout follow pool =
     (let known = (case map_of pool (lp_id lp) of Some (obj, cs) \<Rightarrow> if obj = lp_object lp then Some cs else None | None \<Rightarrow> None);
          pool1 = (if known = None
                   then AList.update (lp_id lp) (lp_object lp, []) (filter (\<lambda>(key, obj, _). \<not> gone obj) pool) else pool);
          clients = (case known of None \<Rightarrow> [] | Some cs \<Rightarrow> cs)
      in case map_of clients (timeout, follow) of
           Some c \<Rightarrow> (c, pool1)
         | None \<Rightarrow>
             (let c = \<lparr>hc_loop = lp_object lp, hc_timeout = timeout, hc_follow = follow\<rparr>
              in (c, AList.update (lp_id lp) (lp_object lp, AList.update (timeout, follow) c clients) pool1)))"

definition clients_ok :: "nat \<Rightarrow> ((seconds \<times> bool) \<times> http_client) list \<Rightarrow> bool" where
  "clients_ok obj cs \<longleftrightarrow> (\<forall>(k, c) \<in> set cs. hc_loop c = obj \<and> (hc_timeout c, hc_follow c) = k)"

definition pool_ok :: "client_pool \<Rightarrow> bool" where
  "pool_ok pool \<longleftrightarrow> (\<forall>(i, obj, cs) \<in> set pool. clients_ok obj cs)"

lemma update_pool_ok: "pool_ok pool \<Longrightarrow> clients_ok obj cs \<Longrightarrow> pool_ok (AList.update i (obj, cs) pool)"
  by (induction pool) (auto simp: pool_ok_def)

lemma update_clients_ok: "clients_ok obj cs \<Longrightarrow> hc_loop c = obj \<Longrightarrow> clients_ok obj (AList.update (hc_timeout c, hc_follow c) c cs)"
  by (induction cs) (auto simp: clients_ok_def)

text \<open>
  A client is never used on another event loop than its own, even when a new loop gets the \<open>id\<close> of an old one, and has
  the time limit and the redirection that were asked for.
\<close>

lemma client_of_running_loop:
  assumes "pool_ok pool" "shared_client gone lp timeout follow pool = (c, pool1)"
  shows "hc_loop c = lp_object lp \<and> hc_timeout c = timeout \<and> hc_follow c = follow \<and> pool_ok pool1"
proof -
  let ?known = "case map_of pool (lp_id lp) of Some (obj, cs) \<Rightarrow> if obj = lp_object lp then Some cs else None | None \<Rightarrow> None"
  let ?clients = "case ?known of None \<Rightarrow> [] | Some cs \<Rightarrow> cs"
  let ?pool1 = "if ?known = None then AList.update (lp_id lp) (lp_object lp, []) (filter (\<lambda>(key, obj, _). \<not> gone obj) pool) else pool"
  have cs: "clients_ok (lp_object lp) ?clients"
    using assms(1) by (auto simp: pool_ok_def clients_ok_def dest!: map_of_SomeD split: option.splits if_splits)
  have "pool_ok (filter (\<lambda>(key, obj, _). \<not> gone obj) pool)" "clients_ok (lp_object lp) []"
    using assms(1) by (auto simp: pool_ok_def clients_ok_def)
  with assms(1) have p1: "pool_ok ?pool1" by (simp add: update_pool_ok)
  show ?thesis
  proof (cases "map_of ?clients (timeout, follow)")
    case (Some c')
    then have "hc_loop c' = lp_object lp \<and> hc_timeout c' = timeout \<and> hc_follow c' = follow"
      using cs map_of_SomeD [OF Some] by (auto simp: clients_ok_def)
    then show ?thesis using assms(2) Some p1 by (simp add: shared_client_def Let_def)
  next
    case None
    have "clients_ok (lp_object lp) (AList.update (timeout, follow) \<lparr>hc_loop = lp_object lp, hc_timeout = timeout, hc_follow = follow\<rparr> ?clients)"
      using update_clients_ok [OF cs, of "\<lparr>hc_loop = lp_object lp, hc_timeout = timeout, hc_follow = follow\<rparr>"] by simp
    with p1 assms(2) None show ?thesis using update_pool_ok by (auto simp: shared_client_def Let_def)
  qed
qed

end
