(* ===== verification/Sandbox.thy ===== *)
theory Sandbox
  imports Builtin_Tools
begin

text \<open>
  The two sandboxes (\<^verbatim>\<open>app/executor/sandbox.py\<close>): a run in a container and a run in a local process. The docker
  daemon and the operating system answer each request as a function of the history of all requests before, so that
  every behaviour of theirs is covered; the history shows what a run did.
\<close>

type_synonym exc = "pystr \<times> pystr"

definition exc_text :: "exc \<Rightarrow> pystr" where
  "exc_text e = fst e @ ascii '': '' @ snd e"

section \<open>Containers\<close>

record container_options =
  op_image :: pystr
  op_command :: "pystr list"
  op_network_disabled :: bool
  op_mem_limit :: pystr
  op_nano_cpus :: int
  op_pids_limit :: int
  op_user :: pystr
  op_read_only :: bool
  op_tmpfs :: "(pystr \<times> pystr) list"
  op_working_dir :: pystr
  op_environment :: "(pystr \<times> pystr) list"

record docker_config =
  dc_image :: pystr
  dc_mem_limit :: pystr
  dc_nano_cpus :: int
  dc_timeout_s :: seconds

datatype docker_action =
    DkRun container_options
  | DkWait nat seconds
  | DkReload nat
  | DkLogs nat nat
  | DkRemove nat

type_synonym docker_history = "docker_action list"

record docker_api =
  dk_run :: "docker_history \<Rightarrow> exc + nat"
  dk_wait :: "docker_history \<Rightarrow> exc + int option"
  dk_reload :: "docker_history \<Rightarrow> exc + pystr option \<times> int option"
  dk_logs :: "docker_history \<Rightarrow> exc + pystr"
  dk_elapsed :: "docker_history \<Rightarrow> seconds"

definition docker_log_tail_lines :: nat where "docker_log_tail_lines = 200"
definition docker_log_max_chars :: nat where "docker_log_max_chars = 20000"
definition log_mark :: pystr where "log_mark = [92, 110, 8230, 91, 26085, 24535, 36229, 38480, 25130, 26029, 93]"
definition sandbox_tmpfs_options :: pystr where "sandbox_tmpfs_options = ascii ''size=32m,mode=1777,noexec,nosuid''"

definition run_options :: "docker_config \<Rightarrow> pystr \<Rightarrow> container_options" where
  "run_options cfg code =
     \<lparr>op_image = dc_image cfg, op_command = [ascii ''python'', ascii ''-I'', ascii ''-c'', code], op_network_disabled = True,
      op_mem_limit = dc_mem_limit cfg, op_nano_cpus = dc_nano_cpus cfg, op_pids_limit = 64, op_user = ascii ''65534:65534'',
      op_read_only = True, op_tmpfs = [(ascii ''/tmp'', sandbox_tmpfs_options)], op_working_dir = ascii ''/tmp'',
      op_environment = [(ascii ''PYTHONHASHSEED'', ascii ''0'')]\<rparr>"

definition failed_result :: "pystr \<Rightarrow> bool \<Rightarrow> sandbox_result" where
  "failed_result msg timed_out = \<lparr>sr_exit = -1, sr_stdout = [], sr_stderr = msg, sr_timed_out = timed_out\<rparr>"

definition status_after_wait_failure :: "docker_api \<Rightarrow> nat \<Rightarrow> docker_history \<Rightarrow> int option \<times> docker_history" where
  "status_after_wait_failure api c h =
     ((case dk_reload api h of
         Inl e \<Rightarrow> None
       | Inr (status, code) \<Rightarrow>
           if status = Some (ascii ''exited'') \<or> status = Some (ascii ''dead'')
           then Some (case code of None \<Rightarrow> -1 | Some i \<Rightarrow> i) else None),
      h @ [DkReload c])"

definition read_logs :: "docker_api \<Rightarrow> nat \<Rightarrow> int \<Rightarrow> docker_history \<Rightarrow> sandbox_result \<times> docker_history" where
  "read_logs api c status h =
     ((case dk_logs api h of
         Inl e \<Rightarrow> failed_result ([27801, 31665, 32467, 26524, 22238, 25910, 24322, 24120, 40] @ exc_text e @ ascii '')'') False
       | Inr logs \<Rightarrow>
           \<lparr>sr_exit = status,
            sr_stdout = (if docker_log_max_chars < length logs then take docker_log_max_chars logs @ log_mark else logs),
            sr_stderr = [], sr_timed_out = False\<rparr>),
      h @ [DkLogs c docker_log_tail_lines])"

definition collect_container :: "docker_api \<Rightarrow> nat \<Rightarrow> seconds \<Rightarrow> docker_history \<Rightarrow> sandbox_result \<times> docker_history" where
  "collect_container api c limit h =
     (let h1 = h @ [DkWait c limit]
      in case dk_wait api h of
           Inr status \<Rightarrow> read_logs api c (case status of None \<Rightarrow> -1 | Some i \<Rightarrow> i) h1
         | Inl e \<Rightarrow>
             (case status_after_wait_failure api c h1 of
                (None, h2) \<Rightarrow> (failed_result ([31561, 24453, 23481, 22120, 32467, 26463, 24322, 24120, 40] @ exc_text e @ [41, 65292, 23481, 22120, 20173, 22312, 36816, 34892, 65292, 21028, 36229, 26102]) True, h2)
              | (Some status, h2) \<Rightarrow> read_logs api c status h2))"

text \<open>The function that runs in a thread; a failure of the removal is only logged.\<close>

definition container_run :: "docker_api \<Rightarrow> docker_config \<Rightarrow> pystr \<Rightarrow> seconds \<Rightarrow> docker_history \<Rightarrow> (exc + sandbox_result) \<times> docker_history" where
  "container_run api cfg code limit h =
     (let h1 = h @ [DkRun (run_options cfg code)]
      in case dk_run api h of
           Inl e \<Rightarrow> (Inl e, h1)
         | Inr c \<Rightarrow> (case collect_container api c limit h1 of (r, h2) \<Rightarrow> (Inr r, h2 @ [DkRemove c])))"

text \<open>\<open>DockerSandbox.run_python\<close>: after \<open>limit + 10\<close> seconds the caller goes on without the thread, which still ends.\<close>

definition docker_run_python :: "docker_api \<Rightarrow> docker_config \<Rightarrow> pystr \<Rightarrow> seconds \<Rightarrow> docker_history \<Rightarrow> (exc + sandbox_result) \<times> docker_history" where
  "docker_run_python api cfg code timeout_s h =
     (let limit = (if timeout_s = 0 then dc_timeout_s cfg else timeout_s)
      in case container_run api cfg code limit h of
           (r, h1) \<Rightarrow> (if limit + 10 < dk_elapsed api h1 then Inr (failed_result [] True) else r, h1))"

section \<open>Local processes\<close>

text \<open>How a wait ends: the process is done, with its output and its code, or the time is over, or the waiting task is canceled, or an error.\<close>

datatype wait_outcome = Finished pystr "int option" | Expired | Interrupted | WaitFailed exc

datatype local_action =
    MakeDir
  | WriteScript pystr
  | Spawn
  | Communicate seconds
  | KillTree
  | KillProcess
  | WaitProcess seconds
  | RemoveDir

type_synonym local_history = "local_action list"

record local_os =
  lo_write :: "local_history \<Rightarrow> exc + unit"
  lo_spawn :: "local_history \<Rightarrow> exc + unit"
  lo_communicate :: "local_history \<Rightarrow> wait_outcome"
  lo_kill_tree :: "local_history \<Rightarrow> exc + unit"
  lo_kill :: "local_history \<Rightarrow> exc + unit"
  lo_wait :: "local_history \<Rightarrow> wait_outcome"

datatype run_stop = Raised exc | Canceled

definition kill_process_tree :: "local_os \<Rightarrow> local_history \<Rightarrow> (exc + bool) \<times> local_history" where
  "kill_process_tree os h =
     (case lo_kill_tree os h of
        Inr _ \<Rightarrow> (Inr True, h @ [KillTree])
      | Inl _ \<Rightarrow>
          (case lo_kill os (h @ [KillTree]) of
             Inr _ \<Rightarrow> (Inr False, h @ [KillTree, KillProcess])
           | Inl e \<Rightarrow> (if fst e = ascii ''ProcessLookupError'' then Inr False else Inl e, h @ [KillTree, KillProcess])))"

text \<open>After the kill: the output that is still in the pipe, or a last wait for the process.\<close>

definition drain_output :: "local_os \<Rightarrow> local_history \<Rightarrow> (run_stop + pystr) \<times> local_history" where
  "drain_output os h =
     (let h1 = h @ [Communicate 2]
      in case lo_communicate os h of
           Finished out _ \<Rightarrow> (Inr out, h1)
         | Interrupted \<Rightarrow> (Inl Canceled, h1)
         | _ \<Rightarrow> (if lo_wait os h1 = Interrupted then Inl Canceled else Inr [], h1 @ [WaitProcess 1]))"

definition kill_warning :: pystr where "kill_warning = [35686, 21578, 65306, 37096, 20998, 23376, 36827, 31243, 26410, 33021, 30830, 35748, 32456, 27490, 65292, 21487, 33021, 26377, 23384, 27963, 27531, 30041]"

text \<open>The run of the started process, before the directory is removed.\<close>

definition supervise :: "local_os \<Rightarrow> seconds \<Rightarrow> local_history \<Rightarrow> (run_stop + sandbox_result) \<times> local_history" where
  "supervise os limit h =
     (let h1 = h @ [Communicate limit]
      in case lo_communicate os h of
           Finished out code \<Rightarrow>
             (Inr \<lparr>sr_exit = (case code of None \<Rightarrow> -1 | Some i \<Rightarrow> i), sr_stdout = out, sr_stderr = [], sr_timed_out = False\<rparr>, h1)
         | Interrupted \<Rightarrow> (Inl Canceled, h1)
         | WaitFailed e \<Rightarrow> (Inl (Raised e), h1)
         | Expired \<Rightarrow>
             (case kill_process_tree os h1 of
                (Inl e, h2) \<Rightarrow> (Inl (Raised e), h2)
              | (Inr killed, h2) \<Rightarrow>
                  (case drain_output os h2 of
                     (Inl stop, h3) \<Rightarrow> (Inl stop, h3)
                   | (Inr out, h3) \<Rightarrow>
                       (Inr \<lparr>sr_exit = -1, sr_stdout = out, sr_stderr = (if killed then [] else kill_warning), sr_timed_out = True\<rparr>, h3))))"

definition local_run_python :: "local_os \<Rightarrow> seconds \<Rightarrow> pystr \<Rightarrow> seconds \<Rightarrow> local_history \<Rightarrow> (run_stop + sandbox_result) \<times> local_history" where
  "local_run_python os default_s code timeout_s h =
     (let limit = (if timeout_s = 0 then default_s else timeout_s);
          h1 = h @ [MakeDir]; h2 = h1 @ [WriteScript code]; h3 = h2 @ [Spawn]
      in case lo_write os h1 of
           Inl e \<Rightarrow> (Inl (Raised e), h2)
         | Inr _ \<Rightarrow>
             (case lo_spawn os h2 of
                Inl e \<Rightarrow> (Inl (Raised e), h3)
              | Inr _ \<Rightarrow> (case supervise os limit h3 of (r, h4) \<Rightarrow> (r, h4 @ [RemoveDir]))))"

section \<open>Containers are isolated, bounded and removed\<close>

text \<open>The limits that every container has.\<close>

definition isolated :: "container_options \<Rightarrow> bool" where
  "isolated opts \<longleftrightarrow> op_network_disabled opts \<and> op_read_only opts \<and> op_user opts = ascii ''65534:65534'' \<and> op_pids_limit opts = 64
     \<and> op_tmpfs opts = [(ascii ''/tmp'', ascii ''size=32m,mode=1777,noexec,nosuid'')]"

lemma read_logs_result:
  "read_logs api c status h = (r, h1) \<Longrightarrow>
   h1 = h @ [DkLogs c docker_log_tail_lines] \<and> \<not> sr_timed_out r \<and> length (sr_stdout r) \<le> docker_log_max_chars + length log_mark"
  by (auto simp: read_logs_def failed_result_def split: sum.splits)

lemma collect_result:
  assumes "collect_container api c limit h = (r, h1)"
  shows "\<exists>mid. h1 = h @ DkWait c limit # mid \<and> (\<forall>a \<in> set mid. (\<exists>n. a = DkLogs c n) \<or> a = DkReload c)
    \<and> length (sr_stdout r) \<le> docker_log_max_chars + length log_mark
    \<and> (sr_timed_out r \<longrightarrow> (\<exists>e. dk_wait api h = Inl e) \<and> fst (status_after_wait_failure api c (h @ [DkWait c limit])) = None)"
  using assms
  by (auto simp: collect_container_def Let_def failed_result_def split: sum.splits prod.splits option.splits dest!: read_logs_result)
    (auto simp: status_after_wait_failure_def)


definition silent_daemon :: docker_api where
  "silent_daemon = \<lparr>dk_run = (\<lambda>_. Inr 7), dk_wait = (\<lambda>_. Inl (ascii ''ReadTimeout'', [])),
     dk_reload = (\<lambda>_. Inr (Some (ascii ''running''), None)), dk_logs = (\<lambda>_. Inr []), dk_elapsed = (\<lambda>_. 5)\<rparr>"


section \<open>Local runs end\<close>

lemma kill_process_tree_history:
  "kill_process_tree os h = (r, h1) \<Longrightarrow> h1 = h @ [KillTree] \<or> h1 = h @ [KillTree, KillProcess]"
  by (auto simp: kill_process_tree_def split: sum.splits if_splits)

lemma drain_output_history:
  "drain_output os h = (r, h1) \<Longrightarrow> h1 = h @ [Communicate 2] \<or> h1 = h @ [Communicate 2, WaitProcess 1]"
  by (auto simp: drain_output_def Let_def split: wait_outcome.splits if_splits)

lemma supervise_history:
  assumes "supervise os limit h = (r, h1)"
  shows "\<exists>mid. h1 = h @ Communicate limit # mid \<and> (mid \<noteq> [] \<longleftrightarrow> lo_communicate os h = Expired) \<and> (mid \<noteq> [] \<longrightarrow> hd mid = KillTree)
    \<and> RemoveDir \<notin> set mid \<and> (\<forall>out. r = Inr out \<longrightarrow> sr_timed_out out = (lo_communicate os h = Expired) \<and> (sr_timed_out out \<longrightarrow> sr_exit out = -1))"
  using assms
  by (auto simp: supervise_def Let_def split: wait_outcome.splits prod.splits sum.splits
      dest!: kill_process_tree_history drain_output_history)

text \<open>
  C36. A local run that is over its time is stopped: if the process was started, its directory is removed at the end
  on every path, and if the wait ran out of time, the next thing the run does is to kill the whole process tree; a
  result says that it timed out exactly then, with the code -1.
\<close>

theorem local_overtime_killed:
  assumes "local_run_python os default_s code timeout_s h = (r, h1)"
    and "lo_write os (h @ [MakeDir]) = Inr u" and "lo_spawn os (h @ [MakeDir, WriteScript code]) = Inr v"
  defines "started \<equiv> h @ [MakeDir, WriteScript code, Spawn]" and "limit \<equiv> if timeout_s = 0 then default_s else timeout_s"
  shows "\<exists>mid. h1 = started @ Communicate limit # mid @ [RemoveDir] \<and> RemoveDir \<notin> set mid
    \<and> (lo_communicate os started = Expired \<longrightarrow> mid \<noteq> [] \<and> hd mid = KillTree)
    \<and> (\<forall>out. r = Inr out \<longrightarrow> sr_timed_out out = (lo_communicate os started = Expired) \<and> (sr_timed_out out \<longrightarrow> sr_exit out = -1))"
proof -
  obtain h4 where s: "supervise os limit started = (r, h4)" and h1: "h1 = h4 @ [RemoveDir]"
    using assms by (auto simp: local_run_python_def Let_def split: prod.splits)
  show ?thesis using supervise_history [OF s] h1 by auto
qed

definition endless_os :: local_os where
  "endless_os = \<lparr>lo_write = (\<lambda>_. Inr ()), lo_spawn = (\<lambda>_. Inr ()),
     lo_communicate = (\<lambda>h. if KillTree \<in> set h then Finished (ascii ''partial'') (Some (-9)) else Expired),
     lo_kill_tree = (\<lambda>_. Inr ()), lo_kill = (\<lambda>_. Inr ()), lo_wait = (\<lambda>_. Expired)\<rparr>"

theorem local_overtime_killed_witness:
  "\<exists>out h1. local_run_python endless_os 30 (ascii ''loop'') 0 [] = (Inr out, h1) \<and> KillTree \<in> set h1 \<and> last h1 = RemoveDir
     \<and> sr_timed_out out \<and> sr_stdout out = ascii ''partial''"
proof -
  have run: "local_run_python endless_os 30 (ascii ''loop'') 0 [] =
      (Inr \<lparr>sr_exit = -1, sr_stdout = ascii ''partial'', sr_stderr = [], sr_timed_out = True\<rparr>,
       [MakeDir, WriteScript (ascii ''loop''), Spawn, Communicate 30, KillTree, Communicate 2, RemoveDir])"
    by (simp add: local_run_python_def supervise_def kill_process_tree_def drain_output_def endless_os_def Let_def)
  from local_overtime_killed [OF run] show ?thesis using run by (simp add: endless_os_def)
qed

text \<open>
  A run that is canceled (by the time limit of the tool, which is 30 seconds as the sandbox's own is, or with its
  task) leaves its process alive: the directory is removed and no request to kill anything is made.
\<close>

lemma canceled_not_killed:
  assumes "lo_write os (h @ [MakeDir]) = Inr u" "lo_spawn os (h @ [MakeDir, WriteScript code]) = Inr v"
    and "lo_communicate os (h @ [MakeDir, WriteScript code, Spawn]) = Interrupted"
  shows "local_run_python os default_s code timeout_s h =
    (Inl Canceled, h @ [MakeDir, WriteScript code, Spawn, Communicate (if timeout_s = 0 then default_s else timeout_s), RemoveDir])"
  using assms by (simp add: local_run_python_def supervise_def Let_def)

text \<open>A script that cannot be written (a lone surrogate in the code) or a process that cannot be started leaves the directory.\<close>

lemma failed_start_leaves_directory:
  "lo_write os (h @ [MakeDir]) = Inl e \<Longrightarrow>
   local_run_python os default_s code timeout_s h = (Inl (Raised e), h @ [MakeDir, WriteScript code])"
  by (simp add: local_run_python_def Let_def)

end
