(* ===== verification/Mcp_Server.thy ===== *)
theory Mcp_Server
  imports Regex Tool_Exec
begin

text \<open>
  The MCP server (\<^verbatim>\<open>app/mcp_server.py\<close>): the tools of the registry for clients over standard input. The SDK, which
  turns a signature into a schema and dispatches the calls, is left out; what it is given and what its calls run is here.
\<close>

section \<open>Names and signatures\<close>

text \<open>\<open>str.isalnum\<close> or an underscore: the word characters.\<close>

definition py_name :: "unicode_db \<Rightarrow> pystr \<Rightarrow> pystr" where
  "py_name u name = map (\<lambda>c. if uc_word u c \<or> c = 95 then c else 95) name"

datatype py_type = PyStr | PyInt | PyFloat | PyBool | PyDict | PyList | PyAny

definition type_map :: "(pystr \<times> py_type) list" where
  "type_map = [(ascii ''string'', PyStr), (ascii ''integer'', PyInt), (ascii ''number'', PyFloat), (ascii ''boolean'', PyBool),
     (ascii ''object'', PyDict), (ascii ''array'', PyList)]"

record mcp_param =
  mp_name :: pystr
  mp_type :: py_type
  mp_description :: "json option"
  mp_ge :: "json option"
  mp_le :: "json option"
  mp_enum :: "json option"
  mp_required :: bool

text \<open>\<open>_TYPE_MAP.get(schema.get("type"), Any)\<close>; a list or an object is no key of a dictionary, which raises.\<close>

definition base_type :: "json option \<Rightarrow> pystr + py_type" where
  "base_type t =
     (case t of
        Some (JStr s) \<Rightarrow> Inr (case map_of type_map s of None \<Rightarrow> PyAny | Some ty \<Rightarrow> ty)
      | Some (JArr _) \<Rightarrow> Inl (ascii ''unhashable type: '' @ repr_str (ascii ''list''))
      | Some (JObj _) \<Rightarrow> Inl (ascii ''unhashable type: '' @ repr_str (ascii ''dict''))
      | _ \<Rightarrow> Inr PyAny)"

definition param_for :: "pystr list \<Rightarrow> pystr \<times> json \<Rightarrow> pystr + mcp_param" where
  "param_for required prop =
     (case snd prop of
        JObj schema \<Rightarrow>
          map_sum id (\<lambda>ty. \<lparr>mp_name = fst prop, mp_type = ty, mp_description = dict_get schema (ascii ''description''),
             mp_ge = dict_get schema (ascii ''minimum''), mp_le = dict_get schema (ascii ''maximum''),
             mp_enum = dict_get schema (ascii ''enum''), mp_required = (fst prop \<in> set required)\<rparr>)
           (base_type (dict_get schema (ascii ''type'')))
      | v \<Rightarrow> Inl (repr_str (type_name v) @ ascii '' object has no attribute '' @ repr_str (ascii ''get'')))"

fun params_for :: "pystr list \<Rightarrow> (pystr \<times> json) list \<Rightarrow> pystr + mcp_param list" where
  "params_for required [] = Inr []"
| "params_for required (p # ps) =
     (case param_for required p of
        Inl e \<Rightarrow> Inl e
      | Inr a \<Rightarrow> map_sum id ((#) a) (params_for required ps))"

definition schema_object :: "json \<Rightarrow> json dict" where
  "schema_object v = (case v of JObj d \<Rightarrow> d | _ \<Rightarrow> [])"

definition schema_names :: "json option \<Rightarrow> pystr list" where
  "schema_names v = (case v of Some (JArr xs) \<Rightarrow> List.map_filter (\<lambda>x. case x of JStr s \<Rightarrow> Some s | _ \<Rightarrow> None) xs | _ \<Rightarrow> [])"

text \<open>The schema of a tool is an object with an object of properties and a list of names.\<close>

definition signature_for :: "'w tool_spec \<Rightarrow> pystr + mcp_param list" where
  "signature_for spec =
     (let schema = schema_object (ts_input_schema spec)
      in params_for (schema_names (dict_get schema (ascii ''required'')))
           (case dict_get schema (ascii ''properties'') of Some v \<Rightarrow> schema_object v | None \<Rightarrow> []))"

section \<open>Calls\<close>

datatype mcp_reply = ErrorReply pystr | TextReply pystr | Escaped raised

definition mcp_handler :: "('w \<Rightarrow> seconds) \<Rightarrow> 'w tool_registry \<Rightarrow> 'w tool_spec \<Rightarrow> json dict \<Rightarrow> 'w \<Rightarrow> mcp_reply \<times> 'w" where
  "mcp_handler clock reg spec kwargs w =
     (let args = filter (\<lambda>kv. snd kv \<noteq> JNull) kwargs
      in case execute clock reg (ts_name spec) (JObj args) w of
           (Inr result, w1) \<Rightarrow> (TextReply (dumps (JObj result)), w1)
         | (Inl (RValidation msg), w1) \<Rightarrow> (ErrorReply msg, w1)
         | (Inl (RExec e), w1) \<Rightarrow>
             (ErrorReply (ee_message e @ (case ee_code e of None \<Rightarrow> [] | Some c \<Rightarrow> ascii '' [error_code='' @ code_str c @ ascii '']'')), w1)
         | (Inl x, w1) \<Rightarrow> (Escaped x, w1))"

section \<open>The server\<close>

record mcp_tool =
  mt_name :: pystr
  mt_python_name :: pystr
  mt_description :: pystr
  mt_params :: "mcp_param list"

definition side_effect_note :: pystr where
  "side_effect_note = [12304, 27880, 24847, 65306, 35813, 24037, 20855, 20250, 20135, 29983, 21103, 20316, 29992, 65288, 20889, 25991, 20214, 47, 25191, 34892, 20195, 30721, 47, 27966, 29983, 20219, 21153, 65289, 65292, 35831, 30830, 35748, 35843, 29992, 24847, 22270, 19982, 20973, 25454, 36793, 30028, 12305]"

definition mcp_tool_for :: "unicode_db \<Rightarrow> 'w tool_spec \<Rightarrow> pystr + mcp_tool" where
  "mcp_tool_for u spec =
     map_sum id (\<lambda>ps. \<lparr>mt_name = ts_name spec, mt_python_name = py_name u (ts_name spec),
        mt_description = ts_description spec @ (if ts_side_effect spec then side_effect_note else []), mt_params = ps\<rparr>)
       (signature_for spec)"

fun mcp_tools_for :: "unicode_db \<Rightarrow> 'w tool_spec list \<Rightarrow> pystr + mcp_tool list" where
  "mcp_tools_for u [] = Inr []"
| "mcp_tools_for u (s # ss) =
     (case mcp_tool_for u s of Inl e \<Rightarrow> Inl e | Inr t \<Rightarrow> map_sum id ((#) t) (mcp_tools_for u ss))"

definition registry_specs :: "'w tool_registry \<Rightarrow> 'w tool_spec list" where
  "registry_specs reg = List.map_filter (dict_get reg) (registry_names reg)"

text \<open>The tools and the names of those with side effects.\<close>

definition build_mcp_server :: "unicode_db \<Rightarrow> 'w tool_registry \<Rightarrow> pystr + mcp_tool list \<times> pystr list" where
  "build_mcp_server u reg =
     map_sum id (\<lambda>ts. (ts, map ts_name (filter ts_side_effect (registry_specs reg)))) (mcp_tools_for u (registry_specs reg))"

text \<open>\<open>_tool_brief\<close> without the schema that the SDK makes, and the warning of \<open>main\<close>.\<close>

definition exposure_warning :: "pystr list \<Rightarrow> pystr" where
  "exposure_warning names =
     [91, 119, 97, 114, 110, 105, 110, 103, 93, 32, 77, 67, 80, 32, 115, 116, 100, 105, 111, 32, 26381, 21153, 31471, 26080, 37492, 26435, 65306, 20219, 20309, 33021, 21551, 21160, 26412, 36827, 31243, 30340, 23458, 25143, 31471, 37117, 21487, 35843, 29992, 19979, 21015, 26377, 21103, 20316, 29992, 24037, 20855, 58, 32]
     @ str_join (ascii '', '') (if names = [] then [[26080]] else names) @ [65307, 24037, 20316, 21306, 47, 25968, 25454, 24211, 47, 27801, 31665, 36793, 30028, 26159, 26368, 21518, 38450, 32447, 12290]"

section \<open>One source of truth\<close>

lemma params_for_all:
  "params_for required ps = Inr ms \<Longrightarrow> list_all2 (\<lambda>p m. param_for required p = Inr m) ps ms"
  by (induction ps arbitrary: ms) (auto split: sum.splits simp: map_sum_def)

lemma mcp_tools_for_all:
  "mcp_tools_for u ss = Inr ts \<Longrightarrow> list_all2 (\<lambda>s t. mcp_tool_for u s = Inr t) ss ts"
  by (induction ss arbitrary: ts) (auto split: sum.splits simp: map_sum_def)

lemma register_keys:
  assumes "\<forall>(k, s) \<in> set reg. ts_name s = k" "register spec reg = Inr reg1"
  shows "\<forall>(k, s) \<in> set reg1. ts_name s = k"
proof -
  have "set (dict_set (ts_name spec) spec reg) \<subseteq> insert (ts_name spec, spec) (set reg)"
    unfolding dict_set_def by (induction reg) auto
  moreover have "reg1 = dict_set (ts_name spec) spec reg" using assms(2) by (simp add: register_def split: if_splits)
  ultimately show ?thesis using assms(1) by auto
qed

lemma registry_specs_names:
  assumes "\<forall>(k, s) \<in> set reg. ts_name s = k"
  shows "map ts_name (registry_specs reg) = registry_names reg"
proof -
  have "\<exists>s. dict_get reg n = Some s \<and> ts_name s = n" if "n \<in> set (registry_names reg)" for n
  proof -
    from that obtain s where "dict_get reg n = Some s"
      by (cases "dict_get reg n") (auto simp: registry_names_def dict_get_def map_of_eq_None_iff)
    with assms show ?thesis using map_of_SomeD by (fastforce simp: dict_get_def)
  qed
  then have ok: "dict_get reg n = Some s \<Longrightarrow> ts_name s = n" "dict_get reg n \<noteq> None" if "n \<in> set (registry_names reg)" for n s
    using that by force+
  have "map ts_name (List.map_filter (dict_get reg) ns) = ns" if "set ns \<subseteq> set (registry_names reg)" for ns
    using that by (induction ns) (auto simp: map_filter_simps ok split: option.splits dest: ok(2))
  then show ?thesis by (simp add: registry_specs_def)
qed

text \<open>
  The MCP server offers the tools of the registry and no others, in the order of their names, and each
  parameter of a tool carries the name, type, description, bounds, choices and necessity that the one schema of the
  registry gives it; a tool with side effects says so in its description.
\<close>

theorem mcp_offers_registry:
  assumes "build_mcp_server u reg = Inr (tools, risky)" and "\<forall>(k, s) \<in> set reg. ts_name s = k"
  shows "map mt_name tools = registry_names reg
    \<and> list_all2 (\<lambda>spec t. signature_for spec = Inr (mt_params t)
        \<and> mt_description t = ts_description spec @ (if ts_side_effect spec then side_effect_note else [])) (registry_specs reg) tools
    \<and> risky = map ts_name (filter ts_side_effect (registry_specs reg))"
proof -
  have tools: "mcp_tools_for u (registry_specs reg) = Inr tools" and r: "risky = map ts_name (filter ts_side_effect (registry_specs reg))"
    using assms(1) by (cases "mcp_tools_for u (registry_specs reg)"; auto simp: build_mcp_server_def)+
  have all: "list_all2 (\<lambda>s t. mcp_tool_for u s = Inr t) (registry_specs reg) tools" by (rule mcp_tools_for_all [OF tools])
  have one: "mt_name t = ts_name s \<and> signature_for s = Inr (mt_params t) \<and>
      mt_description t = ts_description s @ (if ts_side_effect s then side_effect_note else [])" if "mcp_tool_for u s = Inr t" for s t
    using that by (cases "signature_for s") (auto simp: mcp_tool_for_def)
  have "map mt_name tools = map ts_name (registry_specs reg)"
    using all by (induction rule: list_all2_induct) (use one in auto)
  then have names: "map mt_name tools = registry_names reg" using registry_specs_names [OF assms(2)] by simp
  have "list_all2 (\<lambda>spec t. signature_for spec = Inr (mt_params t)
      \<and> mt_description t = ts_description spec @ (if ts_side_effect spec then side_effect_note else [])) (registry_specs reg) tools"
    using all by (rule list_all2_mono) (use one in blast)
  with names r show ?thesis by blast
qed

text \<open>
  A call never escapes as an exception of a tool: what the registry folds into its two errors comes back as an error
  reply with the code, so that only an interruption leaves the handler.
\<close>

lemma mcp_call_folds:
  assumes "mcp_handler clock reg spec kwargs w = (Escaped x, w1)"
  shows "\<exists>m. x = RBase m"
  using assms
  by (auto simp: mcp_handler_def execute_def fold_exception_def Let_def split: sum.splits option.splits prod.splits raised.splits handler_exc.splits)

definition mcp_demo_tool :: "unit tool_spec" where
  "mcp_demo_tool = \<lparr>ts_name = ascii ''write'', ts_description = ascii ''d'',
     ts_input_schema = JObj [(ascii ''type'', JStr (ascii ''object'')),
       (ascii ''properties'', JObj [(ascii ''path'', JObj [(ascii ''type'', JStr (ascii ''string''))])]),
       (ascii ''required'', JArr [JStr (ascii ''path'')])],
     ts_handler = (\<lambda>_ w. (Inr [], w)), ts_timeout_s = ascii ''30.0'', ts_key_result = False, ts_key_output_limit = 0,
     ts_retry_transient = False, ts_side_effect = True, ts_iter_errors = (\<lambda>_. [])\<rparr>"

theorem mcp_offers_registry_witness:
  "\<exists>t. build_mcp_server ascii_db [(ascii ''write'', mcp_demo_tool)] = Inr ([t], [ascii ''write'']) \<and> mt_name t = ascii ''write''"
proof -
  let ?t = "\<lparr>mt_name = ascii ''write'', mt_python_name = ascii ''write'', mt_description = ascii ''d'' @ side_effect_note,
     mt_params = [\<lparr>mp_name = ascii ''path'', mp_type = PyStr, mp_description = None, mp_ge = None, mp_le = None, mp_enum = None, mp_required = True\<rparr>]\<rparr>"
  have run: "build_mcp_server ascii_db [(ascii ''write'', mcp_demo_tool)] = Inr ([?t], [ascii ''write''])"
    by (simp add: build_mcp_server_def registry_specs_def registry_names_def map_filter_simps mcp_tool_for_def signature_for_def
        schema_object_def schema_names_def param_for_def base_type_def type_map_def py_name_def mcp_demo_tool_def dict_get_def
        ascii_def ascii_db_def is_ascii_alnum_def is_ascii_letter_def is_ascii_digit_def)
  show ?thesis using mcp_offers_registry [OF run] run by (simp add: mcp_demo_tool_def)
qed

end
