(* ===== verification/Migration.thy ===== *)
theory Migration
  imports Repository
begin

text \<open>
  The schema of the business database (\<^verbatim>\<open>app/storage/models.py\<close>), its versions (\<^verbatim>\<open>migrations/versions\<close>), the
  repair of databases from before the versions (\<open>migrate_schema\<close>) and the start-up migration with its lease
  (\<open>Repository.create_tables\<close>). The statements of SQL are operations on a schema with rows; Alembic itself is
  a parameter.
\<close>

section \<open>Schemas and statements\<close>

datatype sql_type = SqlInteger | SqlString nat | SqlText | SqlFloat | SqlBoolean

datatype literal = LText string | LInt int | LBool bool

record sql_column =
  cl_name :: string
  cl_type :: sql_type
  cl_nullable :: bool
  cl_default :: "literal option"

record sql_index =
  ix_name :: string
  ix_cols :: "string list"
  ix_unique :: bool

record table_def =
  td_name :: string
  td_columns :: "sql_column list"
  td_pk :: "string list"
  td_uniques :: "(string \<times> string list) list"
  td_indexes :: "sql_index list"

type_synonym schema = "table_def list"

datatype column_value = CText pystr | CInt int | CReal real | CBool bool

type_synonym row = "string \<Rightarrow> column_value option"

text \<open>A database: its schema, the rows of its tables and the revision in \<open>alembic_version\<close>.\<close>

record mig_db =
  md_schema :: schema
  md_rows :: "string \<Rightarrow> row list"
  md_version :: "string option"

datatype ddl_error = NoSuchTable | NoSuchColumn | NoSuchIndex | DuplicateTable | DuplicateColumn | DuplicateIndex | UniqueViolation

definition and_then :: "'e + 'a \<Rightarrow> ('a \<Rightarrow> 'e + 'b) \<Rightarrow> 'e + 'b" where
  "and_then r f = (case r of Inl e \<Rightarrow> Inl e | Inr a \<Rightarrow> f a)"

definition table_of :: "schema \<Rightarrow> string \<Rightarrow> table_def option" where
  "table_of s name = find (\<lambda>t. td_name t = name) s"

definition change_table :: "string \<Rightarrow> (table_def \<Rightarrow> table_def) \<Rightarrow> schema \<Rightarrow> schema" where
  "change_table name f s = map (\<lambda>t. if td_name t = name then f t else t) s"

text \<open>The names of indexes are unique in the whole database.\<close>

definition index_names :: "schema \<Rightarrow> string list" where
  "index_names s = concat (map (\<lambda>t. map ix_name (td_indexes t)) s)"

definition column_names :: "table_def \<Rightarrow> string list" where
  "column_names t = map cl_name (td_columns t)"

definition literal_value :: "literal \<Rightarrow> column_value" where
  "literal_value l = (case l of LText s \<Rightarrow> CText (ascii s) | LInt i \<Rightarrow> CInt i | LBool b \<Rightarrow> CBool b)"

definition create_table :: "table_def \<Rightarrow> schema \<Rightarrow> ddl_error + schema" where
  "create_table t s = (if table_of s (td_name t) \<noteq> None then Inl DuplicateTable else Inr (s @ [t]))"

definition drop_table :: "string \<Rightarrow> schema \<Rightarrow> ddl_error + schema" where
  "drop_table name s = (if table_of s name = None then Inl NoSuchTable else Inr (filter (\<lambda>t. td_name t \<noteq> name) s))"

definition create_index :: "string \<Rightarrow> sql_index \<Rightarrow> schema \<Rightarrow> ddl_error + schema" where
  "create_index tbl i s =
     (case table_of s tbl of
        None \<Rightarrow> Inl NoSuchTable
      | Some t \<Rightarrow>
          if ix_name i \<in> set (index_names s) then Inl DuplicateIndex
          else if \<not> set (ix_cols i) \<subseteq> set (column_names t) then Inl NoSuchColumn
          else Inr (change_table tbl (\<lambda>t. t\<lparr>td_indexes := td_indexes t @ [i]\<rparr>) s))"

definition drop_index :: "string \<Rightarrow> string \<Rightarrow> schema \<Rightarrow> ddl_error + schema" where
  "drop_index tbl name s =
     (case table_of s tbl of
        None \<Rightarrow> Inl NoSuchTable
      | Some t \<Rightarrow>
          if name \<notin> set (map ix_name (td_indexes t)) then Inl NoSuchIndex
          else Inr (change_table tbl (\<lambda>t. t\<lparr>td_indexes := filter (\<lambda>i. ix_name i \<noteq> name) (td_indexes t)\<rparr>) s))"

definition set_default :: "string \<Rightarrow> literal option \<Rightarrow> table_def \<Rightarrow> table_def" where
  "set_default col d t = t\<lparr>td_columns := map (\<lambda>c. if cl_name c = col then c\<lparr>cl_default := d\<rparr> else c) (td_columns t)\<rparr>"

text \<open>\<open>ALTER TABLE ... ADD COLUMN ... DEFAULT\<close>: the rows that exist get the default.\<close>

definition add_column :: "string \<Rightarrow> sql_column \<Rightarrow> mig_db \<Rightarrow> ddl_error + mig_db" where
  "add_column tbl c db =
     (case table_of (md_schema db) tbl of
        None \<Rightarrow> Inl NoSuchTable
      | Some t \<Rightarrow>
          if cl_name c \<in> set (column_names t) then Inl DuplicateColumn
          else Inr (db\<lparr>md_schema := change_table tbl (\<lambda>t. t\<lparr>td_columns := td_columns t @ [c]\<rparr>) (md_schema db),
                       md_rows := (md_rows db)(tbl := map (\<lambda>r. r(cl_name c := map_option literal_value (cl_default c))) (md_rows db tbl))\<rparr>))"

definition create_index_if_absent :: "string \<Rightarrow> sql_index \<Rightarrow> mig_db \<Rightarrow> ddl_error + mig_db" where
  "create_index_if_absent tbl i db =
     (if ix_name i \<in> set (index_names (md_schema db)) then Inr db
      else if ix_unique i \<and> \<not> distinct (map (\<lambda>r. map r (ix_cols i)) (md_rows db tbl)) then Inl UniqueViolation
      else and_then (create_index tbl i (md_schema db)) (\<lambda>s. Inr (db\<lparr>md_schema := s\<rparr>)))"

definition drop_index_if_exists :: "string \<Rightarrow> mig_db \<Rightarrow> mig_db" where
  "drop_index_if_exists name db =
     db\<lparr>md_schema := map (\<lambda>t. t\<lparr>td_indexes := filter (\<lambda>i. ix_name i \<noteq> name) (td_indexes t)\<rparr>) (md_schema db)\<rparr>"

section \<open>The models\<close>

definition col :: "string \<Rightarrow> sql_type \<Rightarrow> sql_column" where
  "col name ty = \<lparr>cl_name = name, cl_type = ty, cl_nullable = False, cl_default = None\<rparr>"

definition col_with :: "string \<Rightarrow> sql_type \<Rightarrow> literal \<Rightarrow> sql_column" where
  "col_with name ty d = \<lparr>cl_name = name, cl_type = ty, cl_nullable = False, cl_default = Some d\<rparr>"

definition plain_index :: "string \<Rightarrow> string list \<Rightarrow> sql_index" where
  "plain_index name cols = \<lparr>ix_name = name, ix_cols = cols, ix_unique = False\<rparr>"

definition unique_index :: "string \<Rightarrow> string list \<Rightarrow> sql_index" where
  "unique_index name cols = \<lparr>ix_name = name, ix_cols = cols, ix_unique = True\<rparr>"

definition tenant_table :: table_def where
  "tenant_table = \<lparr>td_name = ''tenants'',
     td_columns = [col ''id'' (SqlString 40), col ''name'' (SqlString 80), col ''api_key_hash'' (SqlString 64),
       col_with ''key_prefix'' (SqlString 16) (LText ''''), col_with ''enabled'' SqlBoolean (LBool True),
       col_with ''daily_token_quota'' SqlInteger (LInt 0), col ''created_at'' SqlFloat],
     td_pk = [''id''], td_uniques = [],
     td_indexes = [plain_index ''ix_tenants_name'' [''name''], unique_index ''ix_tenants_api_key_hash'' [''api_key_hash'']]\<rparr>"

definition task_table :: table_def where
  "task_table = \<lparr>td_name = ''tasks'',
     td_columns = [col ''id'' (SqlString 40), col ''goal'' SqlText, col_with ''mode'' (SqlString 20) (LText ''react''),
       col_with ''status'' (SqlString 20) (LText ''queued''), col_with ''tenant_id'' (SqlString 40) (LText ''''),
       col_with ''require_approval'' SqlBoolean (LBool False), col_with ''max_tokens'' SqlInteger (LInt 60000),
       col_with ''max_steps'' SqlInteger (LInt 24), col_with ''tokens_used'' SqlInteger (LInt 0),
       col_with ''steps_used'' SqlInteger (LInt 0), col_with ''downgraded'' SqlBoolean (LBool False),
       col_with ''selfheal_count'' SqlInteger (LInt 0), col_with ''result'' SqlText (LText ''''),
       col_with ''error'' SqlText (LText ''''), col_with ''duration_s'' SqlFloat (LInt 0),
       col ''created_at'' SqlFloat, col ''updated_at'' SqlFloat],
     td_pk = [''id''], td_uniques = [],
     td_indexes = [plain_index ''ix_tasks_tenant_created'' [''tenant_id'', ''created_at''], plain_index ''ix_tasks_status'' [''status'']]\<rparr>"

definition event_table :: table_def where
  "event_table = \<lparr>td_name = ''events'',
     td_columns = [col ''id'' SqlInteger, col ''task_id'' (SqlString 40), col ''seq'' SqlInteger, col ''type'' (SqlString 40),
       col_with ''trace_id'' (SqlString 32) (LText ''''), col_with ''payload'' SqlText (LText ''{}''), col ''created_at'' SqlFloat],
     td_pk = [''id''], td_uniques = [], td_indexes = [unique_index ''uq_events_task_seq'' [''task_id'', ''seq'']]\<rparr>"

definition tool_execution_table :: table_def where
  "tool_execution_table = \<lparr>td_name = ''tool_executions'',
     td_columns = [col ''id'' SqlInteger, col ''task_id'' (SqlString 40), col ''call_id'' (SqlString 80), col ''tool'' (SqlString 60),
       col_with ''arguments'' SqlText (LText ''{}''), col_with ''ok'' SqlBoolean (LBool True), col_with ''result'' SqlText (LText ''''),
       col_with ''error'' SqlText (LText ''''), col_with ''error_type'' (SqlString 20) (LText ''''), col ''created_at'' SqlFloat],
     td_pk = [''id''], td_uniques = [(''uq_tool_exec_task_call'', [''task_id'', ''call_id''])],
     td_indexes = [plain_index ''ix_tool_executions_task_id'' [''task_id'']]\<rparr>"

definition span_table :: table_def where
  "span_table = \<lparr>td_name = ''spans'',
     td_columns = [col ''id'' SqlInteger, col ''trace_id'' (SqlString 32), col ''span_id'' (SqlString 16),
       col_with ''parent_span_id'' (SqlString 16) (LText ''''), col ''kind'' (SqlString 16), col ''name'' (SqlString 80),
       col_with ''task_id'' (SqlString 40) (LText ''''), col_with ''start_ts'' SqlFloat (LInt 0), col_with ''end_ts'' SqlFloat (LInt 0),
       col_with ''duration_ms'' SqlFloat (LInt 0), col_with ''status'' (SqlString 16) (LText ''ok''),
       col_with ''attributes'' SqlText (LText ''{}''), col ''created_at'' SqlFloat],
     td_pk = [''id''], td_uniques = [], td_indexes = [plain_index ''ix_spans_trace'' [''trace_id'']]\<rparr>"

definition rate_window_table :: table_def where
  "rate_window_table = \<lparr>td_name = ''rate_windows'',
     td_columns = [col ''id'' SqlInteger, col ''scope'' (SqlString 120), col ''window_start'' SqlFloat,
       col_with ''hits'' SqlInteger (LInt 0), col ''updated_at'' SqlFloat],
     td_pk = [''id''], td_uniques = [(''uq_rate_windows_scope_window'', [''scope'', ''window_start''])], td_indexes = []\<rparr>"

definition base_metadata :: schema where
  "base_metadata = [tenant_table, task_table, event_table, tool_execution_table, span_table, rate_window_table]"

definition create_all :: "mig_db \<Rightarrow> mig_db" where
  "create_all db = db\<lparr>md_schema := md_schema db @ filter (\<lambda>t. table_of (md_schema db) (td_name t) = None) base_metadata\<rparr>"

section \<open>The versions\<close>

text \<open>The operations of a revision, in order; the first error ends it.\<close>

definition run_ops :: "(schema \<Rightarrow> ddl_error + schema) list \<Rightarrow> schema \<Rightarrow> ddl_error + schema" where
  "run_ops ops s = foldl and_then (Inr s) ops"

definition baseline_events :: table_def where
  "baseline_events = \<lparr>td_name = ''events'',
     td_columns = [col ''id'' SqlInteger, col ''task_id'' (SqlString 40), col ''seq'' SqlInteger, col ''type'' (SqlString 40),
       col ''trace_id'' (SqlString 32), col ''payload'' SqlText, col ''created_at'' SqlFloat],
     td_pk = [''id''], td_uniques = [], td_indexes = []\<rparr>"

definition baseline_rate_windows :: table_def where
  "baseline_rate_windows = \<lparr>td_name = ''rate_windows'',
     td_columns = [col ''id'' SqlInteger, col ''scope'' (SqlString 120), col ''window_start'' SqlFloat, col ''hits'' SqlInteger,
       col ''updated_at'' SqlFloat],
     td_pk = [''id''], td_uniques = [(''uq_rate_windows_scope_window'', [''scope'', ''window_start''])], td_indexes = []\<rparr>"

definition baseline_spans :: table_def where
  "baseline_spans = \<lparr>td_name = ''spans'',
     td_columns = [col ''id'' SqlInteger, col ''trace_id'' (SqlString 32), col ''span_id'' (SqlString 16), col ''parent_span_id'' (SqlString 16),
       col ''kind'' (SqlString 16), col ''name'' (SqlString 80), col ''task_id'' (SqlString 40), col ''start_ts'' SqlFloat,
       col ''end_ts'' SqlFloat, col ''duration_ms'' SqlFloat, col ''status'' (SqlString 16), col ''attributes'' SqlText,
       col ''created_at'' SqlFloat],
     td_pk = [''id''], td_uniques = [], td_indexes = []\<rparr>"

definition baseline_tasks :: table_def where
  "baseline_tasks = \<lparr>td_name = ''tasks'',
     td_columns = [col ''id'' (SqlString 40), col ''goal'' SqlText, col ''mode'' (SqlString 20), col ''status'' (SqlString 20),
       col ''tenant_id'' (SqlString 40), col ''require_approval'' SqlBoolean, col ''max_tokens'' SqlInteger, col ''max_steps'' SqlInteger,
       col ''tokens_used'' SqlInteger, col ''steps_used'' SqlInteger, col ''downgraded'' SqlBoolean, col ''selfheal_count'' SqlInteger,
       col ''result'' SqlText, col ''error'' SqlText, col ''duration_s'' SqlFloat, col ''created_at'' SqlFloat,
       col ''updated_at'' SqlFloat],
     td_pk = [''id''], td_uniques = [], td_indexes = []\<rparr>"

definition baseline_tenants :: table_def where
  "baseline_tenants = \<lparr>td_name = ''tenants'',
     td_columns = [col ''id'' (SqlString 40), col ''name'' (SqlString 80), col ''api_key_hash'' (SqlString 64), col ''key_prefix'' (SqlString 16),
       col ''enabled'' SqlBoolean, col ''daily_token_quota'' SqlInteger, col ''created_at'' SqlFloat],
     td_pk = [''id''], td_uniques = [], td_indexes = []\<rparr>"

definition baseline_tool_executions :: table_def where
  "baseline_tool_executions = \<lparr>td_name = ''tool_executions'',
     td_columns = [col ''id'' SqlInteger, col ''task_id'' (SqlString 40), col ''call_id'' (SqlString 80), col ''tool'' (SqlString 60),
       col ''arguments'' SqlText, col ''ok'' SqlBoolean, col ''result'' SqlText, col ''error'' SqlText,
       col ''error_type'' (SqlString 20), col ''created_at'' SqlFloat],
     td_pk = [''id''], td_uniques = [(''uq_tool_exec_task_call'', [''task_id'', ''call_id''])], td_indexes = []\<rparr>"

definition upgrade_0001 :: "schema \<Rightarrow> ddl_error + schema" where
  "upgrade_0001 = run_ops
     [create_table baseline_events,
      create_index ''events'' (plain_index ''ix_events_task_seq'' [''task_id'', ''seq'']),
      create_table baseline_rate_windows,
      create_table baseline_spans,
      create_index ''spans'' (plain_index ''ix_spans_trace'' [''trace_id'']),
      create_table baseline_tasks,
      create_index ''tasks'' (plain_index ''ix_tasks_status'' [''status'']),
      create_index ''tasks'' (plain_index ''ix_tasks_tenant_created'' [''tenant_id'', ''created_at'']),
      create_table baseline_tenants,
      create_index ''tenants'' (unique_index ''ix_tenants_api_key_hash'' [''api_key_hash'']),
      create_index ''tenants'' (plain_index ''ix_tenants_name'' [''name'']),
      create_table baseline_tool_executions,
      create_index ''tool_executions'' (plain_index ''ix_tool_executions_task_id'' [''task_id''])]"

definition downgrade_0001 :: "schema \<Rightarrow> ddl_error + schema" where
  "downgrade_0001 = run_ops
     [drop_index ''tool_executions'' ''ix_tool_executions_task_id'',
      drop_table ''tool_executions'',
      drop_index ''tenants'' ''ix_tenants_name'',
      drop_index ''tenants'' ''ix_tenants_api_key_hash'',
      drop_table ''tenants'',
      drop_index ''tasks'' ''ix_tasks_tenant_created'',
      drop_index ''tasks'' ''ix_tasks_status'',
      drop_table ''tasks'',
      drop_index ''spans'' ''ix_spans_trace'',
      drop_table ''spans'',
      drop_table ''rate_windows'',
      drop_index ''events'' ''ix_events_task_seq'',
      drop_table ''events'']"

text \<open>\<open>_DEDUPE_SQL\<close>, which \<open>migrate_schema\<close> shares: of the events of a task with the same number, only the one with the least id stays.\<close>

definition row_id :: "row \<Rightarrow> int" where
  "row_id r = (case r ''id'' of Some (CInt i) \<Rightarrow> i | _ \<Rightarrow> 0)"

definition event_key :: "row \<Rightarrow> column_value option \<times> column_value option" where
  "event_key r = (r ''task_id'', r ''seq'')"

definition keep_id :: "row list \<Rightarrow> row \<Rightarrow> int" where
  "keep_id rows e = Min (set (map row_id (filter (\<lambda>r. event_key r = event_key e) rows)))"

definition dupes :: "row list \<Rightarrow> row list" where
  "dupes rows = filter (\<lambda>e. 1 < length (filter (\<lambda>r. event_key r = event_key e) rows) \<and> keep_id rows e < row_id e) rows"

definition dedupe :: "row list \<Rightarrow> row list" where
  "dedupe rows = filter (\<lambda>r. row_id r \<notin> set (map row_id (dupes rows))) rows"

definition on_schema :: "(schema \<Rightarrow> ddl_error + schema) \<Rightarrow> mig_db \<Rightarrow> ddl_error + mig_db" where
  "on_schema f db = and_then (f (md_schema db)) (\<lambda>s. Inr (db\<lparr>md_schema := s\<rparr>))"

definition upgrade_0002 :: "mig_db \<Rightarrow> ddl_error + mig_db" where
  "upgrade_0002 db =
     (case table_of (md_schema db) ''events'' of
        None \<Rightarrow> Inr db
      | Some t \<Rightarrow>
          (let existing = set (map ix_name (td_indexes t));
               db1 = db\<lparr>md_rows := (md_rows db)(''events'' := dedupe (md_rows db ''events''))\<rparr>
           in and_then
                (if ''ix_events_task_seq'' \<in> existing then on_schema (drop_index ''events'' ''ix_events_task_seq'') db1 else Inr db1)
                (\<lambda>db2. if ''uq_events_task_seq'' \<notin> existing
                   then if \<not> distinct (map (\<lambda>r. map r [''task_id'', ''seq'']) (md_rows db2 ''events'')) then Inl UniqueViolation
                        else on_schema (create_index ''events'' (unique_index ''uq_events_task_seq'' [''task_id'', ''seq''])) db2
                   else Inr db2)))"

definition downgrade_0002 :: "mig_db \<Rightarrow> ddl_error + mig_db" where
  "downgrade_0002 db =
     (case table_of (md_schema db) ''events'' of
        None \<Rightarrow> Inr db
      | Some t \<Rightarrow>
          (let existing = set (map ix_name (td_indexes t))
           in and_then
                (if ''uq_events_task_seq'' \<in> existing then on_schema (drop_index ''events'' ''uq_events_task_seq'') db else Inr db)
                (\<lambda>db2. if ''ix_events_task_seq'' \<notin> existing
                   then on_schema (create_index ''events'' (plain_index ''ix_events_task_seq'' [''task_id'', ''seq''])) db2
                   else Inr db2)))"

definition server_defaults :: "(string \<times> (string \<times> literal) list) list" where
  "server_defaults =
     [(''tenants'', [(''key_prefix'', LText ''''), (''enabled'', LBool True), (''daily_token_quota'', LInt 0)]),
      (''tasks'', [(''mode'', LText ''react''), (''status'', LText ''queued''), (''tenant_id'', LText ''''), (''require_approval'', LBool False), (''max_tokens'', LInt 60000),
        (''max_steps'', LInt 24), (''tokens_used'', LInt 0), (''steps_used'', LInt 0), (''downgraded'', LBool False), (''selfheal_count'', LInt 0),
        (''result'', LText ''''), (''error'', LText ''''), (''duration_s'', LInt 0)]),
      (''events'', [(''trace_id'', LText ''''), (''payload'', LText ''{}'')]),
      (''tool_executions'', [(''arguments'', LText ''{}''), (''ok'', LBool True), (''result'', LText ''''), (''error'', LText ''''), (''error_type'', LText '''')]),
      (''spans'', [(''parent_span_id'', LText ''''), (''task_id'', LText ''''), (''start_ts'', LInt 0), (''end_ts'', LInt 0), (''duration_ms'', LInt 0),
        (''status'', LText ''ok''), (''attributes'', LText ''{}'')]),
      (''rate_windows'', [(''hits'', LInt 0)])]"

definition alter_defaults :: "(literal \<Rightarrow> literal option) \<Rightarrow> schema \<Rightarrow> schema" where
  "alter_defaults f s =
     foldl (\<lambda>acc (tbl, cols). if table_of s tbl = None then acc
        else change_table tbl (\<lambda>t. foldl (\<lambda>t' (name, d). set_default name (f d) t') t cols) acc) s server_defaults"

definition upgrade_0003 :: "schema \<Rightarrow> schema" where
  "upgrade_0003 = alter_defaults Some"

definition downgrade_0003 :: "schema \<Rightarrow> schema" where
  "downgrade_0003 = alter_defaults (\<lambda>_. None)"

text \<open>The revisions that lead from an empty database to the head.\<close>

definition upgrade_all :: "mig_db \<Rightarrow> ddl_error + mig_db" where
  "upgrade_all db =
     and_then (on_schema upgrade_0001 db) (\<lambda>db1. and_then (upgrade_0002 db1) (on_schema (\<lambda>s. Inr (upgrade_0003 s))))"

section \<open>Repair of a database without versions\<close>

datatype sql_dialect = Sqlite | Postgres

definition existing_columns :: "schema \<Rightarrow> string \<Rightarrow> string list" where
  "existing_columns s tbl = (case table_of s tbl of None \<Rightarrow> [] | Some t \<Rightarrow> column_names t)"

definition has_unique_task_seq_index :: "sql_dialect \<Rightarrow> schema \<Rightarrow> bool" where
  "has_unique_task_seq_index d s =
     (case table_of s ''events'' of
        None \<Rightarrow> False
      | Some t \<Rightarrow>
          (case d of
             Sqlite \<Rightarrow> (\<exists>i \<in> set (td_indexes t). ix_unique i \<and> ix_cols i = [''task_id'', ''seq''])
                \<or> (\<exists>q \<in> set (td_uniques t). snd q = [''task_id'', ''seq''])
           | Postgres \<Rightarrow> ''uq_events_task_seq'' \<in> set (map ix_name (td_indexes t))))"

text \<open>A column that an \<open>ALTER TABLE\<close> adds may be null.\<close>

definition added_column :: "string \<Rightarrow> sql_type \<Rightarrow> literal \<Rightarrow> sql_column" where
  "added_column name ty d = \<lparr>cl_name = name, cl_type = ty, cl_nullable = True, cl_default = Some d\<rparr>"

definition add_if_missing :: "string \<Rightarrow> string list \<Rightarrow> sql_column \<Rightarrow> mig_db \<Rightarrow> ddl_error + mig_db" where
  "add_if_missing tbl cols c db = (if cl_name c \<notin> set cols then add_column tbl c db else Inr db)"

definition migrate_tasks :: "mig_db \<Rightarrow> ddl_error + mig_db" where
  "migrate_tasks db =
     (let cols = existing_columns (md_schema db) ''tasks''
      in and_then (add_if_missing ''tasks'' cols (added_column ''tenant_id'' (SqlString 40) (LText '''')) db)
        (\<lambda>db1. and_then (add_if_missing ''tasks'' cols (added_column ''require_approval'' SqlBoolean (LBool False)) db1)
          (create_index_if_absent ''tasks'' (plain_index ''ix_tasks_tenant_created'' [''tenant_id'', ''created_at'']))))"

definition remove_dupes :: "mig_db \<Rightarrow> mig_db" where
  "remove_dupes db =
     (if dupes (md_rows db ''events'') \<noteq> []
      then db\<lparr>md_rows := (md_rows db)(''events'' := dedupe (md_rows db ''events''))\<rparr> else db)"

definition migrate_events :: "sql_dialect \<Rightarrow> mig_db \<Rightarrow> ddl_error + mig_db" where
  "migrate_events d db =
     (let event_cols = existing_columns (md_schema db) ''events''
      in if event_cols = [] then Inr db
         else and_then (add_if_missing ''events'' event_cols (added_column ''trace_id'' (SqlString 32) (LText '''')) db)
           (\<lambda>db1.
              let db2 = remove_dupes db1
              in and_then
                   (if \<not> has_unique_task_seq_index d (md_schema db2)
                    then create_index_if_absent ''events'' (unique_index ''uq_events_task_seq'' [''task_id'', ''seq'']) db2
                    else Inr db2)
                   (\<lambda>db3. Inr (drop_index_if_exists ''ix_events_task_seq'' db3))))"

definition migrate_spans :: "mig_db \<Rightarrow> ddl_error + mig_db" where
  "migrate_spans db =
     (if existing_columns (md_schema db) ''spans'' \<noteq> []
      then create_index_if_absent ''spans'' (plain_index ''ix_spans_trace'' [''trace_id'']) db else Inr db)"

definition migrate_schema :: "sql_dialect \<Rightarrow> mig_db \<Rightarrow> ddl_error + mig_db" where
  "migrate_schema d db = and_then (migrate_tasks db) (\<lambda>db1. and_then (migrate_events d db1) migrate_spans)"

section \<open>Start-up\<close>

text \<open>The commands of Alembic.\<close>

record alembic =
  al_stamp :: "string \<Rightarrow> mig_db \<Rightarrow> ddl_error + mig_db"
  al_upgrade :: "string \<Rightarrow> mig_db \<Rightarrow> ddl_error + mig_db"

datatype db_shape = Versioned | Fresh | Legacy

definition detect_shape :: "mig_db \<Rightarrow> db_shape" where
  "detect_shape db =
     (if md_version db \<noteq> None then Versioned
      else if table_of (md_schema db) ''tenants'' = None \<and> table_of (md_schema db) ''tasks'' = None then Fresh
      else Legacy)"

definition migrate :: "alembic \<Rightarrow> sql_dialect \<Rightarrow> mig_db \<Rightarrow> ddl_error + mig_db" where
  "migrate A d db =
     (case detect_shape db of
        Legacy \<Rightarrow> and_then (migrate_schema d (create_all db)) (al_stamp A ''head'')
      | _ \<Rightarrow> al_upgrade A ''head'' db)"

section \<open>The lease\<close>

record lease_row =
  ls_owner :: nat
  ls_acquired_at :: seconds

definition lease_stale_s :: seconds where "lease_stale_s = 120"
definition lease_wait_s :: seconds where "lease_wait_s = 120"
definition lease_poll_s :: seconds where "lease_poll_s = 1 / 2"

text \<open>
  One round of \<open>_acquire_migration_lease\<close>: the insertion with \<open>ON CONFLICT DO NOTHING\<close>, and the removal of a
  row that is too old. A round that fails with an exception changes nothing.
\<close>

definition lease_insert :: "nat \<Rightarrow> seconds \<Rightarrow> lease_row option \<Rightarrow> bool \<times> lease_row option" where
  "lease_insert me now lease =
     (case lease of None \<Rightarrow> (True, Some \<lparr>ls_owner = me, ls_acquired_at = now\<rparr>) | Some r \<Rightarrow> (False, Some r))"

definition lease_expire :: "seconds \<Rightarrow> lease_row option \<Rightarrow> lease_row option" where
  "lease_expire now lease =
     (case lease of None \<Rightarrow> None | Some r \<Rightarrow> if ls_acquired_at r < now - lease_stale_s then None else Some r)"

datatype round_result = Acquired | GaveUp | Again

definition lease_round :: "nat \<Rightarrow> seconds \<Rightarrow> seconds \<Rightarrow> lease_row option \<Rightarrow> round_result \<times> lease_row option" where
  "lease_round me now deadline lease =
     (case lease_insert me now lease of
        (True, l) \<Rightarrow> (Acquired, l)
      | (False, l) \<Rightarrow> (if deadline < now then GaveUp else Again, lease_expire now l))"

definition release_lease :: "nat \<Rightarrow> lease_row option \<Rightarrow> lease_row option" where
  "release_lease me lease = (case lease of None \<Rightarrow> None | Some r \<Rightarrow> if ls_owner r = me then None else Some r)"

section \<open>Versions and models agree\<close>

definition blank_db :: mig_db where
  "blank_db = \<lparr>md_schema = [], md_rows = (\<lambda>_. []), md_version = None\<rparr>"

text \<open>Schemas up to the order of tables and of the indexes of a table.\<close>

definition canonical :: "schema \<Rightarrow> (string \<times> sql_column list \<times> string list \<times> (string \<times> string list) list \<times> sql_index set) set" where
  "canonical s = set (map (\<lambda>t. (td_name t, td_columns t, td_pk t, td_uniques t, set (td_indexes t))) s)"

lemmas ddl_eval = run_ops_def and_then_def on_schema_def create_table_def create_index_def drop_index_def drop_table_def
  table_of_def change_table_def index_names_def column_names_def set_default_def
  col_def col_with_def plain_index_def unique_index_def

lemmas baseline_eval = baseline_events_def baseline_rate_windows_def baseline_spans_def baseline_tasks_def baseline_tenants_def
  baseline_tool_executions_def

lemmas model_eval = tenant_table_def task_table_def event_table_def tool_execution_table_def span_table_def rate_window_table_def

definition schema_1 :: schema where
  "schema_1 =
     [baseline_events\<lparr>td_indexes := [plain_index ''ix_events_task_seq'' [''task_id'', ''seq'']]\<rparr>, baseline_rate_windows,
      baseline_spans\<lparr>td_indexes := [plain_index ''ix_spans_trace'' [''trace_id'']]\<rparr>,
      baseline_tasks\<lparr>td_indexes := [plain_index ''ix_tasks_status'' [''status''], plain_index ''ix_tasks_tenant_created'' [''tenant_id'', ''created_at'']]\<rparr>,
      baseline_tenants\<lparr>td_indexes := [unique_index ''ix_tenants_api_key_hash'' [''api_key_hash''], plain_index ''ix_tenants_name'' [''name'']]\<rparr>,
      baseline_tool_executions\<lparr>td_indexes := [plain_index ''ix_tool_executions_task_id'' [''task_id'']]\<rparr>]"

definition schema_2 :: schema where
  "schema_2 = (hd schema_1)\<lparr>td_indexes := [unique_index ''uq_events_task_seq'' [''task_id'', ''seq'']]\<rparr> # tl schema_1"

lemma upgrade_0001_exact: "upgrade_0001 [] = Inr schema_1"
  by (simp add: upgrade_0001_def schema_1_def ddl_eval baseline_eval)

lemma upgrade_0002_exact:
  assumes "distinct (map event_key (dedupe (md_rows db ''events'')))"
  shows "md_schema db = schema_1 \<Longrightarrow>
    upgrade_0002 db = Inr (db\<lparr>md_schema := schema_2, md_rows := (md_rows db)(''events'' := dedupe (md_rows db ''events''))\<rparr>)"
  using assms
  by (simp add: upgrade_0002_def schema_1_def schema_2_def ddl_eval baseline_eval distinct_map event_key_def inj_on_def)

lemma upgrade_0003_exact: "canonical (upgrade_0003 schema_2) = canonical base_metadata"
  by code_simp

lemma downgrade_0003_exact: "downgrade_0003 (upgrade_0003 schema_2) = schema_2"
  by code_simp

lemma downgrade_0002_exact: "md_schema db = schema_2 \<Longrightarrow> downgrade_0002 db = Inr (db\<lparr>md_schema := schema_1\<rparr>)"
  by (simp add: downgrade_0002_def schema_1_def schema_2_def ddl_eval baseline_eval)

lemma downgrade_0001_exact: "downgrade_0001 schema_1 = Inr []"
  by (simp add: downgrade_0001_def schema_1_def ddl_eval baseline_eval)

lemma upgrade_empty: "\<exists>db. upgrade_all blank_db = Inr db \<and> md_schema db = upgrade_0003 schema_2 \<and> canonical (md_schema db) = canonical base_metadata"
  by (simp add: upgrade_all_def on_schema_def blank_db_def and_then_def upgrade_0001_exact upgrade_0002_exact
      upgrade_0003_exact dedupe_def dupes_def)

text \<open>
  C37. The versioned schema and the models agree: on an empty database the three revisions succeed and give exactly
  the tables, columns, types, defaults, constraints and indexes of the models, up to the order of tables and
  indexes; and every downgrade gives back exactly what its upgrade found.
\<close>

theorem versions_match_models:
  "\<exists>db. upgrade_all blank_db = Inr db \<and> canonical (md_schema db) = canonical base_metadata
     \<and> (\<exists>db2. on_schema (\<lambda>s. Inr (downgrade_0003 s)) db = Inr db2 \<and> downgrade_0002 db2 = on_schema upgrade_0001 blank_db)
     \<and> and_then (upgrade_0001 []) downgrade_0001 = Inr []"
  by (simp add: upgrade_all_def on_schema_def [of upgrade_0001] on_schema_def [of "\<lambda>s. Inr (upgrade_0003 s)"]
      on_schema_def [of "\<lambda>s. Inr (downgrade_0003 s)"] blank_db_def and_then_def upgrade_0001_exact upgrade_0002_exact
      upgrade_0003_exact downgrade_0003_exact downgrade_0002_exact downgrade_0001_exact dedupe_def dupes_def fun_upd_def)

section \<open>Events with the same number\<close>

lemma keep_id_le: "e \<in> set rows \<Longrightarrow> r \<in> set rows \<Longrightarrow> event_key r = event_key e \<Longrightarrow> keep_id rows e \<le> row_id r"
  by (simp add: keep_id_def)

lemma keep_id_in: "e \<in> set rows \<Longrightarrow> \<exists>r \<in> set rows. event_key r = event_key e \<and> row_id r = keep_id rows e"
proof -
  assume "e \<in> set rows"
  then have "keep_id rows e \<in> set (map row_id (filter (\<lambda>r. event_key r = event_key e) rows))"
    unfolding keep_id_def by (intro Min_in) (auto simp: filter_empty_conv)
  then show ?thesis by auto
qed

lemma dupes_iff:
  assumes "e \<in> set rows"
  shows "e \<in> set (dupes rows) \<longleftrightarrow> keep_id rows e < row_id e"
proof -
  have "1 < length (filter (\<lambda>r. event_key r = event_key e) rows)" if "keep_id rows e < row_id e"
  proof -
    obtain r where "r \<in> set rows" "event_key r = event_key e" "row_id r = keep_id rows e" using keep_id_in [OF assms] by blast
    with that assms have "{r, e} \<subseteq> set (filter (\<lambda>r. event_key r = event_key e) rows)" "r \<noteq> e" by auto
    then have "2 \<le> card (set (filter (\<lambda>r. event_key r = event_key e) rows))"
      using card_mono [of "set (filter (\<lambda>r. event_key r = event_key e) rows)" "{r, e}"] by simp
    then show ?thesis using card_length [of "filter (\<lambda>r. event_key r = event_key e) rows"] by linarith
  qed
  with assms show ?thesis by (auto simp: dupes_def)
qed

lemma dedupe_iff:
  assumes "distinct (map row_id rows)"
  shows "r \<in> set (dedupe rows) \<longleftrightarrow> r \<in> set rows \<and> (\<forall>r' \<in> set rows. event_key r' = event_key r \<longrightarrow> row_id r \<le> row_id r')"
proof -
  have inj: "row_id a = row_id b \<Longrightarrow> a \<in> set rows \<Longrightarrow> b \<in> set rows \<Longrightarrow> a = b" for a b
    using assms by (auto simp: distinct_map inj_on_def)
  have "r \<in> set (dedupe rows) \<longleftrightarrow> r \<in> set rows \<and> r \<notin> set (dupes rows)"
    using inj by (auto simp: dedupe_def dupes_def)
  also have "\<dots> \<longleftrightarrow> r \<in> set rows \<and> row_id r \<le> keep_id rows r" using dupes_iff by fastforce
  also have "\<dots> \<longleftrightarrow> r \<in> set rows \<and> (\<forall>r' \<in> set rows. event_key r' = event_key r \<longrightarrow> row_id r \<le> row_id r')"
  proof (cases "r \<in> set rows")
    case True
    then obtain q where q: "q \<in> set rows" "event_key q = event_key r" "row_id q = keep_id rows r" using keep_id_in by blast
    show ?thesis
    proof (intro iffI conjI True ballI impI)
      fix r'
      assume "r \<in> set rows \<and> row_id r \<le> keep_id rows r" "r' \<in> set rows" "event_key r' = event_key r"
      then show "row_id r \<le> row_id r'" using keep_id_le [OF True] by (blast intro: order_trans)
    next
      assume "r \<in> set rows \<and> (\<forall>r' \<in> set rows. event_key r' = event_key r \<longrightarrow> row_id r \<le> row_id r')"
      then show "row_id r \<le> keep_id rows r" using q by metis
    qed
  qed simp
  finally show ?thesis .
qed

lemma dedupe_distinct_keys:
  assumes "distinct (map row_id rows)"
  shows "distinct (map event_key (dedupe rows))"
proof -
  have "inj_on event_key (set (dedupe rows))"
  proof (rule inj_onI)
    fix a b
    assume ab: "a \<in> set (dedupe rows)" "b \<in> set (dedupe rows)" "event_key a = event_key b"
    then have "row_id a = row_id b" using dedupe_iff [OF assms] by (metis order_antisym)
    with ab show "a = b" using assms dedupe_iff [OF assms] by (auto simp: distinct_map inj_on_def)
  qed
  moreover have "distinct (dedupe rows)" using assms by (simp add: dedupe_def distinct_map)
  ultimately show ?thesis by (simp add: distinct_map)
qed

lemma dupes_of_distinct:
  assumes "distinct (map event_key rows)"
  shows "dupes rows = []"
proof -
  have "length (filter (\<lambda>r. event_key r = event_key e) rows) \<le> 1" for e
    using assms by (induction rows) (auto simp: filter_empty_conv image_iff)
  then show ?thesis by (auto simp: dupes_def filter_empty_conv not_less)
qed

section \<open>The repair\<close>

lemma table_of_change:
  "(\<And>t. td_name (f t) = td_name t) \<Longrightarrow>
   table_of (change_table n f s) m = (if m = n then map_option f (table_of s n) else table_of s m)"
  by (induction s) (auto simp: table_of_def change_table_def)

lemma table_of_map:
  "(\<And>t. td_name (f t) = td_name t) \<Longrightarrow> table_of (map f s) m = map_option f (table_of s m)"
  by (induction s) (auto simp: table_of_def)

lemma table_of_name: "table_of s n = Some t \<Longrightarrow> td_name t = n \<and> t \<in> set s"
  by (auto simp: table_of_def find_Some_iff)

lemma index_names_columns: "index_names (change_table n (\<lambda>t. t\<lparr>td_columns := g t\<rparr>) s) = index_names s"
  by (induction s) (simp_all add: index_names_def change_table_def)

lemma index_names_add:
  "table_of s n = Some t \<Longrightarrow>
   set (index_names (change_table n (\<lambda>t. t\<lparr>td_indexes := td_indexes t @ [i]\<rparr>) s)) = insert (ix_name i) (set (index_names s))"
proof -
  have "set (index_names (change_table n (\<lambda>t. t\<lparr>td_indexes := td_indexes t @ [i]\<rparr>) s))
      = set (index_names s) \<union> (if \<exists>t \<in> set s. td_name t = n then {ix_name i} else {})"
    by (induction s) (auto simp: index_names_def change_table_def)
  moreover assume "table_of s n = Some t"
  then have "\<exists>t \<in> set s. td_name t = n" using table_of_name by blast
  ultimately show ?thesis by simp
qed

lemma index_names_drop: "set (index_names (md_schema (drop_index_if_exists n db))) = set (index_names (md_schema db)) - {n}"
  by (auto simp: index_names_def drop_index_if_exists_def)

lemma index_of_table: "table_of s n = Some t \<Longrightarrow> i \<in> set (td_indexes t) \<Longrightarrow> ix_name i \<in> set (index_names s)"
  by (auto simp: index_names_def dest!: table_of_name)

text \<open>What a step on one table leaves alone.\<close>

definition elsewhere_same :: "string \<Rightarrow> mig_db \<Rightarrow> mig_db \<Rightarrow> bool" where
  "elsewhere_same tbl db db1 \<longleftrightarrow> md_version db1 = md_version db
     \<and> (\<forall>n. n \<noteq> tbl \<longrightarrow> table_of (md_schema db1) n = table_of (md_schema db) n \<and> md_rows db1 n = md_rows db n)"

lemma elsewhere_trans: "elsewhere_same tbl a b \<Longrightarrow> elsewhere_same tbl b c \<Longrightarrow> elsewhere_same tbl a c"
  by (simp add: elsewhere_same_def)

definition fill :: "string list \<Rightarrow> sql_column \<Rightarrow> row \<Rightarrow> row" where
  "fill cols c r = (if cl_name c \<in> set cols then r else r(cl_name c := map_option literal_value (cl_default c)))"

lemma add_if_missing_ok:
  assumes "table_of (md_schema db) tbl = Some t" "cl_name c \<notin> set cols \<Longrightarrow> cl_name c \<notin> set (column_names t)"
  shows "\<exists>db1 t1. add_if_missing tbl cols c db = Inr db1 \<and> elsewhere_same tbl db db1
     \<and> table_of (md_schema db1) tbl = Some t1 \<and> td_indexes t1 = td_indexes t \<and> td_uniques t1 = td_uniques t
     \<and> set (column_names t1) = (if cl_name c \<in> set cols then {} else {cl_name c}) \<union> set (column_names t)
     \<and> index_names (md_schema db1) = index_names (md_schema db) \<and> md_rows db1 tbl = map (fill cols c) (md_rows db tbl)"
proof (cases "cl_name c \<in> set cols")
  case True
  then show ?thesis using assms by (simp add: add_if_missing_def elsewhere_same_def fill_def [abs_def])
next
  case False
  then show ?thesis using assms
    by (simp add: add_if_missing_def add_column_def elsewhere_same_def fill_def [abs_def] table_of_change index_names_columns column_names_def)
qed

lemma create_index_ok:
  assumes "table_of (md_schema db) tbl = Some t" "set (ix_cols i) \<subseteq> set (column_names t)"
    and "ix_unique i \<Longrightarrow> distinct (map (\<lambda>r. map r (ix_cols i)) (md_rows db tbl))"
  shows "\<exists>db1 t1. create_index_if_absent tbl i db = Inr db1 \<and> elsewhere_same tbl db db1 \<and> md_rows db1 = md_rows db
     \<and> table_of (md_schema db1) tbl = Some t1 \<and> td_columns t1 = td_columns t \<and> td_uniques t1 = td_uniques t
     \<and> set (td_indexes t1) = (if ix_name i \<in> set (index_names (md_schema db)) then {} else {i}) \<union> set (td_indexes t)
     \<and> set (index_names (md_schema db1)) = insert (ix_name i) (set (index_names (md_schema db)))"
proof (cases "ix_name i \<in> set (index_names (md_schema db))")
  case True
  then show ?thesis using assms by (auto simp: create_index_if_absent_def elsewhere_same_def)
next
  case False
  then show ?thesis using assms index_names_add [OF assms(1)]
    by (auto simp: create_index_if_absent_def create_index_def and_then_def elsewhere_same_def table_of_change)
qed

lemma existing_columns_eq: "table_of s n = Some t \<Longrightarrow> existing_columns s n = column_names t"
  by (simp add: existing_columns_def)

lemma migrate_tasks_ok:
  assumes t: "table_of (md_schema db) ''tasks'' = Some t" and "''created_at'' \<in> set (column_names t)"
  shows "\<exists>db1. migrate_tasks db = Inr db1 \<and> elsewhere_same ''tasks'' db db1
     \<and> {''tenant_id'', ''require_approval''} \<subseteq> set (existing_columns (md_schema db1) ''tasks'')
     \<and> (\<exists>t1. table_of (md_schema db1) ''tasks'' = Some t1
          \<and> (\<forall>i \<in> set (td_indexes t1). i \<in> set (td_indexes t) \<or> ix_name i = ''ix_tasks_tenant_created''))
     \<and> set (index_names (md_schema db1)) = insert ''ix_tasks_tenant_created'' (set (index_names (md_schema db)))
     \<and> md_rows db1 ''tasks'' = map (\<lambda>r. fill (column_names t) (added_column ''require_approval'' SqlBoolean (LBool False))
          (fill (column_names t) (added_column ''tenant_id'' (SqlString 40) (LText '''')) r)) (md_rows db ''tasks'')"
proof -
  let ?c1 = "added_column ''tenant_id'' (SqlString 40) (LText '''')" and ?c2 = "added_column ''require_approval'' SqlBoolean (LBool False)"
  have n: "cl_name ?c1 = ''tenant_id''" "cl_name ?c2 = ''require_approval''" by (simp_all add: added_column_def)
  obtain a ta where a: "add_if_missing ''tasks'' (column_names t) ?c1 db = Inr a" "elsewhere_same ''tasks'' db a"
      "table_of (md_schema a) ''tasks'' = Some ta" "set (column_names ta) = insert ''tenant_id'' (set (column_names t))"
      "index_names (md_schema a) = index_names (md_schema db)" "md_rows a ''tasks'' = map (fill (column_names t) ?c1) (md_rows db ''tasks'')" "td_indexes ta = td_indexes t"
    using add_if_missing_ok [OF t, of ?c1 "column_names t"] by (auto simp: n insert_absorb split: if_splits)
  obtain b tb where b: "add_if_missing ''tasks'' (column_names t) ?c2 a = Inr b" "elsewhere_same ''tasks'' a b"
      "table_of (md_schema b) ''tasks'' = Some tb" "set (column_names tb) = insert ''require_approval'' (set (column_names ta))"
      "index_names (md_schema b) = index_names (md_schema a)" "md_rows b ''tasks'' = map (fill (column_names t) ?c2) (md_rows a ''tasks'')" "td_indexes tb = td_indexes ta"
    using add_if_missing_ok [OF a(3), of ?c2 "column_names t"] by (auto simp: n a(4) insert_absorb split: if_splits)
  let ?i = "plain_index ''ix_tasks_tenant_created'' [''tenant_id'', ''created_at'']"
  have i: "ix_name ?i = ''ix_tasks_tenant_created''" "ix_cols ?i = [''tenant_id'', ''created_at'']" "\<not> ix_unique ?i" by (simp_all add: plain_index_def)
  have "set (ix_cols ?i) \<subseteq> set (column_names tb)" using assms(2) by (simp add: i a(4) b(4))
  then obtain c tc where c: "create_index_if_absent ''tasks'' ?i b = Inr c" "elsewhere_same ''tasks'' b c" "md_rows c = md_rows b"
      "table_of (md_schema c) ''tasks'' = Some tc" "td_columns tc = td_columns tb"
      "set (index_names (md_schema c)) = insert ''ix_tasks_tenant_created'' (set (index_names (md_schema b)))"
      "set (td_indexes tc) \<subseteq> insert ?i (set (td_indexes tb))"
    using create_index_ok [OF b(3), of ?i] i by (auto split: if_splits)
  have "migrate_tasks db = Inr c"
    using a(1) b(1) c(1) by (simp add: migrate_tasks_def existing_columns_eq [OF t] and_then_def Let_def)
  moreover have "column_names tc = column_names tb" using c(5) by (simp add: column_names_def)
  moreover have "\<forall>i \<in> set (td_indexes tc). i \<in> set (td_indexes t) \<or> ix_name i = ''ix_tasks_tenant_created''"
    using c(7) a(7) b(7) i(1) by auto
  ultimately show ?thesis
    using elsewhere_trans [OF elsewhere_trans [OF a(2) b(2)] c(2)] a b c
    by (simp add: existing_columns_def comp_def)
qed

text \<open>The events table of a database that the repair can handle, and the uniqueness that the database enforces on a table.\<close>

definition uq_index :: sql_index where
  "uq_index = unique_index ''uq_events_task_seq'' [''task_id'', ''seq'']"

definition index_only_on :: "string \<Rightarrow> string \<Rightarrow> schema \<Rightarrow> bool" where
  "index_only_on tbl name s \<longleftrightarrow>
     (\<forall>n \<in> set (map td_name s). n \<noteq> tbl \<longrightarrow>
        (case table_of s n of None \<Rightarrow> True | Some t \<Rightarrow> \<forall>i \<in> set (td_indexes t). ix_name i \<noteq> name))"

lemma index_only_on_iff:
  "index_only_on tbl name s \<longleftrightarrow> (\<forall>n t. n \<noteq> tbl \<longrightarrow> table_of s n = Some t \<longrightarrow> (\<forall>i \<in> set (td_indexes t). ix_name i \<noteq> name))"
proof -
  have "n \<in> set (map td_name s)" if "table_of s n = Some t" for n t using table_of_name [OF that] by auto
  then show ?thesis by (fastforce simp: index_only_on_def split: option.splits)
qed

lemma index_only_onD:
  "index_only_on tbl name s \<Longrightarrow> table_of s n = Some t \<Longrightarrow> n \<noteq> tbl \<Longrightarrow> i \<in> set (td_indexes t) \<Longrightarrow> ix_name i \<noteq> name"
  by (simp add: index_only_on_iff)

definition events_ok :: "mig_db \<Rightarrow> table_def \<Rightarrow> bool" where
  "events_ok db t \<longleftrightarrow> table_of (md_schema db) ''events'' = Some t \<and> {''id'', ''task_id'', ''seq''} \<subseteq> set (column_names t)
     \<and> (''uq_events_task_seq'' \<in> set (index_names (md_schema db)) \<longrightarrow> uq_index \<in> set (td_indexes t))
     \<and> (\<forall>i \<in> set (td_indexes t). ix_name i = ''ix_events_task_seq'' \<longrightarrow> \<not> ix_unique i)
     \<and> index_only_on ''events'' ''ix_events_task_seq'' (md_schema db)
     \<and> distinct (map row_id (md_rows db ''events''))"

definition enforces :: "table_def \<Rightarrow> string list \<Rightarrow> bool" where
  "enforces t cols \<longleftrightarrow> (\<exists>i \<in> set (td_indexes t). ix_unique i \<and> ix_cols i = cols) \<or> (\<exists>q \<in> set (td_uniques t). snd q = cols)"

lemma uq_index_simps [simp]:
  "ix_name uq_index = ''uq_events_task_seq''" "ix_unique uq_index" "ix_cols uq_index = [''task_id'', ''seq'']"
  by (simp_all add: uq_index_def unique_index_def)

lemma has_unique_enforces:
  assumes "table_of s ''events'' = Some t" "''uq_events_task_seq'' \<in> set (index_names s) \<Longrightarrow> uq_index \<in> set (td_indexes t)"
  shows "has_unique_task_seq_index d s \<Longrightarrow> enforces t [''task_id'', ''seq'']"
    and "uq_index \<in> set (td_indexes t) \<Longrightarrow> has_unique_task_seq_index d s"
proof -
  assume "has_unique_task_seq_index d s"
  then show "enforces t [''task_id'', ''seq'']"
  proof (cases d)
    case Sqlite
    with \<open>has_unique_task_seq_index d s\<close> assms(1) show ?thesis by (simp add: has_unique_task_seq_index_def enforces_def)
  next
    case Postgres
    with \<open>has_unique_task_seq_index d s\<close> assms show ?thesis
      by (auto simp: has_unique_task_seq_index_def enforces_def dest!: index_of_table [OF assms(1)] intro!: bexI [of _ uq_index])
  qed
next
  assume u: "uq_index \<in> set (td_indexes t)"
  show "has_unique_task_seq_index d s"
  proof (cases d)
    case Sqlite
    have "\<exists>i \<in> set (td_indexes t). ix_unique i \<and> ix_cols i = [''task_id'', ''seq'']" by (rule bexI [OF _ u]) simp
    with Sqlite assms(1) show ?thesis by (simp add: has_unique_task_seq_index_def)
  next
    case Postgres
    have "''uq_events_task_seq'' \<in> ix_name ` set (td_indexes t)" by (rule image_eqI [OF _ u]) simp
    with Postgres assms(1) show ?thesis by (simp add: has_unique_task_seq_index_def)
  qed
qed

definition drop_table_index :: "string \<Rightarrow> table_def \<Rightarrow> table_def" where
  "drop_table_index n t = t\<lparr>td_indexes := filter (\<lambda>i. ix_name i \<noteq> n) (td_indexes t)\<rparr>"

lemma table_after_drop: "table_of (md_schema (drop_index_if_exists n db)) m = map_option (drop_table_index n) (table_of (md_schema db) m)"
  by (simp add: drop_index_if_exists_def drop_table_index_def [abs_def] table_of_map)

lemma rows_after_drop [simp]:
  "md_rows (drop_index_if_exists n db) = md_rows db" "md_version (drop_index_if_exists n db) = md_version db"
  by (simp_all add: drop_index_if_exists_def)

lemma has_unique_drop:
  assumes "table_of s ''events'' = Some t" "table_of s' ''events'' = Some (drop_table_index ''ix_events_task_seq'' t)"
    and "\<forall>i \<in> set (td_indexes t). ix_name i = ''ix_events_task_seq'' \<longrightarrow> \<not> ix_unique i"
    and "has_unique_task_seq_index d s"
  shows "has_unique_task_seq_index d s'"
  using assms by (cases d) (force simp: has_unique_task_seq_index_def drop_table_index_def)+

lemma fill_key:
  "cl_name c \<notin> {''id'', ''task_id'', ''seq''} \<Longrightarrow> row_id (fill cols c r) = row_id r \<and> event_key (fill cols c r) = event_key r"
  by (auto simp: fill_def row_id_def event_key_def)

lemma remove_dupes_rows: "md_rows (remove_dupes db) = (md_rows db)(''events'' := dedupe (md_rows db ''events''))"
  by (auto simp: remove_dupes_def dedupe_def)

lemma remove_dupes_rest [simp]: "md_schema (remove_dupes db) = md_schema db" "md_version (remove_dupes db) = md_version db"
  by (simp_all add: remove_dupes_def)

text \<open>The events table after the repair, from the table with its new column.\<close>

lemma migrate_events_ok:
  assumes ok: "events_ok db t"
  defines "c \<equiv> added_column ''trace_id'' (SqlString 32) (LText [])"
  shows "\<exists>db1 t1. migrate_events d db = Inr db1 \<and> elsewhere_same ''events'' db db1
     \<and> table_of (md_schema db1) ''events'' = Some t1 \<and> enforces t1 [''task_id'', ''seq'']
     \<and> ''trace_id'' \<in> set (column_names t1) \<and> column_names t1 \<noteq> []
     \<and> has_unique_task_seq_index d (md_schema db1)
     \<and> set (index_names (md_schema db)) - {''ix_events_task_seq''} \<subseteq> set (index_names (md_schema db1))
     \<and> ''ix_events_task_seq'' \<notin> set (index_names (md_schema db1))
     \<and> md_rows db1 ''events'' = dedupe (map (fill (column_names t) c) (md_rows db ''events''))
     \<and> distinct (map event_key (md_rows db1 ''events'')) \<and> dupes (md_rows db1 ''events'') = []"
proof -
  have t: "table_of (md_schema db) ''events'' = Some t" and cols: "{''id'', ''task_id'', ''seq''} \<subseteq> set (column_names t)"
    and uq: "''uq_events_task_seq'' \<in> set (index_names (md_schema db)) \<Longrightarrow> uq_index \<in> set (td_indexes t)"
    and plain: "\<forall>i \<in> set (td_indexes t). ix_name i = ''ix_events_task_seq'' \<longrightarrow> \<not> ix_unique i"
    and ids: "distinct (map row_id (md_rows db ''events''))" using ok by (simp_all add: events_ok_def)
  have c: "cl_name c = ''trace_id''" by (simp add: c_def added_column_def)
  obtain a ta where a: "add_if_missing ''events'' (column_names t) c db = Inr a" "elsewhere_same ''events'' db a"
      "table_of (md_schema a) ''events'' = Some ta" "td_indexes ta = td_indexes t"
      "set (column_names ta) = insert ''trace_id'' (set (column_names t))"
      "index_names (md_schema a) = index_names (md_schema db)" "md_rows a ''events'' = map (fill (column_names t) c) (md_rows db ''events'')"
    using add_if_missing_ok [OF t, of c "column_names t"] by (auto simp: c insert_absorb split: if_splits)
  let ?b = "remove_dupes a" and ?rows = "dedupe (map (fill (column_names t) c) (md_rows db ''events''))"
  have brows: "md_rows ?b ''events'' = ?rows" by (simp add: remove_dupes_rows a(7))
  have "map row_id (map (fill (column_names t) c) (md_rows db ''events'')) = map row_id (md_rows db ''events'')"
    using fill_key [of c] c by simp
  then have keys: "distinct (map event_key ?rows)" using dedupe_distinct_keys ids by metis
  have bsame: "elsewhere_same ''events'' db ?b" using a(2) by (simp add: elsewhere_same_def remove_dupes_rows)
  obtain e te where e: "(if \<not> has_unique_task_seq_index d (md_schema ?b) then create_index_if_absent ''events'' uq_index ?b else Inr ?b) = Inr e"
      "elsewhere_same ''events'' ?b e" "md_rows e = md_rows ?b" "table_of (md_schema e) ''events'' = Some te"
      "column_names te = column_names ta" "has_unique_task_seq_index d (md_schema e)" "enforces te [''task_id'', ''seq'']"
      "\<forall>i \<in> set (td_indexes te). ix_name i = ''ix_events_task_seq'' \<longrightarrow> \<not> ix_unique i"
      "set (index_names (md_schema db)) \<subseteq> set (index_names (md_schema e))"
  proof (cases "has_unique_task_seq_index d (md_schema ?b)")
    case True
    then have "enforces ta [''task_id'', ''seq'']" using has_unique_enforces(1) [of "md_schema a" ta d] a uq by simp
    then show ?thesis using True a plain that [of ?b ta] by (simp add: elsewhere_same_def)
  next
    case False
    then have absent: "''uq_events_task_seq'' \<notin> set (index_names (md_schema a))"
      using has_unique_enforces(2) [of "md_schema a" ta d] a uq by auto
    have pairs: "distinct (map (\<lambda>r. map r (ix_cols uq_index)) (md_rows ?b ''events''))"
      using keys by (simp add: brows distinct_map inj_on_def event_key_def)
    obtain e te where e: "create_index_if_absent ''events'' uq_index ?b = Inr e" "elsewhere_same ''events'' ?b e" "md_rows e = md_rows ?b"
        "table_of (md_schema e) ''events'' = Some te" "td_columns te = td_columns ta"
        "set (td_indexes te) = insert uq_index (set (td_indexes ta))"
        "set (index_names (md_schema e)) = insert ''uq_events_task_seq'' (set (index_names (md_schema a)))"
      using create_index_ok [of ?b "''events''" ta uq_index] a cols absent pairs by auto
    have "has_unique_task_seq_index d (md_schema e)"
      using has_unique_enforces(2) [OF e(4)] e(6) by simp
    moreover have "enforces te [''task_id'', ''seq'']" using e(6) by (auto simp: enforces_def intro!: bexI [of _ uq_index])
    ultimately show ?thesis
      using that [of e te] False e a plain by (auto simp: column_names_def)
  qed
  have others: "map_option (drop_table_index ''ix_events_task_seq'') (table_of (md_schema db) n) = table_of (md_schema db) n"
    if "n \<noteq> ''events''" for n
  proof (cases "table_of (md_schema db) n")
    case (Some t')
    then have "\<forall>i \<in> set (td_indexes t'). ix_name i \<noteq> ''ix_events_task_seq''"
      using ok that by (simp add: events_ok_def index_only_on_iff)
    then have "filter (\<lambda>i. ix_name i \<noteq> ''ix_events_task_seq'') (td_indexes t') = td_indexes t'" by (rule filter_True)
    with Some show ?thesis by (simp add: drop_table_index_def)
  qed simp
  let ?f = "drop_index_if_exists ''ix_events_task_seq'' e"
  have run: "migrate_events d db = Inr ?f"
    using cols a(1) e(1) by (auto simp: migrate_events_def existing_columns_eq [OF t] and_then_def Let_def uq_index_def c_def)
  have ft: "table_of (md_schema ?f) ''events'' = Some (drop_table_index ''ix_events_task_seq'' te)" by (simp add: table_after_drop e(4))
  have "enforces (drop_table_index ''ix_events_task_seq'' te) [''task_id'', ''seq'']"
    using e(7,8) by (auto simp: enforces_def drop_table_index_def)
  moreover have "has_unique_task_seq_index d (md_schema ?f)" using has_unique_drop [OF e(4) ft e(8,6)] .
  moreover have "elsewhere_same ''events'' db ?f"
    using elsewhere_trans [OF bsame e(2)] others
    by (simp add: elsewhere_same_def table_after_drop)
  moreover have "column_names (drop_table_index ''ix_events_task_seq'' te) = column_names ta"
    using e(5) by (simp add: drop_table_index_def column_names_def)
  moreover from a(5) have "''trace_id'' \<in> set (column_names ta)" "column_names ta \<noteq> []" by auto
  ultimately show ?thesis
    using run ft e(3,9) brows keys dupes_of_distinct [OF keys] by (auto simp: index_names_drop)
qed

text \<open>Nothing is left to repair.\<close>

definition repaired :: "sql_dialect \<Rightarrow> mig_db \<Rightarrow> bool" where
  "repaired d db \<longleftrightarrow>
     {''tenant_id'', ''require_approval''} \<subseteq> set (existing_columns (md_schema db) ''tasks'')
     \<and> {''ix_tasks_tenant_created'', ''ix_spans_trace''} \<subseteq> set (index_names (md_schema db))
     \<and> ''trace_id'' \<in> set (existing_columns (md_schema db) ''events'') \<and> dupes (md_rows db ''events'') = []
     \<and> has_unique_task_seq_index d (md_schema db) \<and> ''ix_events_task_seq'' \<notin> set (index_names (md_schema db))"

lemma drop_absent: "n \<notin> set (index_names (md_schema db)) \<Longrightarrow> drop_index_if_exists n db = db"
proof -
  assume a: "n \<notin> set (index_names (md_schema db))"
  have "t\<lparr>td_indexes := filter (\<lambda>i. ix_name i \<noteq> n) (td_indexes t)\<rparr> = t" if "t \<in> set (md_schema db)" for t
  proof -
    have "filter (\<lambda>i. ix_name i \<noteq> n) (td_indexes t) = td_indexes t"
      using a that by (auto simp: filter_id_conv index_names_def)
    then show ?thesis by simp
  qed
  then show ?thesis by (simp add: drop_index_if_exists_def map_idI)
qed

lemma repaired_fixed: "repaired d db \<Longrightarrow> migrate_schema d db = Inr db"
  by (auto simp: repaired_def migrate_schema_def migrate_tasks_def migrate_events_def migrate_spans_def add_if_missing_def
      added_column_def create_index_if_absent_def plain_index_def remove_dupes_def and_then_def Let_def drop_absent)

text \<open>A database from before the versions, after the tables that are missing were created.\<close>

definition repairable :: "mig_db \<Rightarrow> bool" where
  "repairable db \<longleftrightarrow>
     (case (table_of (md_schema db) ''tasks'', table_of (md_schema db) ''events'', table_of (md_schema db) ''spans'') of
        (Some tt, Some te, Some ts) \<Rightarrow> ''created_at'' \<in> set (column_names tt) \<and> events_ok db te \<and> ''trace_id'' \<in> set (column_names ts)
      | _ \<Rightarrow> False)"

definition same_event :: "row \<Rightarrow> row \<Rightarrow> bool" where
  "same_event r r' \<longleftrightarrow> (\<forall>c. c \<noteq> ''trace_id'' \<longrightarrow> r' c = r c)"

lemma events_ok_elsewhere:
  assumes "events_ok db t" "elsewhere_same ''tasks'' db db1"
    and "set (index_names (md_schema db1)) = insert ''ix_tasks_tenant_created'' (set (index_names (md_schema db)))"
    and "\<forall>t'. table_of (md_schema db1) ''tasks'' = Some t' \<longrightarrow> (\<forall>i \<in> set (td_indexes t'). ix_name i \<noteq> ''ix_events_task_seq'')"
  shows "events_ok db1 t"
proof -
  have "index_only_on ''events'' ''ix_events_task_seq'' (md_schema db1)"
    unfolding index_only_on_iff
  proof (intro allI impI)
    fix n t'
    assume "n \<noteq> ''events''" "table_of (md_schema db1) n = Some t'"
    with assms show "\<forall>i \<in> set (td_indexes t'). ix_name i \<noteq> ''ix_events_task_seq''"
      by (cases "n = ''tasks''") (simp_all add: events_ok_def elsewhere_same_def index_only_on_iff)
  qed
  with assms(1-3) show ?thesis by (simp add: events_ok_def elsewhere_same_def)
qed

lemma dedupe_map:
  assumes "\<And>r. row_id (f r) = row_id r \<and> event_key (f r) = event_key r"
  shows "dedupe (map f rows) = map f (dedupe rows)"
proof -
  have "keep_id (map f rows) (f e) = keep_id rows e" for e
    using assms by (simp add: keep_id_def filter_map comp_def)
  then have "dupes (map f rows) = map f (dupes rows)" using assms by (simp add: dupes_def filter_map comp_def)
  then show ?thesis using assms by (simp add: dedupe_def filter_map comp_def)
qed

lemma repair_settles:
  assumes "repairable db"
  shows "\<exists>db1 t1 f. migrate_schema d db = Inr db1 \<and> repaired d db1
     \<and> table_of (md_schema db1) ''events'' = Some t1 \<and> enforces t1 [''task_id'', ''seq'']
     \<and> distinct (map event_key (md_rows db1 ''events''))
     \<and> md_rows db1 ''events'' = map f (dedupe (md_rows db ''events'')) \<and> (\<forall>r. same_event r (f r))"
proof -
  obtain tt te ts where tables: "table_of (md_schema db) ''tasks'' = Some tt" "''created_at'' \<in> set (column_names tt)"
      "table_of (md_schema db) ''events'' = Some te" "events_ok db te" "table_of (md_schema db) ''spans'' = Some ts"
      "''trace_id'' \<in> set (column_names ts)" "index_only_on ''events'' ''ix_events_task_seq'' (md_schema db)"
      "distinct (map row_id (md_rows db ''events''))"
    using assms by (auto simp: repairable_def events_ok_def split: option.splits)
  obtain a where a: "migrate_tasks db = Inr a" "elsewhere_same ''tasks'' db a"
      "{''tenant_id'', ''require_approval''} \<subseteq> set (existing_columns (md_schema a) ''tasks'')"
      "\<exists>t1. table_of (md_schema a) ''tasks'' = Some t1
         \<and> (\<forall>i \<in> set (td_indexes t1). i \<in> set (td_indexes tt) \<or> ix_name i = ''ix_tasks_tenant_created'')"
      "set (index_names (md_schema a)) = insert ''ix_tasks_tenant_created'' (set (index_names (md_schema db)))"
    using migrate_tasks_ok [OF tables(1,2)] by auto
  have "\<forall>i \<in> set (td_indexes tt). ix_name i \<noteq> ''ix_events_task_seq''" using index_only_onD [OF tables(7,1)] by simp
  then have "\<forall>t'. table_of (md_schema a) ''tasks'' = Some t' \<longrightarrow> (\<forall>i \<in> set (td_indexes t'). ix_name i \<noteq> ''ix_events_task_seq'')"
    using a(4) by fastforce
  then have ok: "events_ok a te" using events_ok_elsewhere [OF tables(4) a(2,5)] by blast
  let ?f = "fill (column_names te) (added_column ''trace_id'' (SqlString 32) (LText []))"
  obtain b t1 where b: "migrate_events d a = Inr b" "elsewhere_same ''events'' a b" "table_of (md_schema b) ''events'' = Some t1"
      "enforces t1 [''task_id'', ''seq'']" "''trace_id'' \<in> set (column_names t1)" "column_names t1 \<noteq> []"
      "has_unique_task_seq_index d (md_schema b)"
      "set (index_names (md_schema a)) - {''ix_events_task_seq''} \<subseteq> set (index_names (md_schema b))"
      "''ix_events_task_seq'' \<notin> set (index_names (md_schema b))"
      "md_rows b ''events'' = dedupe (map ?f (md_rows a ''events''))"
      "distinct (map event_key (md_rows b ''events''))" "dupes (md_rows b ''events'') = []"
    using migrate_events_ok [OF ok, of d] by metis
  let ?i = "plain_index ''ix_spans_trace'' [''trace_id'']"
  have i: "ix_name ?i = ''ix_spans_trace''" "ix_cols ?i = [''trace_id'']" "\<not> ix_unique ?i" by (simp_all add: plain_index_def)
  have spans: "table_of (md_schema b) ''spans'' = Some ts" using a(2) b(2) tables(5) by (simp add: elsewhere_same_def)
  obtain c where c: "create_index_if_absent ''spans'' ?i b = Inr c" "elsewhere_same ''spans'' b c" "md_rows c = md_rows b"
      "set (index_names (md_schema c)) = insert ''ix_spans_trace'' (set (index_names (md_schema b)))"
    using create_index_ok [OF spans, of ?i] i tables(6) by auto
  have "migrate_spans b = Inr c" using c(1) tables(6) by (auto simp: migrate_spans_def existing_columns_eq [OF spans])
  then have run: "migrate_schema d db = Inr c" using a(1) b(1) by (simp add: migrate_schema_def and_then_def)
  have same: "table_of (md_schema c) ''tasks'' = table_of (md_schema a) ''tasks''" "table_of (md_schema c) ''events'' = Some t1"
    using b(2,3) c(2) by (simp_all add: elsewhere_same_def)
  then have "repaired d c"
    using a(3,5) b(3,5,7,8,9,12) c(3,4) by (auto simp: repaired_def existing_columns_def has_unique_task_seq_index_def)
  moreover have "md_rows c ''events'' = map ?f (dedupe (md_rows db ''events''))"
  proof -
    have "md_rows a ''events'' = md_rows db ''events''" using a(2) by (simp add: elsewhere_same_def)
    then show ?thesis using b(10) c(3) fill_key by (simp add: dedupe_map added_column_def)
  qed
  moreover have "same_event r (?f r)" for r by (simp add: same_event_def fill_def added_column_def)
  ultimately show ?thesis
    using run same(2) b(4,11) c(3) by metis
qed

text \<open>
  C38. The repair of an old database works and works once: it ends without an error, afterwards the database enforces
  that the numbers of a task's events are unique, a second run changes nothing, and of the events exactly those remain
  that have the least id of their task and number, unchanged but for a new column.
\<close>

theorem repair_sound:
  assumes "repairable db"
  shows "\<exists>db1 t1. migrate_schema d db = Inr db1 \<and> migrate_schema d db1 = Inr db1
     \<and> table_of (md_schema db1) ''events'' = Some t1 \<and> enforces t1 [''task_id'', ''seq'']
     \<and> distinct (map event_key (md_rows db1 ''events''))
     \<and> (\<exists>f. md_rows db1 ''events'' = map f (dedupe (md_rows db ''events'')) \<and> (\<forall>r. same_event r (f r)))
     \<and> (\<forall>r. r \<in> set (dedupe (md_rows db ''events'')) \<longleftrightarrow> r \<in> set (md_rows db ''events'')
          \<and> (\<forall>r' \<in> set (md_rows db ''events''). event_key r' = event_key r \<longrightarrow> row_id r \<le> row_id r'))"
proof -
  have "distinct (map row_id (md_rows db ''events''))"
    using assms by (auto simp: repairable_def events_ok_def split: option.splits)
  note rest = dedupe_iff [OF this]
  obtain db1 t1 f where "migrate_schema d db = Inr db1" "repaired d db1" "table_of (md_schema db1) ''events'' = Some t1"
      "enforces t1 [''task_id'', ''seq'']" "distinct (map event_key (md_rows db1 ''events''))"
      "md_rows db1 ''events'' = map f (dedupe (md_rows db ''events''))" "\<forall>r. same_event r (f r)"
    using repair_settles [OF assms, of d] by blast
  with repaired_fixed [of d db1] rest show ?thesis by (intro exI [of _ db1] exI [of _ t1]) auto
qed

definition old_event :: "int \<Rightarrow> string \<Rightarrow> int \<Rightarrow> row" where
  "old_event i task seq = [''id'' \<mapsto> CInt i, ''task_id'' \<mapsto> CText (ascii task), ''seq'' \<mapsto> CInt seq]"

definition old_db :: mig_db where
  "old_db = \<lparr>md_schema =
       [\<lparr>td_name = ''tasks'', td_columns = [col ''id'' (SqlString 40), col ''goal'' SqlText, col ''created_at'' SqlFloat], td_pk = [''id''],
         td_uniques = [], td_indexes = []\<rparr>,
        \<lparr>td_name = ''events'', td_columns = [col ''id'' SqlInteger, col ''task_id'' (SqlString 40), col ''seq'' SqlInteger], td_pk = [''id''],
         td_uniques = [], td_indexes = [plain_index ''ix_events_task_seq'' [''task_id'', ''seq'']]\<rparr>,
        span_table],
     md_rows = (\<lambda>t. if t = ''events'' then [old_event 1 ''a'' 1, old_event 2 ''a'' 1, old_event 3 ''a'' 2] else []),
     md_version = None\<rparr>"

theorem repair_sound_witness:
  "\<exists>db1. migrate_schema Sqlite old_db = Inr db1 \<and> map row_id (md_rows db1 ''events'') = [1, 3]"
proof -
  have ok: "repairable old_db"
    by (simp add: repairable_def events_ok_def old_db_def old_event_def row_id_def table_of_def column_names_def col_def col_with_def
        span_table_def index_names_def index_only_on_def plain_index_def)
  obtain db1 f where run: "migrate_schema Sqlite old_db = Inr db1" "md_rows db1 ''events'' = map f (dedupe (md_rows old_db ''events''))"
      "\<forall>r. same_event r (f r)"
    using repair_sound [OF ok, of Sqlite] by blast
  have rows: "dedupe (md_rows old_db ''events'') = [old_event 1 ''a'' 1, old_event 3 ''a'' 2]"
    by (simp add: old_db_def dedupe_def dupes_def keep_id_def old_event_def row_id_def event_key_def)
  have "row_id (f r) = row_id r" for r using run(3) by (simp add: same_event_def row_id_def)
  then show ?thesis using run(1,2) by (simp add: rows old_event_def row_id_def)
qed

section \<open>Start-up\<close>

text \<open>What Alembic documents of its commands, on the databases that the application has.\<close>

definition alembic_ok :: "alembic \<Rightarrow> bool" where
  "alembic_ok A \<longleftrightarrow>
     (\<forall>db. al_stamp A ''head'' db = Inr (db\<lparr>md_version := Some ''0003''\<rparr>))
     \<and> (\<forall>db. md_version db = None \<and> md_schema db = [] \<longrightarrow>
          al_upgrade A ''head'' db = and_then (upgrade_all db) (\<lambda>db1. Inr (db1\<lparr>md_version := Some ''0003''\<rparr>)))
     \<and> (\<forall>db. md_version db = Some ''0003'' \<longrightarrow> al_upgrade A ''head'' db = Inr db)"

definition chain_alembic :: alembic where
  "chain_alembic = \<lparr>al_stamp = (\<lambda>_ db. Inr (db\<lparr>md_version := Some ''0003''\<rparr>)),
     al_upgrade = (\<lambda>_ db. if md_version db = Some ''0003'' then Inr db
                       else and_then (upgrade_all db) (\<lambda>db1. Inr (db1\<lparr>md_version := Some ''0003''\<rparr>)))\<rparr>"

lemma chain_alembic_ok: "alembic_ok chain_alembic"
  by (simp add: alembic_ok_def chain_alembic_def)

lemma start_up_legacy:
  assumes "alembic_ok A" "detect_shape db = Legacy" "repairable (create_all db)"
  shows "\<exists>db1. migrate A d db = Inr db1 \<and> md_version db1 = Some ''0003'' \<and> migrate A d db1 = Inr db1"
proof -
  obtain db1 where "migrate_schema d (create_all db) = Inr db1" using repair_settles [OF assms(3), of d] by blast
  with assms(1,2) show ?thesis
    by (intro exI [of _ "db1\<lparr>md_version := Some ''0003''\<rparr>"]) (simp add: migrate_def alembic_ok_def and_then_def detect_shape_def)
qed

lemma start_up_fresh:
  assumes "alembic_ok A"
  shows "\<exists>db1. migrate A d blank_db = Inr db1 \<and> canonical (md_schema db1) = canonical base_metadata \<and> migrate A d db1 = Inr db1"
proof -
  obtain db1 where "upgrade_all blank_db = Inr db1" "canonical (md_schema db1) = canonical base_metadata"
    using upgrade_empty by blast
  with assms show ?thesis
    by (intro exI [of _ "db1\<lparr>md_version := Some ''0003''\<rparr>"])
      (simp add: migrate_def alembic_ok_def and_then_def detect_shape_def blank_db_def table_of_def)
qed

section \<open>The lease excludes\<close>

datatype lease_phase = LsWaiting seconds | LsMigrating seconds | LsDone

record lease_sys =
  lz_now :: seconds
  lz_lease :: "lease_row option"
  lz_phase :: "nat \<Rightarrow> lease_phase"

inductive lease_step :: "lease_sys \<Rightarrow> lease_sys \<Rightarrow> bool" where
  tick: "0 \<le> dt \<Longrightarrow> lease_step s (s\<lparr>lz_now := lz_now s + dt\<rparr>)"
| arrive: "lz_phase s p = LsDone \<Longrightarrow> lease_step s (s\<lparr>lz_phase := (lz_phase s)(p := LsWaiting (lz_now s + lease_wait_s))\<rparr>)"
| poll: "lz_phase s p = LsWaiting deadline \<Longrightarrow> lease_round p (lz_now s) deadline (lz_lease s) = (r, l) \<Longrightarrow>
    lease_step s (s\<lparr>lz_lease := l, lz_phase := (lz_phase s)(p :=
      (case r of Acquired \<Rightarrow> LsMigrating (lz_now s) | GaveUp \<Rightarrow> LsDone | Again \<Rightarrow> LsWaiting deadline))\<rparr>)"
| finish: "lz_phase s p = LsMigrating since \<Longrightarrow>
    lease_step s (s\<lparr>lz_lease := release_lease p (lz_lease s), lz_phase := (lz_phase s)(p := LsDone)\<rparr>)"
| crash: "lease_step s (s\<lparr>lz_phase := (lz_phase s)(p := LsDone)\<rparr>)"

definition lease_start :: "seconds \<Rightarrow> lease_sys" where
  "lease_start now = \<lparr>lz_now = now, lz_lease = None, lz_phase = (\<lambda>_. LsDone)\<rparr>"

definition lease_inv :: "lease_sys \<Rightarrow> bool" where
  "lease_inv s \<longleftrightarrow> (\<forall>p since. lz_phase s p = LsMigrating since \<longrightarrow> lz_now s - since \<le> lease_stale_s \<longrightarrow>
     lz_lease s = Some \<lparr>ls_owner = p, ls_acquired_at = since\<rparr>)"

lemma round_cases:
  assumes "lease_round p now deadline lease = (r, l)"
  shows "(r = Acquired \<and> lease = None \<and> l = Some \<lparr>ls_owner = p, ls_acquired_at = now\<rparr>)
    \<or> (r \<noteq> Acquired \<and> (l = lease \<or> (l = None \<and> (\<exists>q. lease = Some q \<and> ls_acquired_at q < now - lease_stale_s))))"
  using assms by (auto simp: lease_round_def lease_insert_def lease_expire_def split: option.splits if_splits)

lemma lease_inv_step:
  assumes "lease_step s s'" "lease_inv s"
  shows "lease_inv s'"
  using assms
proof cases
  case (poll p deadline r l)
  from round_cases [OF poll(3)] show ?thesis
  proof (elim disjE conjE exE)
    assume "r = Acquired" "lz_lease s = None" "l = Some \<lparr>ls_owner = p, ls_acquired_at = lz_now s\<rparr>"
    then show ?thesis using poll assms(2) by (auto simp: lease_inv_def)
  next
    fix q
    assume "r \<noteq> Acquired" "l = None" "lz_lease s = Some q" "ls_acquired_at q < lz_now s - lease_stale_s"
    then show ?thesis using poll assms(2) by (cases r) (fastforce simp: lease_inv_def)+
  qed (use poll assms(2) in \<open>cases r; auto simp: lease_inv_def\<close>)
qed (auto simp: lease_inv_def release_lease_def)

lemma lease_reachable: "lease_step\<^sup>*\<^sup>* (lease_start now) s \<Longrightarrow> lease_inv s"
  by (induction rule: rtranclp_induct) (simp add: lease_inv_def lease_start_def, rule lease_inv_step)

text \<open>
  C39. Two processes never migrate at the same time while both are within the life of the lease: however the
  processes interleave, start, poll, finish and crash, at most one process that is migrating took the lease in the last
  120 seconds.
\<close>

theorem lease_excludes:
  assumes "lease_step\<^sup>*\<^sup>* (lease_start now) s"
    and "lz_phase s p = LsMigrating a" and "lz_phase s q = LsMigrating b" and "p \<noteq> q"
  shows "lease_stale_s < lz_now s - a \<or> lease_stale_s < lz_now s - b"
  using lease_reachable [OF assms(1)] assms(2-4) unfolding lease_inv_def
  by (metis lease_row.ext_inject not_less option.inject)

text \<open>
  A migration that takes longer than 120 seconds is overtaken: the second process, started one second after
  the first, does not give up at its own deadline but removes the row half a second before it and migrates as well.
\<close>

definition overtaken :: lease_sys where
  "overtaken = \<lparr>lz_now = 121, lz_lease = Some \<lparr>ls_owner = 1, ls_acquired_at = 121\<rparr>,
     lz_phase = (\<lambda>_. LsDone)(0 := LsMigrating 0, 1 := LsMigrating 121)\<rparr>"

lemma lease_overtaken: "lease_step\<^sup>*\<^sup>* (lease_start 0) overtaken"
proof -
  let ?s = "\<lambda>now lease a b. \<lparr>lz_now = now, lz_lease = lease, lz_phase = (\<lambda>_. LsDone)(0 := a, 1 := b)\<rparr>"
  let ?l0 = "Some \<lparr>ls_owner = 0, ls_acquired_at = 0\<rparr>" and ?m0 = "LsMigrating 0" and ?w1 = "LsWaiting 121"
  have "lease_step\<^sup>*\<^sup>* (lease_start 0) (?s 0 None (LsWaiting 120) LsDone)"
    using arrive [of "lease_start 0" 0, THEN r_into_rtranclp [of lease_step]]
    by (simp add: lease_start_def lease_wait_s_def fun_upd_def fun_eq_iff if_distrib cong: if_cong)
  also have "lease_step\<^sup>*\<^sup>* (?s 0 None (LsWaiting 120) LsDone) (?s 0 ?l0 ?m0 LsDone)"
    using poll [of "?s 0 None (LsWaiting 120) LsDone" 0 120 Acquired ?l0, THEN r_into_rtranclp [of lease_step]]
    by (simp add: lease_round_def lease_insert_def fun_upd_twist)
  also have "lease_step\<^sup>*\<^sup>* (?s 0 ?l0 ?m0 LsDone) (?s 1 ?l0 ?m0 LsDone)"
    using tick [of 1 "?s 0 ?l0 ?m0 LsDone", THEN r_into_rtranclp [of lease_step]]
    by simp
  also have "lease_step\<^sup>*\<^sup>* (?s 1 ?l0 ?m0 LsDone) (?s 1 ?l0 ?m0 ?w1)"
    using arrive [of "?s 1 ?l0 ?m0 LsDone" 1, THEN r_into_rtranclp [of lease_step]]
    by (simp add: lease_wait_s_def)
  also have "lease_step\<^sup>*\<^sup>* (?s 1 ?l0 ?m0 ?w1) (?s (241 / 2) ?l0 ?m0 ?w1)"
    using tick [of "239 / 2" "?s 1 ?l0 ?m0 ?w1", THEN r_into_rtranclp [of lease_step]]
    by simp
  also have "lease_step\<^sup>*\<^sup>* (?s (241 / 2) ?l0 ?m0 ?w1) (?s (241 / 2) None ?m0 ?w1)"
    using poll [of "?s (241 / 2) ?l0 ?m0 ?w1" 1 121 Again None, THEN r_into_rtranclp [of lease_step]]
    by (simp add: lease_round_def lease_insert_def lease_expire_def lease_stale_s_def)
  also have "lease_step\<^sup>*\<^sup>* (?s (241 / 2) None ?m0 ?w1) (?s 121 None ?m0 ?w1)"
    using tick [of lease_poll_s "?s (241 / 2) None ?m0 ?w1", THEN r_into_rtranclp [of lease_step]]
    by (simp add: lease_poll_s_def)
  also have "lease_step\<^sup>*\<^sup>* (?s 121 None ?m0 ?w1) overtaken"
    using poll [of "?s 121 None ?m0 ?w1" 1 121 Acquired "Some \<lparr>ls_owner = 1, ls_acquired_at = 121\<rparr>", THEN r_into_rtranclp [of lease_step]]
    by (simp add: lease_round_def lease_insert_def overtaken_def)
  finally show ?thesis .
qed

theorem lease_excludes_witness: "lz_phase overtaken 0 = LsMigrating 0 \<and> lz_phase overtaken 1 = LsMigrating 121 \<and> lease_stale_s < lz_now overtaken - 0"
  using lease_excludes [OF lease_overtaken, of 0 0 1 121] by (simp add: overtaken_def lease_stale_s_def)

text \<open>A release never takes the lease of another process.\<close>

lemma release_only_own: "release_lease p (Some r) = None \<longleftrightarrow> ls_owner r = p"
  by (simp add: release_lease_def)

end
