(* ===== verification/Process_Metrics.thy ===== *)
theory Process_Metrics
  imports Metrics
begin

text \<open>
  The metrics that the runtime keeps (the second half of \<^verbatim>\<open>app/observability/metrics.py\<close>): the thirteen metrics of
  the process with their labels and bucket profiles, the identity of the process, and every place where the
  runtime counts something, with the exact account of what a scraper then reads.
\<close>

section \<open>The metrics of the process\<close>

definition llm_buckets :: "real list" where
  "llm_buckets = [5 / 100, 1 / 10, 1 / 4, 1 / 2, 1, 3 / 2, 2, 3, 5, 8, 15, 30, 60]"

definition tool_buckets :: "real list" where
  "tool_buckets = [1 / 1000, 5 / 1000, 1 / 100, 25 / 1000, 5 / 100, 1 / 10, 1 / 4, 1 / 2, 1, 5 / 2, 5, 15, 60]"

definition new_counter :: "pystr \<Rightarrow> pystr \<Rightarrow> pystr list \<Rightarrow> metric" where
  "new_counter name help labelnames =
     \<lparr>mc_name = name, mc_help = help, mc_kind = CounterKind, mc_labelnames = labelnames, mc_buckets = [], mc_samples = [], mc_cells = []\<rparr>"

definition new_gauge :: "pystr \<Rightarrow> pystr \<Rightarrow> pystr list \<Rightarrow> metric" where
  "new_gauge name help labelnames =
     \<lparr>mc_name = name, mc_help = help, mc_kind = GaugeKind, mc_labelnames = labelnames, mc_buckets = [], mc_samples = [], mc_cells = []\<rparr>"

definition tasks_total :: metric where
  "tasks_total = new_counter (ascii ''agent_tasks_total'') [20219, 21153, 25968, 65288, 25353, 32456, 24577, 47, 36827, 34892, 24577, 20998, 26742, 65289] [ascii ''status'']"

definition task_duration :: "(pystr \<Rightarrow> real option) \<Rightarrow> real list \<Rightarrow> metric" where
  "task_duration parse_float buckets = new_histogram parse_float (ascii ''agent_task_duration_seconds'')
     [20219, 21153, 20174, 24320, 22987, 25191, 34892, 21040, 36827, 20837, 32456, 24577, 30340, 32791, 26102] [ascii ''status''] buckets"

definition tasks_inflight :: metric where
  "tasks_inflight = new_gauge (ascii ''agent_tasks_inflight'') [24403, 21069, 27491, 22312, 25191, 34892, 30340, 20219, 21153, 25968, 65288, 26410, 21547, 25490, 38431, 65289] []"

definition queue_depth :: metric where
  "queue_depth = new_gauge (ascii ''agent_queue_depth'') [26412, 22320, 38431, 21015, 20013, 24453, 25191, 34892, 30340, 20219, 21153, 25968] []"

definition llm_calls :: metric where
  "llm_calls = new_counter (ascii ''agent_llm_calls_total'') [76, 76, 77, 32, 35843, 29992, 27425, 25968] [ascii ''model'', ascii ''outcome'']"

definition llm_duration :: "(pystr \<Rightarrow> real option) \<Rightarrow> real list \<Rightarrow> metric" where
  "llm_duration parse_float buckets = new_histogram parse_float (ascii ''agent_llm_call_duration_seconds'')
     [76, 76, 77, 32, 35843, 29992, 32791, 26102, 65288, 21807, 19968, 30495, 23454, 20986, 32593, 28857, 30340, 32, 115, 112, 97, 110, 65289] [ascii ''model''] buckets"

definition llm_tokens :: metric where
  "llm_tokens = new_counter (ascii ''agent_llm_tokens_total'') [76, 76, 77, 32, 116, 111, 107, 101, 110, 32, 28040, 32791, 65288, 25353, 32, 109, 111, 100, 101, 108, 32, 20998, 26742, 65289] [ascii ''model'']"

definition tool_calls_total :: metric where
  "tool_calls_total = new_counter (ascii ''agent_tool_calls_total'') [24037, 20855, 35843, 29992, 27425, 25968] [ascii ''tool'', ascii ''outcome'']"

definition tool_duration :: "(pystr \<Rightarrow> real option) \<Rightarrow> real list \<Rightarrow> metric" where
  "tool_duration parse_float buckets = new_histogram parse_float (ascii ''agent_tool_execution_duration_seconds'')
     [24037, 20855, 25191, 34892, 32791, 26102] [ascii ''tool''] buckets"

definition events_total :: metric where
  "events_total = new_counter (ascii ''agent_events_total'') [20107, 20214, 27969, 20135, 20986, 30340, 20107, 20214, 25968, 65288, 25353, 20107, 20214, 31867, 22411, 20998, 26742, 65289] [ascii ''type'']"

definition selfheal_total :: metric where
  "selfheal_total = new_counter (ascii ''agent_selfheal_total'') [21442, 25968, 33258, 24840, 24490, 29615, 30340, 23581, 35797, 27425, 25968] [ascii ''tool'']"

definition build_info_gauge :: metric where
  "build_info_gauge = new_gauge (ascii ''agent_build_info'') [26500, 24314, 20449, 24687, 65288, 20540, 24658, 20026, 32, 49, 65292, 29256, 26412, 32463, 32, 118, 101, 114, 115, 105, 111, 110, 32, 26631, 31614, 26292, 38706, 65289]
     [ascii ''version'', ascii ''pid'']"

definition process_start_time :: metric where
  "process_start_time = new_gauge (ascii ''agent_process_start_time_seconds'')
     [36827, 31243, 21551, 21160, 26102, 21051, 65288, 85, 110, 105, 120, 32, 31186, 65289, 12290, 37325, 21551, 26816, 27979, 29992, 65306, 35813, 20540, 21464, 21270, 32, 61, 32, 26032, 36827, 31243, 65292, 35745, 25968, 22120, 24050, 24402, 38646] [ascii ''pid'']"

text \<open>The import of the module: the buckets come from the environment as it is at that moment.\<close>

definition env_buckets :: "(pystr \<Rightarrow> real option) \<Rightarrow> pystr dict \<Rightarrow> pystr \<Rightarrow> real list \<Rightarrow> real list" where
  "env_buckets parse_float env name fallback =
     buckets_from_env parse_float (case dict_get env name of None \<Rightarrow> [] | Some v \<Rightarrow> v) fallback"

definition process_metrics :: "(pystr \<Rightarrow> real option) \<Rightarrow> pystr dict \<Rightarrow> metric list" where
  "process_metrics parse_float env =
     [tasks_total,
      task_duration parse_float (env_buckets parse_float env (ascii ''METRICS_BUCKETS_TASK'') default_buckets),
      tasks_inflight, queue_depth, llm_calls,
      llm_duration parse_float (env_buckets parse_float env (ascii ''METRICS_BUCKETS_LLM'') llm_buckets),
      llm_tokens, tool_calls_total,
      tool_duration parse_float (env_buckets parse_float env (ascii ''METRICS_BUCKETS_TOOL'') tool_buckets),
      events_total, selfheal_total, build_info_gauge, process_start_time]"

definition process_registry :: "(pystr \<Rightarrow> real option) \<Rightarrow> pystr dict \<Rightarrow> metric_registry" where
  "process_registry parse_float env = fold (\<lambda>m reg. snd (register_metric m reg)) (process_metrics parse_float env) []"

section \<open>Where the runtime counts\<close>

text \<open>One update of one metric, named by its name; the constants of the module are the registered metrics.\<close>

datatype metric_update =
    CounterInc (update_target: pystr) (update_labels: labels) real
  | GaugeSet (update_target: pystr) (update_labels: labels) real
  | GaugeAdd (update_target: pystr) (update_labels: labels) real
  | HistObserve (update_target: pystr) (update_labels: labels) real

fun update_metric :: "metric_update \<Rightarrow> metric \<Rightarrow> metric_error + metric" where
  "update_metric (CounterInc _ ls v) m = counter_inc ls v m"
| "update_metric (GaugeSet _ ls v) m = gauge_set v ls m"
| "update_metric (GaugeAdd _ ls v) m = gauge_inc ls v m"
| "update_metric (HistObserve _ ls v) m = observe v ls m"

definition apply_update :: "metric_update \<Rightarrow> metric_registry \<Rightarrow> metric_error + metric_registry" where
  "apply_update u reg =
     (case dict_get reg (update_target u) of
        None \<Rightarrow> Inr reg
      | Some m \<Rightarrow> map_sum id (\<lambda>m'. dict_set (update_target u) m' reg) (update_metric u m))"

fun apply_updates :: "metric_update list \<Rightarrow> metric_registry \<Rightarrow> metric_error + metric_registry" where
  "apply_updates [] reg = Inr reg"
| "apply_updates (u # us) reg = (case apply_update u reg of Inl e \<Rightarrow> Inl e | Inr reg' \<Rightarrow> apply_updates us reg')"

text \<open>
  The places: start and end of an execution (\<open>_execute\<close>; an exception only ends it), the queue after each submission and
  after each job, a call of the model that failed or succeeded, an answered tool call, the execution of a tool, an attempt to repair
  arguments, and an event.
\<close>

datatype meter =
    TaskBegins
  | TaskReturns pystr real
  | TaskRaises
  | QueueHas nat
  | LlmFails pystr real
  | LlmAnswers pystr real int
  | ToolAnswered pystr bool
  | ToolTook pystr real
  | HealTried pystr
  | EventSent pystr

fun meter_updates :: "meter \<Rightarrow> metric_update list" where
  "meter_updates TaskBegins = [GaugeAdd (ascii ''agent_tasks_inflight'') [] 1]"
| "meter_updates (TaskReturns status elapsed) =
     [GaugeAdd (ascii ''agent_tasks_inflight'') [] (- 1), CounterInc (ascii ''agent_tasks_total'') [(ascii ''status'', status)] 1]
     @ (if status \<noteq> ascii ''waiting_approval'' then [HistObserve (ascii ''agent_task_duration_seconds'') [(ascii ''status'', status)] elapsed] else [])"
| "meter_updates TaskRaises = [GaugeAdd (ascii ''agent_tasks_inflight'') [] (- 1)]"
| "meter_updates (QueueHas n) = [GaugeSet (ascii ''agent_queue_depth'') [] (real n)]"
| "meter_updates (LlmFails model elapsed) =
     [CounterInc (ascii ''agent_llm_calls_total'') [(ascii ''model'', model), (ascii ''outcome'', ascii ''error'')] 1,
      HistObserve (ascii ''agent_llm_call_duration_seconds'') [(ascii ''model'', model)] elapsed]"
| "meter_updates (LlmAnswers model elapsed tokens) =
     [CounterInc (ascii ''agent_llm_calls_total'') [(ascii ''model'', model), (ascii ''outcome'', ascii ''ok'')] 1,
      HistObserve (ascii ''agent_llm_call_duration_seconds'') [(ascii ''model'', model)] elapsed,
      CounterInc (ascii ''agent_llm_tokens_total'') [(ascii ''model'', model)] (of_int tokens)]"
| "meter_updates (ToolAnswered tool ok) =
     [CounterInc (ascii ''agent_tool_calls_total'') [(ascii ''tool'', tool), (ascii ''outcome'', if ok then ascii ''ok'' else ascii ''error'')] 1]"
| "meter_updates (ToolTook tool elapsed) = [HistObserve (ascii ''agent_tool_execution_duration_seconds'') [(ascii ''tool'', tool)] elapsed]"
| "meter_updates (HealTried tool) = [CounterInc (ascii ''agent_selfheal_total'') [(ascii ''tool'', tool)] 1]"
| "meter_updates (EventSent type) = [CounterInc (ascii ''agent_events_total'') [(ascii ''type'', type)] 1]"

definition model_label :: "pystr \<Rightarrow> pystr" where
  "model_label model = (if model \<noteq> [] then model else ascii ''unknown'')"

text \<open>\<open>init_process_metrics\<close>; \<open>env_version\<close> is the variable \<^verbatim>\<open>AGENT_VERSION\<close>.\<close>

definition init_process_metrics :: "pystr \<Rightarrow> pystr \<Rightarrow> pystr \<Rightarrow> real \<Rightarrow> metric_registry \<Rightarrow> metric_error + metric_registry" where
  "init_process_metrics version env_version pid start reg =
     (let resolved = (if version \<noteq> [] then version else if env_version \<noteq> [] then env_version else ascii ''dev'')
      in apply_updates [GaugeSet (ascii ''agent_build_info'') [(ascii ''version'', resolved), (ascii ''pid'', pid)] 1,
           GaugeSet (ascii ''agent_process_start_time_seconds'') [(ascii ''pid'', pid)] start] reg)"

text \<open>\<open>get\<close> and \<open>clear\<close> of the registry.\<close>

definition get_metric :: "metric_registry \<Rightarrow> pystr \<Rightarrow> metric option" where
  "get_metric reg name = dict_get reg name"

definition clear_registry :: "metric_registry \<Rightarrow> metric_registry" where
  "clear_registry reg = map (\<lambda>(n, m). (n, clear_metric m)) reg"

section \<open>Every metric is registered once\<close>

lemma register_all:
  "distinct (map mc_name ms) \<Longrightarrow> (\<forall>m \<in> set ms. dict_get reg (mc_name m) = None)
   \<Longrightarrow> fold (\<lambda>m reg. snd (register_metric m reg)) ms reg = reg @ map (\<lambda>m. (mc_name m, m)) ms"
proof (induction ms arbitrary: reg)
  case (Cons m ms)
  have new: "dict_get reg (mc_name m) = None" using Cons.prems(2) by simp
  have app: "AList.update k v xs = xs @ [(k, v)]" if "map_of xs k = None" for k and v :: metric and xs
    using that by (induction xs) (auto split: if_splits)
  have step: "snd (register_metric m reg) = reg @ [(mc_name m, m)]"
    using new by (simp add: register_metric_def dict_set_def dict_get_def app)
  have "\<forall>x \<in> set ms. dict_get (reg @ [(mc_name m, m)]) (mc_name x) = None"
    using Cons.prems by (auto simp: dict_get_def map_add_def map_of_append) (metis imageI)
  then show ?case using Cons.IH [of "reg @ [(mc_name m, m)]"] Cons.prems(1) step by simp
qed simp

lemmas metric_defs = tasks_total_def task_duration_def tasks_inflight_def queue_depth_def llm_calls_def llm_duration_def
  llm_tokens_def tool_calls_total_def tool_duration_def events_total_def selfheal_total_def build_info_gauge_def process_start_time_def
  new_counter_def new_gauge_def new_histogram_def

lemma process_names:
  "map mc_name (process_metrics parse_float env) =
     map ascii [''agent_tasks_total'', ''agent_task_duration_seconds'', ''agent_tasks_inflight'', ''agent_queue_depth'',
       ''agent_llm_calls_total'', ''agent_llm_call_duration_seconds'', ''agent_llm_tokens_total'', ''agent_tool_calls_total'',
       ''agent_tool_execution_duration_seconds'', ''agent_events_total'', ''agent_selfheal_total'', ''agent_build_info'',
       ''agent_process_start_time_seconds'']"
  by (simp add: process_metrics_def metric_defs)

lemma process_registry_list: "process_registry parse_float env = map (\<lambda>m. (mc_name m, m)) (process_metrics parse_float env)"
proof -
  have "distinct (map mc_name (process_metrics parse_float env))" unfolding process_names by (simp add: ascii_def)
  then show ?thesis unfolding process_registry_def by (subst register_all) simp_all
qed

lemma process_registry_get:
  "m \<in> set (process_metrics parse_float env) \<Longrightarrow> dict_get (process_registry parse_float env) (mc_name m) = Some m"
proof -
  have "distinct (map mc_name (process_metrics parse_float env))" unfolding process_names by (simp add: ascii_def)
  then have "map_of (map (\<lambda>m. (mc_name m, m)) ms) (mc_name m) = Some m" if "m \<in> set ms" "distinct (map mc_name ms)" for ms
    using that by (auto simp: map_of_eq_Some_iff comp_def)
  then show "m \<in> set (process_metrics parse_float env) \<Longrightarrow> dict_get (process_registry parse_float env) (mc_name m) = Some m"
    using \<open>distinct _\<close> by (simp add: dict_get_def process_registry_list)
qed

text \<open>No metric has a label for a task, a tenant or a trace.\<close>

lemma no_identity_labels:
  "m \<in> set (process_metrics parse_float env) \<Longrightarrow>
   set (mc_labelnames m) \<inter> {ascii ''task_id'', ascii ''tenant_id'', ascii ''trace_id''} = {}"
  by (auto simp: process_metrics_def metric_defs ascii_def)

section \<open>What a scraper reads is the account of what happened\<close>

definition label_key :: "pystr list \<Rightarrow> labels \<Rightarrow> pystr list" where
  "label_key ns ls = map (\<lambda>n. case map_of ls n of None \<Rightarrow> [] | Some v \<Rightarrow> v) ns"

definition series :: "metric_registry \<Rightarrow> pystr \<Rightarrow> pystr list \<Rightarrow> real" where
  "series reg n key = (case dict_get reg n of None \<Rightarrow> 0 | Some m \<Rightarrow> sample_of m key)"

definition observations :: "metric_registry \<Rightarrow> pystr \<Rightarrow> pystr list \<Rightarrow> nat" where
  "observations reg n key = (case dict_get reg n of None \<Rightarrow> 0 | Some m \<Rightarrow> hc_total (cell_of m key))"

definition labelnames_of :: "metric_registry \<Rightarrow> pystr \<Rightarrow> pystr list option" where
  "labelnames_of reg n = map_option mc_labelnames (dict_get reg n)"

definition fits :: "metric_registry \<Rightarrow> metric_update \<Rightarrow> bool" where
  "fits reg u = (case labelnames_of reg (update_target u) of None \<Rightarrow> False
     | Some ns \<Rightarrow> fst ` set (update_labels u) \<subseteq> set ns \<and> (case u of CounterInc _ _ v \<Rightarrow> 0 \<le> v | _ \<Rightarrow> True))"

definition added :: "pystr list \<Rightarrow> pystr \<Rightarrow> pystr list \<Rightarrow> metric_update \<Rightarrow> real" where
  "added ns n key u =
     (case u of
        CounterInc n' ls v \<Rightarrow> if n' = n \<and> label_key ns ls = key then v else 0
      | GaugeAdd n' ls v \<Rightarrow> if n' = n \<and> label_key ns ls = key then v else 0
      | _ \<Rightarrow> 0)"

definition observed :: "pystr list \<Rightarrow> pystr \<Rightarrow> pystr list \<Rightarrow> metric_update \<Rightarrow> nat" where
  "observed ns n key u = (case u of HistObserve n' ls v \<Rightarrow> if n' = n \<and> label_key ns ls = key then 1 else 0 | _ \<Rightarrow> 0)"

definition sets_gauge :: "pystr \<Rightarrow> metric_update \<Rightarrow> bool" where
  "sets_gauge n u = (case u of GaugeSet n' _ _ \<Rightarrow> n' = n | _ \<Rightarrow> False)"

lemma metric_key_fits: "fst ` set ls \<subseteq> set (mc_labelnames m) \<Longrightarrow> metric_key m ls = Inr (label_key (mc_labelnames m) ls)"
  by (simp add: metric_key_def label_key_def)

lemma update_metric_fits:
  assumes "fst ` set (update_labels u) \<subseteq> set (mc_labelnames m)" "case u of CounterInc _ _ v \<Rightarrow> 0 \<le> v | _ \<Rightarrow> True"
  shows "\<exists>m'. update_metric u m = Inr m' \<and> mc_labelnames m' = mc_labelnames m
    \<and> (\<not> sets_gauge (update_target u) u \<longrightarrow> sample_of m' key = sample_of m key + added (mc_labelnames m) (update_target u) key u)
    \<and> hc_total (cell_of m' key) = hc_total (cell_of m key) + observed (mc_labelnames m) (update_target u) key u"
  using assms metric_key_fits [OF assms(1)]
  by (cases u) (auto simp: counter_inc_def gauge_set_def gauge_inc_def observe_def observe_cell_def sets_gauge_def added_def observed_def
      sample_of_def cell_of_def update_conv split: option.splits)

lemma apply_update_fits:
  assumes "fits reg u"
  shows "\<exists>reg'. apply_update u reg = Inr reg' \<and> labelnames_of reg' = labelnames_of reg
    \<and> (\<forall>n ns key. labelnames_of reg n = Some ns \<longrightarrow>
         (\<not> sets_gauge n u \<longrightarrow> series reg' n key = series reg n key + added ns n key u)
         \<and> observations reg' n key = observations reg n key + observed ns n key u)"
proof -
  obtain m where m: "dict_get reg (update_target u) = Some m" "fst ` set (update_labels u) \<subseteq> set (mc_labelnames m)"
      "case u of CounterInc _ _ v \<Rightarrow> 0 \<le> v | _ \<Rightarrow> True"
    using assms by (auto simp: fits_def labelnames_of_def split: option.splits)
  obtain m' where m': "update_metric u m = Inr m'" "mc_labelnames m' = mc_labelnames m"
    using update_metric_fits [OF m(2,3)] by blast
  have step: "apply_update u reg = Inr (dict_set (update_target u) m' reg)" by (simp add: apply_update_def m(1) m'(1))
  have names: "labelnames_of (dict_set (update_target u) m' reg) = labelnames_of reg"
    by (rule ext) (simp add: labelnames_of_def m(1) m'(2))
  have other: "added ns n key u = 0 \<and> observed ns n key u = 0" if "n \<noteq> update_target u" for n ns key
    using that by (cases u) (auto simp: added_def observed_def)
  have same: "(\<not> sets_gauge (update_target u) u \<longrightarrow> sample_of m' key = sample_of m key + added (mc_labelnames m) (update_target u) key u)
      \<and> hc_total (cell_of m' key) = hc_total (cell_of m key) + observed (mc_labelnames m) (update_target u) key u" for key
    using update_metric_fits [OF m(2,3), of key] m'(1) by auto
  have "(\<not> sets_gauge n u \<longrightarrow> series (dict_set (update_target u) m' reg) n key = series reg n key + added ns n key u)
      \<and> observations (dict_set (update_target u) m' reg) n key = observations reg n key + observed ns n key u"
    if "labelnames_of reg n = Some ns" for n ns key
  proof (cases "n = update_target u")
    case True
    then have "ns = mc_labelnames m" using that m(1) by (simp add: labelnames_of_def)
    then show ?thesis using True same [of key] m(1) by (simp add: series_def observations_def)
  next
    case False
    then show ?thesis using other [OF False, of ns key] by (simp add: series_def observations_def)
  qed
  then show ?thesis using step names by blast
qed

lemma apply_updates_fit:
  assumes "\<forall>u \<in> set us. fits reg u"
  shows "\<exists>reg'. apply_updates us reg = Inr reg' \<and> labelnames_of reg' = labelnames_of reg
    \<and> (\<forall>n ns key. labelnames_of reg n = Some ns \<longrightarrow>
         ((\<forall>u \<in> set us. \<not> sets_gauge n u) \<longrightarrow> series reg' n key = series reg n key + (\<Sum>u\<leftarrow>us. added ns n key u))
         \<and> observations reg' n key = observations reg n key + (\<Sum>u\<leftarrow>us. observed ns n key u))"
  using assms
proof (induction us arbitrary: reg)
  case (Cons u us)
  have "fits reg u" using Cons.prems by simp
  from apply_update_fits [OF this] obtain mid where mid: "apply_update u reg = Inr mid" "labelnames_of mid = labelnames_of reg"
      "\<forall>n ns key. labelnames_of reg n = Some ns \<longrightarrow>
         (\<not> sets_gauge n u \<longrightarrow> series mid n key = series reg n key + added ns n key u)
         \<and> observations mid n key = observations reg n key + observed ns n key u" by blast
  have "\<forall>x \<in> set us. fits mid x" using Cons.prems mid(2) by (simp add: fits_def)
  from Cons.IH [OF this] obtain reg' where reg': "apply_updates us mid = Inr reg'" "labelnames_of reg' = labelnames_of mid"
      "\<forall>n ns key. labelnames_of mid n = Some ns \<longrightarrow>
         ((\<forall>u \<in> set us. \<not> sets_gauge n u) \<longrightarrow> series reg' n key = series mid n key + (\<Sum>u\<leftarrow>us. added ns n key u))
         \<and> observations reg' n key = observations mid n key + (\<Sum>u\<leftarrow>us. observed ns n key u)" by blast
  show ?case using mid reg' by (intro exI [of _ reg']) simp
qed simp

lemma sum_concat: "(\<Sum>u\<leftarrow>concat (map f xs). g u) = (\<Sum>x\<leftarrow>xs. \<Sum>u\<leftarrow>f x. (g u :: 'a :: comm_monoid_add))"
  by (induction xs) simp_all

lemma process_labelnames:
  "labelnames_of (process_registry parse_float env) n =
     map_of (map (\<lambda>(name, ls). (ascii name, map ascii ls))
       [(''agent_tasks_total'', [''status'']), (''agent_task_duration_seconds'', [''status'']), (''agent_tasks_inflight'', []),
        (''agent_queue_depth'', []), (''agent_llm_calls_total'', [''model'', ''outcome'']),
        (''agent_llm_call_duration_seconds'', [''model'']), (''agent_llm_tokens_total'', [''model'']),
        (''agent_tool_calls_total'', [''tool'', ''outcome'']), (''agent_tool_execution_duration_seconds'', [''tool'']),
        (''agent_events_total'', [''type'']), (''agent_selfheal_total'', [''tool'']), (''agent_build_info'', [''version'', ''pid'']),
        (''agent_process_start_time_seconds'', [''pid''])]) n"
  unfolding labelnames_of_def process_registry_list process_metrics_def metric_defs dict_get_def by simp

lemma process_start: "series (process_registry parse_float env) n key = 0 \<and> observations (process_registry parse_float env) n key = 0"
proof -
  have fresh: "mc_samples m = [] \<and> mc_cells m = []" if "m \<in> set (process_metrics parse_float env)" for m
    using that by (auto simp: process_metrics_def metric_defs)
  have "m \<in> set (process_metrics parse_float env)" if "dict_get (process_registry parse_float env) n = Some m" for m
    using map_of_SomeD [OF that [unfolded dict_get_def]] by (auto simp: process_registry_list)
  then show ?thesis using fresh by (auto simp: series_def observations_def sample_of_def cell_of_def split: option.splits)
qed

definition sane_tokens :: "meter \<Rightarrow> bool" where
  "sane_tokens x = (case x of LlmAnswers _ _ k \<Rightarrow> 0 \<le> k | _ \<Rightarrow> True)"

lemma meter_fits: "sane_tokens x \<Longrightarrow> u \<in> set (meter_updates x) \<Longrightarrow> fits (process_registry parse_float env) u"
  by (cases x) (auto simp: fits_def process_labelnames sane_tokens_def ascii_def split: if_splits)

lemma meter_account:
  assumes "\<forall>x \<in> set ms. sane_tokens x"
  obtains reg where "apply_updates (concat (map meter_updates ms)) (process_registry parse_float env) = Inr reg"
    "\<And>n ns key. labelnames_of (process_registry parse_float env) n = Some ns \<Longrightarrow> n \<noteq> ascii ''agent_queue_depth'' \<Longrightarrow>
       series reg n key = (\<Sum>x\<leftarrow>ms. \<Sum>u\<leftarrow>meter_updates x. added ns n key u)"
    "\<And>n ns key. labelnames_of (process_registry parse_float env) n = Some ns \<Longrightarrow>
       observations reg n key = (\<Sum>x\<leftarrow>ms. \<Sum>u\<leftarrow>meter_updates x. observed ns n key u)"
proof -
  let ?us = "concat (map meter_updates ms)"
  have "\<forall>u \<in> set ?us. fits (process_registry parse_float env) u" using assms meter_fits by auto
  from apply_updates_fit [OF this] obtain reg where reg: "apply_updates ?us (process_registry parse_float env) = Inr reg"
      "\<forall>n ns key. labelnames_of (process_registry parse_float env) n = Some ns \<longrightarrow>
         ((\<forall>u \<in> set ?us. \<not> sets_gauge n u) \<longrightarrow> series reg n key = series (process_registry parse_float env) n key + (\<Sum>u\<leftarrow>?us. added ns n key u))
         \<and> observations reg n key = observations (process_registry parse_float env) n key + (\<Sum>u\<leftarrow>?us. observed ns n key u)" by blast
  have "\<not> sets_gauge n u" if "u \<in> set (meter_updates x)" "n \<noteq> ascii ''agent_queue_depth''" for n u x
    using that by (cases x) (auto simp: sets_gauge_def split: if_splits)
  then have calm: "\<forall>u \<in> set ?us. \<not> sets_gauge n u" if "n \<noteq> ascii ''agent_queue_depth''" for n using that by auto
  show thesis
    by (rule that [OF reg(1)]) (use reg(2) calm in \<open>simp_all add: process_start sum_concat\<close>)
qed

definition task_ends :: "meter \<Rightarrow> bool" where
  "task_ends x = (case x of TaskReturns _ _ \<Rightarrow> True | TaskRaises \<Rightarrow> True | _ \<Rightarrow> False)"

definition llm_call_of :: "pystr \<Rightarrow> bool \<Rightarrow> meter \<Rightarrow> bool" where
  "llm_call_of model ok x = (case x of LlmAnswers m _ _ \<Rightarrow> ok \<and> m = model | LlmFails m _ \<Rightarrow> \<not> ok \<and> m = model | _ \<Rightarrow> False)"

definition spent_tokens :: "pystr \<Rightarrow> meter \<Rightarrow> int" where
  "spent_tokens model x = (case x of LlmAnswers m _ k \<Rightarrow> if m = model then k else 0 | _ \<Rightarrow> 0)"

definition tool_answer_of :: "pystr \<Rightarrow> bool \<Rightarrow> meter \<Rightarrow> bool" where
  "tool_answer_of tool ok x = (case x of ToolAnswered t b \<Rightarrow> t = tool \<and> b = ok | _ \<Rightarrow> False)"

definition task_return_of :: "pystr \<Rightarrow> meter \<Rightarrow> bool" where
  "task_return_of status x = (case x of TaskReturns s _ \<Rightarrow> s = status | _ \<Rightarrow> False)"

lemma meter_parts:
  "(\<Sum>u\<leftarrow>meter_updates x. added [] (ascii ''agent_tasks_inflight'') [] u) = (if x = TaskBegins then 1 else 0) - (if task_ends x then 1 else 0)"
  "(\<Sum>u\<leftarrow>meter_updates x. added [ascii ''model'', ascii ''outcome''] (ascii ''agent_llm_calls_total'') [model, ascii ''ok''] u)
      = (if llm_call_of model True x then 1 else 0)"
  "(\<Sum>u\<leftarrow>meter_updates x. added [ascii ''model'', ascii ''outcome''] (ascii ''agent_llm_calls_total'') [model, ascii ''error''] u)
      = (if llm_call_of model False x then 1 else 0)"
  "(\<Sum>u\<leftarrow>meter_updates x. added [ascii ''model''] (ascii ''agent_llm_tokens_total'') [model] u) = of_int (spent_tokens model x)"
  "(\<Sum>u\<leftarrow>meter_updates x. observed [ascii ''model''] (ascii ''agent_llm_call_duration_seconds'') [model] u)
      = (if llm_call_of model True x then 1 else 0) + (if llm_call_of model False x then 1 else 0)"
  "(\<Sum>u\<leftarrow>meter_updates x. added [ascii ''tool'', ascii ''outcome''] (ascii ''agent_tool_calls_total'')
      [tool, if ok then ascii ''ok'' else ascii ''error''] u) = (if tool_answer_of tool ok x then 1 else 0)"
  "(\<Sum>u\<leftarrow>meter_updates x. added [ascii ''status''] (ascii ''agent_tasks_total'') [status] u) = (if task_return_of status x then 1 else 0)"
  "(\<Sum>u\<leftarrow>meter_updates x. observed [ascii ''status''] (ascii ''agent_task_duration_seconds'') [status] u)
      = (if status \<noteq> ascii ''waiting_approval'' \<and> task_return_of status x then 1 else 0)"
  by (cases x; auto simp: added_def observed_def label_key_def ascii_def task_ends_def llm_call_of_def spent_tokens_def tool_answer_of_def
      task_return_of_def)+

lemma meter_sums:
  fixes xs :: "meter list"
  shows "(\<Sum>x\<leftarrow>xs. if P x then 1 else (0 :: real)) = real (length (filter P xs))"
    "(\<Sum>x\<leftarrow>xs. if P x then 1 else (0 :: nat)) = length (filter P xs)"
    "(\<Sum>x\<leftarrow>xs. (if x = TaskBegins then 1 else 0) - (if task_ends x then 1 else (0 :: real)))
      = real (count_list xs TaskBegins) - real (length (filter task_ends xs))"
    "(\<Sum>x\<leftarrow>xs. (if P x then 1 else 0) + (if Q x then 1 else (0 :: nat))) = length (filter P xs) + length (filter Q xs)"
    "(\<Sum>x\<leftarrow>xs. of_int (spent_tokens model x)) = (of_int (\<Sum>x\<leftarrow>xs. spent_tokens model x) :: real)"
    "(\<Sum>x\<leftarrow>xs. if b \<and> P x then 1 else (0 :: nat)) = (if b then length (filter P xs) else 0)"
  by (induction xs) auto



text \<open>A run that ends with an exception appears in no series of finished tasks.\<close>

lemma raised_runs_uncounted:
  "added ns (ascii ''agent_tasks_total'') key u = 0 \<and> observed ns (ascii ''agent_task_duration_seconds'') key u = 0"
  if "u \<in> set (meter_updates TaskRaises)"
  using that by (simp add: added_def observed_def ascii_def)

text \<open>The identity of the process: the build information is always one, with a version that is never empty.\<close>

lemma init_process_identity:
  assumes "init_process_metrics version env_version pid start (process_registry parse_float env) = Inr reg"
  shows "\<exists>v. v \<noteq> [] \<and> series reg (ascii ''agent_build_info'') [v, pid] = 1
    \<and> series reg (ascii ''agent_process_start_time_seconds'') [pid] = start"
proof -
  define v where "v = (if version \<noteq> [] then version else if env_version \<noteq> [] then env_version else ascii ''dev'')"
  have b: "dict_get (process_registry parse_float env) (ascii ''agent_build_info'') = Some build_info_gauge"
    using process_registry_get [of build_info_gauge parse_float env] by (simp add: process_metrics_def build_info_gauge_def new_gauge_def)
  have p: "dict_get (process_registry parse_float env) (ascii ''agent_process_start_time_seconds'') = Some process_start_time"
    using process_registry_get [of process_start_time parse_float env] by (simp add: process_metrics_def process_start_time_def new_gauge_def)
  have "v \<noteq> []" by (simp add: v_def ascii_def)
  moreover have "series reg (ascii ''agent_build_info'') [v, pid] = 1 \<and> series reg (ascii ''agent_process_start_time_seconds'') [pid] = start"
    using assms b p unfolding init_process_metrics_def Let_def v_def [symmetric]
    by (auto simp: apply_update_def gauge_set_def metric_key_def build_info_gauge_def process_start_time_def new_gauge_def ascii_def
        series_def sample_of_def split: sum.splits)
  ultimately show ?thesis by blast
qed

end
