(* ===== verification/Assembly.thy ===== *)
theory Assembly
  imports Process_Metrics Registry Rate_Limit
begin

text \<open>
  The assembly of the application: the engine with its checkpoint store (\<^verbatim>\<open>app/runtime.py\<close>), start and end of the
  service and its settings (\<^verbatim>\<open>app/main.py\<close>), and the launcher on both loopback addresses
  (\<^verbatim>\<open>scripts/serve_dualstack.py\<close>). Each step that can fail answers as a function of the history of steps, so that
  every pattern of failures is covered.
\<close>

section \<open>The engine and its checkpoint store\<close>

text \<open>A failure: its text, and whether it is an \<open>Exception\<close> and no interruption.\<close>

record failure =
  fl_text :: pystr
  fl_exception :: bool

datatype asm_action =
    OpenStore
  | ConfigureStore
  | SetupStore
  | CloseStore
  | BuildEngine
  | OpenDatabase
  | CreateTables
  | BuildTools
  | StartQueue
  | Bootstrap
  | StopQueue
  | DisposeDatabase

type_synonym asm_history = "asm_action list"

type_synonym asm_oracle = "asm_history \<Rightarrow> failure option"

text \<open>One step: the action is noted, and may fail.\<close>

definition attempt_step :: "asm_oracle \<Rightarrow> asm_action \<Rightarrow> asm_history \<Rightarrow> (failure + unit) \<times> asm_history" where
  "attempt_step fails a h = (case fails (h @ [a]) of None \<Rightarrow> (Inr (), h @ [a]) | Some e \<Rightarrow> (Inl e, h @ [a]))"

text \<open>Steps in order; the first failure ends them.\<close>

fun run_steps :: "asm_oracle \<Rightarrow> asm_action list \<Rightarrow> asm_history \<Rightarrow> (failure + unit) \<times> asm_history" where
  "run_steps fails [] h = (Inr (), h)"
| "run_steps fails (a # as) h =
     (case attempt_step fails a h of
        (Inl e, h1) \<Rightarrow> (Inl e, h1)
      | (Inr _, h1) \<Rightarrow> run_steps fails as h1)"

datatype store_kind = SqliteStore | PostgresStore

text \<open>\<open>build_saver\<close>: the connection or the pool, the pragmas of SQLite, and the tables. The closer is always given.\<close>

definition build_saver :: "asm_oracle \<Rightarrow> store_kind \<Rightarrow> asm_history \<Rightarrow> (failure + unit) \<times> asm_history" where
  "build_saver fails kind =
     run_steps fails (case kind of SqliteStore \<Rightarrow> [OpenStore, ConfigureStore, SetupStore] | PostgresStore \<Rightarrow> [OpenStore, SetupStore])"

text \<open>A failure of the closer that is an \<open>Exception\<close> does not hide the first one.\<close>

definition build_engine_with_saver :: "asm_oracle \<Rightarrow> store_kind \<Rightarrow> asm_history \<Rightarrow> (failure + unit) \<times> asm_history" where
  "build_engine_with_saver fails kind h =
     (case build_saver fails kind h of
        (Inl e, h1) \<Rightarrow> (Inl e, h1)
      | (Inr _, h1) \<Rightarrow>
          (case attempt_step fails BuildEngine h1 of
             (Inr _, h2) \<Rightarrow> (Inr (), h2)
           | (Inl e, h2) \<Rightarrow>
               (case attempt_step fails CloseStore h2 of
                  (Inr _, h3) \<Rightarrow> (Inl e, h3)
                | (Inl e2, h3) \<Rightarrow> (Inl (if fl_exception e2 then e else e2), h3))))"

record engine_holder =
  eh_engine :: bool
  eh_closer :: bool

definition new_holder :: engine_holder where "new_holder = \<lparr>eh_engine = False, eh_closer = False\<rparr>"

definition holder_start :: "asm_oracle \<Rightarrow> store_kind \<Rightarrow> engine_holder \<Rightarrow> asm_history \<Rightarrow> (failure + unit) \<times> engine_holder \<times> asm_history" where
  "holder_start fails kind eh h =
     (case build_saver fails kind h of
        (Inl e, h1) \<Rightarrow> (Inl e, eh, h1)
      | (Inr _, h1) \<Rightarrow>
          (case attempt_step fails BuildEngine h1 of
             (Inl e, h2) \<Rightarrow> (Inl e, eh\<lparr>eh_closer := True\<rparr>, h2)
           | (Inr _, h2) \<Rightarrow> (Inr (), \<lparr>eh_engine = True, eh_closer = True\<rparr>, h2)))"

definition holder_close :: "asm_oracle \<Rightarrow> engine_holder \<Rightarrow> asm_history \<Rightarrow> (failure + unit) \<times> engine_holder \<times> asm_history" where
  "holder_close fails eh h =
     (if eh_closer eh then
        (case attempt_step fails CloseStore h of
           (Inl e, h1) \<Rightarrow> (Inl e, eh, h1)
         | (Inr _, h1) \<Rightarrow> (Inr (), \<lparr>eh_engine = False, eh_closer = False\<rparr>, h1))
      else (Inr (), eh\<lparr>eh_engine := False\<rparr>, h))"

section \<open>Start and end of the service\<close>

text \<open>\<open>lifespan\<close> up to its \<open>yield\<close>, and after it.\<close>

definition service_start :: "asm_oracle \<Rightarrow> store_kind \<Rightarrow> asm_history \<Rightarrow> (failure + unit) \<times> engine_holder \<times> asm_history" where
  "service_start fails kind h =
     (case run_steps fails [OpenDatabase, CreateTables, BuildTools] h of
        (Inl e, h1) \<Rightarrow> (Inl e, new_holder, h1)
      | (Inr _, h1) \<Rightarrow>
          (case holder_start fails kind new_holder h1 of
             (Inl e, eh, h2) \<Rightarrow> (Inl e, eh, h2)
           | (Inr _, eh, h2) \<Rightarrow>
               (case run_steps fails [StartQueue, Bootstrap] h2 of (r, h3) \<Rightarrow> (r, eh, h3))))"

definition service_stop :: "asm_oracle \<Rightarrow> engine_holder \<Rightarrow> asm_history \<Rightarrow> (failure + unit) \<times> asm_history" where
  "service_stop fails eh h =
     (case attempt_step fails StopQueue h of
        (Inl e, h1) \<Rightarrow> (Inl e, h1)
      | (Inr _, h1) \<Rightarrow>
          (case holder_close fails eh h1 of
             (Inl e, _, h2) \<Rightarrow> (Inl e, h2)
           | (Inr _, _, h2) \<Rightarrow> attempt_step fails DisposeDatabase h2))"

section \<open>Settings\<close>

text \<open>\<open>_export_bucket_overrides\<close>: the environment is only filled where it has no value.\<close>

record bucket_settings =
  bs_task :: pystr
  bs_llm :: pystr
  bs_tool :: pystr

definition export_one :: "pystr \<times> pystr \<Rightarrow> pystr dict \<Rightarrow> pystr dict" where
  "export_one nv env = (if snd nv \<noteq> [] then setdefault (fst nv) (snd nv) env else env)"

definition export_bucket_overrides :: "bucket_settings \<Rightarrow> pystr dict \<Rightarrow> pystr dict" where
  "export_bucket_overrides s env =
     fold export_one [(ascii ''METRICS_BUCKETS_TASK'', bs_task s), (ascii ''METRICS_BUCKETS_LLM'', bs_llm s),
       (ascii ''METRICS_BUCKETS_TOOL'', bs_tool s)] env"

text \<open>
  The module \<open>app.main\<close>: its import statements run first, and with them the module of the metrics, which registers the
  metrics with buckets from the environment; the overrides are exported afterwards, and then the process is identified.
\<close>

definition import_main ::
    "(pystr \<Rightarrow> real option) \<Rightarrow> bucket_settings \<Rightarrow> pystr \<Rightarrow> real \<Rightarrow> pystr dict \<Rightarrow> (metric_error + metric_registry) \<times> pystr dict" where
  "import_main parse_float s pid start env =
     (let reg = process_registry parse_float env;
          env1 = export_bucket_overrides s env;
          version = (case dict_get env1 (ascii ''AGENT_VERSION'') of None \<Rightarrow> [] | Some v \<Rightarrow> v)
      in (init_process_metrics (if version \<noteq> [] then version else ascii ''dev'') version pid start reg, env1))"

text \<open>The body of \<open>/health\<close>; \<open>info\<close> is the result of the assembly of the sandbox.\<close>

definition health_body :: "json dict option \<Rightarrow> json dict" where
  "health_body info =
     [(ascii ''status'', JStr (ascii ''ok''))]
     @ (case info of None \<Rightarrow> [] | Some d \<Rightarrow> if d = [] then [] else [(ascii ''sandbox'', JObj d)])"

text \<open>\<open>_prometheus_route\<close>: the path under which the metrics are served.\<close>

definition prometheus_route :: "bool \<Rightarrow> pystr \<Rightarrow> pystr option" where
  "prometheus_route enabled path = (if enabled then Some (if path \<noteq> [] then path else ascii ''/metrics'') else None)"

section \<open>The launcher\<close>

record launch_args =
  la_host :: pystr
  la_port :: int
  la_rest :: "pystr list"

text \<open>The loop over \<open>sys.argv\<close>; \<open>to_int\<close> is Python's \<open>int\<close> of a text, \<open>None\<close> when it raises.\<close>

fun parse_launch_args :: "(pystr \<Rightarrow> int option) \<Rightarrow> pystr list \<Rightarrow> launch_args \<Rightarrow> launch_args option" where
  "parse_launch_args to_int (a # b # rest) la =
     (if a = ascii ''--host'' then parse_launch_args to_int rest (la\<lparr>la_host := b\<rparr>)
      else if a = ascii ''--port'' then
        (case to_int b of None \<Rightarrow> None | Some p \<Rightarrow> parse_launch_args to_int rest (la\<lparr>la_port := p\<rparr>))
      else parse_launch_args to_int (b # rest) (la\<lparr>la_rest := la_rest la @ [a]\<rparr>))"
| "parse_launch_args to_int [a] la = Some (la\<lparr>la_rest := la_rest la @ [a]\<rparr>)"
| "parse_launch_args to_int [] la = Some la"

text \<open>The remaining arguments in pairs, as keywords of the server.\<close>

fun keyword_args :: "pystr list \<Rightarrow> pystr dict \<Rightarrow> pystr dict" where
  "keyword_args (k # v # rest) acc =
     keyword_args rest (dict_set (map (\<lambda>c. if c = 45 then 95 else c) (dropWhile (\<lambda>c. c = 45) k)) v acc)"
| "keyword_args _ acc = acc"

record listener =
  ln_address :: pystr
  ln_port :: int
  ln_ipv6 :: bool

definition bind_listener :: "pystr \<Rightarrow> int \<Rightarrow> listener" where
  "bind_listener host port = \<lparr>ln_address = host, ln_port = port, ln_ipv6 = (58 \<in> set host)\<rparr>"

definition launch_targets :: "pystr list" where
  "launch_targets = [ascii ''127.0.0.1'', ascii ''::1'']"

datatype launch_result = LaunchRaised | NoListener | Serving "listener list" "pystr dict"

text \<open>
  \<open>main\<close>. \<open>can_bind\<close> tells where the operating system lets the process listen, \<open>config_ok\<close> which keywords the
  server's configuration knows besides the three that are given; a port that is no port raises an error the loop does
  not catch.
\<close>

definition launch :: "(pystr \<Rightarrow> int option) \<Rightarrow> (pystr \<Rightarrow> int \<Rightarrow> bool) \<Rightarrow> (pystr dict \<Rightarrow> bool) \<Rightarrow> pystr list \<Rightarrow> launch_result" where
  "launch to_int can_bind config_ok argv =
     (case parse_launch_args to_int argv \<lparr>la_host = ascii ''127.0.0.1'', la_port = 8000, la_rest = []\<rparr> of
        None \<Rightarrow> LaunchRaised
      | Some la \<Rightarrow>
          if la_port la < 0 \<or> la_port la > 65535 then LaunchRaised
          else
            (let sockets = map (\<lambda>t. bind_listener t (la_port la)) (filter (\<lambda>t. can_bind t (la_port la)) launch_targets);
                 extra = keyword_args (la_rest la) []
             in if sockets = [] then NoListener
                else if list_ex (\<lambda>kv. fst kv \<in> {ascii ''app'', ascii ''host'', ascii ''port''}) extra \<or> \<not> config_ok extra
                then LaunchRaised
                else Serving sockets extra))"

section \<open>What is opened is closed\<close>

text \<open>The stores that are open after a history.\<close>

definition open_stores :: "asm_history \<Rightarrow> int" where
  "open_stores h = int (count_list h OpenStore) - int (count_list h CloseStore)"

lemma open_stores_append: "open_stores (a @ b) = open_stores a + open_stores b"
  by (simp add: open_stores_def)

lemma attempt_step_cases:
  "attempt_step fails a h = (r, h1) \<Longrightarrow> h1 = h @ [a] \<and> (r = Inr () \<longleftrightarrow> fails h1 = None)"
  by (auto simp: attempt_step_def split: option.splits)

lemma run_steps_prefix:
  "run_steps fails as h = (r, h1) \<Longrightarrow> \<exists>n. h1 = h @ take n as \<and> (r = Inr () \<longrightarrow> h1 = h @ as)"
proof (induction as arbitrary: h)
  case (Cons a as)
  obtain q h2 where step: "attempt_step fails a h = (q, h2)" by fastforce
  have h2: "h2 = h @ [a]" using attempt_step_cases [OF step] by simp
  show ?case
  proof (cases q)
    case (Inl e)
    then show ?thesis using Cons.prems step h2 by (intro exI [of _ 1]) auto
  next
    case (Inr v)
    then have "run_steps fails as h2 = (r, h1)" using Cons.prems step by simp
    from Cons.IH [OF this] obtain n where "h1 = h2 @ take n as \<and> (r = Inr () \<longrightarrow> h1 = h2 @ as)" by blast
    then show ?thesis using h2 by (intro exI [of _ "Suc n"]) auto
  qed
qed simp

lemma build_saver_Inr:
  "build_saver fails kind h = (Inr u, h1) \<Longrightarrow> open_stores h1 = open_stores h + 1 \<and> BuildEngine \<notin> set (drop (length h) h1)"
  unfolding build_saver_def using run_steps_prefix by (cases kind) (fastforce simp: open_stores_def)+

lemma build_saver_no_engine: "build_saver fails kind h = (r, h1) \<Longrightarrow> BuildEngine \<notin> set (drop (length h) h1)"
  unfolding build_saver_def
  by (cases kind) (fastforce dest!: run_steps_prefix dest: in_set_takeD)+

text \<open>
  An engine that cannot be built leaves no store behind: whatever fails, when the checkpoint store was opened and
  the construction of the engine then fails, the store is closed as the last step and the caller sees the failure of
  the construction, unless closing is interrupted; when everything succeeds exactly one store is open and the
  caller has its closer.
\<close>

theorem engine_failure_closes_store:
  assumes "build_engine_with_saver fails kind h = (r, h1)"
  shows "(\<forall>u. r = Inr u \<longrightarrow> open_stores h1 = open_stores h + 1)
    \<and> (\<forall>e. r = Inl e \<longrightarrow> BuildEngine \<in> set (drop (length h) h1) \<longrightarrow>
         open_stores h1 = open_stores h \<and> last h1 = CloseStore \<and> (fails (butlast h1) = Some e \<or> (fails h1 = Some e \<and> \<not> fl_exception e)))"
proof -
  obtain q h2 where saver: "build_saver fails kind h = (q, h2)" by fastforce
  show ?thesis
  proof (cases q)
    case (Inl e)
    then show ?thesis using assms saver build_saver_no_engine [OF saver] by (auto simp: build_engine_with_saver_def)
  next
    case (Inr v)
    have one: "open_stores h2 = open_stores h + 1" using build_saver_Inr saver Inr by blast
    then have shut: "open_stores (h2 @ [BuildEngine, CloseStore]) = open_stores h" "open_stores (h2 @ [BuildEngine]) = open_stores h + 1"
      by (simp_all add: open_stores_def)
    show ?thesis
    proof (cases "fails (h2 @ [BuildEngine])")
      case None
      then show ?thesis using assms saver Inr shut(2) by (auto simp: build_engine_with_saver_def attempt_step_def)
    next
      case (Some e)
      have parts: "butlast (h2 @ [BuildEngine, CloseStore]) = h2 @ [BuildEngine]" by (simp add: butlast_append)
      have h1: "h1 = h2 @ [BuildEngine, CloseStore]"
        using assms saver Inr Some by (auto simp: build_engine_with_saver_def attempt_step_def split: option.splits)
      have r: "r = Inl (case fails h1 of None \<Rightarrow> e | Some e2 \<Rightarrow> if fl_exception e2 then e else e2)"
        using assms saver Inr Some h1 by (auto simp: build_engine_with_saver_def attempt_step_def split: option.splits)
      show ?thesis using r shut(1) Some parts h1 by (auto split: option.splits)
    qed
  qed
qed

definition broken_engine :: asm_oracle where
  "broken_engine h = (if last h = BuildEngine then Some \<lparr>fl_text = ascii ''no model'', fl_exception = True\<rparr> else None)"

theorem engine_failure_closes_store_witness:
  "\<exists>h1. build_engine_with_saver broken_engine SqliteStore [] = (Inl \<lparr>fl_text = ascii ''no model'', fl_exception = True\<rparr>, h1)
     \<and> open_stores h1 = 0 \<and> last h1 = CloseStore"
proof -
  have run: "build_engine_with_saver broken_engine SqliteStore [] = (Inl \<lparr>fl_text = ascii ''no model'', fl_exception = True\<rparr>,
      [OpenStore, ConfigureStore, SetupStore, BuildEngine, CloseStore])"
    by (simp add: build_engine_with_saver_def build_saver_def attempt_step_def broken_engine_def)
  show ?thesis using engine_failure_closes_store [OF run] run by (simp add: open_stores_def)
qed

text \<open>A store whose tables cannot be set up stays open: only the construction of the engine is guarded.\<close>

lemma failed_setup_leaks_store:
  assumes "fails (h @ [OpenStore]) = None" "fails (h @ [OpenStore, SetupStore]) = Some e"
  shows "build_engine_with_saver fails PostgresStore h = (Inl e, h @ [OpenStore, SetupStore])"
  using assms by (simp add: build_engine_with_saver_def build_saver_def attempt_step_def)

text \<open>The service closes what it opened, in the reverse order, when every step of its end succeeds.\<close>

lemma service_balanced:
  assumes "service_start fails kind h = (Inr u, eh, h1)" "service_stop fails eh h1 = (Inr v, h2)"
  shows "open_stores h2 = open_stores h \<and> \<not> eh_closer new_holder \<and> (\<exists>mid. h2 = mid @ [StopQueue, CloseStore, DisposeDatabase])"
proof -
  obtain g1 where s1: "run_steps fails [OpenDatabase, CreateTables, BuildTools] h = (Inr (), g1)"
    using assms(1) by (auto simp: service_start_def split: sum.splits prod.splits)
  have g1: "g1 = h @ [OpenDatabase, CreateTables, BuildTools]" using run_steps_prefix [OF s1] by blast
  obtain g2 where s2: "holder_start fails kind new_holder g1 = (Inr (), eh, g2)" "run_steps fails [StartQueue, Bootstrap] g2 = (Inr (), h1)"
    using assms(1) s1 by (auto simp: service_start_def split: sum.splits prod.splits)
  have h1: "h1 = g2 @ [StartQueue, Bootstrap]" using run_steps_prefix [OF s2(2)] by blast
  obtain g3 where s3: "build_saver fails kind g1 = (Inr (), g3)" "g2 = g3 @ [BuildEngine]" "eh_closer eh"
    using s2(1) by (auto simp: holder_start_def attempt_step_def split: sum.splits prod.splits option.splits)
  have "open_stores g3 = open_stores g1 + 1" using build_saver_Inr [OF s3(1)] by simp
  moreover have "h2 = h1 @ [StopQueue, CloseStore, DisposeDatabase]"
    using assms(2) s3(3) by (auto simp: service_stop_def holder_close_def attempt_step_def split: option.splits)
  ultimately show ?thesis using g1 h1 s3(2) by (simp add: open_stores_def new_holder_def)
qed

text \<open>
  But the steps of the end are not guarded: a queue that cannot stop leaves the store and the database open, and a
  start that fails after the store was opened closes nothing.
\<close>

lemma failed_stop_leaks: "fails (h @ [StopQueue]) = Some e \<Longrightarrow> service_stop fails eh h = (Inl e, h @ [StopQueue])"
  by (simp add: service_stop_def attempt_step_def)

section \<open>Settings that come too late\<close>

lemma export_keeps_environment:
  assumes "dict_get env n = Some v"
  shows "dict_get (export_bucket_overrides s env) n = Some v"
proof -
  have "dict_get (export_one nv e) n = Some v" if "dict_get e n = Some v" for nv e
    using that by (auto simp: export_one_def setdefault_def)
  then show ?thesis using assms by (simp add: export_bucket_overrides_def)
qed

text \<open>
  The settings for the buckets have no effect: when they are exported, the histograms have already been made from
  the environment without them.
\<close>

lemma export_one_other: "n \<noteq> fst nv \<Longrightarrow> dict_get (export_one nv env) n = dict_get env n"
  by (cases "dict_get env (fst nv)") (auto simp: export_one_def setdefault_def)

lemma export_bucket_other:
  assumes "n \<noteq> ascii ''METRICS_BUCKETS_TASK''" "n \<noteq> ascii ''METRICS_BUCKETS_LLM''" "n \<noteq> ascii ''METRICS_BUCKETS_TOOL''"
  shows "dict_get (export_bucket_overrides s env) n = dict_get env n"
  unfolding export_bucket_overrides_def fold_simps o_def id_def
  using assms export_one_other [of n] by simp

lemma bucket_settings_ignored:
  "fst (import_main parse_float s pid start env) = fst (import_main parse_float s' pid start env)"
proof -
  have other: "dict_get (export_bucket_overrides x env) (ascii ''AGENT_VERSION'') = dict_get env (ascii ''AGENT_VERSION'')" for x
    by (rule export_bucket_other) (simp_all add: ascii_def)
  show ?thesis unfolding import_main_def Let_def other by simp
qed

section \<open>The launcher stays on the machine\<close>

text \<open>
  The launcher never listens beyond the machine: whatever arguments it gets, a host included, every address it
  listens on is a loopback address, at most one of each family, all on the one port that was asked for.
\<close>

theorem launch_loopback_only:
  assumes "launch to_int can_bind config_ok argv = Serving ls kws"
  shows "ls \<noteq> [] \<and> distinct (map ln_ipv6 ls) \<and> (\<exists>port. \<forall>l \<in> set ls. ln_port l = port \<and> can_bind (ln_address l) port
      \<and> (if ln_ipv6 l then ln_address l = ascii ''::1'' else ln_address l = ascii ''127.0.0.1''))"
proof -
  obtain la :: launch_args where ls: "ls = map (\<lambda>t. bind_listener t (la_port la)) (filter (\<lambda>t. can_bind t (la_port la)) launch_targets)" "ls \<noteq> []"
  proof -
    obtain la :: launch_args where la: "parse_launch_args to_int argv \<lparr>la_host = ascii ''127.0.0.1'', la_port = 8000, la_rest = []\<rparr> = Some la"
      using assms by (auto simp: launch_def split: option.splits)
    show thesis using assms that [of la] by (auto simp: launch_def la Let_def split: if_splits)
  qed
  have "distinct (map ln_ipv6 ls)" using ls(1) by (simp add: launch_targets_def bind_listener_def ascii_def)
  moreover have "\<forall>l \<in> set ls. ln_port l = la_port la \<and> can_bind (ln_address l) (la_port la)
      \<and> (if ln_ipv6 l then ln_address l = ascii ''::1'' else ln_address l = ascii ''127.0.0.1'')"
    using ls(1) by (auto simp: launch_targets_def bind_listener_def ascii_def)
  ultimately show ?thesis using ls(2) by blast
qed

theorem launch_loopback_only_witness:
  "\<exists>ls. launch (\<lambda>_. Some 80) (\<lambda>_ _. True) (\<lambda>_. True) [ascii ''--host'', ascii ''0.0.0.0'', ascii ''--port'', ascii ''80''] = Serving ls []
     \<and> map ln_ipv6 ls = [False, True] \<and> ls \<noteq> []"
proof -
  have run: "launch (\<lambda>_. Some 80) (\<lambda>_ _. True) (\<lambda>_. True) [ascii ''--host'', ascii ''0.0.0.0'', ascii ''--port'', ascii ''80'']
      = Serving [bind_listener (ascii ''127.0.0.1'') 80, bind_listener (ascii ''::1'') 80] []"
    by (simp add: launch_def launch_targets_def ascii_def)
  show ?thesis using launch_loopback_only [OF run] run by (simp add: bind_listener_def ascii_def)
qed

end
