(* ===== verification/Offline.thy ===== *)
theory Offline
  imports Llm Process_Metrics
begin

text \<open>
  The scripted model of the offline mode (\<^verbatim>\<open>FakeScriptedLLM\<close> in \<^verbatim>\<open>app/core/llm.py\<close>): it answers calls from a script,
  estimates tokens as the real client does when the upstream gives none, and keeps a record of its calls. The metrics
  that both clients write are part of it.
\<close>

section \<open>Scripts\<close>

text \<open>A tool call of the script; a missing entry is \<open>None\<close>.\<close>

record script_call =
  sk_name :: "pystr option"
  sk_arguments :: "json option"

text \<open>An item: each of its entries may be missing.\<close>

record script_item =
  si_thought :: "pystr option"
  si_text :: "pystr option"
  si_final :: "pystr option"
  si_tool :: "script_call option"
  si_tools :: "script_call list option"

definition exhausted_item :: script_item where
  "exhausted_item = \<lparr>si_thought = None, si_text = None, si_final = Some [40, 33050, 26412, 32791, 23613, 41], si_tool = None, si_tools = None\<rparr>"

definition raw_calls :: "script_item \<Rightarrow> script_call list" where
  "raw_calls item =
     (case si_tool item of
        Some c \<Rightarrow> [c]
      | None \<Rightarrow> (case si_tools item of Some cs \<Rightarrow> cs | None \<Rightarrow> []))"

text \<open>\<open>_script_completion_text\<close>: Python's \<open>or\<close> passes over missing and empty texts.\<close>

definition or_text :: "pystr option \<Rightarrow> pystr \<Rightarrow> pystr" where
  "or_text t u = (case t of None \<Rightarrow> u | Some s \<Rightarrow> if s = [] then u else s)"

definition script_completion_text :: "script_item \<Rightarrow> pystr" where
  "script_completion_text item =
     or_text (si_text item) (or_text (si_final item) (or_text (si_thought item) []))
     @ concat (map (\<lambda>c. dumps (case sk_arguments c of None \<Rightarrow> JObj [] | Some a \<Rightarrow> a)) (raw_calls item))"

section \<open>The model\<close>

text \<open>An entry of \<open>calls\<close>.\<close>

record script_log =
  sl_messages :: "message list"
  sl_tools :: "json list option"
  sl_model :: "pystr option"
  sl_tokens :: int

record fake_llm =
  fk_script :: "script_item list"
  fk_calls :: "script_log list"

definition new_fake :: "script_item list \<Rightarrow> fake_llm" where
  "new_fake script = \<lparr>fk_script = script, fk_calls = []\<rparr>"

definition call_id :: "nat \<Rightarrow> nat \<Rightarrow> pystr" where
  "call_id n i = ascii ''call_'' @ nat_str n @ [95] @ nat_str i"

text \<open>The requests of an answer; an entry without a name or without arguments raises a \<open>KeyError\<close>, which names the key.\<close>

fun script_requests :: "nat \<Rightarrow> nat \<Rightarrow> script_call list \<Rightarrow> pystr + tool_call list" where
  "script_requests n i [] = Inr []"
| "script_requests n i (c # cs) =
     (case sk_name c of
        None \<Rightarrow> Inl (ascii ''name'')
      | Some name \<Rightarrow>
          (case sk_arguments c of
             None \<Rightarrow> Inl (ascii ''arguments'')
           | Some args \<Rightarrow>
               map_sum id (\<lambda>rest. \<lparr>tc_id = call_id n i, tc_name = name, tc_arguments = args, tc_parse_error = []\<rparr> # rest)
                 (script_requests n (Suc i) cs)))"

definition or_empty :: "pystr option \<Rightarrow> pystr" where
  "or_empty t = (case t of None \<Rightarrow> [] | Some s \<Rightarrow> s)"

text \<open>\<open>_build\<close>, with \<open>n\<close> the number of calls so far, this one included.\<close>

definition build_answer :: "nat \<Rightarrow> script_item \<Rightarrow> pystr option \<Rightarrow> int \<Rightarrow> pystr + llm_response" where
  "build_answer n item model tokens =
     (let answer = (\<lambda>t cs. \<lparr>lr_text = t, lr_tool_calls = cs, lr_model = or_text model (ascii ''fake''), lr_tokens = tokens\<rparr>)
      in if raw_calls item \<noteq> [] then map_sum id (answer (or_empty (si_thought item))) (script_requests n 0 (raw_calls item))
         else (case si_final item of
                 Some t \<Rightarrow> Inr (answer t [])
               | None \<Rightarrow> Inr (answer (or_empty (si_text item)) [])))"

text \<open>\<open>chat\<close>: the item is consumed and the call noted before the answer is built.\<close>

definition fake_chat :: "message list \<Rightarrow> json list option \<Rightarrow> pystr option \<Rightarrow> fake_llm \<Rightarrow> (pystr + llm_response) \<times> fake_llm" where
  "fake_chat messages tools model llm =
     (let item = (case fk_script llm of [] \<Rightarrow> exhausted_item | i # _ \<Rightarrow> i);
          tokens = estimate_call_tokens messages (script_completion_text item);
          llm1 = \<lparr>fk_script = tl (fk_script llm),
                  fk_calls = fk_calls llm @ [\<lparr>sl_messages = messages, sl_tools = tools, sl_model = model, sl_tokens = tokens\<rparr>]\<rparr>
      in (build_answer (length (fk_calls llm1)) item model tokens, llm1))"

text \<open>The metrics after an answer; \<open>elapsed\<close> is what the clock says. The real client writes the same ones.\<close>

definition llm_meter :: "real \<Rightarrow> llm_response \<Rightarrow> meter" where
  "llm_meter elapsed resp = LlmAnswers (model_label (lr_model resp)) elapsed (lr_tokens resp)"

text \<open>Calls in sequence; an exception ends them.\<close>

type_synonym fake_request = "message list \<times> json list option \<times> pystr option"

fun fake_chats :: "fake_request list \<Rightarrow> fake_llm \<Rightarrow> (pystr + llm_response) list" where
  "fake_chats [] llm = []"
| "fake_chats ((messages, tools, model) # reqs) llm =
     (case fake_chat messages tools model llm of (r, llm1) \<Rightarrow> r # fake_chats reqs llm1)"

section \<open>The script is replayed\<close>

definition script_at :: "script_item list \<Rightarrow> nat \<Rightarrow> script_item" where
  "script_at script k = (if k < length script then script ! k else exhausted_item)"

text \<open>The answer to a request is a function of its number, its item and the request alone.\<close>

definition scripted_answer :: "script_item list \<Rightarrow> nat \<Rightarrow> fake_request \<Rightarrow> pystr + llm_response" where
  "scripted_answer script k req =
     (case req of (messages, tools, model) \<Rightarrow>
        build_answer (Suc k) (script_at script k) model (estimate_call_tokens messages (script_completion_text (script_at script k))))"

lemma fake_chats_from:
  assumes "fk_script llm = drop (length (fk_calls llm)) script"
  shows "fake_chats reqs llm = map (\<lambda>(k, req). scripted_answer script k req) (zip [length (fk_calls llm)..<length (fk_calls llm) + length reqs] reqs)"
  using assms
proof (induction reqs arbitrary: llm)
  case (Cons req reqs)
  obtain messages tools model where req: "req = (messages, tools, model)" by (cases req)
  let ?n = "length (fk_calls llm)"
  obtain r llm1 where step: "fake_chat messages tools model llm = (r, llm1)" by fastforce
  have item: "(case fk_script llm of [] \<Rightarrow> exhausted_item | i # _ \<Rightarrow> i) = script_at script ?n"
  proof (cases "?n < length script")
    case True
    then have "fk_script llm = script ! ?n # drop (Suc ?n) script" using Cons.prems by (simp add: Cons_nth_drop_Suc)
    then show ?thesis using True by (simp add: script_at_def)
  next
    case False
    then show ?thesis using Cons.prems by (simp add: script_at_def)
  qed
  have r: "r = scripted_answer script ?n req" and n: "length (fk_calls llm1) = Suc ?n" and t: "fk_script llm1 = tl (fk_script llm)"
    using step by (auto simp: fake_chat_def Let_def item scripted_answer_def req)
  have "fk_script llm1 = drop (length (fk_calls llm1)) script" using Cons.prems t n by (simp add: drop_Suc drop_tl)
  from Cons.IH [OF this] have "fake_chats reqs llm1 = map (\<lambda>(k, req). scripted_answer script k req) (zip [Suc ?n..<Suc ?n + length reqs] reqs)"
    by (simp add: n)
  then show ?case using step r by (simp add: req upt_rec)
qed simp

text \<open>
  The answers come in the order of the script, whatever the requests are, and after its end every answer is the one of the
  exhausted script.
\<close>

theorem fake_replays_script:
  "fake_chats reqs (new_fake script) = map (\<lambda>(k, req). scripted_answer script k req) (enumerate 0 reqs)"
  using fake_chats_from [of "new_fake script" script reqs] by (simp add: new_fake_def enumerate_eq_zip)

section \<open>Identifiers of calls\<close>

lemma nat_str_no_bar: "95 \<notin> set (nat_str n)"
  using nat_str_digits [of 95 n] by auto

lemma call_id_inj: "call_id n i = call_id m j \<longleftrightarrow> n = m \<and> i = j"
proof
  assume "call_id n i = call_id m j"
  then have eq: "nat_str n @ 95 # nat_str i = nat_str m @ 95 # nat_str j" by (simp add: call_id_def)
  have cut: "takeWhile (\<lambda>c. c \<noteq> 95) (nat_str a @ 95 # x) = nat_str a" for a x
    using nat_str_no_bar [of a] by (subst takeWhile_append2) auto
  have "nat_str n = nat_str m" using arg_cong [OF eq, of "takeWhile (\<lambda>c. c \<noteq> 95)"] by (simp add: cut)
  then show "n = m \<and> i = j" using eq by simp
qed simp

lemma script_requests_ids: "script_requests n i cs = Inr rs \<Longrightarrow> map tc_id rs = map (call_id n) [i..<i + length cs]"
proof (induction cs arbitrary: i rs)
  case (Cons c cs)
  obtain rest where rest: "script_requests n (Suc i) cs = Inr rest" "map tc_id rs = call_id n i # map tc_id rest"
    using Cons.prems by (auto split: option.splits simp: map_sum_def split: sum.splits)
  then show ?case using Cons.IH [OF rest(1)] by (simp add: upt_rec)
qed simp

lemma build_answer_ids:
  assumes "build_answer n item model tokens = Inr r"
  shows "map tc_id (lr_tool_calls r) = map (call_id n) [0..<length (raw_calls item)]"
proof (cases "raw_calls item = []")
  case True
  then show ?thesis using assms by (auto simp: build_answer_def Let_def split: option.splits)
next
  case False
  then obtain cs where "script_requests n 0 (raw_calls item) = Inr cs" "lr_tool_calls r = cs"
    using assms by (cases "script_requests n 0 (raw_calls item)") (auto simp: build_answer_def Let_def)
  then show ?thesis using script_requests_ids [of n 0 "raw_calls item" cs] by simp
qed

definition ids_of :: "pystr + llm_response \<Rightarrow> pystr list" where
  "ids_of r = (case r of Inl _ \<Rightarrow> [] | Inr resp \<Rightarrow> map tc_id (lr_tool_calls resp))"

lemma ids_of_scripted:
  "\<exists>m. ids_of (scripted_answer script k req) = map (call_id (Suc k)) [0..<m]"
proof (cases "scripted_answer script k req")
  case (Inl e)
  then show ?thesis by (intro exI [of _ 0]) (simp add: ids_of_def)
next
  case (Inr r)
  then show ?thesis using build_answer_ids by (fastforce simp: ids_of_def scripted_answer_def split: prod.splits)
qed

text \<open>Within one model no two tool calls have the same identifier.\<close>

theorem fake_ids_distinct: "distinct (concat (map ids_of (fake_chats reqs (new_fake script))))"
proof -
  have "distinct (concat (map ids_of (map (\<lambda>(k, req). scripted_answer script k req) (enumerate n reqs))))
      \<and> (\<forall>x \<in> set (concat (map ids_of (map (\<lambda>(k, req). scripted_answer script k req) (enumerate n reqs)))). \<exists>k i. n < k \<and> x = call_id k i)"
    for n
  proof (induction reqs arbitrary: n)
    case (Cons req reqs)
    obtain m where m: "ids_of (scripted_answer script n req) = map (call_id (Suc n)) [0..<m]" using ids_of_scripted by blast
    have own: "distinct (map (call_id (Suc n)) [0..<m])" by (simp add: distinct_map inj_on_def call_id_inj)
    show ?case using Cons.IH [of "Suc n"] own by (fastforce simp: m call_id_inj)
  qed simp
  from this [of 0] show ?thesis by (simp add: fake_replays_script)
qed

text \<open>But a new model counts from the start again: the first calls of two models share their identifier.\<close>

lemma new_fakes_share_ids:
  assumes "raw_calls (hd script) \<noteq> []" "raw_calls (hd script') \<noteq> []" "script \<noteq> []" "script' \<noteq> []"
    "fst (fake_chat ms ts mo (new_fake script)) = Inr r" "fst (fake_chat ms' ts' mo' (new_fake script')) = Inr r'"
  shows "hd (map tc_id (lr_tool_calls r)) = hd (map tc_id (lr_tool_calls r'))"
proof -
  have "map tc_id (lr_tool_calls q) = map (call_id 1) [0..<length (raw_calls (hd s))]"
    if "s \<noteq> []" "fst (fake_chat a b c (new_fake s)) = Inr q" for s a b c q
    using that build_answer_ids by (cases s) (fastforce simp: fake_chat_def new_fake_def Let_def)+
  from this [OF assms(3,5)] this [OF assms(4,6)] show ?thesis using assms(1,2) by (simp add: upt_rec)
qed

text \<open>The metrics never refuse a scripted answer.\<close>

lemma fake_meter_sane:
  assumes "fst (fake_chat messages tools model llm) = Inr resp"
  shows "sane_tokens (llm_meter elapsed resp)"
proof -
  have "0 \<le> lr_tokens resp"
    using assms
    by (auto simp: fake_chat_def build_answer_def Let_def estimate_call_tokens_def map_sum_def split: if_splits option.splits sum.splits)
  then show ?thesis by (simp add: sane_tokens_def llm_meter_def)
qed

end
