(* ===== verification/Shutdown.thy ===== *)
theory Shutdown
  imports Queue
begin

text \<open>
  The local queue as a process (\<^verbatim>\<open>app/worker/local_queue.py\<close>): the semaphore that bounds the running executions, and the
  end of the queue, \<open>stop\<close>, which lets executions end by themselves for a while and then cancels the rest. One
  step stands for the code between two points where the process may switch; what an execution does inside
  the engine is the theory \<open>Queue\<close>.
\<close>

section \<open>The process\<close>

text \<open>
  The handles that hold the semaphore, those whose row was set to running, those inside the \<open>try\<close> block, the state of
  \<open>stop\<close>: the handles it waits for, and whether its time is over.
\<close>

record queue_proc =
  qp_queue :: local_queue
  qp_db :: database
  qp_inside :: "nat list"
  qp_marked :: "nat list"
  qp_trying :: "nat list"
  qp_worker :: bool
  qp_closing :: bool
  qp_pending :: "nat list option"
  qp_expired :: bool

definition fresh_proc :: "database \<Rightarrow> queue_proc" where
  "fresh_proc db =
     \<lparr>qp_queue = \<lparr>lq_queue = [], lq_running = [], lq_live = [], lq_traces = [], lq_next = 0\<rparr>, qp_db = db, qp_inside = [],
      qp_marked = [], qp_trying = [], qp_worker = True, qp_closing = False, qp_pending = None, qp_expired = False\<rparr>"

datatype queue_event =
    Submitted seconds pystr "pystr option"
  | Resumed pystr "bool option"
  | Consumed
  | Begun nat
  | Entered nat
  | Looked seconds nat
  | Runs nat
  | Left seconds nat task_status
  | OtherWrites database
  | StopBegins
  | DrainExpires
  | WaiterInterrupted nat
  | MarkerInterrupted nat
  | Interrupted seconds nat

definition live_job :: "queue_proc \<Rightarrow> nat \<Rightarrow> job option" where
  "live_job p h = find (\<lambda>j. jb_handle j = h) (lq_live (qp_queue p))"

definition mark_status :: "seconds \<Rightarrow> pystr \<Rightarrow> task_status \<Rightarrow> database \<Rightarrow> database" where
  "mark_status now tid st db = snd (update_task now tid (\<lambda>u. u\<lparr>tk_status := st\<rparr>) db)"

definition running_ids :: "database \<Rightarrow> pystr set" where
  "running_ids db = tk_id ` {t \<in> set (db_tasks db). tk_status t = StRunning}"

text \<open>The end of a coroutine: its callback, and the semaphore is released.\<close>

definition end_job :: "job \<Rightarrow> queue_proc \<Rightarrow> queue_proc" where
  "end_job j p =
     p\<lparr>qp_queue := job_done j (qp_queue p), qp_inside := removeAll (jb_handle j) (qp_inside p),
       qp_marked := removeAll (jb_handle j) (qp_marked p), qp_trying := removeAll (jb_handle j) (qp_trying p)\<rparr>"

definition canceled_handle :: "queue_proc \<Rightarrow> nat \<Rightarrow> bool" where
  "canceled_handle p h = (qp_expired p \<and> (case qp_pending p of None \<Rightarrow> False | Some hs \<Rightarrow> h \<in> set hs))"

text \<open>
  The steps; \<open>None\<close> when a step is not possible. A cancellation before the \<open>try\<close> block writes nothing: a coroutine that
  waits for the semaphore keeps its row, and one whose row was just set to running leaves it so. The other
  requests of the API may write anything but running rows.
\<close>

fun queue_move :: "nat \<Rightarrow> bool \<Rightarrow> queue_event \<Rightarrow> queue_proc \<Rightarrow> queue_proc option" where
  "queue_move limit has_engine (Submitted now tid tp) p =
     (case queue_submit now tid tp (qp_db p) (qp_queue p) of (db, q) \<Rightarrow> Some (p\<lparr>qp_db := db, qp_queue := q\<rparr>))"
| "queue_move limit has_engine (Resumed tid v) p = Some (p\<lparr>qp_queue := submit_resume tid v (qp_queue p)\<rparr>)"
| "queue_move limit has_engine Consumed p =
     (if qp_worker p \<and> \<not> qp_closing p then Some (p\<lparr>qp_queue := consume (qp_queue p)\<rparr>) else None)"
| "queue_move limit has_engine (Begun h) p =
     map_option (\<lambda>j. p\<lparr>qp_queue := snd (job_begin j (qp_queue p))\<rparr>) (live_job p h)"
| "queue_move limit has_engine (Entered h) p =
     (if live_job p h \<noteq> None \<and> h \<notin> set (qp_inside p) \<and> length (qp_inside p) < limit then Some (p\<lparr>qp_inside := h # qp_inside p\<rparr>) else None)"
| "queue_move limit has_engine (Looked now h) p =
     (case live_job p h of
        None \<Rightarrow> None
      | Some j \<Rightarrow>
          if h \<in> set (qp_inside p) \<and> h \<notin> set (qp_marked p) then
            (case get_task_row (jb_task j) None (qp_db p) of
               None \<Rightarrow> Some (end_job j p)
             | Some _ \<Rightarrow>
                 if has_engine then Some (p\<lparr>qp_db := mark_status now (jb_task j) StRunning (qp_db p), qp_marked := h # qp_marked p\<rparr>)
                 else Some (end_job j (p\<lparr>qp_db := mark_status now (jb_task j) StFailed (qp_db p)\<rparr>)))
          else None)"
| "queue_move limit has_engine (Runs h) p =
     (if h \<in> set (qp_marked p) \<and> h \<notin> set (qp_trying p) then Some (p\<lparr>qp_trying := h # qp_trying p\<rparr>) else None)"
| "queue_move limit has_engine (Left now h st) p =
     (case live_job p h of
        None \<Rightarrow> None
      | Some j \<Rightarrow> if h \<in> set (qp_trying p) \<and> settled st then Some (end_job j (p\<lparr>qp_db := mark_status now (jb_task j) st (qp_db p)\<rparr>)) else None)"
| "queue_move limit has_engine (OtherWrites db) p =
     (if running_ids db \<subseteq> running_ids (qp_db p) then Some (p\<lparr>qp_db := db\<rparr>) else None)"
| "queue_move limit has_engine StopBegins p =
     (if qp_closing p then None
      else Some (p\<lparr>qp_closing := True, qp_worker := False, qp_pending := Some (map snd (lq_running (qp_queue p)))\<rparr>))"
| "queue_move limit has_engine DrainExpires p = (if qp_pending p = None then None else Some (p\<lparr>qp_expired := True\<rparr>))"
| "queue_move limit has_engine (WaiterInterrupted h) p =
     (case live_job p h of
        None \<Rightarrow> None
      | Some j \<Rightarrow> if canceled_handle p h \<and> h \<notin> set (qp_marked p) then Some (end_job j p) else None)"
| "queue_move limit has_engine (MarkerInterrupted h) p =
     (case live_job p h of
        None \<Rightarrow> None
      | Some j \<Rightarrow> if canceled_handle p h \<and> h \<in> set (qp_marked p) \<and> h \<notin> set (qp_trying p) then Some (end_job j p) else None)"
| "queue_move limit has_engine (Interrupted now h) p =
     (case live_job p h of
        None \<Rightarrow> None
      | Some j \<Rightarrow>
          if canceled_handle p h \<and> h \<in> set (qp_trying p)
          then Some (end_job j (p\<lparr>qp_db := mark_status now (jb_task j) StCanceled (qp_db p)\<rparr>)) else None)"

fun queue_moves :: "nat \<Rightarrow> bool \<Rightarrow> queue_event list \<Rightarrow> queue_proc \<Rightarrow> queue_proc option" where
  "queue_moves limit has_engine [] p = Some p"
| "queue_moves limit has_engine (e # es) p = Option.bind (queue_move limit has_engine e p) (queue_moves limit has_engine es)"

text \<open>\<open>stop\<close> has returned: every execution it waited for has ended.\<close>

definition stop_returned :: "queue_proc \<Rightarrow> bool" where
  "stop_returned p = (case qp_pending p of None \<Rightarrow> False | Some hs \<Rightarrow> list_all (\<lambda>h. live_job p h = None) hs)"

section \<open>At most as many executions as the semaphore admits\<close>

definition proc_inv :: "nat \<Rightarrow> queue_proc \<Rightarrow> bool" where
  "proc_inv limit p \<longleftrightarrow> queue_inv (qp_queue p) \<and> distinct (qp_inside p) \<and> length (qp_inside p) \<le> limit
     \<and> set (qp_inside p) \<subseteq> jb_handle ` set (lq_live (qp_queue p)) \<and> set (qp_marked p) \<subseteq> set (qp_inside p)
     \<and> set (qp_trying p) \<subseteq> set (qp_marked p) \<and> (qp_pending p \<noteq> None \<longrightarrow> qp_closing p)"

lemma live_jobD: "live_job p h = Some j \<Longrightarrow> j \<in> set (lq_live (qp_queue p)) \<and> jb_handle j = h"
  by (auto simp: live_job_def find_Some_iff)

lemma live_job_None: "live_job p h = None \<longleftrightarrow> h \<notin> jb_handle ` set (lq_live (qp_queue p))"
  by (auto simp: live_job_def find_None_iff)

lemma proc_inv_end:
  assumes "proc_inv limit p" "j \<in> set (lq_live (qp_queue p))"
  shows "proc_inv limit (end_job j p)"
proof -
  have "length (removeAll (jb_handle j) (qp_inside p)) \<le> limit"
    using length_removeAll_less_eq [of "jb_handle j" "qp_inside p"] assms(1) unfolding proc_inv_def by linarith
  then show ?thesis
    using assms queue_inv_done [of "qp_queue p" j]
    by (auto simp: proc_inv_def end_job_def job_done_def distinct_removeAll image_iff)
qed

lemma proc_inv_move:
  assumes "proc_inv limit p" "queue_move limit has_engine e p = Some p'"
  shows "proc_inv limit p'"
proof -
  have db: "proc_inv limit (q\<lparr>qp_db := db\<rparr>) \<longleftrightarrow> proc_inv limit q" for db q by (simp add: proc_inv_def)
  have ends: "proc_inv limit (end_job j (p\<lparr>qp_db := db\<rparr>))" if "live_job p h = Some j" for j h db
    using proc_inv_end [of limit "p\<lparr>qp_db := db\<rparr>" j] assms(1) db live_jobD [OF that] by simp
  have ends2: "proc_inv limit (end_job j p)" if "live_job p h = Some j" for j h
    using proc_inv_end assms(1) live_jobD [OF that] by blast
  have q: "queue_inv (qp_queue p)" using assms(1) by (simp add: proc_inv_def)
  have more: "proc_inv limit (p\<lparr>qp_queue := q'\<rparr>)" if "queue_inv q'" "set (lq_live (qp_queue p)) \<subseteq> set (lq_live q')" for q'
    using assms(1) that image_mono [OF that(2), of jb_handle] unfolding proc_inv_def by (auto dest: subset_trans)
  have spawned: "set (lq_live q') \<subseteq> set (lq_live (spawn tid r v q'))" for tid r v q' by (auto simp: spawn_def)
  show ?thesis
  proof (cases e)
    case (Submitted now tid tp)
    have "queue_inv (snd (queue_submit now tid tp (qp_db p) (qp_queue p)))" using q by (simp add: queue_submit_def queue_inv_def)
    then show ?thesis using assms Submitted more [of "snd (queue_submit now tid tp (qp_db p) (qp_queue p))"] db
      by (auto simp: queue_submit_def proc_inv_def)
  next
    case (Resumed tid v)
    then show ?thesis using assms more [of "spawn tid True v (qp_queue p)"] queue_inv_spawn [OF q] spawned by (auto simp: submit_resume_def)
  next
    case Consumed
    have "queue_inv (qp_queue p\<lparr>lq_queue := rest\<rparr>)" for rest using q by (simp add: queue_inv_def)
    then have "queue_inv (consume (qp_queue p)) \<and> set (lq_live (qp_queue p)) \<subseteq> set (lq_live (consume (qp_queue p)))"
      using q queue_inv_spawn spawned by (fastforce simp: consume_def split: list.splits)
    then show ?thesis using assms Consumed more by (auto split: if_splits)
  next
    case (Begun h)
    then show ?thesis using assms more q by (auto simp: job_begin_def queue_inv_def)
  next
    case (Entered h)
    then show ?thesis using assms by (auto simp: proc_inv_def live_job_None split: if_splits)
  next
    case (Looked now h)
    then obtain j where j: "live_job p h = Some j" "h \<in> set (qp_inside p)" using assms(2) by (auto split: option.splits if_splits)
    consider "p' = end_job j p" | "p' = end_job j (p\<lparr>qp_db := mark_status now (jb_task j) StFailed (qp_db p)\<rparr>)"
      | "p' = p\<lparr>qp_db := mark_status now (jb_task j) StRunning (qp_db p), qp_marked := h # qp_marked p\<rparr>"
      using assms(2) Looked j by (auto split: option.splits if_splits)
    then show ?thesis
    proof cases
      case 3
      then show ?thesis using assms(1) j(2) by (auto simp: proc_inv_def)
    qed (use ends [OF j(1)] ends2 [OF j(1)] in simp_all)
  next
    case (Runs h)
    then show ?thesis using assms by (auto simp: proc_inv_def split: if_splits)
  next
    case (Left now h st)
    then show ?thesis using assms ends by (auto split: option.splits if_splits)
  next
    case (OtherWrites d)
    then show ?thesis using assms db by (auto split: if_splits)
  next
    case StopBegins
    then show ?thesis using assms by (auto simp: proc_inv_def split: if_splits)
  next
    case DrainExpires
    then show ?thesis using assms by (auto simp: proc_inv_def split: if_splits)
  next
    case (WaiterInterrupted h)
    then show ?thesis using assms ends2 by (auto split: option.splits if_splits)
  next
    case (MarkerInterrupted h)
    then show ?thesis using assms ends2 by (auto split: option.splits if_splits)
  next
    case (Interrupted now h)
    then show ?thesis using assms ends by (auto split: option.splits if_splits)
  qed
qed

lemma proc_inv_fresh: "proc_inv limit (fresh_proc db)"
  by (simp add: proc_inv_def fresh_proc_def queue_inv_def)

lemma proc_inv_moves: "proc_inv limit p \<Longrightarrow> queue_moves limit has_engine es p = Some p' \<Longrightarrow> proc_inv limit p'"
  by (induction es arbitrary: p) (auto simp: bind_eq_Some_conv dest: proc_inv_move)

section \<open>No row is left as running\<close>

text \<open>
  The course of events that a shutdown meets: no resumption arrives once the server has stopped answering, and no
  cancellation hits an execution between the write of the running status and the \<open>try\<close> block.
\<close>

fun orderly :: "bool \<Rightarrow> queue_event list \<Rightarrow> bool" where
  "orderly closing [] = True"
| "orderly closing (Resumed tid v # es) = (\<not> closing \<and> orderly closing es)"
| "orderly closing (MarkerInterrupted h # es) = False"
| "orderly closing (StopBegins # es) = orderly True es"
| "orderly closing (e # es) = orderly closing es"

definition running_inv :: "queue_proc \<Rightarrow> bool" where
  "running_inv p \<longleftrightarrow> running_ids (qp_db p) \<subseteq> jb_task ` {j \<in> set (lq_live (qp_queue p)). jb_handle j \<in> set (qp_marked p)}
     \<and> (\<forall>hs. qp_pending p = Some hs \<longrightarrow> jb_handle ` set (lq_live (qp_queue p)) \<subseteq> set hs)
     \<and> (qp_closing p \<longrightarrow> qp_pending p \<noteq> None)"

lemma running_ids_mark_status:
  "running_ids (mark_status now tid st db) \<subseteq> (if st = StRunning then insert tid (running_ids db) else running_ids db - {tid})"
proof (cases "get_task_row tid None db")
  case None
  then have "\<forall>t \<in> set (db_tasks db). tk_id t \<noteq> tid" by (simp add: get_task_row_def find_None_iff)
  then show ?thesis using None by (auto simp: mark_status_def update_task_def running_ids_def)
next
  case (Some t)
  let ?f = "\<lambda>u. if tk_id u = tid then u\<lparr>tk_status := st, tk_updated_at := now\<rparr> else u"
  have tasks: "db_tasks (mark_status now tid st db) = map ?f (db_tasks db)"
    using Some by (simp add: mark_status_def update_task_def Let_def)
  show ?thesis
  proof
    fix i assume "i \<in> running_ids (mark_status now tid st db)"
    then obtain u where u: "u \<in> set (db_tasks db)" "i = tk_id (?f u)" "tk_status (?f u) = StRunning"
      unfolding running_ids_def tasks by force
    then show "i \<in> (if st = StRunning then insert tid (running_ids db) else running_ids db - {tid})"
      by (cases "tk_id u = tid") (auto simp: running_ids_def)
  qed
qed

lemma running_inv_end:
  assumes "running_inv p" "proc_inv limit p" "j \<in> set (lq_live (qp_queue p))" "running_ids db \<subseteq> running_ids (qp_db p) - {jb_task j}"
  shows "running_inv (end_job j (p\<lparr>qp_db := db\<rparr>))"
proof -
  have "running_ids db \<subseteq> jb_task ` {k \<in> set (lq_live (qp_queue p)). jb_handle k \<noteq> jb_handle j \<and> jb_handle k \<in> set (qp_marked p)}"
  proof
    fix i assume "i \<in> running_ids db"
    then obtain k where k: "k \<in> set (lq_live (qp_queue p))" "jb_handle k \<in> set (qp_marked p)" "i = jb_task k" "i \<noteq> jb_task j"
      using assms(1,4) by (auto simp: running_inv_def)
    have "k = j" if "jb_handle k = jb_handle j"
      using that assms(2,3) k(1) by (auto simp: proc_inv_def queue_inv_def distinct_map inj_on_def)
    then show "i \<in> jb_task ` {k \<in> set (lq_live (qp_queue p)). jb_handle k \<noteq> jb_handle j \<and> jb_handle k \<in> set (qp_marked p)}"
      using k by auto
  qed
  then show ?thesis using assms(1) by (fastforce simp: running_inv_def end_job_def job_done_def)
qed

lemma running_inv_unmarked:
  assumes "running_inv p" "proc_inv limit p" "j \<in> set (lq_live (qp_queue p))" "jb_handle j \<notin> set (qp_marked p)"
  shows "running_inv (end_job j p)"
proof -
  have "jb_task j \<notin> running_ids (qp_db p)"
  proof
    assume "jb_task j \<in> running_ids (qp_db p)"
    then obtain k where k: "k \<in> set (lq_live (qp_queue p))" "jb_handle k \<in> set (qp_marked p)" "jb_task k = jb_task j"
      using assms(1) unfolding running_inv_def by fastforce
    have "inj_on jb_task (set (lq_live (qp_queue p)))"
      using live_registered(1) assms(2) unfolding proc_inv_def distinct_map by blast
    then show False using k assms(3,4) by (metis inj_onD)
  qed
  then have "running_ids (qp_db p) \<subseteq> running_ids (qp_db p) - {jb_task j}" by blast
  from running_inv_end [OF assms(1-3) this] show ?thesis by simp
qed

lemma running_inv_queue:
  assumes "running_inv p" "set (lq_live (qp_queue p)) \<subseteq> set (lq_live q)" "running_ids db \<subseteq> running_ids (qp_db p)"
    "\<not> qp_closing p \<or> set (lq_live q) = set (lq_live (qp_queue p))" "qp_pending p \<noteq> None \<longrightarrow> qp_closing p"
  shows "running_inv (p\<lparr>qp_db := db, qp_queue := q\<rparr>)"
  using assms by (fastforce simp: running_inv_def)

lemma running_inv_db:
  assumes "running_inv p" "running_ids d \<subseteq> running_ids (qp_db p)"
  shows "running_inv (p\<lparr>qp_db := d\<rparr>)"
  using assms(1) subset_trans [OF assms(2)] by (simp add: running_inv_def)

lemma running_inv_cong:
  "qp_db q = qp_db p \<Longrightarrow> qp_queue q = qp_queue p \<Longrightarrow> qp_marked q = qp_marked p \<Longrightarrow> qp_pending q = qp_pending p
   \<Longrightarrow> qp_closing q = qp_closing p \<Longrightarrow> running_inv q \<longleftrightarrow> running_inv p"
  by (simp add: running_inv_def)

lemma running_inv_move:
  assumes inv: "running_inv p" "proc_inv limit p" and move: "queue_move limit has_engine e p = Some p'" and ord: "orderly (qp_closing p) (e # es)"
  shows "running_inv p' \<and> orderly (qp_closing p') es"
proof -
  have pend: "qp_pending p \<noteq> None \<longrightarrow> qp_closing p" using inv(2) by (simp add: proc_inv_def)
  have grow: "set (lq_live q) \<subseteq> set (lq_live (spawn tid r v q))" for tid r v q by (auto simp: spawn_def)
  have kept: "running_inv (p\<lparr>qp_queue := q\<rparr>)"
    if "set (lq_live (qp_queue p)) \<subseteq> set (lq_live q)" "\<not> qp_closing p \<or> set (lq_live q) = set (lq_live (qp_queue p))" for q
    using running_inv_queue [OF inv(1) that(1) subset_refl that(2) pend] by simp
  have wrote: "running_ids (mark_status now tid st (qp_db p)) \<subseteq> running_ids (qp_db p) - {tid}" if "st \<noteq> StRunning" for now tid st
    using running_ids_mark_status [of now tid st "qp_db p"] that by simp
  have same: "qp_closing (end_job j q) = qp_closing q" for j q by (simp add: end_job_def)
  show ?thesis
  proof (cases e)
    case (Submitted now tid tp)
    have "running_ids (mark_status now tid StQueued (qp_db p)) \<subseteq> running_ids (qp_db p)" using wrote [of StQueued now tid] by auto
    then show ?thesis
      using move ord Submitted running_inv_queue [OF inv(1) _ _ _ pend, of "snd (queue_submit now tid tp (qp_db p) (qp_queue p))"]
      by (auto simp: queue_submit_def mark_status_def)
  next
    case (Resumed tid v)
    then show ?thesis using move ord kept [of "spawn tid True v (qp_queue p)"] grow by (auto simp: submit_resume_def)
  next
    case Consumed
    have "set (lq_live (qp_queue p)) \<subseteq> set (lq_live (consume (qp_queue p)))"
      using grow by (fastforce simp: consume_def split: list.splits)
    then show ?thesis using move ord Consumed kept by (auto split: if_splits)
  next
    case (Begun h)
    then show ?thesis using move ord kept by (auto simp: job_begin_def)
  next
    case (Entered h)
    then show ?thesis using move ord running_inv_cong [of p' p] inv(1) by (auto split: if_splits)
  next
    case (Looked now h)
    then obtain j where j: "live_job p h = Some j" "h \<notin> set (qp_marked p)" using move by (auto split: option.splits if_splits)
    note jl = live_jobD [OF j(1)]
    consider "p' = end_job j p" | "p' = end_job j (p\<lparr>qp_db := mark_status now (jb_task j) StFailed (qp_db p)\<rparr>)"
      | "p' = p\<lparr>qp_db := mark_status now (jb_task j) StRunning (qp_db p), qp_marked := h # qp_marked p\<rparr>"
      using move Looked j by (auto split: option.splits if_splits)
    then show ?thesis
    proof cases
      case 1
      then show ?thesis using running_inv_unmarked [OF inv, of j] jl j(2) ord Looked same by simp
    next
      case 2
      then show ?thesis using running_inv_end [OF inv, of j] wrote jl ord Looked same by simp
    next
      case 3
      have "running_ids (mark_status now (jb_task j) StRunning (qp_db p)) \<subseteq> insert (jb_task j) (running_ids (qp_db p))"
        using running_ids_mark_status [of now "jb_task j" StRunning "qp_db p"] by simp
      moreover have "jb_task j \<in> jb_task ` {k \<in> set (lq_live (qp_queue p)). jb_handle k \<in> set (h # qp_marked p)}"
        using jl by force
      moreover have "running_ids (qp_db p) \<subseteq> jb_task ` {k \<in> set (lq_live (qp_queue p)). jb_handle k \<in> set (h # qp_marked p)}"
        using inv(1) unfolding running_inv_def by force
      ultimately have "running_ids (mark_status now (jb_task j) StRunning (qp_db p))
          \<subseteq> jb_task ` {k \<in> set (lq_live (qp_queue p)). jb_handle k \<in> set (h # qp_marked p)}" by blast
      then show ?thesis using 3 inv(1) ord Looked by (simp add: running_inv_def)
    qed
  next
    case (Runs h)
    then show ?thesis using move ord running_inv_cong [of p' p] inv(1) by (auto split: if_splits)
  next
    case (Left now h st)
    then obtain j where j: "live_job p h = Some j" "settled st" "p' = end_job j (p\<lparr>qp_db := mark_status now (jb_task j) st (qp_db p)\<rparr>)"
      using move by (auto split: option.splits if_splits)
    have "st \<noteq> StRunning" using j(2) by (auto simp: settled_def active_statuses_def)
    then show ?thesis using running_inv_end [OF inv, of j] wrote live_jobD [OF j(1)] j(3) ord Left same by simp
  next
    case (OtherWrites d)
    then show ?thesis using move ord running_inv_db [OF inv(1)] by (auto split: if_splits)
  next
    case StopBegins
    have "jb_handle ` set (lq_live (qp_queue p)) \<subseteq> set (map snd (lq_running (qp_queue p)))"
    proof
      fix h assume "h \<in> jb_handle ` set (lq_live (qp_queue p))"
      then obtain j where "j \<in> set (lq_live (qp_queue p))" "h = jb_handle j" by blast
      then have "dict_get (lq_running (qp_queue p)) (jb_task j) = Some h" using inv(2) by (simp add: proc_inv_def queue_inv_def)
      then show "h \<in> set (map snd (lq_running (qp_queue p)))" by (force simp: dict_get_def dest: map_of_SomeD)
    qed
    then have "running_inv (p\<lparr>qp_closing := True, qp_worker := False, qp_pending := Some (map snd (lq_running (qp_queue p)))\<rparr>)"
      using inv(1) by (simp add: running_inv_def)
    then show ?thesis using move ord StopBegins by (auto split: if_splits)
  next
    case DrainExpires
    then show ?thesis using move ord running_inv_cong [of p' p] inv(1) by (auto split: if_splits)
  next
    case (WaiterInterrupted h)
    then obtain j where j: "live_job p h = Some j" "h \<notin> set (qp_marked p)" "p' = end_job j p"
      using move by (auto split: option.splits if_splits)
    then show ?thesis using running_inv_unmarked [OF inv, of j] live_jobD [OF j(1)] ord WaiterInterrupted same by simp
  next
    case (MarkerInterrupted h)
    then show ?thesis using ord by simp
  next
    case (Interrupted now h)
    then obtain j where j: "live_job p h = Some j" "p' = end_job j (p\<lparr>qp_db := mark_status now (jb_task j) StCanceled (qp_db p)\<rparr>)"
      using move by (auto split: option.splits if_splits)
    then show ?thesis using running_inv_end [OF inv, of j] wrote live_jobD [OF j(1)] ord Interrupted same by simp
  qed
qed

lemma running_inv_moves:
  assumes "queue_moves limit has_engine es p = Some p'" "running_inv p" "proc_inv limit p" "orderly (qp_closing p) es"
  shows "running_inv p'"
  using assms
proof (induction es arbitrary: p)
  case (Cons e es)
  obtain mid where mid: "queue_move limit has_engine e p = Some mid" "queue_moves limit has_engine es mid = Some p'"
    using Cons.prems(1) by (auto simp: bind_eq_Some_conv)
  then show ?case using running_inv_move [OF Cons.prems(2,3) mid(1) Cons.prems(4)] proc_inv_move [OF Cons.prems(3) mid(1)] Cons.IH by blast
qed simp

lemma running_inv_fresh: "running_ids db = {} \<Longrightarrow> running_inv (fresh_proc db)"
  by (simp add: running_inv_def fresh_proc_def)

section \<open>The promises\<close>

text \<open>
  The semaphore keeps its promise: never are more executions inside it than the setting allows, and, as long as the events
  are orderly, the database never shows more running tasks either.
\<close>

theorem concurrency_bounded:
  assumes "queue_moves limit has_engine es (fresh_proc db) = Some p" "orderly False es" "running_ids db = {}"
  shows "length (qp_inside p) \<le> limit \<and> card (running_ids (qp_db p)) \<le> limit"
proof -
  have inv: "proc_inv limit p" using proc_inv_moves [OF proc_inv_fresh assms(1)] .
  have "running_inv p"
    using running_inv_moves [OF assms(1) running_inv_fresh [OF assms(3)] proc_inv_fresh] assms(2) by (simp add: fresh_proc_def)
  let ?js = "{j \<in> set (lq_live (qp_queue p)). jb_handle j \<in> set (qp_marked p)}"
  have "inj_on jb_handle ?js" using inv by (auto simp: proc_inv_def queue_inv_def distinct_map inj_on_def)
  moreover have "jb_handle ` ?js \<subseteq> set (qp_inside p)" using inv by (auto simp: proc_inv_def)
  ultimately have "card ?js \<le> card (set (qp_inside p))" by (metis List.finite_set card_image card_mono)
  moreover have "card (running_ids (qp_db p)) \<le> card ?js"
    using \<open>running_inv p\<close> by (auto simp: running_inv_def intro: surj_card_le)
  moreover have "card (set (qp_inside p)) \<le> limit" using inv card_length [of "qp_inside p"] by (simp add: proc_inv_def)
  ultimately show ?thesis using inv by (simp add: proc_inv_def)
qed


definition demo_shutdown :: "queue_event list" where
  "demo_shutdown = [Submitted 0 (ascii ''k'') None, Consumed, Begun 0, Entered 0, Looked 0 0, Runs 0, StopBegins, DrainExpires, Interrupted 1 0]"


text \<open>
  \<open>stop\<close> does return: once its time is over, every execution it waits for can end by its cancellation, whatever it was
  doing.
\<close>

lemma cancel_one:
  assumes "proc_inv limit p" "qp_expired p" "qp_pending p = Some hs" "j \<in> set (lq_live (qp_queue p))" "jb_handle j \<in> set hs"
  shows "\<exists>e db. queue_move limit has_engine e p = Some (end_job j (p\<lparr>qp_db := db\<rparr>))"
proof -
  have "distinct (map jb_handle (lq_live (qp_queue p)))" using assms(1) by (simp add: proc_inv_def queue_inv_def)
  then have live: "live_job p (jb_handle j) = Some j"
    using assms(4) by (cases "live_job p (jb_handle j)") (auto simp: live_job_None distinct_map inj_on_def dest: live_jobD)
  have canceled: "canceled_handle p (jb_handle j)" using assms(2,3,5) by (simp add: canceled_handle_def)
  consider (waits) "jb_handle j \<notin> set (qp_marked p)" | (marks) "jb_handle j \<in> set (qp_marked p)" "jb_handle j \<notin> set (qp_trying p)"
    | (tries) "jb_handle j \<in> set (qp_trying p)" by blast
  then show ?thesis
  proof cases
    case waits
    then show ?thesis using live canceled by (intro exI [of _ "WaiterInterrupted (jb_handle j)"] exI [of _ "qp_db p"]) simp
  next
    case marks
    then show ?thesis using live canceled by (intro exI [of _ "MarkerInterrupted (jb_handle j)"] exI [of _ "qp_db p"]) simp
  next
    case tries
    then show ?thesis using live canceled
      by (intro exI [of _ "Interrupted 0 (jb_handle j)"] exI [of _ "mark_status 0 (jb_task j) StCanceled (qp_db p)"]) simp
  qed
qed

lemma filter_other_key: "distinct (map f xs) \<Longrightarrow> x \<in> set xs \<Longrightarrow> filter (\<lambda>y. f y \<noteq> f x) xs = remove1 x xs"
proof (induction xs)
  case (Cons a xs)
  show ?case
  proof (cases "a = x")
    case True
    have "\<forall>y \<in> set xs. f y \<noteq> f x" using Cons.prems(1) True by (metis distinct.simps(2) image_eqI list.simps(9) list.set_map)
    then have "filter (\<lambda>y. f y \<noteq> f x) xs = xs" by (rule filter_True)
    then show ?thesis using True by simp
  next
    case False
    then have "f a \<noteq> f x" using Cons.prems by (metis distinct.simps(2) image_eqI list.simps(9) list.set_map set_ConsD)
    then show ?thesis using Cons False by simp
  qed
qed simp

theorem stop_returns:
  assumes "proc_inv limit p" "qp_expired p" "qp_pending p = Some hs"
  shows "\<exists>es p'. queue_moves limit has_engine es p = Some p' \<and> stop_returned p'
    \<and> length es \<le> length (filter (\<lambda>j. jb_handle j \<in> set hs) (lq_live (qp_queue p)))"
  using assms
proof (induction "length (filter (\<lambda>j. jb_handle j \<in> set hs) (lq_live (qp_queue p)))" arbitrary: p)
  case 0
  then have "\<forall>h \<in> set hs. live_job p h = None" by (auto simp: live_job_None filter_empty_conv)
  then show ?case using 0 by (intro exI [of _ "[]"]) (simp add: stop_returned_def list_all_iff)
next
  case (Suc n)
  then obtain j where j: "j \<in> set (lq_live (qp_queue p))" "jb_handle j \<in> set hs"
    by (metis filter_empty_conv length_0_conv nat.distinct(1))
  obtain e db where move: "queue_move limit has_engine e p = Some (end_job j (p\<lparr>qp_db := db\<rparr>))"
    using cancel_one [OF Suc.prems j] by blast
  let ?p = "end_job j (p\<lparr>qp_db := db\<rparr>)"
  have live: "lq_live (qp_queue ?p) = filter (\<lambda>k. jb_handle k \<noteq> jb_handle j) (lq_live (qp_queue p))"
    by (simp add: end_job_def job_done_def)
  have dist: "distinct (map jb_handle (lq_live (qp_queue p)))" using Suc.prems(1) by (simp add: proc_inv_def queue_inv_def)
  have n: "n = length (filter (\<lambda>k. jb_handle k \<in> set hs) (lq_live (qp_queue ?p)))"
    unfolding live filter_other_key [OF dist j(1)] using Suc.hyps(2) j by (simp add: filter_remove1 length_remove1)
  have "proc_inv limit ?p" using proc_inv_move [OF Suc.prems(1) move] .
  from Suc.hyps(1) [OF n this] obtain es p' where "queue_moves limit has_engine es ?p = Some p'" "stop_returned p'" "length es \<le> n"
    using Suc.prems n by (auto simp: end_job_def)
  then show ?case using move Suc.hyps(2) by (intro exI [of _ "e # es"]) auto
qed

text \<open>The one window: an execution that is canceled right after the write of its status leaves the row as running.\<close>

lemma interrupted_marker_stays_running:
  assumes "queue_move limit has_engine (MarkerInterrupted h) p = Some p'" "live_job p h = Some j" "jb_task j \<in> running_ids (qp_db p)"
  shows "jb_task j \<in> running_ids (qp_db p') \<and> h \<notin> jb_handle ` set (lq_live (qp_queue p'))"
  using assms live_jobD [OF assms(2)] by (auto simp: end_job_def job_done_def split: if_splits)

text \<open>The next start of the process sweeps what is left.\<close>

lemma restart_sweeps: "\<forall>t \<in> set (db_tasks (queue_start True now error db)). tk_status t \<notin> set active_statuses"
  by (auto simp: queue_start_def fail_interrupted_tasks_def fail_row_def active_statuses_def Let_def)

end
