(* ===== verification/Credentials.thy ===== *)
theory Credentials
  imports Security Json_Codec
begin

text \<open>
  The credentials file (\<^verbatim>\<open>_load_credentials\<close> and \<^verbatim>\<open>_save_credentials\<close> in \<^verbatim>\<open>app/api/security.py\<close>): its JSON text with
  every character beyond ASCII escaped, its permission bits, and the start of the service that reads it, draws what is
  missing and writes it back.
\<close>

section \<open>The text of the file\<close>

text \<open>A code unit as four hexadecimal digits after an escaped \<open>u\<close>.\<close>

definition hex_escape :: "nat \<Rightarrow> pystr" where
  "hex_escape u = [92, 117, hex_digit (u div 4096), hex_digit (u div 256 mod 16), hex_digit (u div 16 mod 16), hex_digit (u mod 16)]"

text \<open>
  The escapes of \<open>json.dumps\<close> when it may write ASCII only: printable characters stay, and a character beyond the first
  plane becomes a pair of surrogates.
\<close>

definition esc_ascii :: "nat \<Rightarrow> pystr" where
  "esc_ascii c =
     (if c < 32 \<or> c = 34 \<or> c = 92 then esc_char c
      else if c < 127 then [c]
      else if c < 65536 then hex_escape c
      else hex_escape (55296 + (c - 65536) div 1024) @ hex_escape (56320 + (c - 65536) mod 1024))"

definition dumps_ascii :: "pystr \<Rightarrow> pystr" where
  "dumps_ascii s = 34 # concat (map esc_ascii s) @ [34]"

definition credentials_text :: "pystr \<Rightarrow> pystr \<Rightarrow> pystr" where
  "credentials_text admin_key default_key =
     ascii ''{'' @ [10, 32, 32] @ dumps_ascii (ascii ''admin_api_key'') @ ascii '': '' @ dumps_ascii admin_key
     @ ascii '','' @ [10, 32, 32] @ dumps_ascii (ascii ''default_tenant_key'') @ ascii '': '' @ dumps_ascii default_key
     @ [10] @ ascii ''}''"

text \<open>\<open>_load_credentials\<close>; \<open>None\<close> is a file that is absent, unreadable or no text.\<close>

definition load_credentials :: "pystr option \<Rightarrow> json dict" where
  "load_credentials content =
     (case Option.bind content loads of Some (JObj d) \<Rightarrow> d | _ \<Rightarrow> [])"

text \<open>
  The two entries as the start of the service reads them, an absent one as empty. The program writes texts only; a number or
  an object that somebody puts there by hand is outside the model and is read as empty as well.
\<close>

definition entry_text :: "json dict \<Rightarrow> pystr \<Rightarrow> pystr" where
  "entry_text d k = (case dict_get d k of Some (JStr s) \<Rightarrow> s | _ \<Rightarrow> [])"

definition credentials_of :: "json dict \<Rightarrow> credentials" where
  "credentials_of d = \<lparr>cr_admin = entry_text d (ascii ''admin_api_key''), cr_default = entry_text d (ascii ''default_tenant_key'')\<rparr>"

section \<open>Its permissions\<close>

record cred_file =
  cf_text :: pystr
  cf_mode :: nat

text \<open>
  What the operating system does: whether it lets the process write, the bits of a new file, the bits that \<open>chmod\<close>
  leaves behind (\<open>None\<close> when it raises), whether the bits can be read back, and on Windows the name of the user and
  the outcome of \<open>icacls\<close> (\<open>None\<close> when it cannot be run).
\<close>

record save_os =
  so_windows :: bool
  so_writable :: bool
  so_new_mode :: nat
  so_chmod :: "nat \<Rightarrow> nat option"
  so_stat_ok :: bool
  so_username :: "pystr option"
  so_icacls :: "bool option"

datatype save_warning = ChmodFailed | AclFailed | NoUserName | ModeTooOpen nat

text \<open>\<open>mode & 0o077\<close>: the bits of the group and of the others.\<close>

definition foreign_bits :: "nat \<Rightarrow> nat" where
  "foreign_bits mode = mode mod 64"

text \<open>The file right after it was written: a new one gets the default bits, an old one keeps its own.\<close>

definition written_file :: "save_os \<Rightarrow> cred_file option \<Rightarrow> pystr \<Rightarrow> pystr \<Rightarrow> cred_file" where
  "written_file os old admin_key default_key =
     \<lparr>cf_text = credentials_text admin_key default_key, cf_mode = (case old of None \<Rightarrow> so_new_mode os | Some f \<Rightarrow> cf_mode f)\<rparr>"

text \<open>\<open>_save_credentials\<close>; \<open>None\<close> when the write raises.\<close>

definition save_credentials :: "save_os \<Rightarrow> cred_file option \<Rightarrow> pystr \<Rightarrow> pystr \<Rightarrow> (save_warning list \<times> cred_file) option" where
  "save_credentials os old admin_key default_key =
     (if \<not> so_writable os then None
      else
        (let f = written_file os old admin_key default_key;
             (w, f1) = (case so_chmod os (cf_mode f) of None \<Rightarrow> ([ChmodFailed], f) | Some m \<Rightarrow> ([], f\<lparr>cf_mode := m\<rparr>));
             w2 = (if so_windows os then
                     (case so_username os of
                        None \<Rightarrow> [NoUserName]
                      | Some u \<Rightarrow> if u = [] then [NoUserName] else if so_icacls os = Some True then [] else [AclFailed])
                   else if so_stat_ok os \<and> foreign_bits (cf_mode f1) \<noteq> 0 then [ModeTooOpen (cf_mode f1)] else [])
         in Some (w @ w2, f1)))"

section \<open>The start of the service\<close>

text \<open>\<open>bootstrap_auth\<close> with the file: it is written only when a key differs from the one that was read.\<close>

definition start_auth :: "save_os \<Rightarrow> (pystr \<Rightarrow> pystr) \<Rightarrow> auth_settings \<Rightarrow> pystr \<times> pystr \<times> pystr \<Rightarrow> seconds
     \<Rightarrow> cred_file option \<Rightarrow> database \<Rightarrow> auth_app \<Rightarrow> (db_error + save_warning list \<times> cred_file option \<times> database \<times> auth_app) option" where
  "start_auth os sha cfg tokens now file db app =
     (let creds = credentials_of (load_credentials (map_option cf_text file))
      in case bootstrap_auth sha cfg tokens now creds db app of
           Inl e \<Rightarrow> Some (Inl e)
         | Inr (creds', db', app') \<Rightarrow>
             if creds' = creds then Some (Inr ([], file, db', app'))
             else map_option (\<lambda>(ws, f). Inr (ws, Some f, db', app')) (save_credentials os file (cr_admin creds') (cr_default creds')))"

section \<open>What is written is read back\<close>

text \<open>Texts without a leading half of a surrogate pair; every key the program draws is one.\<close>

definition plain_key :: "pystr \<Rightarrow> bool" where
  "plain_key s = list_all (\<lambda>c. c < 1114112 \<and> \<not> (55296 \<le> c \<and> c \<le> 56319)) s"

lemma hex4_digits:
  assumes "u < 65536"
  shows "hex4 (hex_digit (u div 4096) # hex_digit (u div 256 mod 16) # hex_digit (u div 16 mod 16) # hex_digit (u mod 16) # t) = Some (u, t)"
proof -
  have "u div 4096 < 16" using assms by simp
  moreover have "((u div 4096 * 16 + u div 256 mod 16) * 16 + u div 16 mod 16) * 16 + u mod 16 = u"
  proof -
    have "u div 4096 = u div 16 div 16 div 16" "u div 256 = u div 16 div 16" by (simp_all add: div_mult2_eq [symmetric])
    then show ?thesis by (simp only: div_mult_mod_eq)
  qed
  ultimately show ?thesis by (simp add: hex4_def hex_val_digit)
qed

lemma string_body_escape: "string_body (92 # 117 # t) = (case unicode_escape t of
    None \<Rightarrow> None | Some (u, r) \<Rightarrow> map_option (\<lambda>(s, q). (u # s, q)) (string_body r))"
  by (subst string_body.simps) simp

lemma string_body_esc_ascii:
  assumes "c < 1114112" "\<not> (55296 \<le> c \<and> c \<le> 56319)"
  shows "string_body (esc_ascii c @ t) = map_option (\<lambda>(u, q). (c # u, q)) (string_body t)"
proof -
  consider "c < 32 \<or> c = 34 \<or> c = 92" | "32 \<le> c" "c \<noteq> 34" "c \<noteq> 92" "c < 127" | "127 \<le> c" "c < 65536" | "65536 \<le> c" by linarith
  then show ?thesis
  proof cases
    case 1
    then have "esc_ascii c = esc_char c" by (auto simp: esc_ascii_def)
    then show ?thesis using string_body_esc by simp
  next
    case 2
    then have "esc_ascii c = esc_char c" by (simp add: esc_ascii_def esc_char_def)
    then show ?thesis using string_body_esc by simp
  next
    case 3
    have "unicode_escape (tl (tl (hex_escape c)) @ t) = Some (c, t)"
      using 3 assms(2) by (auto simp add: unicode_escape_def hex_escape_def hex4_digits)
    then show ?thesis using 3 by (simp add: esc_ascii_def hex_escape_def string_body_escape)
  next
    case 4
    let ?h = "55296 + (c - 65536) div 1024" and ?l = "56320 + (c - 65536) mod 1024"
    have h: "?h < 65536" "?h \<le> 56319" using assms(1) by auto
    have l: "?l < 65536" "?l \<le> 57343" by auto
    have "(c - 65536) div 1024 * 1024 + (c - 65536) mod 1024 = c - 65536" by (rule div_mult_mod_eq)
    then have pair: "65536 + (?h - 55296) * 1024 + (?l - 56320) = c" using 4 by simp
    have "hex4 (tl (tl (hex_escape ?h)) @ hex_escape ?l @ t) = Some (?h, hex_escape ?l @ t)"
      unfolding hex_escape_def list.sel append_Cons append_Nil by (rule hex4_digits [OF h(1)])
    moreover have "hex4 (drop 2 (hex_escape ?l @ t)) = Some (?l, t)"
      using hex4_digits [OF l(1)] by (simp only: hex_escape_def append_Cons append_Nil drop_Suc_Cons drop_0 numeral_2_eq_2)
    moreover have "take 2 (hex_escape ?l @ t) = [92, 117]" by (simp add: hex_escape_def)
    ultimately have "unicode_escape (tl (tl (hex_escape ?h)) @ hex_escape ?l @ t) = Some (c, t)"
      using h(2) l(2) pair unfolding unicode_escape_def by (simp only: option.case prod.case) simp
    then show ?thesis using 4 by (simp add: esc_ascii_def hex_escape_def string_body_escape)
  qed
qed

lemma string_body_dumps_ascii: "plain_key s \<Longrightarrow> string_body (concat (map esc_ascii s) @ 34 # rest) = Some (s, rest)"
proof (induction s)
  case Nil
  show ?case by (subst string_body.simps) simp
next
  case (Cons c s)
  then have "c < 1114112" "\<not> (55296 \<le> c \<and> c \<le> 56319)" "plain_key s" by (auto simp: plain_key_def)
  then show ?case using Cons.IH by (simp add: string_body_esc_ascii)
qed

lemma jvalue_text: "plain_key s \<Longrightarrow> jvalue (Suc n) (dumps_ascii s @ rest) = Some (JStr s, rest)"
  by (simp add: dumps_ascii_def string_body_dumps_ascii)

lemma skip_ws_text: "skip_ws (dumps_ascii s @ r) = dumps_ascii s @ r"
  by (simp add: skip_ws_def json_ws_def dumps_ascii_def)

lemma jmembers_text:
  assumes "plain_key k" "plain_key v"
  shows "jmembers (Suc (Suc n)) acc (dumps_ascii k @ ascii '': '' @ dumps_ascii v @ r) =
    (case skip_ws r of
       [] \<Rightarrow> None
     | d # r4 \<Rightarrow>
         if d = 44 then jmembers (Suc n) (dict_set k (JStr v) acc) (skip_ws r4)
         else if d = 125 then Some (JObj (dict_set k (JStr v) acc), r4)
         else None)"
proof -
  have gap: "skip_ws (58 # 32 # x) = 58 # 32 # x" "skip_ws (32 # dumps_ascii v @ r) = dumps_ascii v @ r" for x
    by (simp_all add: skip_ws_def json_ws_def dumps_ascii_def)
  have "dumps_ascii k @ ascii '': '' @ dumps_ascii v @ r = 34 # (concat (map esc_ascii k) @ 34 # 58 # 32 # dumps_ascii v @ r)"
    by (simp add: dumps_ascii_def ascii_def)
  then show ?thesis
    by (simp only: jmembers.simps list.case option.case prod.case string_body_dumps_ascii [OF assms(1)] gap jvalue_text [OF assms(2)]
        simp_thms if_False if_True)
qed

lemma jvalue_object_start: "skip_ws r = 34 # r' \<Longrightarrow> jvalue (Suc n) (123 # r) = jmembers n [] (34 # r')"
  by simp

lemma loads_credentials_text:
  assumes "plain_key a" "plain_key d"
  shows "loads (credentials_text a d) = Some (JObj [(ascii ''admin_api_key'', JStr a), (ascii ''default_tenant_key'', JStr d)])"
proof -
  have names: "plain_key (ascii ''admin_api_key'')" "plain_key (ascii ''default_tenant_key'')"
    by (simp_all add: plain_key_def ascii_def)
  let ?second = "dumps_ascii (ascii ''default_tenant_key'') @ ascii '': '' @ dumps_ascii d @ [10] @ ascii ''}''"
  let ?body = "dumps_ascii (ascii ''admin_api_key'') @ ascii '': '' @ dumps_ascii a @ ascii '','' @ [10, 32, 32] @ ?second"
  have shape: "credentials_text a d = 123 # 10 # 32 # 32 # ?body" by (simp add: credentials_text_def ascii_def)
  have "12 \<le> json_fuel (credentials_text a d)" by (simp add: json_fuel_def shape)
  then obtain n where fuel: "json_fuel (credentials_text a d) = Suc (Suc (Suc (Suc (Suc n))))"
    using that [of "json_fuel (credentials_text a d) - 5"] by simp
  have skips: "skip_ws (10 # 32 # 32 # ?body) = ?body" "skip_ws (ascii '','' @ [10, 32, 32] @ ?second) = 44 # 10 # 32 # 32 # ?second"
      "skip_ws (10 # 32 # 32 # ?second) = ?second" "skip_ws ([10] @ ascii ''}'') = [125]"
    by (simp_all add: skip_ws_def json_ws_def dumps_ascii_def ascii_def)
  obtain r where head: "?body = 34 # r" by (simp add: dumps_ascii_def)
  let ?two = "dict_set (ascii ''default_tenant_key'') (JStr d) (dict_set (ascii ''admin_api_key'') (JStr a) [])"
  have "jmembers (Suc (Suc (Suc (Suc n)))) [] ?body = jmembers (Suc (Suc (Suc n))) (dict_set (ascii ''admin_api_key'') (JStr a) []) ?second"
    unfolding jmembers_text [OF names(1) assms(1)] skips(2) by (simp only: list.case if_True simp_thms skips(3))
  also have "\<dots> = Some (JObj ?two, [])"
    unfolding jmembers_text [OF names(2) assms(2)] skips(4) by simp
  finally have members: "jmembers (Suc (Suc (Suc (Suc n)))) [] ?body = Some (JObj ?two, [])" .
  have "raw_decode (credentials_text a d) = jmembers (Suc (Suc (Suc (Suc n)))) [] ?body"
    unfolding raw_decode_def fuel unfolding shape head by (rule jvalue_object_start) (simp only: skips(1) [unfolded head])
  moreover have "skip_ws (credentials_text a d) = credentials_text a d" by (simp add: shape skip_ws_def json_ws_def)
  ultimately show ?thesis unfolding loads_def members by (simp add: dict_set_def ascii_def skip_ws_def)
qed

lemma credentials_read_back:
  assumes "plain_key a" "plain_key d"
  shows "credentials_of (load_credentials (Some (credentials_text a d))) = \<lparr>cr_admin = a, cr_default = d\<rparr>"
  using loads_credentials_text [OF assms] by (simp add: load_credentials_def credentials_of_def entry_text_def dict_get_def ascii_def)

lemma save_credentials_text:
  "save_credentials os old a d = Some (ws, f) \<Longrightarrow> cf_text f = credentials_text a d"
  by (auto simp: save_credentials_def written_file_def Let_def split: if_splits option.splits)

definition plain_credentials :: "credentials \<Rightarrow> bool" where
  "plain_credentials c = (plain_key (cr_admin c) \<and> plain_key (cr_default c))"

lemma bootstrap_plain:
  assumes "bootstrap_auth sha cfg (t1, t2, t3) now creds db app = Inr (creds', db', app')" "au_enabled cfg"
    and "plain_key (au_admin_api_key cfg)" "plain_key t1" "plain_key t2" "plain_credentials creds"
  shows "plain_credentials creds'"
proof -
  have "plain_key (ascii ''adm-'' @ t1)" "plain_key (fst (generate_api_key t2))"
    using assms(4,5) by (simp_all add: plain_key_def generate_api_key_def ascii_def)
  moreover have "cr_default creds' = cr_default creds \<or> cr_default creds' = fst (generate_api_key t2)"
    using assms(1,2) by (auto simp: bootstrap_auth_def ensure_default_tenant_def Let_def map_sum_Inr_iff split: option.splits if_splits)
  moreover have "cr_admin creds' \<in> {au_admin_api_key cfg, cr_admin creds, ascii ''adm-'' @ t1}"
    using assms(1,2) by (auto simp: bootstrap_auth_def Let_def map_sum_Inr_iff)
  ultimately show ?thesis using assms(3,6) by (auto simp: plain_credentials_def)
qed

text \<open>
  C34. The credentials survive a restart: when a start of the service with authentication on succeeds and leaves a file,
  the file holds the administrator's key in force and a key of the enabled default tenant, and the next start reads them
  back and changes neither the file nor the database nor the keys, whatever it would draw and whatever the operating
  system then allows.
\<close>

theorem credentials_survive_restart:
  assumes "db_ok db" "au_enabled cfg" "start_auth os sha cfg (t1, t2, t3) now file db app = Some (Inr (ws, Some f, db', app'))"
    and "plain_key (au_admin_api_key cfg)" "plain_key t1" "plain_key t2"
    and "plain_credentials (credentials_of (load_credentials (map_option cf_text file)))"
  shows "\<exists>k t. credentials_of (load_credentials (Some (cf_text f))) = \<lparr>cr_admin = ap_admin_key app', cr_default = k\<rparr>
    \<and> ap_admin_key app' \<noteq> [] \<and> get_tenant_by_key_hash (sha k) db' = Some t \<and> tn_name t = default_tenant_name \<and> tn_enabled t
    \<and> start_auth os' sha cfg tokens' now' (Some f) db' app = Some (Inr ([], Some f, db', app'))"
proof -
  let ?creds = "credentials_of (load_credentials (map_option cf_text file))"
  obtain creds' where boot: "bootstrap_auth sha cfg (t1, t2, t3) now ?creds db app = Inr (creds', db', app')"
    and kept: "creds' = ?creds \<and> file = Some f \<or> save_credentials os file (cr_admin creds') (cr_default creds') = Some (ws, f)"
    using assms(3) by (auto simp: start_auth_def Let_def split: sum.splits if_splits option.splits prod.splits)
  have plain: "plain_key (cr_admin creds')" "plain_key (cr_default creds')"
    using bootstrap_plain [OF boot assms(2,4-7)] by (simp_all add: plain_credentials_def)
  have read: "credentials_of (load_credentials (Some (cf_text f))) = creds'"
    using kept
  proof
    assume "save_credentials os file (cr_admin creds') (cr_default creds') = Some (ws, f)"
    then show ?thesis using credentials_read_back [OF plain] save_credentials_text by simp
  qed simp
  note usable = bootstrap_usable [OF assms(1,2) boot, of tokens' now']
  have "start_auth os' sha cfg tokens' now' (Some f) db' app = Some (Inr ([], Some f, db', app'))"
    using usable by (simp add: start_auth_def Let_def read)
  then show ?thesis using usable read by (cases creds') auto
qed

definition demo_os :: save_os where
  "demo_os = \<lparr>so_windows = False, so_writable = True, so_new_mode = 420, so_chmod = (\<lambda>_. Some 384), so_stat_ok = True,
     so_username = None, so_icacls = None\<rparr>"

theorem credentials_survive_restart_witness:
  "\<exists>f db' app'. start_auth demo_os id demo_auth (ascii ''a'', ascii ''b'', ascii ''c'') 0 None empty_db demo_app = Some (Inr ([], Some f, db', app'))
     \<and> start_auth demo_os id demo_auth (ascii ''x'', ascii ''y'', ascii ''z'') 9 (Some f) db' demo_app = Some (Inr ([], Some f, db', app'))"
proof -
  have none: "credentials_of (load_credentials (map_option cf_text None)) = \<lparr>cr_admin = [], cr_default = []\<rparr>"
    by (simp add: load_credentials_def credentials_of_def entry_text_def)
  obtain f db' app' where start: "start_auth demo_os id demo_auth (ascii ''a'', ascii ''b'', ascii ''c'') 0 None empty_db demo_app
      = Some (Inr ([], Some f, db', app'))"
    unfolding start_auth_def none Let_def demo_bootstrap
    by (simp add: save_credentials_def demo_os_def written_file_def foreign_bits_def ascii_def)
  have "au_enabled demo_auth" "plain_key (au_admin_api_key demo_auth)" by (simp_all add: demo_auth_def plain_key_def)
  moreover have "plain_key (ascii ''a'')" "plain_key (ascii ''b'')" by (simp_all add: plain_key_def ascii_def)
  moreover have "plain_credentials (credentials_of (load_credentials (map_option cf_text None)))"
    by (simp only: none plain_credentials_def) (simp add: plain_key_def)
  ultimately have "start_auth demo_os id demo_auth (ascii ''x'', ascii ''y'', ascii ''z'') 9 (Some f) db' demo_app = Some (Inr ([], Some f, db', app'))"
    using credentials_survive_restart [OF empty_db_ok _ start, of demo_os "(ascii ''x'', ascii ''y'', ascii ''z'')" 9] by blast
  then show ?thesis using start by blast
qed

section \<open>Who can read the file\<close>

text \<open>
  On a system with permission bits, a save either leaves a file that only its owner can use, or warns about it, unless the
  bits cannot be read.
\<close>

theorem save_private_or_warned:
  assumes "save_credentials os old a d = Some (ws, f)" "\<not> so_windows os" "so_stat_ok os"
  shows "foreign_bits (cf_mode f) = 0 \<or> ModeTooOpen (cf_mode f) \<in> set ws"
  using assms by (auto simp: save_credentials_def Let_def split: if_splits option.splits)

text \<open>But until then a new file has the default bits, with both keys in it: with the usual ones everybody can read them.\<close>

lemma new_file_open_until_chmod:
  assumes "so_new_mode os = 420"
  shows "foreign_bits (cf_mode (written_file os None a d)) \<noteq> 0 \<and> cf_text (written_file os None a d) = credentials_text a d"
  using assms by (simp add: written_file_def foreign_bits_def)

text \<open>And the administrator's key of the environment is written to the file as well.\<close>

lemma environment_key_written:
  assumes "start_auth os sha cfg tokens now None db app = Some (Inr (ws, file, db', app'))" "au_enabled cfg" "au_admin_api_key cfg \<noteq> []"
  shows "\<exists>f k. file = Some f \<and> cf_text f = credentials_text (au_admin_api_key cfg) k"
proof -
  have none: "credentials_of (load_credentials None) = \<lparr>cr_admin = [], cr_default = []\<rparr>"
    by (simp add: load_credentials_def credentials_of_def entry_text_def)
  obtain creds' f where boot: "bootstrap_auth sha cfg tokens now \<lparr>cr_admin = [], cr_default = []\<rparr> db app = Inr (creds', db', app')"
    and saved: "creds' = \<lparr>cr_admin = [], cr_default = []\<rparr>
      \<or> file = Some f \<and> save_credentials os None (cr_admin creds') (cr_default creds') = Some (ws, f)"
    using assms(1) by (auto simp: start_auth_def Let_def none split: sum.splits if_splits option.splits prod.splits)
  have "cr_admin creds' = au_admin_api_key cfg"
    using boot assms(2,3) by (cases tokens) (auto simp: bootstrap_auth_def Let_def map_sum_Inr_iff)
  then show ?thesis using saved save_credentials_text assms(3) by auto
qed

end
