(* ===== verification/Checkpoints.thy ===== *)
theory Checkpoints
  imports Repository
begin

text \<open>
  Deleting a task together with its checkpoints (\<^verbatim>\<open>delete_task\<close> and \<^verbatim>\<open>_delete_thread_checkpoints\<close> in
  \<^verbatim>\<open>app/storage/repository.py\<close>): the checkpoints are in tables of the graph library, in PostgreSQL or in an SQLite file
  of their own; their deletion is attempted and never fails the deletion of the task.
\<close>

section \<open>The tables of the graph library\<close>

text \<open>A table maps to the thread of each of its rows; \<open>None\<close> is a table that does not exist.\<close>

type_synonym ckpt_db = "pystr \<Rightarrow> pystr list option"

definition delete_thread :: "pystr \<Rightarrow> pystr \<Rightarrow> ckpt_db \<Rightarrow> ckpt_db" where
  "delete_thread tbl tid db = db(tbl := map_option (removeAll tid) (db tbl))"

text \<open>A statement fails on a missing table, or for a reason of the database's own.\<close>

definition statement_fails :: "(pystr \<Rightarrow> bool) \<Rightarrow> pystr \<Rightarrow> ckpt_db \<Rightarrow> bool" where
  "statement_fails fails tbl db = (db tbl = None \<or> fails tbl)"

section \<open>Deletion\<close>

text \<open>PostgreSQL: one transaction; a statement that fails is followed by a roll-back, and the loop goes on.\<close>

definition postgres_tables :: "pystr list" where
  "postgres_tables = [ascii ''checkpoint_writes'', ascii ''checkpoint_blobs'', ascii ''checkpoints'']"

fun postgres_loop :: "(pystr \<Rightarrow> bool) \<Rightarrow> pystr \<Rightarrow> ckpt_db \<Rightarrow> pystr list \<Rightarrow> ckpt_db \<Rightarrow> ckpt_db" where
  "postgres_loop fails tid stored [] cur = cur"
| "postgres_loop fails tid stored (tbl # tbls) cur =
     (if statement_fails fails tbl cur then postgres_loop fails tid stored tbls stored
      else postgres_loop fails tid stored tbls (delete_thread tbl tid cur))"

text \<open>SQLite: a statement that fails is skipped.\<close>

definition sqlite_tables :: "pystr list" where
  "sqlite_tables = [ascii ''writes'', ascii ''checkpoints'']"

fun sqlite_loop :: "(pystr \<Rightarrow> bool) \<Rightarrow> pystr \<Rightarrow> pystr list \<Rightarrow> ckpt_db \<Rightarrow> ckpt_db" where
  "sqlite_loop fails tid [] cur = cur"
| "sqlite_loop fails tid (tbl # tbls) cur =
     (if statement_fails fails tbl cur then sqlite_loop fails tid tbls cur
      else sqlite_loop fails tid tbls (delete_thread tbl tid cur))"

text \<open>
  \<open>_delete_thread_checkpoints\<close>: \<open>opens\<close> and \<open>commits\<close> tell whether the connection and the commit succeed; a failure of either
  is logged.
\<close>

record ckpt_os =
  co_url :: pystr
  co_file_exists :: bool
  co_opens :: bool
  co_fails :: "pystr \<Rightarrow> bool"
  co_commits :: bool

definition delete_thread_checkpoints :: "ckpt_os \<Rightarrow> pystr \<Rightarrow> ckpt_db \<Rightarrow> ckpt_db" where
  "delete_thread_checkpoints os tid db =
     (let postgres = str_prefix (ascii ''postgresql'') (co_url os)
      in if \<not> postgres \<and> \<not> co_file_exists os then db
         else if \<not> co_opens os \<or> \<not> co_commits os then db
         else if postgres then postgres_loop (co_fails os) tid db postgres_tables db
         else sqlite_loop (co_fails os) tid sqlite_tables db)"

definition delete_task :: "ckpt_os \<Rightarrow> pystr \<Rightarrow> pystr option \<Rightarrow> database \<times> ckpt_db \<Rightarrow> task_row option \<times> database \<times> ckpt_db" where
  "delete_task os task_id tenant_id state =
     (case state of (db, ck) \<Rightarrow>
        (case delete_task_rows task_id tenant_id db of
           (None, db1) \<Rightarrow> (None, db1, ck)
         | (Some t, db1) \<Rightarrow> (Some t, db1, delete_thread_checkpoints os task_id ck)))"

section \<open>What it deletes\<close>

definition threads_of :: "ckpt_db \<Rightarrow> pystr \<Rightarrow> pystr set" where
  "threads_of db tbl = (case db tbl of None \<Rightarrow> {} | Some rows \<Rightarrow> set rows)"

lemma delete_thread_threads: "threads_of (delete_thread tbl tid db) t = (if t = tbl then threads_of db t - {tid} else threads_of db t)"
  by (auto simp: delete_thread_def threads_of_def split: option.splits)

lemma postgres_loop_bound:
  "(\<forall>t. threads_of db t - {tid} \<subseteq> threads_of cur t \<and> threads_of cur t \<subseteq> threads_of db t) \<Longrightarrow>
   (\<forall>t. threads_of db t - {tid} \<subseteq> threads_of (postgres_loop fails tid db tbls cur) t
      \<and> threads_of (postgres_loop fails tid db tbls cur) t \<subseteq> threads_of db t)"
proof (induction tbls arbitrary: cur)
  case (Cons tbl tbls)
  have "\<forall>t. threads_of db t - {tid} \<subseteq> threads_of (delete_thread tbl tid cur) t \<and> threads_of (delete_thread tbl tid cur) t \<subseteq> threads_of db t"
    using Cons.prems by (auto simp: delete_thread_threads)
  moreover have "\<forall>t. threads_of db t - {tid} \<subseteq> threads_of db t \<and> threads_of db t \<subseteq> threads_of db t" by blast
  ultimately show ?case using Cons.IH by simp
qed simp

lemma sqlite_loop_bound:
  "threads_of cur t - {tid} \<subseteq> threads_of (sqlite_loop fails tid tbls cur) t \<and> threads_of (sqlite_loop fails tid tbls cur) t \<subseteq> threads_of cur t"
proof (induction tbls arbitrary: cur)
  case (Cons tbl tbls)
  show ?case using Cons.IH [of cur] Cons.IH [of "delete_thread tbl tid cur"] by (auto simp: delete_thread_threads split: if_splits)
qed simp

text \<open>Nothing but rows of the task's thread is ever deleted, and a foreign or unknown task deletes nothing at all.\<close>

lemma delete_task_own_thread:
  assumes "delete_task os tid n (db, ck) = (r, db', ck')"
  shows "threads_of ck t - {tid} \<subseteq> threads_of ck' t \<and> threads_of ck' t \<subseteq> threads_of ck t \<and> (r = None \<longrightarrow> ck' = ck)
    \<and> (r, db') = delete_task_rows tid n db"
proof -
  have "threads_of ck t - {tid} \<subseteq> threads_of (delete_thread_checkpoints os tid ck) t
      \<and> threads_of (delete_thread_checkpoints os tid ck) t \<subseteq> threads_of ck t"
    using postgres_loop_bound [of ck tid ck "co_fails os" postgres_tables] sqlite_loop_bound [of ck t tid "co_fails os" sqlite_tables]
    by (auto simp: delete_thread_checkpoints_def Let_def)
  then show ?thesis using assms by (auto simp: delete_task_def split: option.splits prod.splits)
qed

lemma delete_keeps_fails: "statement_fails fails t (delete_thread tbl tid cur) = statement_fails fails t cur"
  by (simp add: statement_fails_def delete_thread_def)

lemma sqlite_loop_clears:
  "t \<in> set tbls \<Longrightarrow> \<not> statement_fails fails t cur \<Longrightarrow> tid \<notin> threads_of (sqlite_loop fails tid tbls cur) t"
proof (induction tbls arbitrary: cur)
  case (Cons tbl tbls)
  show ?case
  proof (cases "t = tbl")
    case True
    have "tid \<notin> threads_of (delete_thread tbl tid cur) t" using True by (simp add: delete_thread_threads)
    then show ?thesis using True Cons.prems(2) sqlite_loop_bound [of "delete_thread tbl tid cur" t tid fails tbls] by auto
  next
    case False
    then show ?thesis using Cons delete_keeps_fails by auto
  qed
qed simp

lemma postgres_loop_all:
  "\<forall>t \<in> set tbls. \<not> statement_fails fails t cur \<Longrightarrow> postgres_loop fails tid db tbls cur = fold (\<lambda>t. delete_thread t tid) tbls cur"
  by (induction tbls arbitrary: cur) (simp_all add: delete_keeps_fails)

lemma fold_delete_threads: "threads_of (fold (\<lambda>t. delete_thread t tid) tbls cur) t = (if t \<in> set tbls then threads_of cur t - {tid} else threads_of cur t)"
  by (induction tbls arbitrary: cur) (auto simp: delete_thread_threads)

text \<open>
  When every statement succeeds no row of the thread is left. In SQLite a table that fails does not keep the others from
  being cleared.
\<close>

theorem checkpoints_cleared:
  assumes "co_opens os" "co_commits os" "tbls = (if str_prefix (ascii ''postgresql'') (co_url os) then postgres_tables else sqlite_tables)"
    and "str_prefix (ascii ''postgresql'') (co_url os) \<or> co_file_exists os"
    and "\<forall>t \<in> set tbls. \<not> statement_fails (co_fails os) t ck" "t \<in> set tbls"
  shows "tid \<notin> threads_of (delete_thread_checkpoints os tid ck) t"
  using assms sqlite_loop_clears [of t sqlite_tables "co_fails os" ck tid] postgres_loop_all [of postgres_tables "co_fails os" ck tid ck]
  by (auto simp: delete_thread_checkpoints_def Let_def fold_delete_threads split: if_splits)

text \<open>
  But in PostgreSQL the roll-back after a table that fails takes back what was deleted before it: when the second table
  fails, the rows of the first stay, although its own statement succeeded.
\<close>

lemma rollback_undoes_earlier:
  assumes "co_opens os" "co_commits os" "str_prefix (ascii ''postgresql'') (co_url os)"
    and "statement_fails (co_fails os) (ascii ''checkpoint_blobs'') ck"
  shows "threads_of (delete_thread_checkpoints os tid ck) (ascii ''checkpoint_writes'') = threads_of ck (ascii ''checkpoint_writes'')"
proof -
  have apart: "ascii ''checkpoint_writes'' \<noteq> ascii ''checkpoint_blobs''" "ascii ''checkpoint_writes'' \<noteq> ascii ''checkpoints''"
    by (simp_all add: ascii_def)
  show ?thesis
    using assms apart
    by (simp add: delete_thread_checkpoints_def Let_def postgres_tables_def delete_keeps_fails delete_thread_threads)
qed

end
