(* ===== verification/Span_Blocks.thy ===== *)
theory Span_Blocks
  imports Spans
begin

text \<open>
  Spans as blocks of code (\<^verbatim>\<open>span\<close>, \<^verbatim>\<open>__enter__\<close> and \<^verbatim>\<open>__exit__\<close> in \<^verbatim>\<open>app/observability/spans.py\<close>): nested blocks that
  call each other and raise exceptions, and the spans they leave in the buffer.
\<close>

section \<open>Blocks\<close>

text \<open>
  A block with its fresh identifier, its kind and name, what the clocks say at its two ends, the blocks inside it, and the
  class of the exception that its own code raises after them.
\<close>

datatype span_block = SpanBlock (bk_id: pystr) (bk_kind: pystr) (bk_name: pystr) (bk_start: seconds) (bk_end: seconds) (bk_wall: seconds)
  (bk_inner: "span_block list") (bk_raises: "pystr option")

text \<open>
  \<open>with span(...)\<close>: the session ends in both branches, and an exception goes on. \<open>env\<close> is the trace of the process;
  \<open>None\<close> is the error of a buffer without room.
\<close>

fun run_block :: "pystr \<Rightarrow> span_block \<Rightarrow> trace_ctx \<Rightarrow> span_buffer \<Rightarrow> (pystr option \<times> trace_ctx \<times> span_buffer) option"
  and run_blocks :: "pystr \<Rightarrow> span_block list \<Rightarrow> trace_ctx \<Rightarrow> span_buffer \<Rightarrow> (pystr option \<times> trace_ctx \<times> span_buffer) option" where
  "run_block env (SpanBlock i kind name started ended wall inner raises) cx b =
     (case begin_span env i started kind name [] [] cx of (ss, cx1) \<Rightarrow>
        (case run_blocks env inner cx1 b of
           None \<Rightarrow> None
         | Some (exc, cx2, b2) \<Rightarrow>
             (let exc1 = (if exc = None then raises else exc)
              in map_option (\<lambda>(_, cx3, b3). (exc1, cx3, b3)) (end_span ended wall exc1 ss cx2 b2))))"
| "run_blocks env [] cx b = Some (None, cx, b)"
| "run_blocks env (k # ks) cx b =
     (case run_block env k cx b of
        None \<Rightarrow> None
      | Some (Some e, cx1, b1) \<Rightarrow> Some (Some e, cx1, b1)
      | Some (None, cx1, b1) \<Rightarrow> run_blocks env ks cx1 b1)"

definition peek_buffer :: "span_buffer \<Rightarrow> span_dict list" where
  "peek_buffer b = bf_pending b"

definition clear_buffer :: "span_buffer \<Rightarrow> span_buffer" where
  "clear_buffer b = b\<lparr>bf_pending := []\<rparr>"

section \<open>What nested blocks leave behind\<close>

text \<open>
  The account of a block below a parent: its exception, and for every span its identifier, its parent and whether it
  ended with an error, the inner ones first. A block after an exception is not entered.
\<close>

fun block_exc :: "span_block \<Rightarrow> pystr option" and blocks_exc :: "span_block list \<Rightarrow> pystr option" where
  "block_exc (SpanBlock i kind name started ended wall inner raises) = (case blocks_exc inner of None \<Rightarrow> raises | Some e \<Rightarrow> Some e)"
| "blocks_exc [] = None"
| "blocks_exc (k # ks) = (case block_exc k of None \<Rightarrow> blocks_exc ks | Some e \<Rightarrow> Some e)"

fun block_account :: "pystr \<Rightarrow> span_block \<Rightarrow> (pystr \<times> pystr \<times> bool) list"
  and blocks_account :: "pystr \<Rightarrow> span_block list \<Rightarrow> (pystr \<times> pystr \<times> bool) list" where
  "block_account parent (SpanBlock i kind name started ended wall inner raises) =
     blocks_account i inner @ [(i, parent, block_exc (SpanBlock i kind name started ended wall inner raises) \<noteq> None)]"
| "blocks_account parent [] = []"
| "blocks_account parent (k # ks) = block_account parent k @ (if block_exc k = None then blocks_account parent ks else [])"

fun ids_given :: "span_block \<Rightarrow> bool" where
  "ids_given (SpanBlock i kind name started ended wall inner raises) = (i \<noteq> [] \<and> list_all ids_given inner)"

definition span_account :: "span_dict \<Rightarrow> pystr \<times> pystr \<times> bool" where
  "span_account s = (sp_id s, sp_parent s, sp_status s = ascii ''error'')"

lemma end_span_room:
  assumes "length (bf_pending b) < bf_max b" "\<not> ss_closed ss"
  shows "\<exists>s ss'. end_span ended wall exc ss cx b = Some (ss', cx\<lparr>cx_span := ss_token ss, cx_trace := ss_trace_token ss\<rparr>, b\<lparr>bf_pending := bf_pending b @ [s]\<rparr>)
    \<and> sp_id s = sh_id (ss_handle ss) \<and> sp_parent s = sh_parent (ss_handle ss) \<and> sp_task s = ss_task ss
    \<and> sp_status s = (if exc = None then sh_status (ss_handle ss) else ascii ''error'')"
  using assms by (auto simp: end_span_def buffer_add_def Let_def to_dict_def close_handle_def set_attribute_def set_status_def split: option.splits)

text \<open>What a list of blocks, or one block, does below the current parent.\<close>

definition blocks_done :: "pystr \<Rightarrow> span_block list \<Rightarrow> trace_ctx \<Rightarrow> span_buffer \<Rightarrow> bool" where
  "blocks_done env ks cx b \<longleftrightarrow>
     (list_all ids_given ks \<longrightarrow> length (bf_pending b) + length (blocks_account (current_parent_span_id cx) ks) \<le> bf_max b \<longrightarrow>
      (\<exists>new. run_blocks env ks cx b = Some (blocks_exc ks, cx, b\<lparr>bf_pending := bf_pending b @ new\<rparr>)
        \<and> map span_account new = blocks_account (current_parent_span_id cx) ks \<and> list_all (\<lambda>s. sp_task s = cx_task cx) new))"

definition block_done :: "pystr \<Rightarrow> span_block \<Rightarrow> trace_ctx \<Rightarrow> span_buffer \<Rightarrow> bool" where
  "block_done env k cx b \<longleftrightarrow>
     (ids_given k \<longrightarrow> length (bf_pending b) + length (block_account (current_parent_span_id cx) k) \<le> bf_max b \<longrightarrow>
      (\<exists>new. run_block env k cx b = Some (block_exc k, cx, b\<lparr>bf_pending := bf_pending b @ new\<rparr>)
        \<and> map span_account new = block_account (current_parent_span_id cx) k \<and> list_all (\<lambda>s. sp_task s = cx_task cx) new))"

lemma block_done_step:
  assumes start: "begin_span env i started kind name [] [] cx = (ss, cx1)" and inner: "blocks_done env inner cx1 b"
  shows "block_done env (SpanBlock i kind name started ended wall inner raises) cx b"
proof (unfold block_done_def, intro impI)
  let ?k = "SpanBlock i kind name started ended wall inner raises"
  assume ids: "ids_given ?k" and room: "length (bf_pending b) + length (block_account (current_parent_span_id cx) ?k) \<le> bf_max b"
  have ss: "ss_token ss = cx_span cx" "ss_trace_token ss = cx_trace cx" "ss_task ss = cx_task cx" "\<not> ss_closed ss"
      "sh_id (ss_handle ss) = i" "sh_parent (ss_handle ss) = current_parent_span_id cx" "sh_status (ss_handle ss) = ascii ''ok''"
      "cx_span cx1 = i" "cx_task cx1 = cx_task cx" "cx1\<lparr>cx_span := cx_span cx, cx_trace := cx_trace cx\<rparr> = cx"
    using start by (auto simp: begin_span_def new_handle_def Let_def current_parent_span_id_def root_parent_id_def)
  have "current_parent_span_id cx1 = i" using ss(8) ids by (simp add: current_parent_span_id_def)
  then obtain new where inner: "run_blocks env inner cx1 b = Some (blocks_exc inner, cx1, b\<lparr>bf_pending := bf_pending b @ new\<rparr>)"
      "map span_account new = blocks_account i inner" "list_all (\<lambda>s. sp_task s = cx_task cx) new"
    using inner ids room ss(9) by (auto simp: blocks_done_def)
  let ?b = "b\<lparr>bf_pending := bf_pending b @ new\<rparr>"
  have "length new = length (blocks_account i inner)" using inner(2) by (metis length_map)
  then have "length (bf_pending ?b) < bf_max ?b" using room by simp
  from end_span_room [OF this ss(4), of ended wall "block_exc ?k" cx1] obtain s ss' where
    fin: "end_span ended wall (block_exc ?k) ss cx1 ?b = Some (ss', cx, ?b\<lparr>bf_pending := bf_pending ?b @ [s]\<rparr>)"
      "span_account s = (i, current_parent_span_id cx, block_exc ?k \<noteq> None)" "sp_task s = cx_task cx"
    using ss by (auto simp: span_account_def ascii_def split: if_splits)
  have exc: "block_exc ?k = (if blocks_exc inner = None then raises else blocks_exc inner)" by (auto split: option.splits)
  show "\<exists>new. run_block env ?k cx b = Some (block_exc ?k, cx, b\<lparr>bf_pending := bf_pending b @ new\<rparr>)
      \<and> map span_account new = block_account (current_parent_span_id cx) ?k \<and> list_all (\<lambda>s. sp_task s = cx_task cx) new"
    using fin inner by (intro exI [of _ "new @ [s]"]) (simp add: start exc [symmetric] Let_def del: block_exc.simps)
qed

lemma blocks_done_step:
  assumes first: "block_done env k cx b"
    and rest: "\<And>new. run_block env k cx b = Some (None, cx, b\<lparr>bf_pending := bf_pending b @ new\<rparr>)
      \<Longrightarrow> blocks_done env ks cx (b\<lparr>bf_pending := bf_pending b @ new\<rparr>)"
  shows "blocks_done env (k # ks) cx b"
proof (unfold blocks_done_def, intro impI)
  assume ids: "list_all ids_given (k # ks)"
    and room: "length (bf_pending b) + length (blocks_account (current_parent_span_id cx) (k # ks)) \<le> bf_max b"
  obtain new where new: "run_block env k cx b = Some (block_exc k, cx, b\<lparr>bf_pending := bf_pending b @ new\<rparr>)"
      "map span_account new = block_account (current_parent_span_id cx) k" "list_all (\<lambda>s. sp_task s = cx_task cx) new"
    using first ids room by (auto simp: block_done_def)
  show "\<exists>new. run_blocks env (k # ks) cx b = Some (blocks_exc (k # ks), cx, b\<lparr>bf_pending := bf_pending b @ new\<rparr>)
      \<and> map span_account new = blocks_account (current_parent_span_id cx) (k # ks) \<and> list_all (\<lambda>s. sp_task s = cx_task cx) new"
  proof (cases "block_exc k")
    case None
    have "length new = length (block_account (current_parent_span_id cx) k)" using new(2) by (metis length_map)
    then obtain more where "run_blocks env ks cx (b\<lparr>bf_pending := bf_pending b @ new\<rparr>)
          = Some (blocks_exc ks, cx, b\<lparr>bf_pending := (bf_pending b @ new) @ more\<rparr>)"
        "map span_account more = blocks_account (current_parent_span_id cx) ks" "list_all (\<lambda>s. sp_task s = cx_task cx) more"
      using rest [of new] new(1) None ids room by (auto simp: blocks_done_def)
    then show ?thesis using new None by (intro exI [of _ "new @ more"]) simp
  next
    case (Some e)
    then show ?thesis using new by (intro exI [of _ new]) simp
  qed
qed

lemma all_done: "block_done env k cx b" "blocks_done env ks cx b"
proof (induction env k cx b and env ks cx b rule: run_block_run_blocks.induct)
  case (1 env i kind name started ended wall inner raises cx b)
  obtain ss cx1 where start: "begin_span env i started kind name [] [] cx = (ss, cx1)" by fastforce
  show ?case using block_done_step [OF start] "1.IH" [OF start [symmetric]] by blast
next
  case (2 env cx b)
  show ?case by (simp add: blocks_done_def)
next
  case (3 env k ks cx b)
  show ?case by (rule blocks_done_step [OF "3.IH"(1)]) (rule "3.IH"(2); simp)
qed

text \<open>
  Blocks of spans nest as the code does: whatever nested blocks run and wherever one raises, every block that was entered
  leaves exactly one span, with the block around it as its parent and an error exactly when the exception passed
  through it, inner ones first; the exception reaches the caller unchanged, and the context of the trace is as it was before.
\<close>

theorem blocks_nest:
  assumes "list_all ids_given ks" "length (bf_pending b) + length (blocks_account (current_parent_span_id cx) ks) \<le> bf_max b"
  shows "\<exists>new. run_blocks env ks cx b = Some (blocks_exc ks, cx, b\<lparr>bf_pending := bf_pending b @ new\<rparr>)
    \<and> map span_account new = blocks_account (current_parent_span_id cx) ks \<and> list_all (\<lambda>s. sp_task s = cx_task cx) new"
  using all_done(2) [of env ks cx b] assms by (simp add: blocks_done_def)

definition demo_blocks :: "span_block list" where
  "demo_blocks =
     [SpanBlock (ascii ''a'') (ascii ''task'') (ascii ''t'') 0 3 10
        [SpanBlock (ascii ''b'') (ascii ''tool'') (ascii ''x'') 1 2 9 [] (Some (ascii ''ValueError'')),
         SpanBlock (ascii ''c'') (ascii ''tool'') (ascii ''y'') 2 3 9 [] None] None]"

theorem blocks_nest_witness:
  "\<exists>new. run_blocks [] demo_blocks demo_ctx \<lparr>bf_pending = [], bf_max = 5\<rparr>
       = Some (Some (ascii ''ValueError''), demo_ctx, \<lparr>bf_pending = new, bf_max = 5\<rparr>)
     \<and> map span_account new = [(ascii ''b'', ascii ''a'', True), (ascii ''a'', current_parent_span_id demo_ctx, True)]"
proof -
  have "list_all ids_given demo_blocks" by (simp add: demo_blocks_def ascii_def)
  moreover have exc: "blocks_exc demo_blocks = Some (ascii ''ValueError'')" by (simp add: demo_blocks_def)
  moreover have acc: "blocks_account p demo_blocks = [(ascii ''b'', ascii ''a'', True), (ascii ''a'', p, True)]" for p
    by (simp add: demo_blocks_def)
  ultimately show ?thesis using blocks_nest [of demo_blocks "\<lparr>bf_pending = [], bf_max = 5\<rparr>" demo_ctx "[]"] by (auto simp: acc)
qed

end
