(* ===== verification/Loose_Json.thy ===== *)
theory Loose_Json
  imports Json_Codec
begin

text \<open>
  What \<open>parse_json_loose\<close> (\<^verbatim>\<open>app/graph/nodes.py\<close>) recovers from the text of a model: an object that is sent as it
  is, in a fenced block, or between prose.
\<close>

lemma find_char_None: "c \<notin> set s \<Longrightarrow> find_char c (s @ t) = map_option (\<lambda>n. length s + n) (find_char c t)"
  by (cases "find_char c t"; induction s) auto

lemma find_char_first: "c \<notin> set s \<Longrightarrow> find_char c (s @ c # t) = Some (length s)"
  by (induction s) auto

lemma dumps_object: "kvs \<noteq> [] \<Longrightarrow> \<exists>s. dumps (JObj kvs) = 123 # s @ [125]"
  by (simp add: ascii_def)

lemma dumps_object_ends: "\<exists>s. dumps (JObj kvs) = 123 # s @ [125]"
  by (cases "kvs = []") (use dumps_object in \<open>auto simp: ascii_def\<close>)

text \<open>The object after a text without braces and brackets is found at its first brace.\<close>

lemma loose_reads_at:
  assumes "wf_json (JObj kvs)" "strip_fence txt = pre @ dumps (JObj kvs) @ post" "123 \<notin> set pre" "91 \<notin> set pre" "num_stop post"
  shows "parse_json_loose txt = Some (JObj kvs)"
proof -
  let ?v = "JObj kvs"
  obtain s where s: "dumps ?v = 123 # s" using dumps_object_ends [of kvs] by auto
  have brace: "find_char 123 (pre @ dumps ?v @ post) = Some (length pre)" using find_char_first [OF assms(3)] s by simp
  have bracket: "find_char 91 (pre @ dumps ?v @ post) = None \<or> (\<exists>j. find_char 91 (pre @ dumps ?v @ post) = Some (length pre + Suc j))"
    using find_char_None [OF assms(4), of "dumps ?v @ post"] by (auto simp: s)
  obtain more where starts: "json_starts (pre @ dumps ?v @ post) = length pre # more"
    using bracket brace by (auto simp: json_starts_def)
  have "2 * length (dumps ?v) \<le> json_fuel (dumps ?v @ post)" by (simp add: json_fuel_def)
  then have "jvalue (json_fuel (dumps ?v @ post)) (dumps ?v @ post) = Some (?v, post)"
    using decodes_all [OF assms(1), unfolded decodes_def] assms(5) by blast
  then have decoded: "raw_decode (drop (length pre) (pre @ dumps ?v @ post)) = Some (?v, post)" by (simp add: raw_decode_def)
  show ?thesis unfolding parse_json_loose_def Let_def assms(2) starts try_starts.simps(2) decoded by simp
qed

text \<open>No fence and no white space to strip: the text begins with a brace and ends with one.\<close>

lemma strip_plain:
  assumes "\<not> is_space (hd s)" "\<not> is_space (last s)" "s \<noteq> []"
  shows "str_strip s = s"
proof -
  have "dropWhile is_space s = s" using assms by (cases s) auto
  moreover have "dropWhile is_space (rev s) = rev s" using assms by (cases "rev s") (auto simp: hd_rev [symmetric])
  ultimately show ?thesis by (simp add: str_strip_def)
qed

lemma strip_fence_plain: "strip_fence (dumps (JObj kvs)) = dumps (JObj kvs)"
proof -
  obtain s where s: "dumps (JObj kvs) = 123 # s @ [125]" using dumps_object_ends by blast
  have "str_strip (123 # s @ [125]) = 123 # s @ [125]" by (rule strip_plain) (simp_all add: is_space_def)
  then show ?thesis unfolding strip_fence_def Let_def s by simp
qed

definition fenced :: "pystr \<Rightarrow> pystr" where
  "fenced s = ascii ''```json'' @ [10] @ s @ [10] @ ascii ''```''"

lemma strip_fence_fenced: "strip_fence (fenced (dumps (JObj kvs))) = [10] @ dumps (JObj kvs) @ [10]"
proof -
  obtain s where s: "dumps (JObj kvs) = 123 # s @ [125]" using dumps_object_ends by blast
  have "str_strip (fenced (dumps (JObj kvs))) = fenced (dumps (JObj kvs))"
    by (rule strip_plain) (simp_all add: fenced_def is_space_def ascii_def)
  then show ?thesis unfolding strip_fence_def Let_def s by (simp add: fenced_def strip_char_def ascii_def)
qed

lemma loose_object_plain: "wf_json (JObj kvs) \<Longrightarrow> parse_json_loose (dumps (JObj kvs)) = Some (JObj kvs)"
proof (rule loose_reads_at [of kvs _ "[]" "[]"])
  show "strip_fence (dumps (JObj kvs)) = [] @ dumps (JObj kvs) @ []"
    by (simp only: strip_fence_plain append_Nil append_Nil2)
qed (simp_all add: num_stop_def)



end
