(* ===== verification/Crash_Recovery.thy ===== *)
theory Crash_Recovery
  imports Graph_Invariants
begin

text \<open>
  The death of a process between two supersteps and its replacement by another one (\<^verbatim>\<open>interrupt_before\<close> in
  \<^verbatim>\<open>app/graph/engine.py\<close>, \<^verbatim>\<open>scripts/demo_crash_recovery.py\<close>, \<^verbatim>\<open>scripts/metrics.py\<close>): breakpoints of the graph, kills at a
  checkpoint, and resumption by an engine that has the checkpoints and the event numbers of the store only.
\<close>

section \<open>Breakpoints\<close>

text \<open>
  The graph compiled with \<open>interrupt_before\<close>: the run stops before a node of \<open>stops\<close>, after its state was saved. A
  resumption passes the node it begins with (\<open>fresh\<close> is false there).
\<close>

fun run_until :: "nat \<Rightarrow> graph_node list \<Rightarrow> bool \<Rightarrow> 'w env \<Rightarrow> bool option \<Rightarrow> graph_node \<Rightarrow> agent_state \<Rightarrow> 'w world
     \<Rightarrow> run_end \<times> checkpoint \<times> 'w world" where
  "run_until 0 stops fresh E decision node s W =
     (RecursionLimit, \<lparr>cp_next = Some node, cp_values = s, cp_interrupt = False\<rparr>, W)"
| "run_until (Suc n) stops fresh E decision node s W =
     (if fresh \<and> node \<in> set stops then (Suspended, \<lparr>cp_next = Some node, cp_values = s, cp_interrupt = False\<rparr>, W)
      else
        (case node_step E decision node s W of
           (Inl r, W1) \<Rightarrow> (RunRaised r, \<lparr>cp_next = Some node, cp_values = s, cp_interrupt = False\<rparr>, W1)
         | (Inr None, W1) \<Rightarrow> (Suspended, \<lparr>cp_next = Some node, cp_values = s, cp_interrupt = True\<rparr>, W1)
         | (Inr (Some s1), W1) \<Rightarrow>
             (case next_node node s1 of
                None \<Rightarrow> (Finished, \<lparr>cp_next = None, cp_values = s1, cp_interrupt = False\<rparr>, W1)
              | Some m \<Rightarrow> run_until n stops True E (if node = ApprovalGate then None else decision) m s1 W1)))"

text \<open>\<open>_execute\<close>, \<open>run_task\<close> and \<open>resume_task\<close> of an engine with breakpoints.\<close>

definition execute_until :: "graph_node list \<Rightarrow> bool \<Rightarrow> 'w env \<Rightarrow> nat \<Rightarrow> pystr \<Rightarrow> int \<Rightarrow> bool option \<Rightarrow> graph_node \<Rightarrow> agent_state
     \<Rightarrow> engine \<Rightarrow> 'w world \<Rightarrow> (run_end + agent_state) \<times> (nat \<times> agent_event) list \<times> engine \<times> 'w world" where
  "execute_until stops fresh E stored tid max_steps decision node s eng W =
     (let eng1 = seed_seq (en_journal E) stored tid eng
      in case run_until (recursion_limit (en_settings E) max_steps) stops fresh E decision node s W of
           (e, cp, W1) \<Rightarrow>
             (let new = drop (length (wd_log W)) (wd_log W1);
                  events = number_events (seq_of eng1 tid) new;
                  eng2 = eng1\<lparr>eg_seqs := (if new = [] then eg_seqs eng1
                                          else dict_set tid (seq_of eng1 tid + length new) (eg_seqs eng1)),
                              eg_checkpoints := (if eg_saver eng1 then dict_set tid cp (eg_checkpoints eng1)
                                                 else eg_checkpoints eng1)\<rparr>
              in (case e of
                    Finished \<Rightarrow> Inr (run_status (eg_saver eng1) cp)
                  | Suspended \<Rightarrow> Inr (run_status (eg_saver eng1) cp)
                  | _ \<Rightarrow> Inl e, events, eng2, W1)))"

definition run_task_until :: "graph_node list \<Rightarrow> 'w env \<Rightarrow> nat \<Rightarrow> pystr \<Rightarrow> pystr \<Rightarrow> agent_mode \<Rightarrow> int \<Rightarrow> int \<Rightarrow> bool
     \<Rightarrow> engine \<Rightarrow> 'w world \<Rightarrow> (run_end + agent_state) \<times> (nat \<times> agent_event) list \<times> engine \<times> 'w world" where
  "run_task_until stops E stored tid goal mode max_tokens max_steps require_approval eng W =
     (let s = init_state tid goal mode max_tokens max_steps require_approval
      in execute_until stops True E stored tid max_steps None (route_entry s) s eng W)"

definition resume_task_until :: "graph_node list \<Rightarrow> 'w env \<Rightarrow> nat \<Rightarrow> pystr \<Rightarrow> bool option \<Rightarrow> engine \<Rightarrow> 'w world
     \<Rightarrow> resume_error + (agent_state
          + (run_end + agent_state) \<times> (nat \<times> agent_event) list \<times> engine \<times> 'w world)" where
  "resume_task_until stops E stored tid resume_value eng W =
     (case dict_get (eg_checkpoints eng) tid of
        None \<Rightarrow> Inl NothingToResume
      | Some cp \<Rightarrow>
          (case cp_next cp of
             None \<Rightarrow> Inr (Inl (cp_values cp))
           | Some node \<Rightarrow>
               (if resume_value = None \<and> cp_interrupt cp then Inl AwaitingApproval
                else Inr (Inr (execute_until stops False E stored tid (as_max_steps (cp_values cp)) resume_value node
                                 (cp_values cp) eng W)))))"

text \<open>An engine without breakpoints is the one of the service.\<close>

lemma run_until_none: "run_until n [] fresh E decision node s W = run_graph n E decision node s W"
  by (induction n arbitrary: fresh decision node s W) (auto split: prod.splits sum.splits option.splits)

lemma execute_until_none: "execute_until [] fresh E stored tid ms decision node s eng W = engine_execute E stored tid ms decision node s eng W"
  by (simp add: execute_until_def engine_execute_def run_until_none)

lemma resume_task_until_none: "resume_task_until [] = resume_task"
  by (intro ext) (auto simp: resume_task_until_def resume_task_def execute_until_none split: option.splits)

section \<open>The death of a process\<close>

text \<open>How a process ends before its task: at a breakpoint, or killed when so many supersteps were saved.\<close>

datatype process_end = BreaksBefore "graph_node list" | KilledAfter nat

text \<open>
  What a process leaves in the store: the events, the checkpoints and the world. \<open>left_behind\<close> is a run that stopped at a
  breakpoint, \<open>killed\<close> one that was killed; \<open>None\<close> when the task came to its end, to an approval or to an error before.
\<close>

definition left_behind :: "pystr \<Rightarrow> (run_end + agent_state) \<times> (nat \<times> agent_event) list \<times> engine \<times> 'w world
     \<Rightarrow> ((nat \<times> agent_event) list \<times> checkpoint dict \<times> 'w world) option" where
  "left_behind tid out =
     (case out of (r, events, eng, W) \<Rightarrow>
        (case (r, dict_get (eg_checkpoints eng) tid) of
           (Inr _, Some cp) \<Rightarrow> if cp_next cp \<noteq> None \<and> \<not> cp_interrupt cp then Some (events, eg_checkpoints eng, W) else None
         | _ \<Rightarrow> None))"

definition killed :: "nat \<Rightarrow> 'w env \<Rightarrow> nat \<Rightarrow> pystr \<Rightarrow> int \<Rightarrow> graph_node \<Rightarrow> agent_state \<Rightarrow> engine \<Rightarrow> 'w world
     \<Rightarrow> ((nat \<times> agent_event) list \<times> checkpoint dict \<times> 'w world) option" where
  "killed n E stored tid max_steps node s eng W =
     (case run_graph n E None node s W of
        (e, cp, W1) \<Rightarrow>
          if e = RecursionLimit \<and> n < recursion_limit (en_settings E) max_steps
          then Some (number_events (seq_of (seed_seq (en_journal E) stored tid eng) tid) (drop (length (wd_log W)) (wd_log W1)),
                     dict_set tid cp (eg_checkpoints eng), W1)
          else None)"

definition dying_process :: "process_end \<Rightarrow> 'w env \<Rightarrow> nat \<Rightarrow> pystr \<Rightarrow> pystr \<Rightarrow> agent_mode \<Rightarrow> int \<Rightarrow> int \<Rightarrow> bool
     \<Rightarrow> engine \<Rightarrow> 'w world \<Rightarrow> ((nat \<times> agent_event) list \<times> checkpoint dict \<times> 'w world) option" where
  "dying_process p E stored tid goal mode max_tokens max_steps require_approval eng W =
     (case p of
        BreaksBefore stops \<Rightarrow> left_behind tid (run_task_until stops E stored tid goal mode max_tokens max_steps require_approval eng W)
      | KilledAfter n \<Rightarrow>
          (let s = init_state tid goal mode max_tokens max_steps require_approval
           in killed n E stored tid max_steps (route_entry s) s eng W))"

definition dying_resume :: "process_end \<Rightarrow> 'w env \<Rightarrow> nat \<Rightarrow> pystr \<Rightarrow> engine \<Rightarrow> 'w world
     \<Rightarrow> ((nat \<times> agent_event) list \<times> checkpoint dict \<times> 'w world) option" where
  "dying_resume p E stored tid eng W =
     (case p of
        BreaksBefore stops \<Rightarrow>
          (case resume_task_until stops E stored tid None eng W of Inr (Inr out) \<Rightarrow> left_behind tid out | _ \<Rightarrow> None)
      | KilledAfter n \<Rightarrow>
          (case dict_get (eg_checkpoints eng) tid of
             None \<Rightarrow> None
           | Some cp \<Rightarrow>
               (case cp_next cp of
                  None \<Rightarrow> None
                | Some m \<Rightarrow>
                    if cp_interrupt cp then None
                    else killed n E stored tid (as_max_steps (cp_values cp)) m (cp_values cp) eng W)))"

text \<open>The engine of the next process: it opens the store of the checkpoints and knows nothing else.\<close>

definition new_process :: "checkpoint dict \<Rightarrow> engine" where
  "new_process cks = \<lparr>eg_saver = True, eg_checkpoints = cks, eg_canceled = {}, eg_seqs = []\<rparr>"

text \<open>
  The processes after the first one: each resumes the task and dies in its way, the last one is left alone. The result, all
  events, the checkpoints and the world at the end.
\<close>

fun lives :: "process_end list \<Rightarrow> 'w env \<Rightarrow> nat \<Rightarrow> pystr \<Rightarrow> checkpoint dict \<Rightarrow> 'w world
     \<Rightarrow> ((run_end + agent_state) \<times> (nat \<times> agent_event) list \<times> checkpoint dict \<times> 'w world) option" where
  "lives [] E stored tid cks W =
     (case resume_task E stored tid None (new_process cks) W of
        Inr (Inr (r, events, eng, W1)) \<Rightarrow> Some (r, events, eg_checkpoints eng, W1)
      | _ \<Rightarrow> None)"
| "lives (p # ps) E stored tid cks W =
     (case dying_resume p E stored tid (new_process cks) W of
        None \<Rightarrow> lives [] E stored tid cks W
      | Some (events, cks1, W1) \<Rightarrow>
          map_option (\<lambda>(r, more, cks2, W2). (r, events @ more, cks2, W2)) (lives ps E (stored + length events) tid cks1 W1))"

section \<open>Runs in parts\<close>

lemma run_graph_more:
  "\<lbrakk>run_graph k E decision node s W = (e, cp, W1); e \<noteq> RecursionLimit\<rbrakk> \<Longrightarrow> run_graph (k + i) E decision node s W = (e, cp, W1)"
  by (induction k arbitrary: decision node s W) (auto split: prod.splits sum.splits option.splits)

lemma run_graph_split:
  assumes "run_graph j E None node s W = (RecursionLimit, cp, W1)"
  shows "\<exists>m. cp_next cp = Some m \<and> \<not> cp_interrupt cp \<and> run_graph (j + k) E None node s W = run_graph k E None m (cp_values cp) W1"
  using assms
proof (induction j arbitrary: node s W)
  case (Suc j)
  obtain x W2 where st: "node_step E None node s W = (x, W2)" by fastforce
  from Suc.prems st obtain s1 m where x: "x = Inr (Some s1)" "next_node node s1 = Some m"
      "run_graph j E None m s1 W2 = (RecursionLimit, cp, W1)"
    by (auto split: sum.splits option.splits)
  show ?case using Suc.IH [OF x(3)] st x(1,2) by simp
qed auto

text \<open>From a checkpoint on, with the full limit again, a run ends as it would have ended.\<close>

lemma run_graph_continues:
  assumes "run_graph j E None node s W = (RecursionLimit, cp, W1)" "j \<le> n"
    and "run_graph n E None node s W = (e, cpe, We)" "e \<noteq> RecursionLimit"
  shows "\<exists>m. cp_next cp = Some m \<and> \<not> cp_interrupt cp \<and> run_graph n E None m (cp_values cp) W1 = (e, cpe, We)"
proof -
  obtain m where m: "cp_next cp = Some m" "\<not> cp_interrupt cp"
      "run_graph (j + (n - j)) E None node s W = run_graph (n - j) E None m (cp_values cp) W1"
    using run_graph_split [OF assms(1)] by blast
  then have "run_graph (n - j) E None m (cp_values cp) W1 = (e, cpe, We)" using assms(2,3) by simp
  from run_graph_more [OF this assms(4), of j] show ?thesis using m(1,2) assms(2) by simp
qed

text \<open>A run to a breakpoint is a beginning of the run without one.\<close>

lemma run_until_cases:
  assumes "run_until n stops fresh E None node s W = (e, cp, W1)"
  shows "run_graph n E None node s W = (e, cp, W1)
     \<or> e = Suspended \<and> (\<exists>j < n. run_graph j E None node s W = (RecursionLimit, cp, W1))"
  using assms
proof (induction n arbitrary: fresh node s W)
  case (Suc n)
  show ?case
  proof (cases "fresh \<and> node \<in> set stops")
    case True
    then show ?thesis using Suc.prems by (intro disjI2) (auto intro: exI [of _ 0])
  next
    case False
    obtain x W2 where st: "node_step E None node s W = (x, W2)" by fastforce
    show ?thesis
    proof (cases "\<exists>s1 m. x = Inr (Some s1) \<and> next_node node s1 = Some m")
      case True
      then obtain s1 m where x: "x = Inr (Some s1)" "next_node node s1 = Some m" by blast
      have "run_until n stops True E None m s1 W2 = (e, cp, W1)" using Suc.prems False st x by auto
      from Suc.IH [OF this] show ?thesis
      proof
        assume "run_graph n E None m s1 W2 = (e, cp, W1)"
        then show ?thesis using st x by simp
      next
        assume "e = Suspended \<and> (\<exists>j<n. run_graph j E None m s1 W2 = (RecursionLimit, cp, W1))"
        then obtain j where "e = Suspended" "j < n" "run_graph j E None m s1 W2 = (RecursionLimit, cp, W1)" by blast
        then show ?thesis using st x by (intro disjI2 conjI exI [of _ "Suc j"]) simp_all
      qed
    next
      case no: False
      then show ?thesis using Suc.prems st \<open>\<not> (fresh \<and> node \<in> set stops)\<close>
        by (auto split: sum.splits option.splits if_splits)
    qed
  qed
qed simp

lemma run_graph_ends:
  "run_graph n E decision node s W = (Suspended, cp, W1) \<Longrightarrow> cp_interrupt cp"
  "run_graph n E decision node s W = (Finished, cp, W1) \<Longrightarrow> cp_next cp = None"
  by (induction n arbitrary: decision node s W) (auto split: prod.splits sum.splits option.splits)

section \<open>The log of a run only grows\<close>

abbreviation grows :: "'w world \<Rightarrow> 'w world \<Rightarrow> bool" where
  "grows W W' \<equiv> logs (\<lambda>_. True) W W'"

lemma grows_emit: "grows W W1 \<Longrightarrow> grows W (emit e W1)"
  by (rule logs_trans [OF _ logs_emit]) simp_all

lemma grows_await_claim: "await_claim n E tid key deadline W = (r, W') \<Longrightarrow> wd_log W' = wd_log W"
  by (induction n arbitrary: W) (auto simp: Let_def split: if_splits sum.splits option.splits)

lemma grows_claim: "claim_or_replay E tid key call W = (r, W') \<Longrightarrow> grows W W'"
  by (auto simp: claim_or_replay_def await_claim_result_def Let_def logs_def
      split: if_splits sum.splits option.splits prod.splits bool.splits dest!: grows_await_claim)

lemma grows_run_one: "run_one E s call acc W = (r, acc', W') \<Longrightarrow> grows W W'"
proof -
  assume run: "run_one E s call acc W = (r, acc', W')"
  obtain x W1 where cl: "claim_or_replay E (as_task_id s) (journal_call_key (en_sha1 E) (as_iterations s) call) call W = (x, W1)" by fastforce
  obtain y W2 where ex: "execute_call E (as_task_id s) (model_of (en_settings E) s) call W1 = (y, W2)" by fastforce
  have "wd_log W' = wd_log W1 \<or> (\<exists>e. wd_log W' = wd_log W1 @ [e]) \<or> wd_log W' = wd_log W2"
    using run cl ex by (auto simp: run_one_def Let_def split: sum.splits option.splits prod.splits if_splits)
  then show ?thesis using grows_claim [OF cl] log_grows.R_execute_call [OF ex] by (auto simp: logs_def)
qed

lemma grows_run_calls: "run_calls E s cs acc W = (rs, acc', W') \<Longrightarrow> grows W W'"
  by (induction cs arbitrary: acc W rs) (auto split: prod.splits dest!: grows_run_one intro: logs_trans)

lemma grows_mark_done: "mark_done ks t left plan W = (plan', W') \<Longrightarrow> grows W W'"
  by (induction ks t left plan W rule: mark_done.induct) (auto split: if_splits simp: logs_def)

lemma grows_critic: "critic_node E s W = (x, W') \<Longrightarrow> grows W W'"
  by (auto simp: critic_node_def critic_success_def critic_failure_def Let_def
      split: if_splits sum.splits prod.splits error_kind.splits dest: grows_mark_done intro: grows_emit)

lemma grows_adopt_plan: "adopt_plan cfg s resp parsed W = (s', W') \<Longrightarrow> grows W W'"
  by (auto simp: adopt_plan_def Let_def logs_def split: if_splits)

lemma grows_planner: "planner_node E s W = (x, W') \<Longrightarrow> grows W W'"
  by (auto simp: planner_node_def Let_def map_prod_def split: sum.splits prod.splits
      dest: logs_llm grows_adopt_plan intro: logs_trans)

lemma grows_adopt_decision: "adopt_decision s d resp W = (s', W') \<Longrightarrow> grows W W'"
  by (auto simp: adopt_decision_def Let_def logs_def split: if_splits)

lemma grows_decide: "decide E s d W = (x, W') \<Longrightarrow> grows W W'"
proof -
  assume run: "decide E s d W = (x, W')"
  define model where "model = (if bd_action d = BudgetDowngrade then st_llm_model_cheap (en_settings E) else model_of (en_settings E) s)"
  define W1 where "W1 = (if bd_action d = BudgetDowngrade then emit (EvBudgetDowngrade (bd_reason d) model) W else W)"
  obtain z W2 where ll: "call_llm E (assemble_base (en_now E (wd_ext W1)) s) True model W1 = (z, W2)" by fastforce
  have "grows W2 W'"
    using run ll unfolding decide_def Let_def model_def [symmetric] W1_def [symmetric]
    by (cases z) (auto simp: map_prod_def split: prod.splits dest: grows_adopt_decision)
  moreover have "grows W W1" by (simp add: W1_def)
  ultimately show ?thesis using logs_llm [OF ll] logs_trans by blast
qed

lemma grows_react: "react_step_node E s W = (x, W') \<Longrightarrow> grows W W'"
  by (auto simp: react_step_node_def Let_def split: if_splits dest: grows_decide)

lemma grows_compressor: "compressor_node E s W = (x, W') \<Longrightarrow> grows W W'"
  by (auto simp: compressor_node_def Let_def logs_def split: if_splits prod.splits sum.splits option.splits)

lemma grows_finisher: "finisher_node E s W = (x, W') \<Longrightarrow> grows W W'"
  by (auto simp: finisher_node_def split: task_status.splits if_splits prod.splits sum.splits dest: logs_llm intro: grows_emit)

lemma grows_report: "report_results xs ms W = (x, W') \<Longrightarrow> grows W W'"
  by (induction xs ms W rule: report_results.induct) (auto simp: logs_def split: sum.splits)

lemma grows_executor: "tool_executor_node E s W = (x, W') \<Longrightarrow> grows W W'"
  by (auto simp: tool_executor_node_def Let_def split: if_splits prod.splits sum.splits option.splits
      dest!: grows_run_calls grows_report intro: logs_trans)

lemma node_step_grows: "node_step E decision node s W = (x, W') \<Longrightarrow> grows W W'"
  by (cases node)
     (auto simp: node_step_def map_prod_def approval_gate_node_def split: prod.splits if_splits option.splits bool.splits
      dest: grows_planner grows_react grows_critic grows_compressor grows_finisher grows_executor)

lemma run_graph_grows: "run_graph n E decision node s W = (e, cp, W') \<Longrightarrow> grows W W'"
proof (induction n arbitrary: decision node s W)
  case (Suc n)
  obtain x W1 where st: "node_step E decision node s W = (x, W1)" by fastforce
  have "grows W1 W'" using Suc st by (auto split: sum.splits option.splits)
  then show ?case using node_step_grows [OF st] logs_trans by blast
qed simp

section \<open>Recovery\<close>

lemma drop_grows: "\<lbrakk>grows W W1; grows W1 W2\<rbrakk>
    \<Longrightarrow> drop (length (wd_log W)) (wd_log W2) = drop (length (wd_log W)) (wd_log W1) @ drop (length (wd_log W1)) (wd_log W2)"
  by (auto simp: logs_def)

lemma number_events_append: "number_events b (xs @ ys) = number_events b xs @ number_events (b + length xs) ys"
proof -
  have "[Suc b..<Suc b + length (xs @ ys)] = [Suc b..<Suc b + length xs] @ [Suc (b + length xs)..<Suc (b + length xs) + length ys]"
    using upt_add_eq_append [of "Suc b" "Suc b + length xs" "length ys"] by (simp add: ac_simps del: upt_Suc)
  then show ?thesis by (simp add: number_events_def del: upt_Suc)
qed

lemma number_events_parts:
  assumes "grows W W1" "grows W1 W2" "evs = number_events b (drop (length (wd_log W)) (wd_log W1))"
  shows "number_events b (drop (length (wd_log W)) (wd_log W2)) = evs @ number_events (b + length evs) (drop (length (wd_log W1)) (wd_log W2))"
proof -
  have "length evs = length (drop (length (wd_log W)) (wd_log W1))" unfolding assms(3) number_events_def by (simp del: upt_Suc)
  then show ?thesis unfolding drop_grows [OF assms(1,2)] number_events_append assms(3) [symmetric] by simp
qed

lemma fresh_seq:
  assumes "eg_seqs eng = []"
  shows "seq_of (seed_seq True k tid eng) tid = k"
proof -
  have "dict_get [] tid = (None :: nat option)" by (simp add: dict_get_def)
  then show ?thesis using assms by (simp add: seed_seq_def seq_of_def)
qed

text \<open>What a process with an empty counter returns and stores.\<close>

definition execute_result :: "run_end \<Rightarrow> checkpoint \<Rightarrow> run_end + agent_state" where
  "execute_result e cp = (case e of Finished \<Rightarrow> Inr (run_status True cp) | Suspended \<Rightarrow> Inr (run_status True cp) | _ \<Rightarrow> Inl e)"

lemma execute_parts:
  assumes "run_graph (recursion_limit (en_settings E) ms) E None node s W = (e, cp, W')" "en_journal E" "eg_saver eng" "eg_seqs eng = []"
  shows "\<exists>eng'. engine_execute E stored tid ms None node s eng W
      = (execute_result e cp, number_events stored (drop (length (wd_log W)) (wd_log W')), eng', W')
    \<and> dict_get (eg_checkpoints eng') tid = Some cp"
proof -
  have sv: "eg_saver (seed_seq True stored tid eng)" using assms(3) by (simp add: seed_seq_def)
  show ?thesis using assms(1,2) sv fresh_seq [OF assms(4), of stored tid]
    by (cases e) (simp_all add: engine_execute_def execute_result_def Let_def)
qed

lemma death_beginning:
  assumes "left_behind tid (execute_until stops fresh E stored tid ms None node s eng W) = Some (evs, cks, W1)
      \<or> killed n E stored tid ms node s eng W = Some (evs, cks, W1)"
    and "eg_saver eng" "eg_seqs eng = []" "en_journal E"
  shows "\<exists>j cp. j < recursion_limit (en_settings E) ms \<and> run_graph j E None node s W = (RecursionLimit, cp, W1)
    \<and> dict_get cks tid = Some cp \<and> evs = number_events stored (drop (length (wd_log W)) (wd_log W1))"
  using assms(1)
proof
  let ?L = "recursion_limit (en_settings E) ms" and ?eng = "seed_seq True stored tid eng"
  have sv: "eg_saver ?eng" "seq_of ?eng tid = stored" using assms(2) fresh_seq [OF assms(3)] by (simp_all add: seed_seq_def)
  assume left: "left_behind tid (execute_until stops fresh E stored tid ms None node s eng W) = Some (evs, cks, W1)"
  obtain e cp W2 where run: "run_until ?L stops fresh E None node s W = (e, cp, W2)" by (metis prod_cases3)
  have out: "e = Finished \<or> e = Suspended" "W2 = W1" "cp_next cp \<noteq> None" "\<not> cp_interrupt cp" "dict_get cks tid = Some cp"
      "evs = number_events stored (drop (length (wd_log W)) (wd_log W1))"
    using left assms(4) sv run by (cases e; auto simp: left_behind_def execute_until_def Let_def split: if_splits)+
  from run_until_cases [OF run] have "\<exists>j < ?L. run_graph j E None node s W = (RecursionLimit, cp, W2)"
    using out(1,3,4) run_graph_ends by metis
  then show ?thesis using out(2,5,6) by auto
next
  assume "killed n E stored tid ms node s eng W = Some (evs, cks, W1)"
  then show ?thesis using assms(4) fresh_seq [OF assms(3)] by (auto simp: killed_def split: prod.splits if_splits)
qed

text \<open>
  A store from which a task goes on to a given end: its checkpoint is a state of the task without a pending approval, and the
  run from there ends so.
\<close>

definition on_track :: "'w env \<Rightarrow> pystr \<Rightarrow> int \<Rightarrow> agent_state \<Rightarrow> checkpoint dict \<Rightarrow> 'w world \<Rightarrow> run_end \<Rightarrow> checkpoint \<Rightarrow> 'w world \<Rightarrow> bool" where
  "on_track E tid ms s0 cks W e cpe W' \<longleftrightarrow>
     (\<exists>cp m. dict_get cks tid = Some cp \<and> cp_next cp = Some m \<and> \<not> cp_interrupt cp \<and> as_max_steps (cp_values cp) = ms
        \<and> reachable E s0 m (cp_values cp)
        \<and> run_graph (recursion_limit (en_settings E) ms) E None m (cp_values cp) W = (e, cpe, W'))"

lemma on_track_start:
  assumes "s0 = init_state tid goal mode mt ms ra" "reachable E s0 node s" "j < recursion_limit (en_settings E) ms"
    and "run_graph j E None node s W = (RecursionLimit, cp, W1)" "dict_get cks tid = Some cp"
    and "run_graph (recursion_limit (en_settings E) ms) E None node s W = (e, cpe, W')" "e \<noteq> RecursionLimit"
  shows "on_track E tid ms s0 cks W1 e cpe W'"
proof -
  obtain m where m: "cp_next cp = Some m" "\<not> cp_interrupt cp"
      "run_graph (recursion_limit (en_settings E) ms) E None m (cp_values cp) W1 = (e, cpe, W')"
    using run_graph_continues [OF assms(4) less_imp_le [OF assms(3)] assms(6,7)] by blast
  have r: "reachable E s0 m (cp_values cp)" by (rule run_graph_reachable [OF assms(4,2) m(1)])
  from reachable_ginv [OF r assms(1)] have "as_max_steps (cp_values cp) = ms"
    by (simp add: ginv_def bounds_ok_def assms(1) init_state_def)
  then show ?thesis using m r assms(5) by (auto simp: on_track_def)
qed

lemma on_track_grows: "on_track E tid ms s0 cks W e cpe W' \<Longrightarrow> grows W W'"
  by (auto simp: on_track_def dest: run_graph_grows)

lemma new_process_simps [simp]:
  "eg_seqs (new_process cks) = []" "eg_saver (new_process cks)" "eg_checkpoints (new_process cks) = cks"
  by (simp_all add: new_process_def)

lemma lives_last:
  assumes "on_track E tid ms s0 cks W e cpe W'" "en_journal E"
  shows "\<exists>cks'. lives [] E stored tid cks W = Some (execute_result e cpe, number_events stored (drop (length (wd_log W)) (wd_log W')), cks', W')
      \<and> dict_get cks' tid = Some cpe"
proof -
  obtain cp m where cp: "dict_get cks tid = Some cp" "cp_next cp = Some m" "\<not> cp_interrupt cp" "as_max_steps (cp_values cp) = ms"
      "run_graph (recursion_limit (en_settings E) ms) E None m (cp_values cp) W = (e, cpe, W')"
    using assms(1) by (auto simp: on_track_def)
  show ?thesis using execute_parts [OF cp(5) assms(2), of "new_process cks" stored tid] cp(1-4) by (auto simp: resume_task_def)
qed

lemma death_on_track:
  assumes "s0 = init_state tid goal mode mt ms ra" "en_journal E" "e \<noteq> RecursionLimit"
    and "on_track E tid ms s0 cks W e cpe W'" "dying_resume p E stored tid (new_process cks) W = Some (evs, cks1, W1)"
  shows "on_track E tid ms s0 cks1 W1 e cpe W' \<and> grows W W1 \<and> evs = number_events stored (drop (length (wd_log W)) (wd_log W1))"
proof -
  obtain cp m where cp: "dict_get cks tid = Some cp" "cp_next cp = Some m" "\<not> cp_interrupt cp" "as_max_steps (cp_values cp) = ms"
      "reachable E s0 m (cp_values cp)" "run_graph (recursion_limit (en_settings E) ms) E None m (cp_values cp) W = (e, cpe, W')"
    using assms(4) by (auto simp: on_track_def)
  have "\<exists>stops n. left_behind tid (execute_until stops False E stored tid ms None m (cp_values cp) (new_process cks) W) = Some (evs, cks1, W1)
      \<or> killed n E stored tid ms m (cp_values cp) (new_process cks) W = Some (evs, cks1, W1)"
    using assms(5) cp(1-4) by (cases p) (auto simp: dying_resume_def resume_task_until_def)
  then obtain j cp1 where j: "j < recursion_limit (en_settings E) ms" "run_graph j E None m (cp_values cp) W = (RecursionLimit, cp1, W1)"
      "dict_get cks1 tid = Some cp1" "evs = number_events stored (drop (length (wd_log W)) (wd_log W1))"
    using death_beginning [OF _ _ _ assms(2)] new_process_simps by metis
  show ?thesis using on_track_start [OF assms(1) cp(5) j(1-3) cp(6) assms(3)] run_graph_grows [OF j(2)] j(4) by blast
qed

lemma lives_on_track:
  assumes "s0 = init_state tid goal mode mt ms ra" "en_journal E" "e \<noteq> RecursionLimit"
  shows "on_track E tid ms s0 cks W e cpe W' \<Longrightarrow>
    \<exists>cks'. lives ps E stored tid cks W = Some (execute_result e cpe, number_events stored (drop (length (wd_log W)) (wd_log W')), cks', W')
      \<and> dict_get cks' tid = Some cpe"
proof (induction ps arbitrary: stored cks W)
  case Nil
  then show ?case by (rule lives_last [OF _ assms(2)])
next
  case (Cons p ps)
  show ?case
  proof (cases "dying_resume p E stored tid (new_process cks) W")
    case None
    then show ?thesis using lives_last [OF Cons.prems assms(2), of stored] by simp
  next
    case (Some out)
    then obtain evs cks1 W1 where died: "dying_resume p E stored tid (new_process cks) W = Some (evs, cks1, W1)" by (metis prod_cases3)
    note rest = death_on_track [OF assms Cons.prems died]
    from Cons.IH [OF rest [THEN conjunct1], of "stored + length evs"] obtain cks' where IH:
        "lives ps E (stored + length evs) tid cks1 W1
          = Some (execute_result e cpe, number_events (stored + length evs) (drop (length (wd_log W1)) (wd_log W')), cks', W')"
        "dict_get cks' tid = Some cpe"
      by blast
    note number_events_parts [OF rest [THEN conjunct2, THEN conjunct1] on_track_grows [OF rest [THEN conjunct1]] rest [THEN conjunct2, THEN conjunct2]]
    then show ?thesis using died IH by simp
  qed
qed



end
