(* ===== verification/Scripts.thy ===== *)
theory Scripts
  imports Api Crash_Recovery Loose_Json
begin

text \<open>
  The scripts that measure, demonstrate and probe the service (\<^verbatim>\<open>scripts/metrics.py\<close>, \<^verbatim>\<open>scripts/demo_crash_recovery.py\<close>,
  \<^verbatim>\<open>scripts/auth_probe.py\<close>, \<^verbatim>\<open>scripts/mock_llm_server.py\<close>), as far as they are no printing.
\<close>

section \<open>Break, die and resume\<close>

text \<open>
  \<open>phase_crash\<close>, \<open>phase_report\<close> and \<open>phase_resume\<close> of the demonstration: the first process stops before the tool executor,
  the second one shows the checkpoint, the third one resumes. Each opens the same file of checkpoints.
\<close>

definition phase_crash :: "'w env \<Rightarrow> pystr \<Rightarrow> checkpoint dict \<Rightarrow> 'w world
     \<Rightarrow> (run_end + agent_state) \<times> (nat \<times> agent_event) list \<times> engine \<times> 'w world" where
  "phase_crash E tid cks W =
     run_task_until [ToolExecutor] E 0 tid ([26597, 21271, 20140, 22825, 27668, 24182, 24635, 32467]) ReactMode 60000 24 False (new_process cks) W"

definition phase_report :: "pystr \<Rightarrow> checkpoint dict \<Rightarrow> int \<times> task_status option" where
  "phase_report tid cks =
     (case snd (get_snapshot (new_process cks) tid) of None \<Rightarrow> (0, None) | Some s \<Rightarrow> (as_iterations s, Some (as_status s)))"

text \<open>What a resumption gives: an exception (\<open>Inl\<close>), or the final state.\<close>

definition resumed :: "'w env \<Rightarrow> pystr \<Rightarrow> checkpoint dict \<Rightarrow> 'w world \<Rightarrow> (unit + agent_state) \<times> 'w world" where
  "resumed E tid cks W =
     (case resume_task E 0 tid None (new_process cks) W of
        Inl _ \<Rightarrow> (Inl (), W)
      | Inr (Inl s) \<Rightarrow> (Inr s, W)
      | Inr (Inr (r, _, _, W1)) \<Rightarrow> (map_sum (\<lambda>_. ()) id r, W1))"

definition phase_resume :: "'w env \<Rightarrow> pystr \<Rightarrow> checkpoint dict \<Rightarrow> 'w world \<Rightarrow> (unit + task_status \<times> nat \<times> pystr) \<times> 'w world" where
  "phase_resume E tid cks W =
     map_prod (map_sum id (\<lambda>s. (as_status s, length (filter (\<lambda>m. m_role m = RTool) (as_messages s)), as_final_answer s))) id
       (resumed E tid cks W)"

text \<open>Up to the breakpoint no tool is executed, which is what the report says.\<close>

lemma run_until_no_tool:
  assumes "counts E cnt"
  shows "\<lbrakk>run_until n stops fresh E decision node s W = (e, cp, W'); ToolExecutor \<in> set stops; fresh \<or> node \<noteq> ToolExecutor\<rbrakk>
    \<Longrightarrow> cnt (wd_ext W') = cnt (wd_ext W)"
proof (induction n arbitrary: fresh decision node s W)
  case (Suc n)
  show ?case
  proof (cases "fresh \<and> node \<in> set stops")
    case True
    then show ?thesis using Suc.prems(1) by auto
  next
    case False
    then have node: "node \<noteq> ToolExecutor" using Suc.prems(2,3) by blast
    obtain x W1 where st: "node_step E decision node s W = (x, W1)" by fastforce
    have "cnt (wd_ext W1) = cnt (wd_ext W)" by (rule node_step_cnt [OF assms node st])
    moreover have "cnt (wd_ext W') = cnt (wd_ext W1)"
      using Suc.prems(1,2) Suc.IH False st by (auto split: sum.splits option.splits)
    ultimately show ?thesis by simp
  qed
qed simp

theorem crash_before_tools:
  assumes "counts E cnt" "phase_crash E tid cks W = (r, evs, eng, W')"
  shows "cnt (wd_ext W') = cnt (wd_ext W)"
proof -
  obtain e cp where "run_until (recursion_limit (en_settings E) 24) [ToolExecutor] True E None
      (route_entry (init_state tid ([26597, 21271, 20140, 22825, 27668, 24182, 24635, 32467]) ReactMode 60000 24 False))
      (init_state tid ([26597, 21271, 20140, 22825, 27668, 24182, 24635, 32467]) ReactMode 60000 24 False) W = (e, cp, W')"
    using assms(2) by (auto simp: phase_crash_def run_task_until_def execute_until_def Let_def split: prod.splits)
  from run_until_no_tool [OF assms(1) this] show ?thesis by simp
qed

section \<open>The rates\<close>

text \<open>
  \<open>metric_resume_success_rate\<close>: every sample has its own file of checkpoints and two engines with scripts of their own. An
  exception ends the measurement, the division by no sample included.
\<close>

definition resume_sample :: "'w env \<times> 'w env \<Rightarrow> nat \<Rightarrow> 'w world \<Rightarrow> (unit + bool) \<times> 'w world" where
  "resume_sample EE i W =
     (let tid = ascii ''res-'' @ nat_str i
      in case run_task_until [ToolExecutor] (fst EE) 0 tid ([26597, 22825, 27668, 24182, 24635, 32467, 32, 35] @ nat_str i) ReactMode 60000 24 False (new_process []) W of
           (Inl _, _, _, W1) \<Rightarrow> (Inl (), W1)
         | (Inr _, _, eng, W1) \<Rightarrow>
             map_prod (map_sum id (\<lambda>s. as_status s = StDone)) id (resumed (snd EE) tid (eg_checkpoints eng) W1))"

definition selfheal_sample :: "'w env \<Rightarrow> nat \<Rightarrow> 'w world \<Rightarrow> (unit + bool) \<times> 'w world" where
  "selfheal_sample E i W =
     (case run_task E 0 (ascii ''heal-'' @ nat_str i) ([26597, 22825, 27668]) ReactMode 60000 24 False ((new_process [])\<lparr>eg_saver := False\<rparr>) W of
        (r, _, _, W1) \<Rightarrow> (map_sum (\<lambda>_. ()) (\<lambda>s. 1 \<le> as_selfheal_total s \<and> as_status s = StDone) r, W1))"

text \<open>The loop over the samples and the rate.\<close>

fun count_samples :: "(nat \<Rightarrow> 'w world \<Rightarrow> (unit + bool) \<times> 'w world) \<Rightarrow> nat list \<Rightarrow> nat \<Rightarrow> 'w world \<Rightarrow> (unit + nat) \<times> 'w world" where
  "count_samples sample [] ok W = (Inr ok, W)"
| "count_samples sample (i # is) ok W =
     (case sample i W of
        (Inl u, W1) \<Rightarrow> (Inl u, W1)
      | (Inr b, W1) \<Rightarrow> count_samples sample is (ok + (if b then 1 else 0)) W1)"

definition success_rate :: "(nat \<Rightarrow> 'w world \<Rightarrow> (unit + bool) \<times> 'w world) \<Rightarrow> nat \<Rightarrow> 'w world \<Rightarrow> (unit + real) \<times> 'w world" where
  "success_rate sample n W =
     (case count_samples sample [0..<n] 0 W of
        (Inl u, W1) \<Rightarrow> (Inl u, W1)
      | (Inr ok, W1) \<Rightarrow> (if n = 0 then Inl () else Inr (real ok / real n), W1))"

definition metric_resume_success_rate :: "(nat \<Rightarrow> 'w env \<times> 'w env) \<Rightarrow> nat \<Rightarrow> 'w world \<Rightarrow> (unit + real) \<times> 'w world" where
  "metric_resume_success_rate envs = success_rate (\<lambda>i. resume_sample (envs i) i)"

definition metric_selfheal_rate :: "(nat \<Rightarrow> 'w env) \<Rightarrow> nat \<Rightarrow> 'w world \<Rightarrow> (unit + real) \<times> 'w world" where
  "metric_selfheal_rate envs = success_rate (\<lambda>i. selfheal_sample (envs i) i)"

text \<open>
  \<open>metric_crash_recovery_rate\<close>: the child is killed when it has left its marker, which it writes after its run returned, or
  after 60 seconds without one; \<open>late\<close> says what the world is then. A sample without a marker does not count.
\<close>

definition crash_child :: "'w env \<Rightarrow> pystr \<Rightarrow> ('w world \<Rightarrow> 'w world option) \<Rightarrow> 'w world \<Rightarrow> checkpoint dict option \<times> 'w world" where
  "crash_child E tid late W =
     (case late W of
        Some W1 \<Rightarrow> (None, W1)
      | None \<Rightarrow>
          (case run_task_until [ToolExecutor] E 0 tid ([23849, 28291, 24674, 22797, 25506, 38024, 20219, 21153]) ReactMode 60000 24 False (new_process []) W of
             (Inl _, _, _, W1) \<Rightarrow> (None, W1)
           | (Inr _, _, eng, W1) \<Rightarrow> (Some (eg_checkpoints eng), W1)))"

record crash_report =
  kr_rate :: real
  kr_n :: nat
  kr_valid :: nat
  kr_invalid :: nat
  kr_failed :: nat

fun crash_loop :: "(nat \<Rightarrow> 'w env \<times> 'w env) \<Rightarrow> (nat \<Rightarrow> 'w world \<Rightarrow> 'w world option) \<Rightarrow> nat list \<Rightarrow> nat \<times> nat \<times> nat \<Rightarrow> 'w world
     \<Rightarrow> (unit + nat \<times> nat \<times> nat) \<times> 'w world" where
  "crash_loop envs late [] acc W = (Inr acc, W)"
| "crash_loop envs late (i # is) (ok, invalid, failed) W =
     (let tid = ascii ''crash-'' @ nat_str i
      in case crash_child (fst (envs i)) tid (late i) W of
           (None, W1) \<Rightarrow> crash_loop envs late is (ok, invalid + 1, failed) W1
         | (Some cks, W1) \<Rightarrow>
             (case resumed (snd (envs i)) tid cks W1 of
                (Inl u, W2) \<Rightarrow> (Inl u, W2)
              | (Inr s, W2) \<Rightarrow>
                  (if as_status s = StDone then crash_loop envs late is (ok + 1, invalid, failed) W2
                   else crash_loop envs late is (ok, invalid, failed + 1) W2)))"

definition metric_crash_recovery_rate :: "(nat \<Rightarrow> 'w env \<times> 'w env) \<Rightarrow> (nat \<Rightarrow> 'w world \<Rightarrow> 'w world option) \<Rightarrow> nat \<Rightarrow> 'w world
     \<Rightarrow> (unit + crash_report) \<times> 'w world" where
  "metric_crash_recovery_rate envs late k W =
     (case crash_loop envs late [0..<k] (0, 0, 0) W of
        (Inl u, W1) \<Rightarrow> (Inl u, W1)
      | (Inr (ok, invalid, failed), W1) \<Rightarrow>
          (let valid = k - invalid
           in (Inr \<lparr>kr_rate = (if valid \<noteq> 0 then real ok / real valid else 0), kr_n = k, kr_valid = valid,
                    kr_invalid = invalid, kr_failed = failed\<rparr>, W1)))"

lemma crash_loop_counts:
  "crash_loop envs late is (ok, invalid, failed) W = (Inr (ok', invalid', failed'), W')
     \<Longrightarrow> ok' + invalid' + failed' = ok + invalid + failed + length is \<and> invalid \<le> invalid'"
  by (induction "is" arbitrary: ok invalid failed W)
     (fastforce simp: Let_def split: prod.splits option.splits sum.splits if_splits)+

text \<open>
  The account of the crash metric adds up: the samples are the recovered, the failed and the invalid ones, and the rate is one
  exactly when some sample was valid and every valid one recovered.
\<close>

theorem crash_rate_account:
  assumes "metric_crash_recovery_rate envs late k W = (Inr rep, W')"
  shows "kr_valid rep + kr_invalid rep = k \<and> kr_failed rep \<le> kr_valid rep \<and> kr_rate rep * kr_valid rep = real (kr_valid rep - kr_failed rep)
     \<and> 0 \<le> kr_rate rep \<and> kr_rate rep \<le> 1 \<and> (kr_rate rep = 1 \<longleftrightarrow> 0 < kr_valid rep \<and> kr_failed rep = 0)"
proof -
  obtain ok invalid failed where loop: "crash_loop envs late [0..<k] (0, 0, 0) W = (Inr (ok, invalid, failed), W')"
      "rep = \<lparr>kr_rate = (if k - invalid \<noteq> 0 then real ok / real (k - invalid) else 0), kr_n = k, kr_valid = k - invalid,
              kr_invalid = invalid, kr_failed = failed\<rparr>"
    using assms by (auto simp: metric_crash_recovery_rate_def Let_def split: prod.splits sum.splits)
  have total: "ok + invalid + failed = k" using crash_loop_counts [OF loop(1)] by simp
  then have ok: "ok = k - invalid - failed" "real (k - invalid) = real ok + real failed" by simp_all
  show ?thesis
  proof (cases "k - invalid = 0")
    case True
    then show ?thesis using total by (simp add: loop(2))
  next
    case False
    then have "0 < real ok + real failed" using ok(2) by linarith
    then show ?thesis using total False by (auto simp: loop(2) ok(2) divide_simps)
  qed
qed

text \<open>The other two rates have no guard for an empty series.\<close>

lemma no_samples_raise: "fst (metric_resume_success_rate envs 0 W) = Inl ()" "fst (metric_crash_recovery_rate envs late 0 W) \<noteq> Inl ()"
    "fst (metric_selfheal_rate envs' 0 W) = Inl ()"
  by (simp_all add: metric_resume_success_rate_def metric_selfheal_rate_def success_rate_def metric_crash_recovery_rate_def Let_def)

section \<open>The probe of the authentication\<close>

text \<open>What \<open>urlopen\<close> meets: no answer (refused, timed out), or a status with a body, which is lost when the status is an error.\<close>

datatype probe_reply = NoAnswer | Answered nat pystr

definition probe :: "bool \<Rightarrow> probe_reply \<Rightarrow> pystr" where
  "probe want_mode reply =
     (case reply of
        NoAnswer \<Rightarrow> (if want_mode then ascii ''error'' else ascii ''000'')
      | Answered status body \<Rightarrow>
          (if \<not> want_mode then nat_str status
           else if status \<noteq> 200 then ascii ''http_'' @ nat_str status
           else
             (case loads body of
                Some (JObj d) \<Rightarrow>
                  (case dict_get d (ascii ''mode'') of
                     None \<Rightarrow> ascii ''unknown''
                   | Some v \<Rightarrow> if truthy v then py_str v else ascii ''unknown'')
              | _ \<Rightarrow> ascii ''error'')))"

text \<open>Its request, and what the endpoint of the session answers to it; \<open>render\<close> is the encoder of the framework.\<close>

definition probe_request :: "pystr option \<Rightarrow> request" where
  "probe_request key =
     \<lparr>rq_http = True, rq_method = ascii ''GET'', rq_path = ascii ''/api/session'', rq_client = Some (ascii ''127.0.0.1''),
      rq_headers = (case key of None \<Rightarrow> [] | Some k \<Rightarrow> if k = [] then [] else [(ascii ''x-api-key'', k)]), rq_query = []\<rparr>"

definition session_reply :: "(pystr \<Rightarrow> pystr) \<Rightarrow> auth_settings \<Rightarrow> api_settings \<Rightarrow> (session_view \<Rightarrow> pystr) \<Rightarrow> request \<Rightarrow> database \<Rightarrow> auth_app
     \<Rightarrow> probe_reply" where
  "session_reply sha cfg acfg render rq db app =
     (case fst (require_tenant sha cfg rq db app) of
        Inl e \<Rightarrow> Answered (he_status e) []
      | Inr tx \<Rightarrow> Answered 200 (render (get_session acfg tx)))"

text \<open>The encoder writes an object with the mode.\<close>

definition renders_mode :: "(session_view \<Rightarrow> pystr) \<Rightarrow> bool" where
  "renders_mode render \<longleftrightarrow> (\<forall>v. \<exists>d. loads (render v) = Some (JObj d) \<and> dict_get d (ascii ''mode'') = Some (JStr (sn_mode v)))"

text \<open>The mode of a caller from loopback, with a key or without.\<close>

definition probed_mode :: "(pystr \<Rightarrow> pystr) \<Rightarrow> auth_settings \<Rightarrow> pystr option \<Rightarrow> database \<Rightarrow> auth_app \<Rightarrow> pystr" where
  "probed_mode sha cfg key db app =
     (case fst (require_tenant sha cfg (probe_request key) db app) of
        Inl e \<Rightarrow> ascii ''http_'' @ nat_str (he_status e)
      | Inr tx \<Rightarrow> (case tx_via tx of ViaDisabled \<Rightarrow> ascii ''disabled'' | ViaLocalhost \<Rightarrow> ascii ''passwordless'' | ViaApiKey \<Rightarrow> ascii ''api_key''))"

lemma require_tenant_refusals:
  "fst (require_tenant sha cfg rq db app) = Inl e \<Longrightarrow> he_status e \<in> {401, 403}"
  by (auto simp: require_tenant_def resolve_tenant_by_key_def default_tenant_def http_exception_def Let_def
      split: if_splits option.splits prod.splits)

lemma mode_text_parts: "sn_mode (get_session acfg tx)
    = (case tx_via tx of ViaDisabled \<Rightarrow> ascii ''disabled'' | ViaLocalhost \<Rightarrow> ascii ''passwordless'' | ViaApiKey \<Rightarrow> ascii ''api_key'')"
  by (simp add: get_session_def)

text \<open>
  The probe says how a caller of this machine gets in, and prints one of five texts: the documented \<open>http_000\<close> is none of
  them, a service that does not answer is \<open>error\<close>.
\<close>

theorem probe_reports_mode:
  assumes "renders_mode render"
  shows "probe True (session_reply sha cfg acfg render (probe_request key) db app) = probed_mode sha cfg key db app"
    and "probed_mode sha cfg key db app
      \<in> {ascii ''disabled'', ascii ''passwordless'', ascii ''api_key'', ascii ''http_401'', ascii ''http_403''}"
proof -
  show "probe True (session_reply sha cfg acfg render (probe_request key) db app) = probed_mode sha cfg key db app"
  proof (cases "fst (require_tenant sha cfg (probe_request key) db app)")
    case (Inl e)
    then show ?thesis using require_tenant_refusals [OF Inl] by (auto simp: session_reply_def probe_def probed_mode_def)
  next
    case (Inr tx)
    obtain d where d: "loads (render (get_session acfg tx)) = Some (JObj d)"
        "dict_get d (ascii ''mode'') = Some (JStr (sn_mode (get_session acfg tx)))"
      using assms unfolding renders_mode_def by blast
    have "truthy (JStr (sn_mode (get_session acfg tx)))" by (cases "tx_via tx") (simp_all add: mode_text_parts ascii_def)
    then have "probe True (Answered 200 (render (get_session acfg tx))) = sn_mode (get_session acfg tx)"
      using d by (simp add: probe_def py_str_def)
    then show ?thesis by (simp add: session_reply_def probed_mode_def Inr mode_text_parts)
  qed
  show "probed_mode sha cfg key db app
      \<in> {ascii ''disabled'', ascii ''passwordless'', ascii ''api_key'', ascii ''http_401'', ascii ''http_403''}"
  proof (cases "fst (require_tenant sha cfg (probe_request key) db app)")
    case (Inl e)
    have "nat_str 401 = ascii ''401''" "nat_str 403 = ascii ''403''" by (simp_all add: ascii_def nat_str.simps)
    then show ?thesis using require_tenant_refusals [OF Inl] by (auto simp: probed_mode_def Inl ascii_def)
  next
    case (Inr tx)
    then show ?thesis by (cases "tx_via tx") (simp_all add: probed_mode_def)
  qed
qed

lemma probe_no_answer: "probe True NoAnswer = ascii ''error''"
  by (simp add: probe_def)

section \<open>The scripted endpoint of the model\<close>

text \<open>
  \<open>chat\<close> of the mock server behind the client: the system text of the first message tells the role, the names of the
  answered tool calls the step. \<open>ids\<close> draws the identifiers of the calls. A repair whose request is no JSON ends in
  the status 500.
\<close>

definition mock_calls :: "(nat \<Rightarrow> pystr) \<Rightarrow> (pystr \<times> json) list \<Rightarrow> (pystr \<times> pystr \<times> pystr option) list" where
  "mock_calls ids cs = map (\<lambda>(k, n, a). (ascii ''call_'' @ ids k, n, Some (dumps a))) (enumerate 0 cs)"

definition mock_resp :: "(nat \<Rightarrow> pystr) \<Rightarrow> pystr \<Rightarrow> (pystr \<times> json) list \<Rightarrow> completion" where
  "mock_resp ids content cs = \<lparr>cm_content = Some content, cm_calls = mock_calls ids cs, cm_usage = Some 150\<rparr>"

definition mock_plan :: json where
  "mock_plan = JObj [(ascii ''steps'', JArr [JStr ([26597, 35810, 21271, 20140, 20170, 22825, 30340, 22825, 27668]), JStr ([26597, 35810, 19978, 28023, 20170, 22825, 30340, 22825, 27668]),
     JStr ([29992, 27801, 31665, 35745, 31639, 20004, 22320, 26368, 39640, 27668, 28201, 28201, 24046, 24182, 32473, 20986, 32467, 35770])])]"

definition mock_repaired :: json where
  "mock_repaired = JObj [(ascii ''query'', JStr ([21271, 20140, 32, 20170, 22825, 32, 22825, 27668]))]"

definition mock_delivery :: pystr where
  "mock_delivery = [32508, 21512, 25191, 34892, 32467, 26524, 65306, 21271, 20140, 26228, 32, 51, 49, 8451, 12289, 19978, 28023, 22810, 20113, 32, 50, 56, 8451, 65292, 28201, 24046, 32, 51, 8451, 65292, 21271, 20140, 26356, 28909, 65307, 19978, 28023, 26377, 38632, 24314, 35758, 24102, 20254, 12290]"

definition mock_searches :: "(pystr \<times> json) list" where
  "mock_searches = [(ascii ''web_search'', JObj [(ascii ''query'', JStr ([21271, 20140, 32, 20170, 22825, 32, 22825, 27668]))]),
     (ascii ''web_search'', JObj [(ascii ''query'', JStr ([19978, 28023, 32, 20170, 22825, 32, 22825, 27668]))])]"

definition mock_compute :: "(pystr \<times> json) list" where
  "mock_compute = [(ascii ''code_run'', JObj [(ascii ''code'', JStr (ascii ''bj, sh = 31, 28'' @ [10] @ ascii ''print(f'' @ [39] @ [28201, 24046, 58, 32, 123, 98, 106, 32, 45, 32, 115, 104, 125, 8451] @ [39] @ ascii '')''))])]"

definition mock_final :: pystr where
  "mock_final = [20170, 26085, 21271, 20140, 26228, 32, 51, 49, 8451, 65292, 19978, 28023, 22810, 20113, 32, 50, 56, 8451, 65292, 26368, 39640, 27668, 28201, 30456, 24046, 32, 51, 8451, 12290, 21271, 20140, 26356, 28909, 65292, 20986, 34892, 27880, 24847, 38450, 26257, 65307, 19978, 28023, 26377, 38632, 65292, 35760, 24471, 24102, 20254, 12290]"

definition answered :: "pystr \<Rightarrow> message list \<Rightarrow> bool" where
  "answered name messages =
     list_ex (\<lambda>m. m_role m = RTool \<and> str_in name (case m_name m of None \<Rightarrow> [] | Some n \<Rightarrow> n)) messages"

definition mock_chat :: "(nat \<Rightarrow> pystr) \<Rightarrow> message list \<Rightarrow> llm_error + completion" where
  "mock_chat ids messages =
     (let system = (case messages of [] \<Rightarrow> [] | m # _ \<Rightarrow> m_content m)
      in if str_in ([20219, 21153, 35268, 21010, 22120]) system then Inr (mock_resp ids (dumps mock_plan) [])
         else if str_in ([21442, 25968, 20462, 22797, 22120]) system then
           (case loads (m_content (last messages)) of
              None \<Rightarrow> Inl (ApiStatusError 500 None)
            | Some _ \<Rightarrow> Inr (mock_resp ids (dumps mock_repaired) []))
         else if str_in ([20219, 21153, 20132, 20184, 22120]) system \<or> str_in ([25688, 35201, 22120]) system then Inr (mock_resp ids mock_delivery [])
         else if \<not> answered (ascii ''web_search'') messages then
           Inr (mock_resp ids ([20004, 22320, 22825, 27668, 30456, 20114, 29420, 31435, 65292, 24182, 34892, 26597, 35810, 12290]) mock_searches)
         else if \<not> answered (ascii ''code_run'') messages then
           Inr (mock_resp ids ([25552, 21462, 20004, 22320, 27668, 28201, 24182, 35745, 31639, 28201, 24046, 12290]) mock_compute)
         else Inr (mock_resp ids mock_final []))"

text \<open>Its plan is read by the planner as three pending steps, also through the tolerant parser.\<close>

lemma mock_plan_accepted:
  "parse_plan_steps (raw_steps (parse_json_loose (lr_text (response_of err m ms (mock_resp ids (dumps mock_plan) [])))))
     = Inr [\<lparr>ps_id = Some (ascii ''s1''), ps_description = [26597, 35810, 21271, 20140, 20170, 22825, 30340, 22825, 27668], ps_status = Pending, ps_result = [], ps_deps = None\<rparr>,
            \<lparr>ps_id = Some (ascii ''s2''), ps_description = [26597, 35810, 19978, 28023, 20170, 22825, 30340, 22825, 27668], ps_status = Pending, ps_result = [], ps_deps = None\<rparr>,
            \<lparr>ps_id = Some (ascii ''s3''), ps_description = [29992, 27801, 31665, 35745, 31639, 20004, 22320, 26368, 39640, 27668, 28201, 28201, 24046, 24182, 32473, 20986, 32467, 35770], ps_status = Pending, ps_result = [], ps_deps = None\<rparr>]"
proof -
  have content: "lr_text (response_of err m ms (mock_resp ids (dumps mock_plan) [])) = dumps mock_plan"
    by (simp add: response_of_def mock_resp_def mock_calls_def Let_def)
  have "parse_json_loose (dumps mock_plan) = Some mock_plan"
    unfolding mock_plan_def by (rule loose_object_plain) (simp add: ascii_def)
  then show ?thesis
    unfolding content by (simp add: mock_plan_def raw_steps_def dict_get_def parse_plan_steps_def iter_json_def step_of_item_def
        py_str_def str_strip_def is_space_def auto_id_def nat_str.simps ascii_def)
qed

text \<open>The arguments of its calls are read as they were written.\<close>

lemma mock_arguments_read:
  assumes "\<And>n a. (n, a) \<in> set cs \<Longrightarrow> \<exists>kvs. a = JObj kvs \<and> wf_json a"
  shows "map (\<lambda>c. (tc_name c, tc_arguments c, tc_parse_error c)) (lr_tool_calls (response_of err m ms (mock_resp ids t cs)))
     = map (\<lambda>(n, a). (n, a, [])) cs"
proof -
  have one: "(let (args, perr) = parse_tool_arguments err (case Some (dumps a) of None \<Rightarrow> ascii ''{}'' | Some t \<Rightarrow> if t = [] then ascii ''{}'' else t)
      in (args, perr)) = (a, [])" if mem: "(n, a) \<in> set cs" for n a
  proof -
    obtain kvs where kvs: "a = JObj kvs" "wf_json (JObj kvs)" using assms [OF mem] by blast
    obtain s where "dumps a = 123 # s" using dumps_object_ends [of kvs] kvs(1) by auto
    then show ?thesis using loads_dumps [OF kvs(2)] kvs(1) by (simp add: parse_tool_arguments_def)
  qed
  have "map (\<lambda>c. (tc_name c, tc_arguments c, tc_parse_error c)) (lr_tool_calls (response_of err m ms (mock_resp ids t cs)))
      = map ((\<lambda>(n, a). (n, a, [])) \<circ> snd) (enumerate 0 cs)"
    unfolding response_of_def mock_resp_def mock_calls_def Let_def completion.simps llm_response.simps map_map
  proof (rule map_cong [OF refl])
    fix x
    assume "x \<in> set (enumerate 0 cs)"
    then have "snd x \<in> set (map snd (enumerate 0 cs))" unfolding set_map by (rule imageI)
    then have "snd x \<in> set cs" unfolding map_snd_enumerate .
    then obtain k n a where x: "x = (k, n, a)" "(n, a) \<in> set cs" by (cases x) auto
    show "((\<lambda>c. (tc_name c, tc_arguments c, tc_parse_error c)) \<circ> ((\<lambda>(i, n, a).
        case parse_tool_arguments err (case a of None \<Rightarrow> ascii ''{}'' | Some t \<Rightarrow> if t = [] then ascii ''{}'' else t) of
          (args, perr) \<Rightarrow> \<lparr>tc_id = i, tc_name = n, tc_arguments = args, tc_parse_error = perr\<rparr>)
        \<circ> (\<lambda>(k, n, a). (ascii ''call_'' @ ids k, n, Some (dumps a))))) x = ((\<lambda>(n, a). (n, a, [])) \<circ> snd) x"
      using one [OF x(2)] by (simp add: x(1) split: prod.splits)
  qed
  then show ?thesis by (simp only: map_map [symmetric] map_snd_enumerate)
qed

lemma mock_tools_read:
  "cs \<in> {mock_searches, mock_compute} \<Longrightarrow>
    map (\<lambda>c. (tc_name c, tc_arguments c, tc_parse_error c)) (lr_tool_calls (response_of err m ms (mock_resp ids t cs)))
      = map (\<lambda>(n, a). (n, a, [])) cs"
  by (rule mock_arguments_read) (auto simp: mock_searches_def mock_compute_def)

text \<open>The endpoint takes a task through its rounds: two searches, the computation, the answer.\<close>

theorem mock_rounds:
  assumes "list_all (\<lambda>r. \<not> str_in r (m_content (hd messages))) [[20219, 21153, 35268, 21010, 22120], [21442, 25968, 20462, 22797, 22120], [20219, 21153, 20132, 20184, 22120], [25688, 35201, 22120]]"
    and "messages \<noteq> []"
  shows "mock_chat ids messages =
     Inr (if \<not> answered (ascii ''web_search'') messages then mock_resp ids ([20004, 22320, 22825, 27668, 30456, 20114, 29420, 31435, 65292, 24182, 34892, 26597, 35810, 12290]) mock_searches
          else if \<not> answered (ascii ''code_run'') messages then mock_resp ids ([25552, 21462, 20004, 22320, 27668, 28201, 24182, 35745, 31639, 28201, 24046, 12290]) mock_compute
          else mock_resp ids mock_final [])"
  using assms by (cases messages) (simp_all add: mock_chat_def)

end
