(* ===== verification/Startup.thy ===== *)
theory Startup
  imports Assembly Mcp_Server Offline
begin

text \<open>
  What the settings decide when the programs of the repository start: the service (\<^verbatim>\<open>app/main.py\<close>, \<^verbatim>\<open>app/runtime.py\<close>,
  \<^verbatim>\<open>app/config.py\<close>), the migrations (\<^verbatim>\<open>migrations/env.py\<close>), the MCP server (\<^verbatim>\<open>app/mcp_server.py\<close>), the demonstration on
  the command line (\<^verbatim>\<open>scripts/demo_cli.py\<close>) and the demonstration database (\<^verbatim>\<open>scripts/seed_demo_db.py\<close>).
\<close>

section \<open>The service\<close>

record start_settings =
  sg_llm_api_key :: pystr
  sg_llm_model :: pystr
  sg_llm_model_cheap :: pystr
  sg_llm_max_retries :: int
  sg_database_url :: pystr
  sg_checkpoint_db :: pystr
  sg_checkpoint_sqlite_path :: pystr
  sg_tool_db_path :: pystr
  sg_workspace_dir :: pystr
  sg_rate_limit_store :: pystr
  sg_spans_enabled :: bool
  sg_search_provider :: pystr

text \<open>\<open>get_settings\<close> makes the directories; \<open>parent\<close> is the directory of a path.\<close>

definition settings_dirs :: "(pystr \<Rightarrow> pystr) \<Rightarrow> start_settings \<Rightarrow> pystr list" where
  "settings_dirs parent cfg = [sg_workspace_dir cfg, parent (sg_tool_db_path cfg), parent (sg_checkpoint_sqlite_path cfg)]"

text \<open>\<open>build_llm\<close>: the client, and the key it sends.\<close>

definition build_llm :: "start_settings \<Rightarrow> llm_client \<times> pystr" where
  "build_llm cfg =
     (\<lparr>default_model = sg_llm_model cfg, fallback_model = sg_llm_model_cheap cfg, max_retries = nat (max 0 (sg_llm_max_retries cfg)),
       retry_base_delay_s = 1\<rparr>,
      if sg_llm_api_key cfg = [] then ascii ''EMPTY'' else sg_llm_api_key cfg)"

definition needs_selector_loop :: "bool \<Rightarrow> start_settings \<Rightarrow> bool" where
  "needs_selector_loop windows cfg \<longleftrightarrow> windows \<and> sg_checkpoint_db cfg = ascii ''postgres''"

text \<open>The branch of \<open>build_saver\<close>, with the address for the driver of the pool.\<close>

definition saver_target :: "start_settings \<Rightarrow> store_kind \<times> pystr" where
  "saver_target cfg =
     (if sg_checkpoint_db cfg = ascii ''postgres'' then
        (PostgresStore,
         if str_prefix (ascii ''postgresql+asyncpg://'') (sg_database_url cfg)
         then ascii ''postgresql://'' @ drop 21 (sg_database_url cfg) else sg_database_url cfg)
      else (SqliteStore, sg_checkpoint_sqlite_path cfg))"

text \<open>The choices of \<open>lifespan\<close>: the limiter, and whether spans are stored.\<close>

datatype limiter_kind = DbWindows | InProcess

definition lifespan_choices :: "start_settings \<Rightarrow> limiter_kind \<times> bool" where
  "lifespan_choices cfg = (if sg_rate_limit_store cfg = ascii ''db'' then DbWindows else InProcess, sg_spans_enabled cfg)"

text \<open>On Windows the pool never meets a loop that its driver does not support, and the driver never sees the address of the other one.\<close>

lemma saver_supported:
  assumes "saver_target cfg = (PostgresStore, url)"
  shows "needs_selector_loop True cfg" and "str_prefix (ascii ''postgresql+asyncpg://'') (sg_database_url cfg) \<Longrightarrow> str_prefix (ascii ''postgresql://'') url"
  using assms by (auto simp: saver_target_def needs_selector_loop_def ascii_def split: if_splits)

section \<open>The environment of the migrations\<close>

text \<open>\<open>attr\<close> is the address that the repository injects; a command line has none.\<close>

definition migration_url :: "pystr option \<Rightarrow> pystr \<Rightarrow> pystr" where
  "migration_url attr settings_url = (case attr of None \<Rightarrow> settings_url | Some u \<Rightarrow> if u = [] then settings_url else u)"

datatype env_action =
    WriteScript pystr
  | MakeEngine pystr
  | Connect
  | Configure bool
  | RunVersions
  | DisposeEngine

text \<open>
  \<open>run_migrations_offline\<close> only writes SQL. \<open>_run_async_migrations\<close> connects, runs the versions, in batch mode for SQLite, and
  disposes of its engine on every path; \<open>fails\<close> says which action raises.
\<close>

definition run_async_migrations :: "(env_action \<Rightarrow> bool) \<Rightarrow> pystr \<Rightarrow> bool \<Rightarrow> env_action list \<times> bool" where
  "run_async_migrations fails url sqlite =
     (if fails (MakeEngine url) then ([MakeEngine url], False)
      else if fails Connect then ([MakeEngine url, Connect, DisposeEngine], False)
      else if fails (Configure sqlite) then ([MakeEngine url, Connect, Configure sqlite, DisposeEngine], False)
      else ([MakeEngine url, Connect, Configure sqlite, RunVersions, DisposeEngine], \<not> fails RunVersions \<and> \<not> fails DisposeEngine))"

definition run_env :: "(env_action \<Rightarrow> bool) \<Rightarrow> bool \<Rightarrow> pystr option \<Rightarrow> pystr \<Rightarrow> bool \<Rightarrow> env_action list \<times> bool" where
  "run_env fails offline attr settings_url sqlite =
     (let url = migration_url attr settings_url
      in if offline then ([WriteScript url], \<not> fails (WriteScript url)) else run_async_migrations fails url sqlite)"

theorem env_disposes:
  assumes "run_env fails offline attr settings_url sqlite = (acts, ok)"
  shows "(Connect \<in> set acts \<longrightarrow> last acts = DisposeEngine) \<and> (offline \<longrightarrow> Connect \<notin> set acts)
    \<and> (ok \<and> \<not> offline \<longrightarrow> RunVersions \<in> set acts)"
  using assms by (auto simp: run_env_def run_async_migrations_def Let_def split: if_splits)

section \<open>The command line of the MCP server\<close>

record mcp_args =
  ma_list :: bool
  ma_call :: "pystr option"
  ma_args_file :: "pystr option"
  ma_args :: pystr

text \<open>\<open>schema\<close> is the schema that the SDK makes of a signature, \<open>sdk\<close> its dispatch of a call: the error flag and the texts.\<close>

definition tool_brief :: "(mcp_tool \<Rightarrow> json) \<Rightarrow> mcp_tool list \<Rightarrow> json" where
  "tool_brief schema ts =
     JArr (map (\<lambda>t. JObj [(ascii ''name'', JStr (mt_name t)), (ascii ''description'', JStr (mt_description t)), (ascii ''inputSchema'', schema t)]) ts)"

definition call_once :: "(pystr \<Rightarrow> json \<Rightarrow> 'w \<Rightarrow> (raised + bool \<times> pystr list) \<times> 'w) \<Rightarrow> pystr \<Rightarrow> json \<Rightarrow> 'w \<Rightarrow> (raised + json) \<times> 'w" where
  "call_once sdk name payload w =
     map_prod (map_sum id (\<lambda>(e, texts). JObj [(ascii ''isError'', JBool e), (ascii ''content'', JArr (map JStr texts))])) id (sdk name payload w)"

text \<open>What the program does: it prints a value, fails, or warns on the error stream and serves.\<close>

datatype mcp_outcome = Printed json | Failed | Served pystr

definition mcp_main :: "(mcp_tool \<Rightarrow> json) \<Rightarrow> (pystr \<Rightarrow> json \<Rightarrow> 'w \<Rightarrow> (raised + bool \<times> pystr list) \<times> 'w) \<Rightarrow> (pystr \<Rightarrow> pystr option)
     \<Rightarrow> unicode_db \<Rightarrow> 'w tool_registry \<Rightarrow> mcp_args \<Rightarrow> 'w \<Rightarrow> mcp_outcome \<times> 'w" where
  "mcp_main schema sdk read_file u reg args w =
     (case build_mcp_server u reg of
        Inl _ \<Rightarrow> (Failed, w)
      | Inr (ts, side_effects) \<Rightarrow>
          (if ma_list args then (Printed (tool_brief schema ts), w)
           else
             (case ma_call args of
                Some (c # name) \<Rightarrow>
                  (let raw = (case ma_args_file args of
                                Some (d # path) \<Rightarrow> read_file (d # path)
                              | _ \<Rightarrow> Some (ma_args args))
                   in case Option.bind raw loads of
                        None \<Rightarrow> (Failed, w)
                      | Some payload \<Rightarrow>
                          (case call_once sdk (c # name) payload w of
                             (Inl _, w1) \<Rightarrow> (Failed, w1)
                           | (Inr v, w1) \<Rightarrow> (Printed v, w1)))
              | _ \<Rightarrow> (Served (exposure_warning side_effects), w))))"

lemma call_once_world: "call_once sdk name payload w = (r, w1) \<Longrightarrow> w1 = snd (sdk name payload w)"
  by (auto simp: call_once_def map_prod_def split: prod.splits)

text \<open>Serving names every tool with side effects that it offers, and listing or a malformed call runs no tool.\<close>

theorem mcp_main_safe:
  assumes "mcp_main schema sdk read_file u reg args w = (out, w')"
  shows "(\<forall>t. out = Served t \<longrightarrow> t = exposure_warning (map ts_name (filter ts_side_effect (registry_specs reg))) \<and> w' = w)
    \<and> (ma_list args \<longrightarrow> w' = w) \<and> (w' \<noteq> w \<longrightarrow> (\<exists>name payload. ma_call args = Some name \<and> w' = snd (sdk name payload w)))"
proof (cases "build_mcp_server u reg")
  case (Inl e)
  then show ?thesis using assms by (simp add: mcp_main_def)
next
  case (Inr b)
  obtain ts side_effects where b: "b = (ts, side_effects)" by fastforce
  have side: "side_effects = map ts_name (filter ts_side_effect (registry_specs reg))"
    using Inr b by (auto simp: build_mcp_server_def map_sum_Inr_iff)
  show ?thesis
  proof (cases "\<not> ma_list args \<and> (\<exists>c name. ma_call args = Some (c # name))")
    case False
    then show ?thesis using assms Inr b side by (auto simp: mcp_main_def split: if_splits option.splits list.splits)
  next
    case True
    then obtain c name where call: "\<not> ma_list args" "ma_call args = Some (c # name)" by blast
    then have "(\<forall>t. out \<noteq> Served t) \<and> (w' = w \<or> (\<exists>payload. w' = snd (sdk (c # name) payload w)))"
      using assms Inr b unfolding mcp_main_def Let_def
      by (auto split: option.splits prod.splits sum.splits dest: call_once_world)
    then show ?thesis using call by blast
  qed
qed

section \<open>The demonstration on the command line\<close>

definition tool_item :: "pystr \<Rightarrow> script_call list \<Rightarrow> script_item" where
  "tool_item thought cs = \<lparr>si_thought = Some thought, si_text = None, si_final = None, si_tool = None, si_tools = Some cs\<rparr>"

definition search_call :: "pystr \<Rightarrow> script_call" where
  "search_call q = \<lparr>sk_name = Some (ascii ''web_search''), sk_arguments = Some (JObj [(ascii ''query'', JStr q)])\<rparr>"

definition offline_script :: "script_item list" where
  "offline_script =
     [tool_item ([20004, 22320, 22825, 27668, 30456, 20114, 29420, 31435, 65292, 19968, 27425, 24182, 34892, 26597, 35810, 12290]) [search_call ([21271, 20140, 32, 20170, 22825, 32, 22825, 27668]), search_call ([19978, 28023, 32, 20170, 22825, 32, 22825, 27668])],
      \<lparr>si_thought = Some ([25343, 21040, 20004, 22320, 26368, 39640, 27668, 28201, 65288, 21271, 20140, 32, 51, 49, 8451, 12289, 19978, 28023, 32, 50, 56, 8451, 65289, 65292, 29992, 27801, 31665, 31934, 30830, 35745, 31639, 28201, 24046, 12290]), si_text = None, si_final = None,
       si_tool = Some \<lparr>sk_name = Some (ascii ''code_run''), sk_arguments = Some (JObj [(ascii ''code'',
         JStr (ascii ''bj, sh = 31, 28'' @ [10] @ ascii ''print(f'' @ [39] @ [28201, 24046, 58, 32, 123, 98, 106, 32, 45, 32, 115, 104, 125, 8451] @ [39] @ ascii '')''))])\<rparr>, si_tools = None\<rparr>,
      \<lparr>si_thought = None, si_text = None,
       si_final = Some ([20170, 26085, 22825, 27668, 23545, 27604, 65306, 21271, 20140, 26228, 65292, 51, 49, 8451, 65307, 19978, 28023, 22810, 20113, 36716, 23567, 38632, 65292, 50, 56, 8451, 12290, 20004, 22320, 26368, 39640, 27668, 28201, 30456, 24046, 32, 51, 8451, 65292, 21271, 20140, 26356, 39640, 65292, 22806, 20986, 27880, 24847, 38450, 26257, 47, 24102, 20254, 12290]),
       si_tool = None, si_tools = None\<rparr>]"

text \<open>Which model and which source of searches a run gets; without a key the program exits.\<close>

datatype cli_model = Scripted fake_llm | Online "llm_client \<times> pystr"

definition cli_start :: "bool \<Rightarrow> start_settings \<Rightarrow> (cli_model \<times> pystr) option" where
  "cli_start offline cfg =
     (if offline then Some (Scripted (new_fake offline_script), ascii ''mock'')
      else if sg_llm_api_key cfg = [] then None
      else Some (Online (\<lparr>default_model = sg_llm_model cfg, fallback_model = [], max_retries = 2, retry_base_delay_s = 1\<rparr>, sg_llm_api_key cfg),
                 sg_search_provider cfg))"

text \<open>The script answers with calls that have a name and arguments, so that no answer of the offline run raises.\<close>

lemma offline_script_answers:
  "fst (fake_chat ms tools model \<lparr>fk_script = offline_script, fk_calls = calls\<rparr>) = r \<Longrightarrow> \<exists>resp. r = Inr resp \<and> length (lr_tool_calls resp) = 2"
  by (auto simp: fake_chat_def Let_def offline_script_def build_answer_def raw_calls_def tool_item_def search_call_def)

lemma offline_stays_offline: "\<exists>llm. cli_start True cfg = Some (Scripted llm, ascii ''mock'')"
  by (simp add: cli_start_def)

section \<open>The demonstration database\<close>

text \<open>The three tables with their automatic numbers; a score refers to a student and a course. Credits and scores are whole or halves.\<close>

record demo_tables =
  dt_students :: "(nat \<times> pystr \<times> pystr \<times> int) list"
  dt_courses :: "(nat \<times> pystr \<times> real) list"
  dt_scores :: "(nat \<times> nat \<times> real) list"

definition seed :: "demo_tables option \<Rightarrow> demo_tables" where
  "seed old =
     \<lparr>dt_students = [(1, [24352, 19977], [35745, 31639, 26426, 31185, 23398], 2024), (2, [26446, 22235], [36719, 20214, 24037, 31243], 2023), (3, [29579, 20116], [25968, 25454, 31185, 23398], 2024),
        (4, [36213, 20845], [35745, 31639, 26426, 31185, 23398], 2022), (5, [38065, 19971], [36719, 20214, 24037, 31243], 2024)],
      dt_courses = [(1, [26426, 22120, 23398, 20064], 3), (2, [25968, 25454, 24211, 31995, 32479], 5 / 2), (3, [32534, 35793, 21407, 29702], 7 / 2), (4, [25805, 20316, 31995, 32479], 3), (5, [28145, 24230, 23398, 20064], 2)],
      dt_scores = [(1, 1, 92), (1, 2, 88), (1, 5, 95), (2, 1, 85), (2, 3, 78), (3, 1, 90), (3, 2, 93), (4, 4, 82), (5, 1, 87), (5, 4, 80)]\<rparr>"

text \<open>Seeding starts over, and the foreign keys, which SQLite does not check by default, hold.\<close>

theorem seed_consistent:
  "seed (Some (seed old)) = seed old \<and> distinct (map fst (dt_students (seed old))) \<and> distinct (map fst (dt_courses (seed old)))
    \<and> (\<forall>(s, c, _) \<in> set (dt_scores (seed old)). s \<in> fst ` set (dt_students (seed old)) \<and> c \<in> fst ` set (dt_courses (seed old)))"
  by (simp add: seed_def)

end
