(* ===== verification/Spec2Isabelle.thy ===== *)
theory Spec2Isabelle
  imports Api Metrics Subagent Logging Weather Sandbox Mcp_Server Migration Assembly Offline Shutdown
    Credentials Checkpoints Span_Blocks Loose_Json Crash_Recovery Scripts Startup
begin

text \<open>
  \<^bold>\<open>The program.\<close> The repository is a runtime for agents driven by a language model. A client
  submits a goal over HTTP; the API stores it as a task of a tenant and hands it to a queue, in
  the process or through Celery; the engine runs the task as a graph of nodes (planner, decision,
  approval gate, tool execution, critic, compressor, finisher) that calls the model and the tools;
  events, checkpoints, tool executions and spans are stored, and the client polls or streams
  the events. This development models the core of that program, from the plan of a
  task up to the endpoints, as executable definitions, and proves what makes it correct.

  \<^bold>\<open>Theories and sources\<close> (paths under \<^verbatim>\<open>src/app\<close>), from the bottom up:

  \<^item> \<open>Prelude\<close>: Python text as code points, JSON values, insertion-ordered dictionaries, shared lemmas.
  \<^item> \<open>Plan_Dag\<close>: parsing of plans, their dependency batches and the fallbacks (\<^verbatim>\<open>graph/nodes.py\<close>).
  \<^item> \<open>Errors\<close>: error codes, transient errors, back-off, budget, classification of failures
    (\<^verbatim>\<open>core/errors.py\<close>, \<^verbatim>\<open>core/retry.py\<close>, \<^verbatim>\<open>core/budget.py\<close>).
  \<^item> \<open>Json_Codec\<close>: \<open>json.dumps\<close> and \<open>json.loads\<close> as the program uses them, and \<open>parse_json_loose\<close>;
    \<open>Loose_Json\<close>: what the latter recovers from the text of a model.
  \<^item> \<open>Llm\<close>: calls of the model with retries and a fallback model, token estimates (\<^verbatim>\<open>core/llm.py\<close>).
  \<^item> \<open>Compressor\<close>: compression of a history (\<^verbatim>\<open>core/compressor.py\<close>).
  \<^item> \<open>Registry\<close>: descriptors, validation and execution of tools (\<^verbatim>\<open>tools/registry.py\<close>).
  \<^item> \<open>Journal\<close>: claims and replay of tool executions (\<^verbatim>\<open>storage/repository.py\<close>).
  \<^item> \<open>Prompts\<close>, \<open>Agent_State\<close>: the texts sent to the model and the state of a task
    (\<^verbatim>\<open>graph/prompts.py\<close>, \<^verbatim>\<open>graph/state.py\<close>).
  \<^item> \<open>Tool_Exec\<close>, \<open>Nodes\<close>: one tool call with journal, retries and repair, and all nodes and routes of
    the graph (\<^verbatim>\<open>graph/nodes.py\<close>).
  \<^item> \<open>Engine\<close>, \<open>Graph_Invariants\<close>: the graph, runs, suspension, resumption and checkpoints
    (\<^verbatim>\<open>graph/engine.py\<close>), with the invariants of every reachable state; \<open>Crash_Recovery\<close>: breakpoints, and
    processes that die and are replaced.
  \<^item> \<open>Repository\<close>: the tables and their operations (\<^verbatim>\<open>storage/models.py\<close>, \<^verbatim>\<open>storage/repository.py\<close>);
    \<open>Checkpoints\<close>: the deletion of a task together with its checkpoints.
  \<^item> \<open>Rate_Limit\<close>: both limiters, the middleware and the stream gate (\<^verbatim>\<open>api/ratelimit.py\<close>).
  \<^item> \<open>Security\<close>: tenants, keys, the administrator and the bootstrap (\<^verbatim>\<open>api/security.py\<close>,
    \<^verbatim>\<open>api/routes_admin.py\<close>); \<open>Credentials\<close>: the file of the keys and the start that reads and writes it.
  \<^item> \<open>Queue\<close>: the local queue and the Celery worker (\<^verbatim>\<open>worker/local_queue.py\<close>, \<^verbatim>\<open>worker/celery_app.py\<close>).
  \<^item> \<open>Shutdown\<close>: the local queue as a process with its semaphore, and its end (\<^verbatim>\<open>worker/local_queue.py\<close>).
  \<^item> \<open>Spans\<close>: trace context, spans, their tree and their buffer (\<^verbatim>\<open>observability/context.py\<close>,
    \<^verbatim>\<open>observability/spans.py\<close>); \<open>Span_Blocks\<close>: nested blocks of spans with their exceptions.
  \<^item> \<open>Api\<close>: every endpoint of \<^verbatim>\<open>api/routes_tasks.py\<close>.
  \<^item> \<open>Metrics\<close>, \<open>Process_Metrics\<close>: counters, gauges, histograms and their text format; the metrics of the
    process and where they are written (\<^verbatim>\<open>observability/metrics.py\<close>).
  \<^item> \<open>Offline\<close>: the scripted model (\<^verbatim>\<open>core/llm.py\<close>).
  \<^item> \<open>Builtin_Tools\<close>, \<open>Subagent\<close>: the database, file, code and delegation tools and the assembly of the
    registry (\<^verbatim>\<open>tools/\<close>), with the choice of the sandbox (\<^verbatim>\<open>executor/sandbox.py\<close>).
  \<^item> \<open>Sandbox\<close>: runs in containers and in local processes (\<^verbatim>\<open>executor/sandbox.py\<close>).
  \<^item> \<open>Regex\<close>: Python's regular expressions as a backtracking matcher, for the patterns of the next theories.
  \<^item> \<open>Logging\<close>: redaction, sampling and formatting of logs (\<^verbatim>\<open>observability/logging.py\<close>).
  \<^item> \<open>Search_Results\<close>, \<open>Web_Search\<close>: relevance, credibility, agreement and summary of results; throttling,
    sources and routing of searches (\<^verbatim>\<open>tools/web_search/\<close>).
  \<^item> \<open>Weather\<close>: the weather tool and the pool of HTTP clients (\<^verbatim>\<open>tools/weather.py\<close>,
    \<^verbatim>\<open>tools/web_search/providers/__init__.py\<close>).
  \<^item> \<open>Mcp_Server\<close>: the tools for clients of the Model Context Protocol (\<^verbatim>\<open>mcp_server.py\<close>).
  \<^item> \<open>Migration\<close>: the schema of the models, its versions, the repair of old databases and the lease
    (\<^verbatim>\<open>storage/models.py\<close>, \<^verbatim>\<open>storage/repository.py\<close>, \<^verbatim>\<open>migrations/versions\<close>).
  \<^item> \<open>Assembly\<close>: the engine with its checkpoint store, start and end of the service, settings that go through
    the environment (\<^verbatim>\<open>runtime.py\<close>, \<^verbatim>\<open>main.py\<close>), the launcher (\<^verbatim>\<open>scripts/serve_dualstack.py\<close>).
  \<^item> \<open>Startup\<close>: what the settings decide at the start of the service (\<^verbatim>\<open>config.py\<close>, \<^verbatim>\<open>runtime.py\<close>, \<^verbatim>\<open>main.py\<close>), the
    environment of the migrations (\<^verbatim>\<open>migrations/env.py\<close>), the command lines of the MCP server and of the demonstration, and
    the demonstration database (\<^verbatim>\<open>mcp_server.py\<close>, \<^verbatim>\<open>scripts/demo_cli.py\<close>, \<^verbatim>\<open>scripts/seed_demo_db.py\<close>).
  \<^item> \<open>Scripts\<close>: the demonstration of a crash, the rates of the metrics script, the probe of the authentication and the
    mock endpoint of the model (\<^verbatim>\<open>scripts/demo_crash_recovery.py\<close>, \<^verbatim>\<open>scripts/metrics.py\<close>, \<^verbatim>\<open>scripts/auth_probe.py\<close>,
    \<^verbatim>\<open>scripts/mock_llm_server.py\<close>).

  \<^bold>\<open>How code becomes definitions.\<close> A class is a record, an enumeration a datatype, a method a function
  that takes the state and returns it changed; an exception is the left side of a sum. What the
  code calls but the repository does not contain is a parameter: the model behind the HTTP client,
  the handlers of tools, the JSON schema validator, clocks and random identifiers, the file
  system, hash functions. They are fields of the record \<open>env\<close> or arguments, with an abstract type of
  worlds that they may change. Concurrency is expressed by steps: the workers that race for a tool call
  (\<open>race_step\<close>), transactions on the database (\<open>repo_step\<close>), submissions that interleave between the
  insert and the check (\<open>submit_run\<close>), jobs of the queue (\<open>queue_run\<close>), holders of streams (\<open>gate_run\<close>),
  the queue with its shutdown (\<open>queue_moves\<close>),
  nested spans (\<open>span_run\<close>), requests during a rotation of keys (\<open>auth_run\<close>), and crashes, resumptions
  and approvals of a task (\<open>reachable\<close>).

  \<^bold>\<open>What is shown.\<close>

  \<^item> Graph: budgets, pairing of the history and progress of the plan in every reachable state; no tool
    before an approval; prompt cancellation; termination within the recursion limit for up to 21 steps, and
    its converse, that from 23 steps on the report of an exhausted step budget cannot be reached; processes that
    die between supersteps and are replaced give the result, events and effects of a single one.
  \<^item> Tools: at most one execution of a journaled call in any race, replay after a crash, bounded retries; one
    answer per call; delegated tasks within their budgets; files confined to the workspace; bounded query results.
  \<^item> Data: soundness, completeness and minimality of plan batches, totality of the fallbacks; the JSON round trip, also
    through the tolerant parser for the answers of a model;
    compression keeps the pairing; unique constraints in every reachable database.
  \<^item> Service: isolation of tenants over all endpoints, daily quotas under interleaving, exact rollback of refused
    submissions, bounded concurrency and a shutdown that settles every row, guards of the life cycle, exactly-once streams, authentication, rotation, the bootstrap and the file
    of the keys, which a restart reads back;
    bounds of both limiters (through the locale \<open>rate_limiter\<close>); the stream gate as a bounded multiset.
  \<^item> Observation: blocks of spans nest and close whatever they raise, span trees are complete, a flush takes its own spans only, exact parsing of \<open>traceparent\<close>,
    exact histograms, metrics that are the account of what happened, reversible escaping; no key in a redacted text, JSON logs of one line per record,
    exact sampling.
  \<^item> Search: sources that are banned get no request, results are relevant, ranked and bounded, the mock source
    answers only by name, agreement needs two sources.
  \<^item> Isolation and schema: containers are isolated and removed whatever the daemon answers, local runs over
    their time are killed; the versions give the schema of the models, the repair makes event numbers unique
    and is idempotent, the lease excludes within its life, and a migration that outlives it is overtaken.
  \<^item> Assembly: a store whose engine cannot be built is closed, the service closes what it opened, the launcher stays on
    loopback addresses; the scripted model replays its script with distinct identifiers,
    the crash rate adds up, the probe tells how a local caller gets in, the mock endpoint's plan and calls are accepted.

  Four interfaces are locales, interpreted on the model: \<open>tool_journal\<close> (what a claim promises, on the
  table of executions), \<open>rate_limiter\<close> (on the sliding and on the fixed window), \<open>world_rel\<close> (what tool
  execution keeps of the world, on the growth of the log and on the journal) and \<open>search_source\<close> (what the router
  expects of a source, on all four sources of the web).

  \<^bold>\<open>Bounds.\<close> Loops that the code bounds by time or count have that bound as fuel: 20 polls of a claim
  (10 s in steps of 0.5 s), 750 polls of a stream, the recursion limit of the graph
  \<open>4 * steps + 24\<close>. The JSON parser has fuel from the length of its input, which is proved to be enough by
  the round trip; trees of spans take as fuel the number of spans, which is proved to lose none. Everything
  else terminates by a measure. Python integers are \<open>int\<close>, floating-point numbers are \<open>real\<close>, so that
  rounding is not modelled.

  \<^bold>\<open>Not modelled.\<close> The HTTP framework, SQL, Celery, Alembic, the docker daemon and the MCP SDK themselves, which
  are parameters where the code calls them. The texts that the command lines print and the defaults of settings that no
  modelled code reads have no logic of their own. Of the metrics script the throughput is left out, which only reads a
  clock. A process that is killed inside a superstep is covered by the rerun of the node (\<open>Tool_Exec\<close>), not by
  \<open>Crash_Recovery\<close>, and so is the loss of a checkpoint that was not yet written.
\<close>

end
